(* ===== verification/Passion_Prelude.thy ===== *)
theory Passion_Prelude
  imports Main "HOL-Library.Word"
begin

unbundle bit_operations_syntax

text \<open>
  Shared vocabulary of the development.  It names the machine types the C++ sources
  use (\<open>uint8_t\<close> \<dots> \<open>uint256\<close> as words, \<open>CAmount\<close> as a mathematical integer
  with its 64-bit range as a predicate), the little-endian layout that
  \<open>htole16/32/64\<close> and \<open>memcpy\<close> give an integer in memory, and the reader type
  that models a C++ input stream: a function that takes the unread bytes and either
  throws (\<open>Inl\<close>) or returns a value and the bytes still unread (\<open>Inr\<close>).
\<close>

section \<open>Machine types\<close>

type_synonym u8 = "8 word"
type_synonym u16 = "16 word"
type_synonym u32 = "32 word"
type_synonym u64 = "64 word"
type_synonym u160 = "160 word"
type_synonym u256 = "256 word"
type_synonym byte = "8 word"
type_synonym bytes = "byte list"
type_synonym CAmount = int

definition int64_ok :: "int \<Rightarrow> bool" where
  "int64_ok n \<longleftrightarrow> - (2 ^ 63) \<le> n \<and> n < 2 ^ 63"

definition int64_wrap :: "int \<Rightarrow> int" where
  "int64_wrap n = sint (word_of_int n :: u64)"

section \<open>Exceptions of the stream layer and the reader type\<close>

datatype ser_error =
    EndOfData            \<comment> \<open>\<open>CDataStream::read(): end of data\<close>\<close>
  | NonCanonicalSize     \<comment> \<open>\<open>non-canonical ReadCompactSize()\<close>\<close>
  | SizeTooLarge         \<comment> \<open>\<open>ReadCompactSize() : size too large\<close>\<close>
  | VarIntTooLarge       \<comment> \<open>\<open>ReadVarInt(): size too large\<close>\<close>
  | StringLimit          \<comment> \<open>\<open>String length limit exceeded\<close>\<close>
  | NegativeIgnore       \<comment> \<open>\<open>ignore(): nSize negative\<close>\<close>
  | NoProgress           \<comment> \<open>a read loop whose step is 0 never ends\<close>
  | TooManyUndoRecords   \<comment> \<open>\<open>Too many input undo records\<close>\<close>

type_synonym 'a reader = "bytes \<Rightarrow> ser_error + 'a \<times> bytes"

definition rreturn :: "'a \<Rightarrow> 'a reader" where
  "rreturn x s = Inr (x, s)"

definition rthrow :: "ser_error \<Rightarrow> 'a reader" where
  "rthrow e s = Inl e"

definition rbind :: "'a reader \<Rightarrow> ('a \<Rightarrow> 'b reader) \<Rightarrow> 'b reader" where
  "rbind r f s = (case r s of Inl e \<Rightarrow> Inl e | Inr (x, s') \<Rightarrow> f x s')"

named_theorems reader_simps \<open>evaluation of readers on an explicit stream\<close>

lemma rreturn_apply [reader_simps, simp]: "rreturn x s = Inr (x, s)"
  by (simp add: rreturn_def)

lemma rthrow_apply [reader_simps, simp]: "rthrow e s = Inl e"
  by (simp add: rthrow_def)

lemma rbind_Inr [reader_simps]: "r s = Inr (x, s') \<Longrightarrow> rbind r f s = f x s'"
  by (simp add: rbind_def)

lemma rbind_Inl [reader_simps]: "r s = Inl e \<Longrightarrow> rbind r f s = Inl e"
  by (simp add: rbind_def)

lemma rbind_Inr_iff:
  "rbind r f s = Inr (y, t) \<longleftrightarrow> (\<exists>x s'. r s = Inr (x, s') \<and> f x s' = Inr (y, t))"
  by (auto simp: rbind_def split: sum.splits prod.splits)

lemma rbind_InrE:
  assumes "rbind r f s = Inr (y, t)"
  obtains x s' where "r s = Inr (x, s')" and "f x s' = Inr (y, t)"
  using assms by (auto simp: rbind_Inr_iff)

section \<open>Little-endian layout of words\<close>

primrec le_bytes :: "nat \<Rightarrow> 'a::len word \<Rightarrow> bytes" where
  "le_bytes 0 w = []"
| "le_bytes (Suc n) w = ucast w # le_bytes n (drop_bit 8 w)"

primrec le_word :: "bytes \<Rightarrow> 'a::len word" where
  "le_word [] = 0"
| "le_word (b # bs) = ucast b OR push_bit 8 (le_word bs)"

lemma length_le_bytes [simp]: "length (le_bytes n w) = n"
  by (induction n arbitrary: w) simp_all

lemma bit_le_word:
  "bit (le_word bs :: 'a::len word) i \<longleftrightarrow>
     i < LENGTH('a) \<and> i div 8 < length bs \<and> bit (bs ! (i div 8)) (i mod 8)"
proof (induction bs arbitrary: i)
  case Nil
  then show ?case by simp
next
  case (Cons b bs)
  show ?case
  proof (cases "i < 8")
    case True
    then show ?thesis
      by (auto simp: bit_or_iff bit_push_bit_iff bit_unsigned_iff dest: bit_imp_le_length)
  next
    case False
    then have "i div 8 = Suc ((i - 8) div 8)" and "i mod 8 = (i - 8) mod 8"
      by (simp_all add: div_if mod_if)
    moreover from False have "\<not> bit b i"
      using bit_imp_le_length[of b i] by auto
    ultimately show ?thesis
      using False Cons.IH[of "i - 8"]
      by (auto simp: bit_or_iff bit_push_bit_iff bit_unsigned_iff)
  qed
qed

lemma nth_le_bytes:
  "i < n \<Longrightarrow> le_bytes n w ! i = ucast (drop_bit (8 * i) w)"
proof (induction n arbitrary: w i)
  case 0
  then show ?case by simp
next
  case (Suc n)
  then show ?case by (cases i) (simp_all add: drop_bit_drop_bit add.commute)
qed

lemma le_word_le_bytes:
  "le_word (le_bytes n w) = take_bit (8 * n) (w :: 'a::len word)"
proof (rule bit_word_eqI)
  fix i assume i: "i < LENGTH('a)"
  have "8 * (i div 8) + i mod 8 = i" by simp
  moreover have "i div 8 < n \<longleftrightarrow> i < 8 * n" by auto
  ultimately show "bit (le_word (le_bytes n w) :: 'a word) i = bit (take_bit (8 * n) w) i"
    using i by (auto simp: bit_le_word nth_le_bytes bit_take_bit_iff bit_unsigned_iff bit_drop_bit_eq)
qed

lemma le_word_le_bytes_id:
  assumes "LENGTH('a::len) \<le> 8 * n"
  shows "le_word (le_bytes n w) = (w :: 'a word)"
  using assms by (simp add: le_word_le_bytes take_bit_word_eq_self)

lemma le_bytes_le_word:
  assumes "length bs = n" and "8 * n \<le> LENGTH('a::len)"
  shows "le_bytes n (le_word bs :: 'a word) = bs"
proof (rule nth_equalityI)
  show "length (le_bytes n (le_word bs :: 'a word)) = length bs"
    using assms by simp
next
  fix i assume "i < length (le_bytes n (le_word bs :: 'a word))"
  then have i: "i < n" by simp
  show "le_bytes n (le_word bs :: 'a word) ! i = bs ! i"
  proof (rule bit_word_eqI)
    fix j assume j: "j < LENGTH(8)"
    then have "(8 * i + j) div 8 = i" and "(8 * i + j) mod 8 = j" by simp_all
    moreover from i j assms(2) have "8 * i + j < LENGTH('a)" by simp
    ultimately show "bit (le_bytes n (le_word bs :: 'a word) ! i) j = bit (bs ! i) j"
      using i j assms(1)
      by (simp add: nth_le_bytes bit_unsigned_iff bit_drop_bit_eq bit_le_word)
  qed
qed

section \<open>Shifts and masks\<close>

lemma push_bit_or_nat: "k < 2 ^ n \<Longrightarrow> push_bit n m OR k = m * 2 ^ n + (k :: nat)"
proof -
  assume "k < 2 ^ n"
  then have "take_bit n k = k" by (rule take_bit_nat_eq_self)
  moreover have "push_bit n m AND take_bit n k = 0"
    by (rule bit_eqI) (auto simp: bit_and_iff bit_push_bit_iff bit_take_bit_iff)
  ultimately have "push_bit n m AND k = 0" by simp
  then show ?thesis
    by (simp add: push_bit_eq_mult flip: disjunctive_add_eq_or)
qed

lemma unat_push_bit_or:
  fixes n x :: "'a::len word"
  assumes "unat n * 2 ^ k < 2 ^ LENGTH('a)" and "unat x < 2 ^ k"
  shows "unat (push_bit k n OR x) = unat n * 2 ^ k + unat x"
proof -
  have "unat (push_bit k n) = push_bit k (unat n)"
    using assms(1) by (simp only: unsigned_push_bit_eq)
      (simp add: push_bit_eq_mult take_bit_nat_eq_self)
  then show ?thesis
    using assms(2) by (simp only: unsigned_or_eq) (simp add: push_bit_or_nat)
qed
lemma unat_and_7F: "unat (b AND 0x7F :: byte) = unat b mod 128"
proof -
  have "b AND 0x7F = take_bit 7 b" by (simp add: take_bit_eq_mask mask_eq_exp_minus_1)
  then show ?thesis by (simp only: unsigned_take_bit_eq) (simp add: take_bit_eq_mod)
qed
lemma bit_byte_7: "bit (b :: byte) 7 \<longleftrightarrow> 128 \<le> unat b"
proof -
  have "bit b 7 \<longleftrightarrow> odd (unat b div 128)"
    using bit_unsigned_iff[where 'a = nat and w = b and n = 7] by (simp add: bit_iff_odd)
  moreover have "unat b div 128 < 2" using unsigned_less[where 'a = nat and w = b] by simp
  ultimately show ?thesis by (auto elim: oddE)
qed

lemma byte_and_80: "(b AND 0x80 :: byte) = 0 \<longleftrightarrow> unat b < 128"
proof -
  have "(b AND 0x80) = 0 \<longleftrightarrow> \<not> bit b 7"
    using and_exp_eq_0_iff_not_bit[of b 7] by simp
  then show ?thesis by (simp add: bit_byte_7 not_le)
qed

lemma unat_or_80: "unat (b AND 0x7F OR 0x80 :: byte) = unat b mod 128 + 128"
proof -
  have "(b AND 0x7F) OR 0x80 = push_bit 7 1 OR (b AND 0x7F :: byte)" by (simp add: or.commute)
  also have "unat \<dots> = unat (1::byte) * 2 ^ 7 + unat (b AND 0x7F)"
    by (rule unat_push_bit_or) (simp_all add: unat_and_7F)
  finally show ?thesis by (simp add: unat_and_7F)
qed

lemma unat_ucast_small:
  "unat (n :: 'a::len word) < 2 ^ LENGTH('b::len) \<Longrightarrow> unat (ucast n :: 'b word) = unat n"
  by (simp only: unsigned_ucast_eq) (simp add: take_bit_nat_eq_self)

lemma ucast_ucast_small:
  fixes n :: "'a::len word"
  assumes "unat n < 2 ^ LENGTH('b::len)"
  shows "ucast (ucast n :: 'b word) = n"
proof -
  have "unat (ucast n :: 'b word) < 2 ^ LENGTH('a)"
    using assms unsigned_less[where w = n and 'a = nat] by (simp add: unat_ucast_small)
  then have "unat (ucast (ucast n :: 'b word) :: 'a word) = unat n"
    using assms by (simp only: unat_ucast_small)
  then show ?thesis by (simp only: word_unat_eq_iff)
qed

text \<open>The value of a little-endian byte string as a natural number.\<close>

primrec le_nat :: "bytes \<Rightarrow> nat" where
  "le_nat [] = 0"
| "le_nat (b # bs) = unat b + 256 * le_nat bs"

lemma le_nat_less: "le_nat bs < 256 ^ length bs"
proof (induction bs)
  case Nil
  then show ?case by simp
next
  case (Cons b bs)
  then have "256 * Suc (le_nat bs) \<le> 256 * 256 ^ length bs" by (intro mult_le_mono2) simp
  moreover have "unat b < 256" using unsigned_less[where w = b and 'a = nat] by simp
  ultimately show ?case by simp
qed

lemma le_nat_append: "le_nat (xs @ ys) = le_nat xs + 256 ^ length xs * le_nat ys"
  by (induction xs) (simp_all add: algebra_simps)

lemma unat_le_word:
  "8 * length bs \<le> LENGTH('a::len) \<Longrightarrow> unat (le_word bs :: 'a word) = le_nat bs"
proof (induction bs)
  case Nil
  then show ?case by simp
next
  case (Cons b bs)
  then have IH: "unat (le_word bs :: 'a word) = le_nat bs" and L: "8 + 8 * length bs \<le> LENGTH('a)"
    by simp_all
  have b: "unat b < 256" using unsigned_less[where w = b and 'a = nat] by simp
  have "(2::nat) ^ (8 + 8 * length bs) \<le> 2 ^ LENGTH('a)" using L by (rule power_increasing) simp
  then have p: "256 * 256 ^ length bs \<le> (2::nat) ^ LENGTH('a)" by (simp add: power_add power_mult)
  with le_nat_less[of bs] have a: "le_nat bs * 2 ^ 8 < 2 ^ LENGTH('a)"
    by (simp add: mult.commute)
  have "2 ^ 8 \<le> (2::nat) ^ LENGTH('a)" using L by (intro power_increasing) simp_all
  with b have c: "unat (ucast b :: 'a word) = unat b" by (intro unat_ucast_small) simp
  have "unat (push_bit 8 (le_word bs) OR ucast b :: 'a word) = unat (le_word bs :: 'a word) * 2 ^ 8 + unat (ucast b :: 'a word)"
    by (rule unat_push_bit_or) (use a b c IH in simp_all)
  then show ?case using IH c by (simp add: or.commute)
qed

lemma le_nat_pos: "xs \<noteq> [] \<Longrightarrow> last xs \<noteq> 0 \<Longrightarrow> 0 < le_nat xs"
  by (induction xs) (auto simp: unat_gt_0 split: if_splits)

lemma le_nat_inj:
  "le_nat xs = le_nat ys \<Longrightarrow> (xs = [] \<or> last xs \<noteq> 0) \<Longrightarrow> (ys = [] \<or> last ys \<noteq> 0) \<Longrightarrow> xs = ys"
proof (induction xs arbitrary: ys)
  case Nil
  then show ?case using le_nat_pos[of ys] by auto
next
  case (Cons x xs)
  have "ys \<noteq> []"
  proof
    assume "ys = []"
    with Cons.prems(1) have "le_nat (x # xs) = 0" by simp
    moreover have "0 < le_nat (x # xs)" using Cons.prems(2) by (intro le_nat_pos) auto
    ultimately show False by simp
  qed
  then obtain y ys' where y: "ys = y # ys'" by (cases ys) auto
  have "unat x < 256" "unat y < 256"
    using unsigned_less[where w = x and 'a = nat] unsigned_less[where w = y and 'a = nat] by simp_all
  then have "le_nat (x # xs) mod 256 = unat x" "le_nat (x # xs) div 256 = le_nat xs"
    "le_nat (y # ys') mod 256 = unat y" "le_nat (y # ys') div 256 = le_nat ys'"
    by simp_all
  with Cons.prems(1) y have "unat x = unat y" "le_nat xs = le_nat ys'" by simp_all
  then show ?case using Cons.IH[of ys'] Cons.prems y by (auto simp: word_unat_eq_iff split: if_splits)
qed

lemma byte_small_and_7F: "unat (c :: byte) < 128 \<Longrightarrow> c AND 0x7F = c"
  by (simp add: word_unat_eq_iff unat_and_7F)

lemma byte_or_80:
  assumes "unat (c :: byte) < 128"
  shows "unat (c OR 0x80) = unat c + 128" and "(c OR 0x80) AND 0x7F = c"
proof -
  show u: "unat (c OR 0x80) = unat c + 128"
    using unat_or_80[of c] byte_small_and_7F[OF assms] assms by simp
  then show "(c OR 0x80) AND 0x7F = c"
    using assms by (simp add: word_unat_eq_iff unat_and_7F)
qed

lemma byte_split_80:
  assumes "128 \<le> unat (c :: byte)"
  shows "(c AND 0x7F) OR 0x80 = c"
proof -
  have "unat c < 256" using unsigned_less[where w = c and 'a = nat] by simp
  then have "unat c mod 128 + 128 = unat c" using assms by (simp add: le_mod_geq)
  then show ?thesis by (simp only: word_unat_eq_iff unat_or_80)
qed

end
