(* ===== verification/Serialize.thy ===== *)
theory Serialize
  imports Passion_Prelude
begin

text \<open>
  The serialization layer, \<open>src/src/serialize.h\<close>: fixed-width integers, the
  compact-size prefix, the variable-length integer, and the templates for strings,
  vectors, pairs and optionals.  Writers return the bytes they append to the stream;
  readers take the unread bytes.  The interface the templates share (what is written
  is read back, whatever follows it in the stream) is the locale \<open>codec\<close>; the
  stronger contract that a reader accepts nothing but what the writer produces is
  \<open>canonical_codec\<close>.  The integer formats interpret them.
\<close>

unbundle bit_operations_syntax

section \<open>The stream and the fixed-width integers\<close>

definition stream_read :: "nat \<Rightarrow> bytes reader" where
  "stream_read n s = (if length s < n then Inl EndOfData else Inr (take n s, drop n s))"

definition ser_writedata8 :: "u8 \<Rightarrow> bytes" where
  "ser_writedata8 obj = le_bytes 1 obj"

definition ser_writedata16 :: "u16 \<Rightarrow> bytes" where
  "ser_writedata16 obj = le_bytes 2 obj"

definition ser_writedata32 :: "u32 \<Rightarrow> bytes" where
  "ser_writedata32 obj = le_bytes 4 obj"

definition ser_writedata64 :: "u64 \<Rightarrow> bytes" where
  "ser_writedata64 obj = le_bytes 8 obj"

definition ser_readdata8 :: "u8 reader" where
  "ser_readdata8 = rbind (stream_read 1) (\<lambda>obj. rreturn (le_word obj))"

definition ser_readdata16 :: "u16 reader" where
  "ser_readdata16 = rbind (stream_read 2) (\<lambda>obj. rreturn (le_word obj))"

definition ser_readdata32 :: "u32 reader" where
  "ser_readdata32 = rbind (stream_read 4) (\<lambda>obj. rreturn (le_word obj))"

definition ser_readdata64 :: "u64 reader" where
  "ser_readdata64 = rbind (stream_read 8) (\<lambda>obj. rreturn (le_word obj))"

section \<open>Compact size\<close>

definition MAX_SIZE :: u64 where
  "MAX_SIZE = 0x02000000"

definition GetSizeOfCompactSize :: "u64 \<Rightarrow> nat" where
  "GetSizeOfCompactSize nSize =
     (if nSize < 253 then 1
      else if nSize \<le> 0xFFFF then 1 + 2
      else if nSize \<le> 0xFFFFFFFF then 1 + 4
      else 1 + 8)"

definition WriteCompactSize :: "u64 \<Rightarrow> bytes" where
  "WriteCompactSize nSize =
     (if nSize < 253 then ser_writedata8 (ucast nSize)
      else if nSize \<le> 0xFFFF then ser_writedata8 253 @ ser_writedata16 (ucast nSize)
      else if nSize \<le> 0xFFFFFFFF then ser_writedata8 254 @ ser_writedata32 (ucast nSize)
      else ser_writedata8 255 @ ser_writedata64 nSize)"

definition ReadCompactSize :: "u64 reader" where
  "ReadCompactSize =
     rbind ser_readdata8 (\<lambda>chSize.
     rbind (if chSize < 253 then rreturn (ucast chSize)
            else if chSize = 253 then
              rbind ser_readdata16 (\<lambda>x. let nSizeRet = ucast x in
                if nSizeRet < (253 :: u64) then rthrow NonCanonicalSize else rreturn nSizeRet)
            else if chSize = 254 then
              rbind ser_readdata32 (\<lambda>x. let nSizeRet = ucast x in
                if nSizeRet < (0x10000 :: u64) then rthrow NonCanonicalSize else rreturn nSizeRet)
            else
              rbind ser_readdata64 (\<lambda>nSizeRet.
                if nSizeRet < (0x100000000 :: u64) then rthrow NonCanonicalSize else rreturn nSizeRet))
     (\<lambda>nSizeRet. if MAX_SIZE < nSizeRet then rthrow SizeTooLarge else rreturn nSizeRet))"

section \<open>Variable-length integers\<close>

text \<open>The argument type \<open>I\<close> of the templates is any unsigned word type.\<close>

lemma varint_step_ge:
  assumes "\<not> n \<le> (0x7F :: 'a::len word)"
  shows "128 \<le> unat n"
proof -
  have "\<not> unat n \<le> unat (0x7F :: 'a word)"
    using assms unfolding word_le_nat_alt .
  then have gt: "127 mod 2 ^ LENGTH('a) < unat n"
    by (simp only: linorder_not_le) (metis of_nat_numeral unat_of_nat)
  show ?thesis
  proof (cases "7 \<le> LENGTH('a)")
    case True
    then have "(2::nat) ^ 7 \<le> 2 ^ LENGTH('a)" by (rule power_increasing) simp
    then have "(127::nat) mod 2 ^ LENGTH('a) = 127" by simp
    with gt show ?thesis by simp
  next
    case False
    moreover have "0 < LENGTH('a)" by simp
    ultimately have "LENGTH('a) \<in> {1, 2, 3, 4, 5, 6}"
      unfolding insert_iff empty_iff by linarith
    then have "(127::nat) mod 2 ^ LENGTH('a) = 2 ^ LENGTH('a) - 1" by auto
    moreover have "unat n < 2 ^ LENGTH('a)" by (rule unsigned_less)
    ultimately show ?thesis using gt by linarith
  qed
qed

lemma varint_step:
  assumes "\<not> n \<le> (0x7F :: 'a::len word)"
  shows "unat (drop_bit 7 n - 1) = unat n div 128 - 1"
proof -
  have ge: "128 \<le> unat n" by (rule varint_step_ge[OF assms])
  have d: "unat (drop_bit 7 n) = unat n div 128"
    by (simp only: unat_drop_bit_eq) (simp add: drop_bit_eq_div)
  with ge have "drop_bit 7 n \<noteq> 0" by (auto simp: unat_eq_0)
  then show ?thesis by (simp add: unat_minus_one d)
qed

lemma varint_step_less:
  assumes "\<not> n \<le> (0x7F :: 'a::len word)"
  shows "unat (drop_bit 7 n - 1) < unat n"
  using varint_step[OF assms] varint_step_ge[OF assms] by auto


function GetSizeOfVarInt :: "'a::len word \<Rightarrow> nat" where
  "GetSizeOfVarInt n = (if n \<le> 0x7F then 1 else Suc (GetSizeOfVarInt (drop_bit 7 n - 1)))"
  by pat_completeness auto
termination
  by (relation "measure unat") (auto simp del: One_nat_def dest!: varint_step_less)

text \<open>
  \<open>WriteVarInt\<close> fills \<open>tmp[0], tmp[1], \<dots>\<close> from the low-order group up and writes the
  array backwards; \<open>WriteVarInt_tmp n len\<close> is the array from index \<open>len\<close> on.
\<close>

function WriteVarInt_tmp :: "'a::len word \<Rightarrow> nat \<Rightarrow> bytes" where
  "WriteVarInt_tmp n len =
     (let b = (ucast (n AND 0x7F) OR (if len \<noteq> 0 then 0x80 else 0x00)) in
      if n \<le> 0x7F then [b] else b # WriteVarInt_tmp (drop_bit 7 n - 1) (Suc len))"
  by pat_completeness auto
termination
  by (relation "measure (\<lambda>(n, len). unat n)") (auto simp del: One_nat_def dest!: varint_step_less)

definition WriteVarInt :: "'a::len word \<Rightarrow> bytes" where
  "WriteVarInt n = rev (WriteVarInt_tmp n 0)"

fun ReadVarInt_loop :: "'a::len word \<Rightarrow> 'a word reader" where
  "ReadVarInt_loop n [] = Inl EndOfData"
| "ReadVarInt_loop n (chData # s) =
     (if drop_bit 7 (- 1) < n then Inl VarIntTooLarge
      else let n' = push_bit 7 n OR ucast (chData AND 0x7F) in
        if chData AND 0x80 \<noteq> 0 then
          if n' = - 1 then Inl VarIntTooLarge else ReadVarInt_loop (n' + 1) s
        else Inr (n', s))"

definition ReadVarInt :: "'a::len word reader" where
  "ReadVarInt s = ReadVarInt_loop 0 s"

declare GetSizeOfVarInt.simps [simp del] WriteVarInt_tmp.simps [simp del]

lemma varint_shift:
  fixes n :: "'a::len word"
  assumes "\<not> drop_bit 7 (- 1) < n" and L: "8 \<le> LENGTH('a)"
  shows "unat (push_bit 7 n OR ucast (b AND 0x7F :: byte)) = unat n * 128 + unat b mod 128"
proof -
  have "unat (drop_bit 7 (- 1 :: 'a word)) = (2 ^ LENGTH('a) - 1) div 128"
    by (simp only: unat_drop_bit_eq unsigned_minus_1_eq_mask mask_eq_exp_minus_1)
      (simp add: drop_bit_eq_div)
  with assms(1) have "unat n \<le> (2 ^ LENGTH('a) - 1) div 128"
    by (simp add: word_less_nat_alt)
  then have "unat n * 128 \<le> 2 ^ LENGTH('a) - 1"
    by (meson div_times_less_eq_dividend le_trans mult_le_mono1)
  moreover have "0 < (2::nat) ^ LENGTH('a)" by simp
  ultimately have "unat n * 128 < 2 ^ LENGTH('a)" by linarith
  then have a: "unat n * 2 ^ 7 < 2 ^ LENGTH('a)" by simp
  have b: "unat (ucast (b AND 0x7F) :: 'a word) = unat b mod 128"
  proof -
    have "unat b mod 128 < 2 ^ 8" by (rule less_trans[of _ 128]) simp_all
    also have "(2::nat) ^ 8 \<le> 2 ^ LENGTH('a)" using L by (rule power_increasing) simp
    finally show ?thesis
      by (simp only: unsigned_ucast_eq unat_and_7F) (simp add: take_bit_nat_eq_self)
  qed
  show ?thesis
    using unat_push_bit_or[OF a, of "ucast (b AND 0x7F)"] by (simp add: b)
qed

lemma unat_group: "unat (ucast (n AND 0x7F :: 'a::len word) :: byte) = unat n mod 128"
proof -
  have "n AND 0x7F = take_bit 7 n" by (simp add: take_bit_eq_mask mask_eq_exp_minus_1)
  then have "unat (n AND 0x7F) = unat n mod 128"
    by (simp only: unsigned_take_bit_eq) (simp add: take_bit_eq_mod)
  then show ?thesis
    by (simp only: unsigned_ucast_eq) (simp add: take_bit_eq_mod mod_mod_cancel)
qed

lemma unat_group_cont: "unat (ucast (n AND 0x7F :: 'a::len word) OR 0x80 :: byte) = unat n mod 128 + 128"
proof -
  let ?b = "ucast (n AND 0x7F) :: byte"
  have "unat (?b AND 0x7F) = unat ?b"
    by (simp add: unat_and_7F unat_group)
  then have "?b AND 0x7F = ?b" by (simp only: word_unat_eq_iff)
  then show ?thesis using unat_or_80[of ?b] by (simp add: unat_group)
qed

lemma drop_bit_7_small:
  assumes "n \<le> (0x7F :: 'a::len word)"
  shows "drop_bit 7 n = 0"
proof -
  have "unat (0x7F :: 'a word) = 127 mod 2 ^ LENGTH('a)"
    by (metis of_nat_numeral unat_of_nat)
  then have "unat n \<le> 127"
    using assms unfolding word_le_nat_alt by (metis le_trans mod_less_eq_dividend)
  then have "unat (drop_bit 7 n) = 0"
    by (simp only: unat_drop_bit_eq) (simp add: drop_bit_eq_div)
  then show ?thesis by (simp only: unat_eq_0)
qed

lemma unat_push_7_decomp:
  fixes n :: "'a::len word"
  assumes "8 \<le> LENGTH('a)" and "unat b mod 128 = unat n mod 128"
  shows "push_bit 7 (drop_bit 7 n) OR ucast (b AND 0x7F :: byte) = n"
    and "\<not> drop_bit 7 (- 1) < drop_bit 7 n"
proof -
  have "n \<le> - 1" by (rule word_order.extremum)
  then have "unat n \<le> unat (- 1 :: 'a word)" by (simp only: word_le_nat_alt)
  then show le: "\<not> drop_bit 7 (- 1) < drop_bit 7 n"
    unfolding word_less_nat_alt not_less unat_drop_bit_eq
    unfolding drop_bit_eq_div by (rule div_le_mono)
  have "unat (push_bit 7 (drop_bit 7 n) OR ucast (b AND 0x7F :: byte)) = unat n div 128 * 128 + unat n mod 128"
    using varint_shift[OF le assms(1), of b] assms(2)
    by (simp only: unat_drop_bit_eq) (simp add: drop_bit_eq_div)
  then show "push_bit 7 (drop_bit 7 n) OR ucast (b AND 0x7F :: byte) = n"
    by (simp only: word_unat_eq_iff div_mult_mod_eq)
qed

lemma WriteVarInt_tmp_Suc: "WriteVarInt_tmp n (Suc k) = WriteVarInt_tmp n (Suc 0)"
proof (induction "unat n" arbitrary: n k rule: less_induct)
  case less
  show ?case
  proof (cases "n \<le> 0x7F")
    case True
    then show ?thesis by (simp add: WriteVarInt_tmp.simps[of n])
  next
    case False
    from less.hyps[OF varint_step_less[OF False]]
    have "WriteVarInt_tmp (drop_bit 7 n - 1) (Suc j) = WriteVarInt_tmp (drop_bit 7 n - 1) (Suc 0)" for j .
    from this[of "Suc k"] this[of "Suc 0"] False show ?thesis
      by (simp add: WriteVarInt_tmp.simps[of n])
  qed
qed

definition varint_prefix :: "'a::len word \<Rightarrow> bytes" where
  "varint_prefix n = rev (WriteVarInt_tmp n (Suc 0))"

lemma varint_prefix_rec:
  "varint_prefix n = (if n \<le> 0x7F then [] else varint_prefix (drop_bit 7 n - 1)) @ [ucast (n AND 0x7F) OR 0x80]"
  unfolding varint_prefix_def
  by (subst WriteVarInt_tmp.simps) (simp add: WriteVarInt_tmp_Suc[of _ "Suc 0"] Let_def)

lemma WriteVarInt_rec:
  "WriteVarInt n = (if n \<le> 0x7F then [] else varint_prefix (drop_bit 7 n - 1)) @ [ucast (n AND 0x7F)]"
  unfolding WriteVarInt_def varint_prefix_def
  by (subst WriteVarInt_tmp.simps) (simp add: Let_def)

lemma ReadVarInt_prefix:
  fixes n :: "'a::len word"
  assumes "8 \<le> LENGTH('a)" and "n \<noteq> - 1"
  shows "ReadVarInt_loop 0 (varint_prefix n @ rest) = ReadVarInt_loop (n + 1) rest"
  using assms(2)
proof (induction "unat n" arbitrary: n rest rule: less_induct)
  case less
  let ?b = "ucast (n AND 0x7F) OR 0x80 :: byte"
  have b: "unat ?b mod 128 = unat n mod 128" "?b AND 0x80 \<noteq> 0"
    by (simp_all add: unat_group_cont byte_and_80)
  have step: "ReadVarInt_loop (drop_bit 7 n) (?b # rest) = ReadVarInt_loop (n + 1) rest"
    using unat_push_7_decomp[OF assms(1) b(1)] b(2) less.prems by (simp add: Let_def)
  show ?case
  proof (cases "n \<le> 0x7F")
    case True
    then have "drop_bit 7 n = 0" by (rule drop_bit_7_small)
    with step True show ?thesis by (subst varint_prefix_rec) simp
  next
    case False
    let ?m = "drop_bit 7 n - 1"
    from varint_step_less[OF False] have "?m \<noteq> - 1"
      using word_order.extremum[of n] by (auto simp: word_le_nat_alt)
    then have "ReadVarInt_loop 0 (varint_prefix ?m @ (?b # rest)) = ReadVarInt_loop (?m + 1) (?b # rest)"
      by (intro less.hyps varint_step_less False)
    with step False show ?thesis by (subst varint_prefix_rec) simp
  qed
qed

lemma ReadVarInt_WriteVarInt:
  fixes n :: "'a::len word"
  assumes L: "8 \<le> LENGTH('a)"
  shows "ReadVarInt (WriteVarInt n @ rest) = Inr (n, rest)"
proof -
  let ?b = "ucast (n AND 0x7F) :: byte"
  have b: "unat ?b mod 128 = unat n mod 128" "?b AND 0x80 = 0"
    by (simp_all add: unat_group byte_and_80)
  have last: "ReadVarInt_loop (drop_bit 7 n) (?b # rest) = Inr (n, rest)"
    using unat_push_7_decomp[OF L b(1)] b(2) by (simp add: Let_def)
  show ?thesis
  proof (cases "n \<le> 0x7F")
    case True
    with last show ?thesis
      by (simp add: ReadVarInt_def WriteVarInt_rec drop_bit_7_small)
  next
    case False
    from varint_step_less[OF False] have "drop_bit 7 n - 1 \<noteq> - 1"
      using word_order.extremum[of n] by (auto simp: word_le_nat_alt)
    from ReadVarInt_prefix[OF L this, of "?b # rest"] last False show ?thesis
      by (simp add: ReadVarInt_def WriteVarInt_rec)
  qed
qed

lemma varint_digit_split:
  fixes n :: "'a::len word"
  assumes L: "8 \<le> LENGTH('a)" and le: "\<not> drop_bit 7 (- 1) < n"
    and n': "n' = push_bit 7 n OR ucast (b AND 0x7F :: byte)"
  shows "drop_bit 7 n' = n" and "unat n' mod 128 = unat b mod 128"
    and "n' \<le> 0x7F \<longleftrightarrow> n = 0"
proof -
  from varint_shift[OF le L, of b] n'
  have u: "unat n' = unat n * 128 + unat b mod 128" by simp
  then show "unat n' mod 128 = unat b mod 128" by simp
  from u have "unat (drop_bit 7 n') = unat n"
    by (simp only: unat_drop_bit_eq) (simp add: drop_bit_eq_div)
  then show d: "drop_bit 7 n' = n" by (simp only: word_unat_eq_iff)
  show "n' \<le> 0x7F \<longleftrightarrow> n = 0"
  proof
    assume "n' \<le> 0x7F"
    with d show "n = 0" using drop_bit_7_small by blast
  next
    assume "n = 0"
    with u have "unat n' < 128" by simp
    then show "n' \<le> 0x7F" using varint_step_ge[of n'] by (meson linorder_not_less)
  qed
qed

lemma ReadVarInt_loop_canonical:
  fixes n m :: "'a::len word"
  assumes L: "8 \<le> LENGTH('a)" and "ReadVarInt_loop n s = Inr (m, rest)"
  shows "\<exists>c. s = c @ rest \<and> WriteVarInt m = (if n = 0 then [] else varint_prefix (n - 1)) @ c"
  using assms(2)
proof (induction n s rule: ReadVarInt_loop.induct)
  case (1 n)
  then show ?case by simp
next
  case (2 n b s)
  define n' where "n' = push_bit 7 n OR ucast (b AND 0x7F)"
  from 2(2) have le: "\<not> drop_bit 7 (- 1) < n" by (auto split: if_splits)
  note sp = varint_digit_split[OF L le n'_def]
  have pre: "(if n' \<le> 0x7F then [] else varint_prefix (drop_bit 7 n' - 1)) = (if n = 0 then [] else varint_prefix (n - 1))"
    by (simp add: sp)
  show ?case
  proof (cases "b AND 0x80 \<noteq> 0")
    case True
    with 2(2) le have ne: "n' \<noteq> - 1" and rd: "ReadVarInt_loop (n' + 1) s = Inr (m, rest)"
      by (auto simp: n'_def Let_def split: if_splits)
    have ne0: "n' + 1 \<noteq> 0" using ne by (metis add_eq_0_iff2)
    from 2(1)[OF le n'_def True ne rd] ne0 obtain c where c: "s = c @ rest" "WriteVarInt m = varint_prefix n' @ c"
      by auto
    have "unat (ucast (n' AND 0x7F) OR 0x80 :: byte) = unat b"
      using True sp(2) unsigned_less[where w = b and 'a = nat]
      by (simp add: unat_group_cont byte_and_80 le_mod_geq)
    then have "ucast (n' AND 0x7F) OR 0x80 = b" by (simp only: word_unat_eq_iff)
    with c pre show ?thesis by (subst (asm) varint_prefix_rec) (auto simp del: if_splits)
  next
    case False
    with 2(2) le have m: "m = n'" "rest = s" by (auto simp: n'_def Let_def)
    have "unat (ucast (n' AND 0x7F) :: byte) = unat b"
      using False sp(2) by (simp add: unat_group byte_and_80)
    then have "ucast (n' AND 0x7F) = b" by (simp only: word_unat_eq_iff)
    with m pre show ?thesis by (simp add: WriteVarInt_rec del: if_splits)
  qed
qed

lemma ReadVarInt_canonical:
  fixes m :: "'a::len word"
  assumes "8 \<le> LENGTH('a)" and "ReadVarInt s = Inr (m, rest)"
  shows "s = WriteVarInt m @ rest"
  using ReadVarInt_loop_canonical[OF assms(1), of 0 s m rest] assms(2)
  by (auto simp: ReadVarInt_def)

lemma length_WriteVarInt_tmp: "length (WriteVarInt_tmp n len) = GetSizeOfVarInt n"
proof (induction n len rule: WriteVarInt_tmp.induct)
  case (1 n len)
  then show ?case
    by (cases "n \<le> 0x7F")
      (simp_all add: WriteVarInt_tmp.simps[of n len] GetSizeOfVarInt.simps[of n] Let_def)
qed

lemma length_WriteVarInt: "length (WriteVarInt n) = GetSizeOfVarInt n"
  by (simp add: WriteVarInt_def length_WriteVarInt_tmp)

lemma GetSizeOfVarInt_le:
  assumes "unat (n :: 'a::len word) < 2 ^ (7 * Suc k)"
  shows "GetSizeOfVarInt n \<le> Suc k"
  using assms
proof (induction k arbitrary: n)
  case 0
  then have "n \<le> 0x7F" using varint_step_ge[of n] by (cases "n \<le> 0x7F") simp_all
  then show ?case by (simp add: GetSizeOfVarInt.simps)
next
  case (Suc k)
  show ?case
  proof (cases "n \<le> 0x7F")
    case True
    then show ?thesis by (simp add: GetSizeOfVarInt.simps)
  next
    case False
    have "unat n div 128 < 2 ^ (7 * Suc k)"
      using Suc.prems by (simp add: less_mult_imp_div_less power_add)
    then have "unat (drop_bit 7 n - 1) < 2 ^ (7 * Suc k)"
      by (simp add: varint_step[OF False] del: One_nat_def)
    then have "GetSizeOfVarInt (drop_bit 7 n - 1) \<le> Suc k" by (rule Suc.IH)
    with False show ?thesis by (simp add: GetSizeOfVarInt.simps[of n])
  qed
qed

lemma WriteVarInt_fits:
  "length (WriteVarInt (n :: 'a::len word)) \<le> (LENGTH('a) + 6) div 7"
proof -
  define k where "k = (LENGTH('a) + 6) div 7 - 1"
  have "0 < LENGTH('a)" by simp
  then have "1 \<le> (LENGTH('a) + 6) div 7" by linarith
  then have k: "Suc k = (LENGTH('a) + 6) div 7" by (simp add: k_def)
  have "LENGTH('a) \<le> 7 * Suc k" unfolding k by linarith
  then have "(2::nat) ^ LENGTH('a) \<le> 2 ^ (7 * Suc k)" by (rule power_increasing) simp
  with unsigned_less[where w = n and 'a = nat] have "unat n < 2 ^ (7 * Suc k)" by linarith
  from GetSizeOfVarInt_le[OF this] show ?thesis by (simp add: length_WriteVarInt k)
qed
section \<open>The codec contract\<close>

locale codec =
  fixes ser :: "'a \<Rightarrow> bytes" and unser :: "'a reader" and ok :: "'a \<Rightarrow> bool"
  assumes unser_ser: "ok x \<Longrightarrow> unser (ser x @ rest) = Inr (x, rest)"
begin

lemma ser_prefix_free:
  assumes "ok x" and "ok y" and "ser x @ r = ser y @ r'"
  shows "x = y \<and> r = r'"
proof -
  have "unser (ser x @ r) = Inr (x, r)" by (rule unser_ser[OF assms(1)])
  moreover have "unser (ser y @ r') = Inr (y, r')" by (rule unser_ser[OF assms(2)])
  ultimately have "Inr (x, r) = (Inr (y, r') :: ser_error + 'a \<times> bytes)"
    by (simp only: assms(3))
  then show ?thesis by simp
qed

lemma ser_inj: "ok x \<Longrightarrow> ok y \<Longrightarrow> ser x = ser y \<Longrightarrow> x = y"
  using ser_prefix_free[of x y "[]" "[]"] by simp

end

locale canonical_codec = codec +
  assumes ser_unser: "unser s = Inr (x, rest) \<Longrightarrow> ok x \<and> s = ser x @ rest"
begin

lemma unser_iff: "unser s = Inr (x, rest) \<longleftrightarrow> ok x \<and> s = ser x @ rest"
proof
  assume "unser s = Inr (x, rest)"
  then show "ok x \<and> s = ser x @ rest" by (rule ser_unser)
next
  assume "ok x \<and> s = ser x @ rest"
  then show "unser s = Inr (x, rest)" by (simp add: unser_ser)
qed

lemma unser_shrinks: "unser s = Inr (x, rest) \<Longrightarrow> length rest = length s - length (ser x)"
  by (simp add: unser_iff)

end

lemma stream_read_append: "length a = n \<Longrightarrow> stream_read n (a @ r) = Inr (a, r)"
  by (simp add: stream_read_def)

lemma stream_read_InrD: "stream_read n s = Inr (a, r) \<Longrightarrow> length a = n \<and> s = a @ r"
  by (auto simp: stream_read_def split: if_splits)

lemma le_codec:
  assumes "LENGTH('a::len) = 8 * n"
  shows "canonical_codec (le_bytes n :: 'a word \<Rightarrow> bytes)
           (rbind (stream_read n) (\<lambda>obj. rreturn (le_word obj))) (\<lambda>_. True)"
proof
  fix x :: "'a word" and rest
  have "stream_read n (le_bytes n x @ rest) = Inr (le_bytes n x, rest)"
    by (rule stream_read_append) simp
  moreover have "le_word (le_bytes n x) = x"
    by (rule le_word_le_bytes_id) (simp add: assms)
  ultimately show "rbind (stream_read n) (\<lambda>obj. rreturn (le_word obj)) (le_bytes n x @ rest) = Inr (x, rest)"
    by (simp add: rbind_def)
next
  fix s rest and x :: "'a word"
  assume "rbind (stream_read n) (\<lambda>obj. rreturn (le_word obj)) s = Inr (x, rest)"
  then obtain a where "stream_read n s = Inr (a, rest)" and x: "x = le_word a"
    by (auto simp: rbind_Inr_iff)
  then have "length a = n" and "s = a @ rest" by (auto dest: stream_read_InrD)
  with assms x show "True \<and> s = le_bytes n x @ rest"
    using le_bytes_le_word[of a n, where 'a = 'a] by simp
qed

interpretation c8: canonical_codec ser_writedata8 ser_readdata8 "\<lambda>_. True"
  unfolding ser_readdata8_def ser_writedata8_def[abs_def] by (rule le_codec) simp

interpretation c16: canonical_codec ser_writedata16 ser_readdata16 "\<lambda>_. True"
  unfolding ser_readdata16_def ser_writedata16_def[abs_def] by (rule le_codec) simp

interpretation c32: canonical_codec ser_writedata32 ser_readdata32 "\<lambda>_. True"
  unfolding ser_readdata32_def ser_writedata32_def[abs_def] by (rule le_codec) simp

interpretation c64: canonical_codec ser_writedata64 ser_readdata64 "\<lambda>_. True"
  unfolding ser_readdata64_def ser_writedata64_def[abs_def] by (rule le_codec) simp

section \<open>Compact sizes and variable-length integers meet the contract\<close>

lemma ReadCompactSize_WriteCompactSize:
  assumes "n \<le> MAX_SIZE"
  shows "ReadCompactSize (WriteCompactSize n @ rest) = Inr (n, rest)"
proof -
  note eval = ReadCompactSize_def WriteCompactSize_def rbind_def c8.unser_ser c16.unser_ser
    c32.unser_ser Let_def
  from assms have max: "\<not> MAX_SIZE < n" by simp
  from assms have n32: "n \<le> 0xFFFFFFFF"
    by (rule order_trans) (simp add: MAX_SIZE_def)
  consider (a) "n < 253" | (b) "\<not> n < 253" "n \<le> 0xFFFF" | (c) "\<not> n < 253" "\<not> n \<le> 0xFFFF" by blast
  then show ?thesis
  proof cases
    case a
    then have u: "unat n < 253" by (simp add: word_less_nat_alt)
    then have "unat (ucast n :: u8) = unat n" by (intro unat_ucast_small) simp
    with u have "(ucast n :: u8) < 253" by (simp add: word_less_nat_alt)
    moreover have "ucast (ucast n :: u8) = n" using u by (intro ucast_ucast_small) simp
    ultimately show ?thesis using a max by (simp add: eval)
  next
    case b
    then have "unat n \<le> 0xFFFF" by (simp add: word_le_nat_alt)
    then have "ucast (ucast n :: u16) = n" by (intro ucast_ucast_small) simp
    with b max show ?thesis by (simp add: eval)
  next
    case c
    from n32 have "unat n \<le> 0xFFFFFFFF" by (simp add: word_le_nat_alt)
    then have "ucast (ucast n :: u32) = n" by (intro ucast_ucast_small) simp
    moreover from c have "\<not> n < 0x10000" by (simp add: word_less_nat_alt word_le_nat_alt)
    ultimately show ?thesis using c max n32 by (simp add: eval)
  qed
qed

lemma ReadCompactSize_canonical:
  assumes "ReadCompactSize s = Inr (n, rest)"
  shows "n \<le> MAX_SIZE \<and> s = WriteCompactSize n @ rest"
proof -
  from assms obtain ch s1 where ch: "ser_readdata8 s = Inr (ch, s1)"
    and max: "\<not> MAX_SIZE < n"
    and body: "(if ch < 253 then rreturn (ucast ch)
            else if ch = 253 then
              rbind ser_readdata16 (\<lambda>x. let nSizeRet = ucast x in
                if nSizeRet < (253 :: u64) then rthrow NonCanonicalSize else rreturn nSizeRet)
            else if ch = 254 then
              rbind ser_readdata32 (\<lambda>x. let nSizeRet = ucast x in
                if nSizeRet < (0x10000 :: u64) then rthrow NonCanonicalSize else rreturn nSizeRet)
            else
              rbind ser_readdata64 (\<lambda>nSizeRet.
                if nSizeRet < (0x100000000 :: u64) then rthrow NonCanonicalSize else rreturn nSizeRet)) s1 = Inr (n, rest)"
    by (auto simp: ReadCompactSize_def rbind_Inr_iff split: if_splits)
  from ch have s: "s = ser_writedata8 ch @ s1" by (simp add: c8.unser_iff)
  consider (a) "ch < 253" | (b) "ch = 253" | (c) "ch = 254" | (d) "\<not> ch < 253" "ch \<noteq> 253" "ch \<noteq> 254"
    by blast
  then show ?thesis
  proof cases
    case a
    with body have n: "n = ucast ch" "rest = s1" by simp_all
    have "unat n = unat ch" unfolding n by (rule unat_ucast_small)
      (use unsigned_less[where w = ch and 'a = nat] in simp)
    with a have "n < 253" by (simp add: word_less_nat_alt)
    moreover have "ucast n = ch" unfolding n by (rule ucast_ucast_small)
      (use unsigned_less[where w = ch and 'a = nat] in simp)
    ultimately show ?thesis using s n max by (simp add: WriteCompactSize_def)
  next
    case b
    with body obtain x where x: "ser_readdata16 s1 = Inr (x, rest)" "n = ucast x" "\<not> n < 253"
      by (auto simp: rbind_Inr_iff Let_def split: if_splits)
    have lt: "unat x < 65536" using unsigned_less[where w = x and 'a = nat] by simp
    have "unat n = unat x" unfolding x(2) by (rule unat_ucast_small) (use lt in simp)
    with lt have "n \<le> 0xFFFF" by (simp add: word_le_nat_alt)
    moreover have "ucast n = x" unfolding x(2) by (rule ucast_ucast_small) (use lt in simp)
    ultimately show ?thesis using s b x(1,3) max by (simp add: WriteCompactSize_def c16.unser_iff)
  next
    case c
    with body obtain x where x: "ser_readdata32 s1 = Inr (x, rest)" "n = ucast x" "\<not> n < 0x10000"
      by (auto simp: rbind_Inr_iff Let_def split: if_splits)
    have lt: "unat x < 4294967296" using unsigned_less[where w = x and 'a = nat] by simp
    have "unat n = unat x" unfolding x(2) by (rule unat_ucast_small) (use lt in simp)
    with lt have "n \<le> 0xFFFFFFFF" by (simp add: word_le_nat_alt)
    moreover have "ucast n = x" unfolding x(2) by (rule ucast_ucast_small) (use lt in simp)
    moreover from x(3) have "\<not> n < 253" "\<not> n \<le> 0xFFFF"
      by (simp_all add: word_less_nat_alt word_le_nat_alt)
    ultimately show ?thesis using s c x(1) max by (simp add: WriteCompactSize_def c32.unser_iff)
  next
    case d
    with body have "\<not> n < 0x100000000" by (auto simp: rbind_Inr_iff split: if_splits)
    with max have False by (simp add: MAX_SIZE_def word_less_nat_alt)
    then show ?thesis ..
  qed
qed

interpretation cs: canonical_codec WriteCompactSize ReadCompactSize "\<lambda>n. n \<le> MAX_SIZE"
  by unfold_locales (simp_all add: ReadCompactSize_WriteCompactSize ReadCompactSize_canonical)

interpretation vi32: canonical_codec "WriteVarInt :: u32 \<Rightarrow> bytes" ReadVarInt "\<lambda>_. True"
  by unfold_locales (simp_all add: ReadVarInt_WriteVarInt ReadVarInt_canonical)

interpretation vi64: canonical_codec "WriteVarInt :: u64 \<Rightarrow> bytes" ReadVarInt "\<lambda>_. True"
  by unfold_locales (simp_all add: ReadVarInt_WriteVarInt ReadVarInt_canonical)

lemma length_WriteCompactSize: "length (WriteCompactSize n) = GetSizeOfCompactSize n"
  by (simp add: WriteCompactSize_def GetSizeOfCompactSize_def ser_writedata8_def
      ser_writedata16_def ser_writedata32_def ser_writedata64_def del: le_bytes.simps)
section \<open>Container templates\<close>

definition Serialize_bool :: "bool \<Rightarrow> bytes" where
  "Serialize_bool a = ser_writedata8 (if a then 1 else 0)"

definition Unserialize_bool :: "bool reader" where
  "Unserialize_bool = rbind ser_readdata8 (\<lambda>f. rreturn (f \<noteq> 0))"

definition Serialize_blob :: "bytes \<Rightarrow> bytes" where
  "Serialize_blob v = WriteCompactSize (of_nat (length v)) @ (if v \<noteq> [] then v else [])"

function Unserialize_blob_loop :: "nat \<Rightarrow> nat \<Rightarrow> bytes \<Rightarrow> bytes reader" where
  "Unserialize_blob_loop nSize i v s =
     (if i < nSize then
        let blk = min (nSize - i) (1 + 4999999 div 1) in
        (case stream_read blk s of
           Inl e \<Rightarrow> Inl e
         | Inr (d, s') \<Rightarrow> Unserialize_blob_loop nSize (i + blk) (v @ d) s')
      else Inr (v, s))"
  by pat_completeness auto
termination
  by (relation "measure (\<lambda>(nSize, i, v, s). nSize - i)") auto

definition Unserialize_blob :: "bytes reader" where
  "Unserialize_blob =
     rbind ReadCompactSize (\<lambda>n. Unserialize_blob_loop (unat (ucast n :: u32)) 0 [])"

definition Unserialize_string :: "bytes reader" where
  "Unserialize_string =
     rbind ReadCompactSize (\<lambda>n. let nSize = unat (ucast n :: u32) in
       if nSize \<noteq> 0 then stream_read nSize else rreturn [])"

definition Unserialize_LimitedString :: "nat \<Rightarrow> bytes reader" where
  "Unserialize_LimitedString Limit =
     rbind ReadCompactSize (\<lambda>size.
       if Limit < unat size then rthrow StringLimit
       else if unat size \<noteq> 0 then stream_read (unat size) else rreturn [])"

definition Serialize_vec :: "('a \<Rightarrow> bytes) \<Rightarrow> 'a list \<Rightarrow> bytes" where
  "Serialize_vec ser v = WriteCompactSize (of_nat (length v)) @ concat (map ser v)"

text \<open>The inner \<open>for\<close> loop: \<open>k\<close> items, one after the other.\<close>

primrec Unserialize_items :: "'a reader \<Rightarrow> nat \<Rightarrow> 'a list \<Rightarrow> 'a list reader" where
  "Unserialize_items rd 0 v = rreturn v"
| "Unserialize_items rd (Suc k) v = rbind rd (\<lambda>x. Unserialize_items rd k (v @ [x]))"

text \<open>
  The outer loop grows the vector by \<open>5000000 / sizeof(T)\<close> elements at a time
  (\<open>chunk\<close>); for an element larger than 5,000,000 bytes the step would be 0.
\<close>

function Unserialize_vec_loop :: "nat \<Rightarrow> 'a reader \<Rightarrow> nat \<Rightarrow> nat \<Rightarrow> 'a list \<Rightarrow> 'a list reader" where
  "Unserialize_vec_loop chunk rd nSize nMid v s =
     (if nMid < nSize then
        if chunk = 0 then Inl NoProgress else
        let nMid' = (if nSize < nMid + chunk then nSize else nMid + chunk) in
        (case Unserialize_items rd (nMid' - length v) v s of
           Inl e \<Rightarrow> Inl e
         | Inr (v', s') \<Rightarrow> Unserialize_vec_loop chunk rd nSize nMid' v' s')
      else Inr (v, s))"
  by pat_completeness auto
termination
  by (relation "measure (\<lambda>(chunk, rd, nSize, nMid, v, s). nSize - nMid)") auto

definition Unserialize_vec :: "nat \<Rightarrow> 'a reader \<Rightarrow> 'a list reader" where
  "Unserialize_vec sizeofT rd =
     rbind ReadCompactSize (\<lambda>n.
       Unserialize_vec_loop (5000000 div sizeofT) rd (unat (ucast n :: u32)) 0 [])"

definition Unserialize_list :: "'a reader \<Rightarrow> 'a list reader" where
  "Unserialize_list rd =
     rbind ReadCompactSize (\<lambda>n. Unserialize_items rd (unat (ucast n :: u32)) [])"

definition Serialize_array :: "('a \<Rightarrow> bytes) \<Rightarrow> 'a list \<Rightarrow> bytes" where
  "Serialize_array ser item = concat (map ser item)"

definition Unserialize_array :: "nat \<Rightarrow> 'a reader \<Rightarrow> 'a list reader" where
  "Unserialize_array N rd = Unserialize_items rd N []"

definition GetSerializeSize_array :: "('a \<Rightarrow> nat) \<Rightarrow> 'a list \<Rightarrow> nat" where
  "GetSerializeSize_array sizeT item = foldl (\<lambda>sz i. sz + sizeT (item ! 0)) 0 [0..<length item]"

definition Serialize_pair :: "('a \<Rightarrow> bytes) \<Rightarrow> ('b \<Rightarrow> bytes) \<Rightarrow> 'a \<times> 'b \<Rightarrow> bytes" where
  "Serialize_pair serK serT item = serK (fst item) @ serT (snd item)"

definition Unserialize_pair :: "'a reader \<Rightarrow> 'b reader \<Rightarrow> ('a \<times> 'b) reader" where
  "Unserialize_pair rdK rdT = rbind rdK (\<lambda>k. rbind rdT (\<lambda>t. rreturn (k, t)))"

definition Serialize_optional :: "('a \<Rightarrow> bytes) \<Rightarrow> 'a option \<Rightarrow> bytes" where
  "Serialize_optional ser item =
     (case item of Some x \<Rightarrow> ser_writedata8 0x01 @ ser x | None \<Rightarrow> ser_writedata8 0x00)"

definition Unserialize_optional :: "'a reader \<Rightarrow> 'a option reader" where
  "Unserialize_optional rd =
     rbind ser_readdata8 (\<lambda>discriminant.
       if discriminant = 0x00 then rreturn None else rbind rd (\<lambda>x. rreturn (Some x)))"

definition GetSerializeSize_optional :: "('a \<Rightarrow> nat) \<Rightarrow> 'a option \<Rightarrow> nat" where
  "GetSerializeSize_optional sizeT item = (case item of Some x \<Rightarrow> 1 + sizeT x | None \<Rightarrow> 1)"

definition GetSerializeSize_list :: "('a \<Rightarrow> nat) \<Rightarrow> 'a list \<Rightarrow> nat" where
  "GetSerializeSize_list sizeT l =
     foldl (\<lambda>nSize x. nSize + sizeT x) (GetSizeOfCompactSize (of_nat (length l))) l"

declare Unserialize_blob_loop.simps [simp del] Unserialize_vec_loop.simps [simp del]

lemma Unserialize_blob_loop_eq:
  "i \<le> nSize \<Longrightarrow> Unserialize_blob_loop nSize i v s =
     rbind (stream_read (nSize - i)) (\<lambda>d. rreturn (v @ d)) s"
proof (induction nSize i v s rule: Unserialize_blob_loop.induct)
  case (1 nSize i v s)
  define blk where "blk = min (nSize - i) (1 + 4999999 div 1)"
  show ?case
  proof (cases "i < nSize")
    case False
    with 1(2) show ?thesis by (simp add: Unserialize_blob_loop.simps stream_read_def rbind_def)
  next
    case True
    then have blk: "0 < blk" "i + blk \<le> nSize" unfolding blk_def by auto
    have unf: "Unserialize_blob_loop nSize i v s = (case stream_read blk s of
        Inl e \<Rightarrow> Inl e | Inr (d, s') \<Rightarrow> Unserialize_blob_loop nSize (i + blk) (v @ d) s')"
      unfolding blk_def by (subst Unserialize_blob_loop.simps) (simp only: True if_True Let_def)
    show ?thesis
    proof (cases "length s < blk")
      case lt: True
      then have "length s < nSize - i" using blk by simp
      with lt show ?thesis by (simp add: unf stream_read_def rbind_def)
    next
      case ge: False
      then have sr: "stream_read blk s = Inr (take blk s, drop blk s)" by (simp add: stream_read_def)
      have "Unserialize_blob_loop nSize i v s = Unserialize_blob_loop nSize (i + blk) (v @ take blk s) (drop blk s)"
        by (simp add: unf sr)
      also have "\<dots> = rbind (stream_read (nSize - (i + blk))) (\<lambda>d. rreturn ((v @ take blk s) @ d)) (drop blk s)"
        by (rule "1.IH"[OF True blk_def sr refl blk(2)])
      also have "\<dots> = rbind (stream_read (nSize - i)) (\<lambda>d. rreturn (v @ d)) s"
      proof -
        have "take blk s @ take (nSize - (i + blk)) (drop blk s) = take (nSize - i) s"
          using blk by (metis add_diff_cancel_left' diff_diff_left le_add_diff_inverse2 take_add
              Nat.add_diff_assoc2 add.commute)
        moreover have "drop (nSize - (i + blk)) (drop blk s) = drop (nSize - i) s"
          using blk by simp
        moreover have "length (drop blk s) < nSize - (i + blk) \<longleftrightarrow> length s < nSize - i"
          using blk ge by auto
        ultimately show ?thesis by (simp add: rbind_def stream_read_def)
      qed
      finally show ?thesis .
    qed
  qed
qed

lemma Unserialize_blob_eq:
  "Unserialize_blob = rbind ReadCompactSize (\<lambda>n. stream_read (unat (ucast n :: u32)))"
  by (rule ext) (auto simp: Unserialize_blob_def Unserialize_blob_loop_eq rbind_def split: sum.splits)

lemma Unserialize_items_append:
  "Unserialize_items rd (j + k) v = rbind (Unserialize_items rd j v) (Unserialize_items rd k)"
proof (induction j arbitrary: v)
  case 0
  show ?case by (rule ext) (simp add: rbind_def)
next
  case (Suc j)
  then show ?case by (intro ext) (auto simp: rbind_def split: sum.splits prod.splits)
qed

lemma Unserialize_items_length:
  "Unserialize_items rd k v s = Inr (v', s') \<Longrightarrow> length v' = length v + k"
  by (induction k arbitrary: v s) (auto simp: rbind_Inr_iff)

lemma Unserialize_vec_loop_eq:
  assumes "0 < chunk" and "nMid \<le> nSize" and "length v = nMid"
  shows "Unserialize_vec_loop chunk rd nSize nMid v s = Unserialize_items rd (nSize - nMid) v s"
  using assms
proof (induction chunk rd nSize nMid v s rule: Unserialize_vec_loop.induct)
  case (1 chunk rd nSize nMid v s)
  define m where "m = (if nSize < nMid + chunk then nSize else nMid + chunk)"
  show ?case
  proof (cases "nMid < nSize")
    case False
    with 1(3) show ?thesis by (simp add: Unserialize_vec_loop.simps)
  next
    case True
    with 1(2) have m: "nMid < m" "m \<le> nSize" by (auto simp: m_def)
    from 1(2) have ne: "(chunk = 0) = False" by simp
    have unf: "Unserialize_vec_loop chunk rd nSize nMid v s =
       (case Unserialize_items rd (m - length v) v s of Inl e \<Rightarrow> Inl e
        | Inr (v', s') \<Rightarrow> Unserialize_vec_loop chunk rd nSize m v' s')"
      unfolding m_def
      by (subst Unserialize_vec_loop.simps) (simp only: True if_True Let_def if_False ne)
    have split: "Unserialize_items rd (nSize - nMid) v s =
       rbind (Unserialize_items rd (m - length v) v) (Unserialize_items rd (nSize - m)) s"
      using m 1(4) by (simp flip: Unserialize_items_append)
    show ?thesis
    proof (cases "Unserialize_items rd (m - length v) v s")
      case (Inl e)
      then show ?thesis by (simp add: unf split rbind_def)
    next
      case (Inr p)
      then obtain v' s' where r: "Unserialize_items rd (m - length v) v s = Inr (v', s')"
        by (cases p) auto
      then have "length v' = m" using m 1(4) by (auto dest: Unserialize_items_length)
      with "1.IH"[OF True _ m_def r refl 1(2) m(2)] 1(2) show ?thesis
        by (simp add: unf split r rbind_def)
    qed
  qed
qed

lemma Unserialize_vec_eq_list:
  assumes "0 < sizeofT" and "sizeofT \<le> 5000000"
  shows "Unserialize_vec sizeofT rd = Unserialize_list rd"
proof -
  have "0 < 5000000 div sizeofT" using assms by (simp add: div_greater_zero_iff)
  then show ?thesis
    by (intro ext) (auto simp: Unserialize_vec_def Unserialize_list_def Unserialize_vec_loop_eq
        rbind_def split: sum.splits)
qed

section \<open>Compositional round trips\<close>

lemma of_nat_size_ok:
  assumes "n \<le> unat MAX_SIZE"
  shows "of_nat n \<le> MAX_SIZE" and "unat (ucast (of_nat n :: u64) :: u32) = n"
    and "unat (of_nat n :: u64) = n"
proof -
  have b: "n \<le> 0x02000000" using assms by (simp add: MAX_SIZE_def)
  then show u: "unat (of_nat n :: u64) = n" by (simp add: unat_of_nat)
  with assms show "of_nat n \<le> MAX_SIZE" by (simp add: word_le_nat_alt)
  show "unat (ucast (of_nat n :: u64) :: u32) = n"
    using u b by (subst unat_ucast_small) simp_all
qed

context codec
begin

lemma Unserialize_items_ser:
  "list_all ok xs \<Longrightarrow>
     Unserialize_items unser (length xs) v (concat (map ser xs) @ rest) = Inr (v @ xs, rest)"
  by (induction xs arbitrary: v) (simp_all add: rbind_def unser_ser)

lemma list_codec:
  "codec (Serialize_vec ser) (Unserialize_list unser)
     (\<lambda>xs. list_all ok xs \<and> length xs \<le> unat MAX_SIZE)"
proof
  fix xs rest
  assume "list_all ok xs \<and> length xs \<le> unat MAX_SIZE"
  then show "Unserialize_list unser (Serialize_vec ser xs @ rest) = Inr (xs, rest)"
    using Unserialize_items_ser[of xs "[]" rest]
    by (simp add: Unserialize_list_def Serialize_vec_def rbind_def cs.unser_ser of_nat_size_ok)
qed

lemma vec_codec:
  assumes "0 < sizeofT" and "sizeofT \<le> 5000000"
  shows "codec (Serialize_vec ser) (Unserialize_vec sizeofT unser)
     (\<lambda>xs. list_all ok xs \<and> length xs \<le> unat MAX_SIZE)"
  using list_codec by (simp only: Unserialize_vec_eq_list[OF assms])

lemma array_codec:
  "codec (Serialize_array ser) (Unserialize_array N unser) (\<lambda>xs. list_all ok xs \<and> length xs = N)"
  by unfold_locales
    (use Unserialize_items_ser[of _ "[]"] in \<open>auto simp: Serialize_array_def Unserialize_array_def\<close>)

lemma optional_codec:
  "codec (Serialize_optional ser) (Unserialize_optional unser) (pred_option ok)"
  by unfold_locales
    (auto simp: Serialize_optional_def Unserialize_optional_def rbind_def c8.unser_ser unser_ser
      split: option.splits)

end

lemma pair_codec:
  assumes "codec serK rdK okK" and "codec serT rdT okT"
  shows "codec (Serialize_pair serK serT) (Unserialize_pair rdK rdT) (\<lambda>p. okK (fst p) \<and> okT (snd p))"
  by unfold_locales
    (simp add: Serialize_pair_def Unserialize_pair_def rbind_def codec.unser_ser[OF assms(1)]
      codec.unser_ser[OF assms(2)])

lemma Serialize_blob_simp: "Serialize_blob v = WriteCompactSize (of_nat (length v)) @ v"
  by (simp add: Serialize_blob_def)

interpretation blob: canonical_codec Serialize_blob Unserialize_blob "\<lambda>v. length v \<le> unat MAX_SIZE"
proof
  fix v rest assume "length (v :: bytes) \<le> unat MAX_SIZE"
  then show "Unserialize_blob (Serialize_blob v @ rest) = Inr (v, rest)"
    by (simp add: Unserialize_blob_eq Serialize_blob_simp rbind_def cs.unser_ser of_nat_size_ok
        stream_read_append)
next
  fix s v rest assume "Unserialize_blob s = Inr (v, rest)"
  then obtain n s' where n: "n \<le> MAX_SIZE" "s = WriteCompactSize n @ s'"
    and sr: "stream_read (unat (ucast n :: u32)) s' = Inr (v, rest)"
    by (auto simp: Unserialize_blob_eq rbind_Inr_iff cs.unser_iff)
  from n(1) have "unat n \<le> unat MAX_SIZE" by (simp add: word_le_nat_alt)
  from of_nat_size_ok[OF this] have u: "unat (ucast n :: u32) = unat n" by simp
  from stream_read_InrD[OF sr] u have "length v = unat n" "s' = v @ rest" by simp_all
  with n show "length v \<le> unat MAX_SIZE \<and> s = Serialize_blob v @ rest"
    by (simp add: Serialize_blob_simp word_le_nat_alt)
qed

section \<open>Properties\<close>

text \<open>VarInt.  On any stream, reading a 64-bit \<open>VARINT\<close> succeeds with value \<open>n\<close> and
  remainder \<open>rest\<close> exactly when the stream starts with the bytes \<open>WriteVarInt\<close> emits for
  \<open>n\<close>: the encoding round trips, is prefix free, and has one encoding per number.\<close>

theorem varint_iff: "ReadVarInt s = Inr (n :: u64, rest) \<longleftrightarrow> s = WriteVarInt n @ rest"
  by (simp add: vi64.unser_iff)

text \<open>The buffer \<open>tmp[(sizeof(n)*8+6)/7]\<close> of \<open>WriteVarInt\<close> is never overrun, at every
  width, and the number of bytes written is the one \<open>GetSizeOfVarInt\<close> predicts.\<close>

theorem varint_buffer:
  "length (WriteVarInt_tmp (n :: 'a::len word) 0) \<le> (LENGTH('a) + 6) div 7 \<and>
   length (WriteVarInt n) = GetSizeOfVarInt n"
  using WriteVarInt_fits[of n] by (simp add: WriteVarInt_def length_WriteVarInt length_WriteVarInt_tmp)

text \<open>CompactSize.  \<open>ReadCompactSize\<close> accepts exactly the encodings \<open>WriteCompactSize\<close>
  produces for sizes up to \<open>MAX_SIZE\<close>; longer forms of a small size and sizes above the
  limit are rejected.\<close>

theorem compact_size_iff:
  "ReadCompactSize s = Inr (n, rest) \<longleftrightarrow> n \<le> MAX_SIZE \<and> s = WriteCompactSize n @ rest"
  by (simp add: cs.unser_iff)

text \<open>Byte vectors.  The block-wise reader, which grows the vector by at most
  5,000,000 bytes at a time, accepts exactly what the one-piece writer emits for vectors of
  at most \<open>MAX_SIZE\<close> bytes.\<close>

theorem byte_vector_iff:
  "Unserialize_blob s = Inr (v, rest) \<longleftrightarrow> length v \<le> unat MAX_SIZE \<and> s = Serialize_blob v @ rest"
  by (simp add: blob.unser_iff)

text \<open>Vectors of objects.  For every element codec, reading a vector in chunks of
  \<open>5000000 / sizeof(T)\<close> elements is the plain element-by-element loop of the list reader,
  and it undoes the vector writer.\<close>

theorem vector_roundtrip:
  assumes "codec ser unser ok" and "0 < sizeofT" and "sizeofT \<le> 5000000"
    and "list_all ok xs" and "length xs \<le> unat MAX_SIZE"
  shows "Unserialize_vec sizeofT unser = Unserialize_list unser \<and>
         Unserialize_vec sizeofT unser (Serialize_vec ser xs @ rest) = Inr (xs, rest)"
  using assms codec.unser_ser[OF codec.vec_codec[OF assms(1-3)], of xs rest] Unserialize_vec_eq_list by blast

theorem vector_roundtrip_witness:
  "Unserialize_vec 4 ser_readdata32 (Serialize_vec ser_writedata32 [7, 0xFFFFFFFF] @ [1]) = Inr ([7, 0xFFFFFFFF], [1])"
  using conjunct2[OF vector_roundtrip[OF c32.codec_axioms, of 4 "[7, 0xFFFFFFFF]" "[1]"]]
  by (simp add: MAX_SIZE_def)

text \<open>
  The \<open>std::array\<close> overload of \<open>GetSerializeSize\<close> adds the size of element 0 for every
  index, so it is wrong as soon as the elements differ in size.
\<close>

lemma GetSerializeSize_array_first:
  "GetSerializeSize_array sizeT xs = length xs * sizeT (xs ! 0)"
proof -
  have "foldl (\<lambda>sz i. sz + c) a js = a + length js * c" for a c :: nat and js :: "nat list"
    by (induction js arbitrary: a) (simp_all add: algebra_simps)
  then show ?thesis by (simp add: GetSerializeSize_array_def)
qed

lemma GetSerializeSize_array_wrong:
  "GetSerializeSize_array (\<lambda>x. length (Serialize_blob x)) [[], [1]] = 2 \<and>
   length (Serialize_array Serialize_blob [[], [1]]) = 3"
  by (simp add: GetSerializeSize_array_first Serialize_array_def Serialize_blob_def WriteCompactSize_def
      ser_writedata8_def)

text \<open>
  The table in the comment above \<open>VarIntMode\<close> gives 16511 as \<open>[0x80 0xFF 0x7F]\<close> and 65535
  as \<open>[0x82 0xFD 0x7F]\<close>; the code writes the following bytes.
\<close>

lemma WriteVarInt_table:
  "WriteVarInt (16511 :: u64) = [0xFF, 0x7F] \<and> WriteVarInt (65535 :: u64) = [0x82, 0xFE, 0x7F]"
  by (simp add: WriteVarInt_def WriteVarInt_tmp.simps drop_bit_eq_div)

end
