(* ===== verification/Script.thy ===== *)
theory Script
  imports Serialize
begin

text \<open>
  Scripts, \<open>src/src/script/script.h\<close> and \<open>script.cpp\<close>: the opcodes, the number type
  \<open>CScriptNum\<close>, the builders \<open>operator<<\<close>, the decoder \<open>GetOp2\<close> and the scans built
  on it.  A script is its byte vector.  A position inside a script
  (\<open>const_iterator\<close>) is represented by the suffix that starts there, so that
  \<open>end() - pc\<close> is the length of the suffix and \<open>CScript(pc, pend)\<close> is the suffix
  itself.
\<close>

unbundle bit_operations_syntax

type_synonym CScript = bytes
type_synonym valtype = bytes

section \<open>Opcodes\<close>

abbreviation (input) OP_0 :: u8 where "OP_0 \<equiv> 0x00"
abbreviation (input) OP_FALSE :: u8 where "OP_FALSE \<equiv> 0x00"
abbreviation (input) OP_PUSHDATA1 :: u8 where "OP_PUSHDATA1 \<equiv> 0x4c"
abbreviation (input) OP_PUSHDATA2 :: u8 where "OP_PUSHDATA2 \<equiv> 0x4d"
abbreviation (input) OP_PUSHDATA4 :: u8 where "OP_PUSHDATA4 \<equiv> 0x4e"
abbreviation (input) OP_1NEGATE :: u8 where "OP_1NEGATE \<equiv> 0x4f"
abbreviation (input) OP_RESERVED :: u8 where "OP_RESERVED \<equiv> 0x50"
abbreviation (input) OP_1 :: u8 where "OP_1 \<equiv> 0x51"
abbreviation (input) OP_TRUE :: u8 where "OP_TRUE \<equiv> 0x51"
abbreviation (input) OP_2 :: u8 where "OP_2 \<equiv> 0x52"
abbreviation (input) OP_3 :: u8 where "OP_3 \<equiv> 0x53"
abbreviation (input) OP_4 :: u8 where "OP_4 \<equiv> 0x54"
abbreviation (input) OP_5 :: u8 where "OP_5 \<equiv> 0x55"
abbreviation (input) OP_6 :: u8 where "OP_6 \<equiv> 0x56"
abbreviation (input) OP_7 :: u8 where "OP_7 \<equiv> 0x57"
abbreviation (input) OP_8 :: u8 where "OP_8 \<equiv> 0x58"
abbreviation (input) OP_9 :: u8 where "OP_9 \<equiv> 0x59"
abbreviation (input) OP_10 :: u8 where "OP_10 \<equiv> 0x5a"
abbreviation (input) OP_11 :: u8 where "OP_11 \<equiv> 0x5b"
abbreviation (input) OP_12 :: u8 where "OP_12 \<equiv> 0x5c"
abbreviation (input) OP_13 :: u8 where "OP_13 \<equiv> 0x5d"
abbreviation (input) OP_14 :: u8 where "OP_14 \<equiv> 0x5e"
abbreviation (input) OP_15 :: u8 where "OP_15 \<equiv> 0x5f"
abbreviation (input) OP_16 :: u8 where "OP_16 \<equiv> 0x60"
abbreviation (input) OP_NOP :: u8 where "OP_NOP \<equiv> 0x61"
abbreviation (input) OP_VER :: u8 where "OP_VER \<equiv> 0x62"
abbreviation (input) OP_IF :: u8 where "OP_IF \<equiv> 0x63"
abbreviation (input) OP_NOTIF :: u8 where "OP_NOTIF \<equiv> 0x64"
abbreviation (input) OP_VERIF :: u8 where "OP_VERIF \<equiv> 0x65"
abbreviation (input) OP_VERNOTIF :: u8 where "OP_VERNOTIF \<equiv> 0x66"
abbreviation (input) OP_ELSE :: u8 where "OP_ELSE \<equiv> 0x67"
abbreviation (input) OP_ENDIF :: u8 where "OP_ENDIF \<equiv> 0x68"
abbreviation (input) OP_VERIFY :: u8 where "OP_VERIFY \<equiv> 0x69"
abbreviation (input) OP_RETURN :: u8 where "OP_RETURN \<equiv> 0x6a"
abbreviation (input) OP_TOALTSTACK :: u8 where "OP_TOALTSTACK \<equiv> 0x6b"
abbreviation (input) OP_FROMALTSTACK :: u8 where "OP_FROMALTSTACK \<equiv> 0x6c"
abbreviation (input) OP_2DROP :: u8 where "OP_2DROP \<equiv> 0x6d"
abbreviation (input) OP_2DUP :: u8 where "OP_2DUP \<equiv> 0x6e"
abbreviation (input) OP_3DUP :: u8 where "OP_3DUP \<equiv> 0x6f"
abbreviation (input) OP_2OVER :: u8 where "OP_2OVER \<equiv> 0x70"
abbreviation (input) OP_2ROT :: u8 where "OP_2ROT \<equiv> 0x71"
abbreviation (input) OP_2SWAP :: u8 where "OP_2SWAP \<equiv> 0x72"
abbreviation (input) OP_IFDUP :: u8 where "OP_IFDUP \<equiv> 0x73"
abbreviation (input) OP_DEPTH :: u8 where "OP_DEPTH \<equiv> 0x74"
abbreviation (input) OP_DROP :: u8 where "OP_DROP \<equiv> 0x75"
abbreviation (input) OP_DUP :: u8 where "OP_DUP \<equiv> 0x76"
abbreviation (input) OP_NIP :: u8 where "OP_NIP \<equiv> 0x77"
abbreviation (input) OP_OVER :: u8 where "OP_OVER \<equiv> 0x78"
abbreviation (input) OP_PICK :: u8 where "OP_PICK \<equiv> 0x79"
abbreviation (input) OP_ROLL :: u8 where "OP_ROLL \<equiv> 0x7a"
abbreviation (input) OP_ROT :: u8 where "OP_ROT \<equiv> 0x7b"
abbreviation (input) OP_SWAP :: u8 where "OP_SWAP \<equiv> 0x7c"
abbreviation (input) OP_TUCK :: u8 where "OP_TUCK \<equiv> 0x7d"
abbreviation (input) OP_CAT :: u8 where "OP_CAT \<equiv> 0x7e"
abbreviation (input) OP_SUBSTR :: u8 where "OP_SUBSTR \<equiv> 0x7f"
abbreviation (input) OP_LEFT :: u8 where "OP_LEFT \<equiv> 0x80"
abbreviation (input) OP_RIGHT :: u8 where "OP_RIGHT \<equiv> 0x81"
abbreviation (input) OP_SIZE :: u8 where "OP_SIZE \<equiv> 0x82"
abbreviation (input) OP_INVERT :: u8 where "OP_INVERT \<equiv> 0x83"
abbreviation (input) OP_AND :: u8 where "OP_AND \<equiv> 0x84"
abbreviation (input) OP_OR :: u8 where "OP_OR \<equiv> 0x85"
abbreviation (input) OP_XOR :: u8 where "OP_XOR \<equiv> 0x86"
abbreviation (input) OP_EQUAL :: u8 where "OP_EQUAL \<equiv> 0x87"
abbreviation (input) OP_EQUALVERIFY :: u8 where "OP_EQUALVERIFY \<equiv> 0x88"
abbreviation (input) OP_RESERVED1 :: u8 where "OP_RESERVED1 \<equiv> 0x89"
abbreviation (input) OP_RESERVED2 :: u8 where "OP_RESERVED2 \<equiv> 0x8a"
abbreviation (input) OP_1ADD :: u8 where "OP_1ADD \<equiv> 0x8b"
abbreviation (input) OP_1SUB :: u8 where "OP_1SUB \<equiv> 0x8c"
abbreviation (input) OP_2MUL :: u8 where "OP_2MUL \<equiv> 0x8d"
abbreviation (input) OP_2DIV :: u8 where "OP_2DIV \<equiv> 0x8e"
abbreviation (input) OP_NEGATE :: u8 where "OP_NEGATE \<equiv> 0x8f"
abbreviation (input) OP_ABS :: u8 where "OP_ABS \<equiv> 0x90"
abbreviation (input) OP_NOT :: u8 where "OP_NOT \<equiv> 0x91"
abbreviation (input) OP_0NOTEQUAL :: u8 where "OP_0NOTEQUAL \<equiv> 0x92"
abbreviation (input) OP_ADD :: u8 where "OP_ADD \<equiv> 0x93"
abbreviation (input) OP_SUB :: u8 where "OP_SUB \<equiv> 0x94"
abbreviation (input) OP_MUL :: u8 where "OP_MUL \<equiv> 0x95"
abbreviation (input) OP_DIV :: u8 where "OP_DIV \<equiv> 0x96"
abbreviation (input) OP_MOD :: u8 where "OP_MOD \<equiv> 0x97"
abbreviation (input) OP_LSHIFT :: u8 where "OP_LSHIFT \<equiv> 0x98"
abbreviation (input) OP_RSHIFT :: u8 where "OP_RSHIFT \<equiv> 0x99"
abbreviation (input) OP_BOOLAND :: u8 where "OP_BOOLAND \<equiv> 0x9a"
abbreviation (input) OP_BOOLOR :: u8 where "OP_BOOLOR \<equiv> 0x9b"
abbreviation (input) OP_NUMEQUAL :: u8 where "OP_NUMEQUAL \<equiv> 0x9c"
abbreviation (input) OP_NUMEQUALVERIFY :: u8 where "OP_NUMEQUALVERIFY \<equiv> 0x9d"
abbreviation (input) OP_NUMNOTEQUAL :: u8 where "OP_NUMNOTEQUAL \<equiv> 0x9e"
abbreviation (input) OP_LESSTHAN :: u8 where "OP_LESSTHAN \<equiv> 0x9f"
abbreviation (input) OP_GREATERTHAN :: u8 where "OP_GREATERTHAN \<equiv> 0xa0"
abbreviation (input) OP_LESSTHANOREQUAL :: u8 where "OP_LESSTHANOREQUAL \<equiv> 0xa1"
abbreviation (input) OP_GREATERTHANOREQUAL :: u8 where "OP_GREATERTHANOREQUAL \<equiv> 0xa2"
abbreviation (input) OP_MIN :: u8 where "OP_MIN \<equiv> 0xa3"
abbreviation (input) OP_MAX :: u8 where "OP_MAX \<equiv> 0xa4"
abbreviation (input) OP_WITHIN :: u8 where "OP_WITHIN \<equiv> 0xa5"
abbreviation (input) OP_RIPEMD160 :: u8 where "OP_RIPEMD160 \<equiv> 0xa6"
abbreviation (input) OP_SHA1 :: u8 where "OP_SHA1 \<equiv> 0xa7"
abbreviation (input) OP_SHA256 :: u8 where "OP_SHA256 \<equiv> 0xa8"
abbreviation (input) OP_HASH160 :: u8 where "OP_HASH160 \<equiv> 0xa9"
abbreviation (input) OP_HASH256 :: u8 where "OP_HASH256 \<equiv> 0xaa"
abbreviation (input) OP_CODESEPARATOR :: u8 where "OP_CODESEPARATOR \<equiv> 0xab"
abbreviation (input) OP_CHECKSIG :: u8 where "OP_CHECKSIG \<equiv> 0xac"
abbreviation (input) OP_CHECKSIGVERIFY :: u8 where "OP_CHECKSIGVERIFY \<equiv> 0xad"
abbreviation (input) OP_CHECKMULTISIG :: u8 where "OP_CHECKMULTISIG \<equiv> 0xae"
abbreviation (input) OP_CHECKMULTISIGVERIFY :: u8 where "OP_CHECKMULTISIGVERIFY \<equiv> 0xaf"
abbreviation (input) OP_NOP1 :: u8 where "OP_NOP1 \<equiv> 0xb0"
abbreviation (input) OP_NOP2 :: u8 where "OP_NOP2 \<equiv> 0xb1"
abbreviation (input) OP_CHECKLOCKTIMEVERIFY :: u8 where "OP_CHECKLOCKTIMEVERIFY \<equiv> 0xb1"
abbreviation (input) OP_NOP3 :: u8 where "OP_NOP3 \<equiv> 0xb2"
abbreviation (input) OP_NOP4 :: u8 where "OP_NOP4 \<equiv> 0xb3"
abbreviation (input) OP_NOP5 :: u8 where "OP_NOP5 \<equiv> 0xb4"
abbreviation (input) OP_NOP6 :: u8 where "OP_NOP6 \<equiv> 0xb5"
abbreviation (input) OP_NOP7 :: u8 where "OP_NOP7 \<equiv> 0xb6"
abbreviation (input) OP_NOP8 :: u8 where "OP_NOP8 \<equiv> 0xb7"
abbreviation (input) OP_NOP9 :: u8 where "OP_NOP9 \<equiv> 0xb8"
abbreviation (input) OP_NOP10 :: u8 where "OP_NOP10 \<equiv> 0xb9"
abbreviation (input) OP_CHECKCOLDSTAKEVERIFY :: u8 where "OP_CHECKCOLDSTAKEVERIFY \<equiv> 0xd1"
abbreviation (input) OP_INVALIDOPCODE :: u8 where "OP_INVALIDOPCODE \<equiv> 0xff"

definition opcodetype :: "(string \<times> u8) list" where
  "opcodetype =
    [(''OP_0'', OP_0),
     (''OP_FALSE'', OP_FALSE),
     (''OP_PUSHDATA1'', OP_PUSHDATA1),
     (''OP_PUSHDATA2'', OP_PUSHDATA2),
     (''OP_PUSHDATA4'', OP_PUSHDATA4),
     (''OP_1NEGATE'', OP_1NEGATE),
     (''OP_RESERVED'', OP_RESERVED),
     (''OP_1'', OP_1),
     (''OP_TRUE'', OP_TRUE),
     (''OP_2'', OP_2),
     (''OP_3'', OP_3),
     (''OP_4'', OP_4),
     (''OP_5'', OP_5),
     (''OP_6'', OP_6),
     (''OP_7'', OP_7),
     (''OP_8'', OP_8),
     (''OP_9'', OP_9),
     (''OP_10'', OP_10),
     (''OP_11'', OP_11),
     (''OP_12'', OP_12),
     (''OP_13'', OP_13),
     (''OP_14'', OP_14),
     (''OP_15'', OP_15),
     (''OP_16'', OP_16),
     (''OP_NOP'', OP_NOP),
     (''OP_VER'', OP_VER),
     (''OP_IF'', OP_IF),
     (''OP_NOTIF'', OP_NOTIF),
     (''OP_VERIF'', OP_VERIF),
     (''OP_VERNOTIF'', OP_VERNOTIF),
     (''OP_ELSE'', OP_ELSE),
     (''OP_ENDIF'', OP_ENDIF),
     (''OP_VERIFY'', OP_VERIFY),
     (''OP_RETURN'', OP_RETURN),
     (''OP_TOALTSTACK'', OP_TOALTSTACK),
     (''OP_FROMALTSTACK'', OP_FROMALTSTACK),
     (''OP_2DROP'', OP_2DROP),
     (''OP_2DUP'', OP_2DUP),
     (''OP_3DUP'', OP_3DUP),
     (''OP_2OVER'', OP_2OVER),
     (''OP_2ROT'', OP_2ROT),
     (''OP_2SWAP'', OP_2SWAP),
     (''OP_IFDUP'', OP_IFDUP),
     (''OP_DEPTH'', OP_DEPTH),
     (''OP_DROP'', OP_DROP),
     (''OP_DUP'', OP_DUP),
     (''OP_NIP'', OP_NIP),
     (''OP_OVER'', OP_OVER),
     (''OP_PICK'', OP_PICK),
     (''OP_ROLL'', OP_ROLL),
     (''OP_ROT'', OP_ROT),
     (''OP_SWAP'', OP_SWAP),
     (''OP_TUCK'', OP_TUCK),
     (''OP_CAT'', OP_CAT),
     (''OP_SUBSTR'', OP_SUBSTR),
     (''OP_LEFT'', OP_LEFT),
     (''OP_RIGHT'', OP_RIGHT),
     (''OP_SIZE'', OP_SIZE),
     (''OP_INVERT'', OP_INVERT),
     (''OP_AND'', OP_AND),
     (''OP_OR'', OP_OR),
     (''OP_XOR'', OP_XOR),
     (''OP_EQUAL'', OP_EQUAL),
     (''OP_EQUALVERIFY'', OP_EQUALVERIFY),
     (''OP_RESERVED1'', OP_RESERVED1),
     (''OP_RESERVED2'', OP_RESERVED2),
     (''OP_1ADD'', OP_1ADD),
     (''OP_1SUB'', OP_1SUB),
     (''OP_2MUL'', OP_2MUL),
     (''OP_2DIV'', OP_2DIV),
     (''OP_NEGATE'', OP_NEGATE),
     (''OP_ABS'', OP_ABS),
     (''OP_NOT'', OP_NOT),
     (''OP_0NOTEQUAL'', OP_0NOTEQUAL),
     (''OP_ADD'', OP_ADD),
     (''OP_SUB'', OP_SUB),
     (''OP_MUL'', OP_MUL),
     (''OP_DIV'', OP_DIV),
     (''OP_MOD'', OP_MOD),
     (''OP_LSHIFT'', OP_LSHIFT),
     (''OP_RSHIFT'', OP_RSHIFT),
     (''OP_BOOLAND'', OP_BOOLAND),
     (''OP_BOOLOR'', OP_BOOLOR),
     (''OP_NUMEQUAL'', OP_NUMEQUAL),
     (''OP_NUMEQUALVERIFY'', OP_NUMEQUALVERIFY),
     (''OP_NUMNOTEQUAL'', OP_NUMNOTEQUAL),
     (''OP_LESSTHAN'', OP_LESSTHAN),
     (''OP_GREATERTHAN'', OP_GREATERTHAN),
     (''OP_LESSTHANOREQUAL'', OP_LESSTHANOREQUAL),
     (''OP_GREATERTHANOREQUAL'', OP_GREATERTHANOREQUAL),
     (''OP_MIN'', OP_MIN),
     (''OP_MAX'', OP_MAX),
     (''OP_WITHIN'', OP_WITHIN),
     (''OP_RIPEMD160'', OP_RIPEMD160),
     (''OP_SHA1'', OP_SHA1),
     (''OP_SHA256'', OP_SHA256),
     (''OP_HASH160'', OP_HASH160),
     (''OP_HASH256'', OP_HASH256),
     (''OP_CODESEPARATOR'', OP_CODESEPARATOR),
     (''OP_CHECKSIG'', OP_CHECKSIG),
     (''OP_CHECKSIGVERIFY'', OP_CHECKSIGVERIFY),
     (''OP_CHECKMULTISIG'', OP_CHECKMULTISIG),
     (''OP_CHECKMULTISIGVERIFY'', OP_CHECKMULTISIGVERIFY),
     (''OP_NOP1'', OP_NOP1),
     (''OP_NOP2'', OP_NOP2),
     (''OP_CHECKLOCKTIMEVERIFY'', OP_CHECKLOCKTIMEVERIFY),
     (''OP_NOP3'', OP_NOP3),
     (''OP_NOP4'', OP_NOP4),
     (''OP_NOP5'', OP_NOP5),
     (''OP_NOP6'', OP_NOP6),
     (''OP_NOP7'', OP_NOP7),
     (''OP_NOP8'', OP_NOP8),
     (''OP_NOP9'', OP_NOP9),
     (''OP_NOP10'', OP_NOP10),
     (''OP_CHECKCOLDSTAKEVERIFY'', OP_CHECKCOLDSTAKEVERIFY),
     (''OP_INVALIDOPCODE'', OP_INVALIDOPCODE)]"

definition GetOpName_table :: "(u8 \<times> string) list" where
  "GetOpName_table =
    [(OP_0, ''0''),
     (OP_PUSHDATA1, ''OP_PUSHDATA1''),
     (OP_PUSHDATA2, ''OP_PUSHDATA2''),
     (OP_PUSHDATA4, ''OP_PUSHDATA4''),
     (OP_1NEGATE, ''-1''),
     (OP_RESERVED, ''OP_RESERVED''),
     (OP_1, ''1''),
     (OP_2, ''2''),
     (OP_3, ''3''),
     (OP_4, ''4''),
     (OP_5, ''5''),
     (OP_6, ''6''),
     (OP_7, ''7''),
     (OP_8, ''8''),
     (OP_9, ''9''),
     (OP_10, ''10''),
     (OP_11, ''11''),
     (OP_12, ''12''),
     (OP_13, ''13''),
     (OP_14, ''14''),
     (OP_15, ''15''),
     (OP_16, ''16''),
     (OP_NOP, ''OP_NOP''),
     (OP_VER, ''OP_VER''),
     (OP_IF, ''OP_IF''),
     (OP_NOTIF, ''OP_NOTIF''),
     (OP_VERIF, ''OP_VERIF''),
     (OP_VERNOTIF, ''OP_VERNOTIF''),
     (OP_ELSE, ''OP_ELSE''),
     (OP_ENDIF, ''OP_ENDIF''),
     (OP_VERIFY, ''OP_VERIFY''),
     (OP_RETURN, ''OP_RETURN''),
     (OP_TOALTSTACK, ''OP_TOALTSTACK''),
     (OP_FROMALTSTACK, ''OP_FROMALTSTACK''),
     (OP_2DROP, ''OP_2DROP''),
     (OP_2DUP, ''OP_2DUP''),
     (OP_3DUP, ''OP_3DUP''),
     (OP_2OVER, ''OP_2OVER''),
     (OP_2ROT, ''OP_2ROT''),
     (OP_2SWAP, ''OP_2SWAP''),
     (OP_IFDUP, ''OP_IFDUP''),
     (OP_DEPTH, ''OP_DEPTH''),
     (OP_DROP, ''OP_DROP''),
     (OP_DUP, ''OP_DUP''),
     (OP_NIP, ''OP_NIP''),
     (OP_OVER, ''OP_OVER''),
     (OP_PICK, ''OP_PICK''),
     (OP_ROLL, ''OP_ROLL''),
     (OP_ROT, ''OP_ROT''),
     (OP_SWAP, ''OP_SWAP''),
     (OP_TUCK, ''OP_TUCK''),
     (OP_CAT, ''OP_CAT''),
     (OP_SUBSTR, ''OP_SUBSTR''),
     (OP_LEFT, ''OP_LEFT''),
     (OP_RIGHT, ''OP_RIGHT''),
     (OP_SIZE, ''OP_SIZE''),
     (OP_INVERT, ''OP_INVERT''),
     (OP_AND, ''OP_AND''),
     (OP_OR, ''OP_OR''),
     (OP_XOR, ''OP_XOR''),
     (OP_EQUAL, ''OP_EQUAL''),
     (OP_EQUALVERIFY, ''OP_EQUALVERIFY''),
     (OP_RESERVED1, ''OP_RESERVED1''),
     (OP_RESERVED2, ''OP_RESERVED2''),
     (OP_1ADD, ''OP_1ADD''),
     (OP_1SUB, ''OP_1SUB''),
     (OP_2MUL, ''OP_2MUL''),
     (OP_2DIV, ''OP_2DIV''),
     (OP_NEGATE, ''OP_NEGATE''),
     (OP_ABS, ''OP_ABS''),
     (OP_NOT, ''OP_NOT''),
     (OP_0NOTEQUAL, ''OP_0NOTEQUAL''),
     (OP_ADD, ''OP_ADD''),
     (OP_SUB, ''OP_SUB''),
     (OP_MUL, ''OP_MUL''),
     (OP_DIV, ''OP_DIV''),
     (OP_MOD, ''OP_MOD''),
     (OP_LSHIFT, ''OP_LSHIFT''),
     (OP_RSHIFT, ''OP_RSHIFT''),
     (OP_BOOLAND, ''OP_BOOLAND''),
     (OP_BOOLOR, ''OP_BOOLOR''),
     (OP_NUMEQUAL, ''OP_NUMEQUAL''),
     (OP_NUMEQUALVERIFY, ''OP_NUMEQUALVERIFY''),
     (OP_NUMNOTEQUAL, ''OP_NUMNOTEQUAL''),
     (OP_LESSTHAN, ''OP_LESSTHAN''),
     (OP_GREATERTHAN, ''OP_GREATERTHAN''),
     (OP_LESSTHANOREQUAL, ''OP_LESSTHANOREQUAL''),
     (OP_GREATERTHANOREQUAL, ''OP_GREATERTHANOREQUAL''),
     (OP_MIN, ''OP_MIN''),
     (OP_MAX, ''OP_MAX''),
     (OP_WITHIN, ''OP_WITHIN''),
     (OP_RIPEMD160, ''OP_RIPEMD160''),
     (OP_SHA1, ''OP_SHA1''),
     (OP_SHA256, ''OP_SHA256''),
     (OP_HASH160, ''OP_HASH160''),
     (OP_HASH256, ''OP_HASH256''),
     (OP_CODESEPARATOR, ''OP_CODESEPARATOR''),
     (OP_CHECKSIG, ''OP_CHECKSIG''),
     (OP_CHECKSIGVERIFY, ''OP_CHECKSIGVERIFY''),
     (OP_CHECKMULTISIG, ''OP_CHECKMULTISIG''),
     (OP_CHECKMULTISIGVERIFY, ''OP_CHECKMULTISIGVERIFY''),
     (OP_NOP1, ''OP_NOP1''),
     (OP_CHECKLOCKTIMEVERIFY, ''OP_CHECKLOCKTIMEVERIFY''),
     (OP_NOP3, ''OP_NOP3''),
     (OP_NOP4, ''OP_NOP4''),
     (OP_NOP5, ''OP_NOP5''),
     (OP_NOP6, ''OP_NOP6''),
     (OP_NOP7, ''OP_NOP7''),
     (OP_NOP8, ''OP_NOP8''),
     (OP_NOP9, ''OP_NOP9''),
     (OP_NOP10, ''OP_NOP10''),
     (OP_CHECKCOLDSTAKEVERIFY, ''OP_CHECKCOLDSTAKEVERIFY''),
     (OP_INVALIDOPCODE, ''OP_INVALIDOPCODE'')]"

definition GetOpName :: "u8 \<Rightarrow> string" where
  "GetOpName opcode =
     (case map_of GetOpName_table opcode of Some s \<Rightarrow> s | None \<Rightarrow> ''OP_UNKNOWN'')"

definition MAX_SCRIPT_ELEMENT_SIZE :: nat where "MAX_SCRIPT_ELEMENT_SIZE = 520"
definition MAX_PUBKEYS_PER_MULTISIG :: int where "MAX_PUBKEYS_PER_MULTISIG = 20"
definition MAX_SCRIPT_SIZE :: nat where "MAX_SCRIPT_SIZE = 10000"
definition LOCKTIME_THRESHOLD :: int where "LOCKTIME_THRESHOLD = 500000000"

section \<open>CScriptNum\<close>

datatype scriptnum_error =
    ScriptNumOverflow   \<comment> \<open>\<open>script number overflow\<close>\<close>
  | ScriptNumNonMinimal \<comment> \<open>\<open>non-minimally encoded script number\<close>\<close>

definition nDefaultMaxNumSize :: nat where "nDefaultMaxNumSize = 4"

text \<open>
  \<open>result |= static_cast<int64_t>(vch[i]) << 8*i\<close> over all \<open>i\<close> is the little-endian
  reading of the vector as a 64-bit word.
\<close>

definition set_vch :: "bytes \<Rightarrow> int" where
  "set_vch vch =
     (if vch = [] then 0
      else let result = (le_word vch :: u64) in
        if last vch AND 0x80 \<noteq> 0
        then - sint (result AND NOT (push_bit (8 * (length vch - 1)) 0x80))
        else sint result)"

definition CScriptNum :: "bytes \<Rightarrow> bool \<Rightarrow> nat \<Rightarrow> scriptnum_error + int" where
  "CScriptNum vch fRequireMinimal nMaxNumSize =
     (if nMaxNumSize < length vch then Inl ScriptNumOverflow
      else if fRequireMinimal \<and> 0 < length vch \<and> last vch AND 0x7f = 0 \<and>
              (length vch \<le> 1 \<or> vch ! (length vch - 2) AND 0x80 = 0)
        then Inl ScriptNumNonMinimal
      else Inr (set_vch vch))"

function serialize_bytes :: "u64 \<Rightarrow> bytes" where
  "serialize_bytes absvalue =
     (if absvalue \<noteq> 0 then ucast (absvalue AND 0xff) # serialize_bytes (drop_bit 8 absvalue)
      else [])"
  by pat_completeness auto
termination
  by (relation "measure unat") (auto simp: drop_bit_eq_div unat_div unat_gt_0 intro!: div_less_dividend)

declare serialize_bytes.simps [simp del]

definition scriptnum_serialize :: "int \<Rightarrow> bytes" where
  "scriptnum_serialize value =
     (if value = 0 then []
      else let neg = value < 0;
               absvalue = (if neg then NOT (word_of_int value :: u64) + 1 else word_of_int value);
               result = serialize_bytes absvalue
           in if last result AND 0x80 \<noteq> 0 then result @ [if neg then 0x80 else 0]
              else if neg then butlast result @ [last result OR 0x80]
              else result)"

definition getint :: "int \<Rightarrow> int" where
  "getint m_value =
     (if 2147483647 < m_value then 2147483647
      else if m_value < - 2147483648 then - 2147483648
      else m_value)"

section \<open>Building scripts\<close>

definition push_opcode :: "CScript \<Rightarrow> u8 \<Rightarrow> CScript" where
  "push_opcode script opcode = script @ [opcode]"

definition push_data :: "CScript \<Rightarrow> bytes \<Rightarrow> CScript" where
  "push_data script b =
     (if length b < unat OP_PUSHDATA1 then script @ [of_nat (length b)]
      else if length b \<le> 0xff then script @ [OP_PUSHDATA1, of_nat (length b)]
      else if length b \<le> 0xffff then script @ [OP_PUSHDATA2] @ le_bytes 2 (of_nat (length b) :: u16)
      else script @ [OP_PUSHDATA4] @ le_bytes 4 (of_nat (length b) :: u32)) @ b"

definition push_int64 :: "CScript \<Rightarrow> int \<Rightarrow> CScript" where
  "push_int64 script n =
     (if n = - 1 \<or> (1 \<le> n \<and> n \<le> 16) then script @ [word_of_int (n + 0x50)]
      else if n = 0 then script @ [OP_0]
      else push_data script (scriptnum_serialize n))"

section \<open>Decoding\<close>

text \<open>
  \<open>GetOp2\<close> returns whether it succeeded, the opcode, the pushed bytes and the
  advanced position; the position advances on the failing paths too, and one caller
  (\<open>SerializeScriptCode\<close>) looks at it then.
\<close>

definition GetOp2_size :: "u8 \<Rightarrow> bytes \<Rightarrow> (nat \<times> bytes) option" where
  "GetOp2_size opcode pc =
     (if opcode < OP_PUSHDATA1 then Some (unat opcode, pc)
      else if opcode = OP_PUSHDATA1 then
        (if length pc < 1 then None else Some (unat (hd pc), drop 1 pc))
      else if opcode = OP_PUSHDATA2 then
        (if length pc < 2 then None else Some (unat (le_word (take 2 pc) :: u16), drop 2 pc))
      else
        (if length pc < 4 then None else Some (unat (le_word (take 4 pc) :: u32), drop 4 pc)))"

definition GetOp2 :: "bytes \<Rightarrow> bool \<times> u8 \<times> bytes \<times> bytes" where
  "GetOp2 pc =
     (case pc of
        [] \<Rightarrow> (False, OP_INVALIDOPCODE, [], [])
      | opcode # pc1 \<Rightarrow>
          if opcode \<le> OP_PUSHDATA4 then
            (case GetOp2_size opcode pc1 of
               None \<Rightarrow> (False, OP_INVALIDOPCODE, [], pc1)
             | Some (nSize, pc2) \<Rightarrow>
                 if length pc2 < nSize then (False, OP_INVALIDOPCODE, [], pc2)
                 else (True, opcode, take nSize pc2, drop nSize pc2))
          else (True, opcode, [], pc1))"

definition DecodeOP_N :: "u8 \<Rightarrow> int option" where
  "DecodeOP_N opcode =
     (if opcode = OP_0 then Some 0
      else if OP_1 \<le> opcode \<and> opcode \<le> OP_16 then Some (int (unat opcode) - int (unat (OP_1 - 1)))
      else None)"

definition EncodeOP_N :: "int \<Rightarrow> u8 option" where
  "EncodeOP_N n =
     (if 0 \<le> n \<and> n \<le> 16 then Some (if n = 0 then OP_0 else word_of_int (int (unat OP_1) + n - 1))
      else None)"

lemma GetOp2_shrinks: "GetOp2 pc = (True, opcode, d, pc') \<Longrightarrow> length pc' < length pc"
  by (auto simp: GetOp2_def GetOp2_size_def split: list.splits if_splits option.splits)

lemmas GetOp2_shrinks' = GetOp2_shrinks[OF sym]

section \<open>Scans over a script\<close>

function FindAndDelete_skip :: "CScript \<Rightarrow> bytes \<Rightarrow> nat \<Rightarrow> bytes \<times> nat" where
  "FindAndDelete_skip b pc nFound =
     (if b \<noteq> [] \<and> length b \<le> length pc \<and> take (length b) pc = b
      then FindAndDelete_skip b (drop (length b) pc) (Suc nFound) else (pc, nFound))"
  by pat_completeness auto
termination
  by (relation "measure (\<lambda>(b, pc, nFound). length pc)") (auto intro!: diff_less)

declare FindAndDelete_skip.simps [simp del]

lemma FindAndDelete_skip_length: "length (fst (FindAndDelete_skip b pc n)) \<le> length pc"
proof (induction b pc n rule: FindAndDelete_skip.induct)
  case (1 b pc n)
  then show ?case by (subst FindAndDelete_skip.simps) (auto intro: order_trans)
qed

function FindAndDelete_loop :: "CScript \<Rightarrow> bytes \<Rightarrow> bytes \<Rightarrow> bytes \<Rightarrow> nat \<Rightarrow> bytes \<times> bytes \<times> nat" where
  "FindAndDelete_loop b pc pc2 result nFound =
     (let result' = result @ take (length pc2 - length pc) pc2;
          (pc', nFound') = FindAndDelete_skip b pc nFound;
          pc2' = pc';
          (fRet, opcode, vch, pc'') = GetOp2 pc'
      in if fRet then FindAndDelete_loop b pc'' pc2' result' nFound'
         else (result', pc2', nFound'))"
  by pat_completeness auto
termination
proof (relation "measure (\<lambda>(b, pc, pc2, result, nFound). length pc)", goal_cases)
  case 1
  then show ?case by simp
next
  case (2 b pc pc2 result nFound result' x pc' nFound' pc2' g fRet y opcode z vch pc'')
  then have "length pc' \<le> length pc"
    using FindAndDelete_skip_length[of b pc nFound] by (metis fst_conv)
  moreover from 2 have "length pc'' < length pc'" by (auto dest: GetOp2_shrinks')
  ultimately show ?case by simp
qed

definition FindAndDelete :: "CScript \<Rightarrow> CScript \<Rightarrow> CScript \<times> nat" where
  "FindAndDelete script b =
     (if b = [] then (script, 0)
      else let (result, pc2, nFound) = FindAndDelete_loop b script script [] 0 in
        if 0 < nFound then (result @ pc2, nFound) else (script, nFound))"

function Find_loop :: "u8 \<Rightarrow> bytes \<Rightarrow> nat \<Rightarrow> nat" where
  "Find_loop opc pc nFound =
     (if pc = [] then nFound
      else let (fRet, opcode, vch, pc') = GetOp2 pc in
        if fRet then Find_loop opc pc' (if opcode = opc then Suc nFound else nFound) else nFound)"
  by pat_completeness auto
termination
  by (relation "measure (\<lambda>(opc, pc, nFound). length pc)") (auto dest: GetOp2_shrinks')

definition Find :: "CScript \<Rightarrow> u8 \<Rightarrow> nat" where
  "Find script opc = Find_loop opc script 0"

function GetSigOpCount_loop :: "bool \<Rightarrow> bytes \<Rightarrow> u8 \<Rightarrow> int \<Rightarrow> int" where
  "GetSigOpCount_loop fAccurate pc lastOpcode n =
     (if pc = [] then n
      else let (fRet, opcode, vch, pc') = GetOp2 pc in
        if \<not> fRet then n
        else GetSigOpCount_loop fAccurate pc' opcode
          (if opcode = OP_CHECKSIG \<or> opcode = OP_CHECKSIGVERIFY then n + 1
           else if opcode = OP_CHECKMULTISIG \<or> opcode = OP_CHECKMULTISIGVERIFY then
             if fAccurate \<and> OP_1 \<le> lastOpcode \<and> lastOpcode \<le> OP_16
             then n + the (DecodeOP_N lastOpcode)
             else n + MAX_PUBKEYS_PER_MULTISIG
           else n))"
  by pat_completeness auto
termination
  by (relation "measure (\<lambda>(fAccurate, pc, lastOpcode, n). length pc)") (auto dest: GetOp2_shrinks')

definition GetSigOpCount :: "CScript \<Rightarrow> bool \<Rightarrow> int" where
  "GetSigOpCount script fAccurate = GetSigOpCount_loop fAccurate script OP_INVALIDOPCODE 0"

definition IsPayToPublicKeyHash :: "CScript \<Rightarrow> bool" where
  "IsPayToPublicKeyHash s \<longleftrightarrow>
     length s = 25 \<and> s ! 0 = OP_DUP \<and> s ! 1 = OP_HASH160 \<and> s ! 2 = 0x14 \<and>
     s ! 23 = OP_EQUALVERIFY \<and> s ! 24 = OP_CHECKSIG"

definition IsPayToScriptHash :: "CScript \<Rightarrow> bool" where
  "IsPayToScriptHash s \<longleftrightarrow>
     length s = 23 \<and> s ! 0 = OP_HASH160 \<and> s ! 1 = 0x14 \<and> s ! 22 = OP_EQUAL"

definition IsPayToColdStaking :: "CScript \<Rightarrow> bool" where
  "IsPayToColdStaking s \<longleftrightarrow>
     length s = 51 \<and> s ! 2 = OP_ROT \<and> s ! 4 = OP_CHECKCOLDSTAKEVERIFY \<and> s ! 5 = 0x14 \<and>
     s ! 27 = 0x14 \<and> s ! 49 = OP_EQUALVERIFY \<and> s ! 50 = OP_CHECKSIG"

definition StartsWithOpcode :: "CScript \<Rightarrow> u8 \<Rightarrow> bool" where
  "StartsWithOpcode s opcode \<longleftrightarrow> s \<noteq> [] \<and> s ! 0 = opcode"

function IsPushOnly :: "bytes \<Rightarrow> bool" where
  "IsPushOnly pc =
     (if pc = [] then True
      else let (fRet, opcode, vch, pc') = GetOp2 pc in
        if \<not> fRet then False else if OP_16 < opcode then False else IsPushOnly pc')"
  by pat_completeness auto
termination
  by (relation "measure length") (auto dest: GetOp2_shrinks')

function last_push :: "bytes \<Rightarrow> bytes \<Rightarrow> bytes option" where
  "last_push pc dat =
     (if pc = [] then Some dat
      else let (fRet, opcode, dat', pc') = GetOp2 pc in
        if \<not> fRet then None else if OP_16 < opcode then None else last_push pc' dat')"
  by pat_completeness auto
termination
  by (relation "measure (\<lambda>(pc, dat). length pc)") (auto dest: GetOp2_shrinks')

definition GetSigOpCount_P2SH :: "CScript \<Rightarrow> CScript \<Rightarrow> int" where
  "GetSigOpCount_P2SH script scriptSig =
     (if \<not> IsPayToScriptHash script then GetSigOpCount script True
      else case last_push scriptSig [] of
        None \<Rightarrow> 0
      | Some dat \<Rightarrow> GetSigOpCount dat True)"

definition IsUnspendable :: "CScript \<Rightarrow> bool" where
  "IsUnspendable s \<longleftrightarrow> (0 < length s \<and> hd s = OP_RETURN) \<or> MAX_SCRIPT_SIZE < length s"

declare FindAndDelete_loop.simps [simp del] Find_loop.simps [simp del]
  GetSigOpCount_loop.simps [simp del] IsPushOnly.simps [simp del] last_push.simps [simp del]

subsection \<open>Script numbers\<close>

lemma le_nat_serialize_bytes: "le_nat (serialize_bytes a) = unat a"
proof (induction a rule: serialize_bytes.induct)
  case (1 a)
  show ?case
  proof (cases "a = 0")
    case True
    then show ?thesis by (simp add: serialize_bytes.simps)
  next
    case False
    have "a AND 0xff = take_bit 8 a" by (simp add: take_bit_eq_mask mask_eq_exp_minus_1)
    then have "unat (a AND 0xff) = unat a mod 256"
      by (simp only: unsigned_take_bit_eq) (simp add: take_bit_eq_mod)
    then have "unat (ucast (a AND 0xff) :: byte) = unat a mod 256"
      by (subst unat_ucast_small) simp_all
    moreover have "unat (drop_bit 8 a) = unat a div 256"
      by (simp only: unat_drop_bit_eq) (simp add: drop_bit_eq_div)
    ultimately show ?thesis using False 1 by (simp add: serialize_bytes.simps[of a])
  qed
qed

lemma serialize_bytes_last: "a \<noteq> 0 \<Longrightarrow> serialize_bytes a \<noteq> [] \<and> last (serialize_bytes a) \<noteq> 0"
proof (induction a rule: serialize_bytes.induct)
  case (1 a)
  show ?case
  proof (cases "drop_bit 8 a = 0")
    case True
    have "unat (last (serialize_bytes a)) = unat a"
      using 1(2) True le_nat_serialize_bytes[of a] by (simp add: serialize_bytes.simps[of a] serialize_bytes.simps[of 0])
    with 1(2) show ?thesis by (auto simp: serialize_bytes.simps[of a] unat_eq_0)
  next
    case False
    with 1 show ?thesis by (simp add: serialize_bytes.simps[of a])
  qed
qed

lemma serialize_bytes_eqI:
  assumes "le_nat bs = unat a" and "bs = [] \<or> last bs \<noteq> 0"
  shows "serialize_bytes a = bs"
proof (rule le_nat_inj)
  show "le_nat (serialize_bytes a) = le_nat bs" using assms(1) by (simp add: le_nat_serialize_bytes)
  show "serialize_bytes a = [] \<or> last (serialize_bytes a) \<noteq> 0"
    using serialize_bytes_last[of a] by (cases "a = 0") (simp_all add: serialize_bytes.simps[of 0])
qed (rule assms(2))

lemma length_serialize_bytes: "unat a < 256 ^ k \<Longrightarrow> length (serialize_bytes a) \<le> k"
proof (rule ccontr)
  assume lt: "unat a < 256 ^ k" and "\<not> length (serialize_bytes a) \<le> k"
  then obtain j where j: "length (serialize_bytes a) = Suc j" "k \<le> j"
    by (metis Suc_le_D not_less_eq_eq)
  then have ne: "serialize_bytes a \<noteq> []" by auto
  then have "a \<noteq> 0" by (auto simp: serialize_bytes.simps)
  then have l: "1 \<le> unat (last (serialize_bytes a))"
    using serialize_bytes_last[of a] by (simp add: Suc_le_eq unat_gt_0)
  have "(256::nat) ^ k \<le> 256 ^ j * 1" using j by (simp add: power_increasing)
  also have "\<dots> \<le> 256 ^ j * unat (last (serialize_bytes a))" by (rule mult_le_mono2[OF l])
  also have "\<dots> \<le> le_nat (serialize_bytes a)"
    using le_nat_append[of "butlast (serialize_bytes a)" "[last (serialize_bytes a)]"] ne j by simp
  finally show False using lt by (simp add: le_nat_serialize_bytes)
qed

lemma le_word_clear_sign:
  "le_word (bs @ [c]) AND NOT (push_bit (8 * length bs) 0x80) = (le_word (bs @ [c AND 0x7F]) :: u64)"
proof (rule bit_word_eqI)
  fix i assume i: "i < LENGTH(64)"
  have c: "bit (c AND 0x7F) j \<longleftrightarrow> bit c j \<and> j < 7" for j
  proof -
    have "c AND 0x7F = take_bit 7 c" by (simp add: take_bit_eq_mask mask_eq_exp_minus_1)
    then show ?thesis by (auto simp: bit_take_bit_iff)
  qed
  have s: "bit (push_bit (8 * length bs) 0x80 :: u64) i \<longleftrightarrow> i = 8 * length bs + 7 \<and> i < 64"
  proof -
    have "bit (2 ^ 7 :: u64) j \<longleftrightarrow> j = 7" for j unfolding bit_exp_iff by auto
    moreover have "(2 :: u64) ^ 7 = 0x80" by simp
    ultimately have e: "bit (0x80 :: u64) j \<longleftrightarrow> j = 7" for j by (simp only:)
    show ?thesis unfolding bit_push_bit_iff e by auto
  qed
  have o: "bit (le_word (bs @ [c]) AND NOT (push_bit (8 * length bs) 0x80) :: u64) i \<longleftrightarrow>
      bit (le_word (bs @ [c]) :: u64) i \<and> i \<noteq> 8 * length bs + 7"
    unfolding bit_and_iff bit_not_iff s using i by auto
  show "bit (le_word (bs @ [c]) AND NOT (push_bit (8 * length bs) 0x80) :: u64) i = bit (le_word (bs @ [c AND 0x7F]) :: u64) i"
  proof (cases "i div 8 = length bs")
    case True
    then have "i = 8 * length bs + i mod 8" by (metis mult.commute mult_div_mod_eq)
    then have "i = 8 * length bs + 7 \<longleftrightarrow> i mod 8 = 7" by linarith
    moreover have "i mod 8 < 7 \<longleftrightarrow> i mod 8 \<noteq> 7" using mod_less_divisor[of 8 i] by linarith
    ultimately show ?thesis
      unfolding o bit_le_word using True c[of "i mod 8"] by (auto simp: nth_append)
  next
    case False
    then have "i \<noteq> 8 * length bs + 7" by auto
    with False show ?thesis unfolding o bit_le_word by (auto simp: nth_append)
  qed
qed

lemma sint_small:
  assumes "unat (w :: u64) < 2 ^ 63"
  shows "sint w = int (unat w)"
proof -
  have "uint w < 2 ^ 63" using assms by (metis of_nat_less_iff of_nat_numeral of_nat_power uint_nat)
  moreover have "- (2 ^ 63) \<le> uint w" by (rule order_trans[of _ 0]) simp_all
  ultimately have "signed_take_bit 63 (uint w) = uint w" by (intro signed_take_bit_int_eq_self)
  moreover have "sint w = signed_take_bit 63 (uint w)" by (simp add: sint_uint)
  ultimately have "sint w = uint w" by simp
  then show ?thesis by (simp only: uint_nat)
qed

lemma le_nat_snoc_63:
  assumes "length bs < 8" and "unat d < 128"
  shows "le_nat (bs @ [d]) < 2 ^ 63"
proof -
  define P where "P = (256 :: nat) ^ length bs"
  have "(256 :: nat) ^ Suc (length bs) \<le> 256 ^ 8"
    using assms by (intro power_increasing) simp_all
  then have "P * 256 \<le> 18446744073709551616" by (simp add: P_def)
  moreover have "P * unat d \<le> P * 127" using assms by (intro mult_le_mono2) simp
  moreover have "le_nat bs < P" unfolding P_def by (rule le_nat_less)
  ultimately have "le_nat bs + P * unat d < 9223372036854775808" by linarith
  then show ?thesis by (simp add: le_nat_append P_def)
qed

lemma set_vch_snoc:
  assumes "length bs < 8"
  shows "set_vch (bs @ [c]) =
     (if 128 \<le> unat c then - int (le_nat (bs @ [c AND 0x7F])) else int (le_nat (bs @ [c])))"
proof -
  note b = le_nat_snoc_63[OF assms]
  have u: "unat (le_word (bs @ [d]) :: u64) = le_nat (bs @ [d])" for d
    using assms by (intro unat_le_word) simp
  show ?thesis
  proof (cases "128 \<le> unat c")
    case True
    then have "c AND 0x80 \<noteq> 0" by (simp add: byte_and_80)
    moreover have "unat (c AND 0x7F) < 128" by (simp add: unat_and_7F)
    ultimately show ?thesis
      using True b[of "c AND 0x7F"] by (simp add: set_vch_def le_word_clear_sign sint_small u)
  next
    case False
    then have "c AND 0x80 = 0" by (simp add: byte_and_80)
    with False show ?thesis using b[of c] by (simp add: set_vch_def sint_small u)
  qed
qed

definition scriptnum_abs :: "int \<Rightarrow> u64" where
  "scriptnum_abs value = (if value < 0 then NOT (word_of_int value :: u64) + 1 else word_of_int value)"

lemma unat_word_of_int64: "0 \<le> k \<Longrightarrow> k < 2 ^ 64 \<Longrightarrow> unat (word_of_int k :: u64) = nat k"
  by (simp add: unsigned_of_int take_bit_int_eq_self)

lemma unat_scriptnum_abs:
  assumes "- (2 ^ 63) \<le> n" and "n < 2 ^ 63"
  shows "unat (scriptnum_abs n) = nat \<bar>n\<bar>"
proof (cases "n < 0")
  case True
  have "NOT (word_of_int n :: u64) + 1 = word_of_int (- n)"
    by (simp flip: minus_eq_not_plus_1)
  then show ?thesis
    using True assms by (simp add: scriptnum_abs_def unat_word_of_int64 del: word_of_int_minus of_int_minus)
next
  case False
  then show ?thesis using assms by (simp add: scriptnum_abs_def unat_word_of_int64)
qed

lemma scriptnum_serialize_alt:
  "scriptnum_serialize n =
     (if n = 0 then []
      else let r = serialize_bytes (scriptnum_abs n) in
        if 128 \<le> unat (last r) then r @ [if n < 0 then 0x80 else 0]
        else if n < 0 then butlast r @ [last r OR 0x80] else r)"
  unfolding scriptnum_serialize_def scriptnum_abs_def[symmetric] Let_def
  by (simp add: byte_and_80 not_less)

lemma serialize_bytes_top:
  assumes "unat a < 2 ^ 63" and "a \<noteq> 0"
  obtains bs l where "serialize_bytes a = bs @ [l]" and "l \<noteq> 0" and "length bs < 8"
    and "128 \<le> unat l \<longrightarrow> length (serialize_bytes a) < 8" and "le_nat (bs @ [l]) = unat a"
proof -
  let ?r = "serialize_bytes a"
  have ne: "?r \<noteq> []" and l0: "last ?r \<noteq> 0" using serialize_bytes_last[OF assms(2)] by auto
  from ne have r: "?r = butlast ?r @ [last ?r]" by simp
  have "length ?r \<le> 8" by (rule length_serialize_bytes) (use assms(1) in simp)
  with ne have len: "length (butlast ?r) < 8" by (cases ?r rule: rev_cases) auto
  have "length ?r < 8" if "128 \<le> unat (last ?r)"
  proof (rule ccontr)
    assume "\<not> length ?r < 8"
    with \<open>length ?r \<le> 8\<close> have "length (butlast ?r) = 7" by simp
    then have "256 ^ 7 * unat (last ?r) \<le> le_nat ?r"
      using le_nat_append[of "butlast ?r" "[last ?r]"] r by simp
    with that assms(1) show False by (simp add: le_nat_serialize_bytes)
  qed
  with that r len l0 le_nat_serialize_bytes[of a] show thesis by metis
qed

lemma set_vch_serialize:
  assumes "- (2 ^ 63) < n" and "n < 2 ^ 63"
  shows "set_vch (scriptnum_serialize n) = n"
proof (cases "n = 0")
  case True
  then show ?thesis by (simp add: scriptnum_serialize_def set_vch_def)
next
  case False
  have a: "unat (scriptnum_abs n) = nat \<bar>n\<bar>" using assms by (intro unat_scriptnum_abs) simp_all
  have "unat (scriptnum_abs n) < 2 ^ 63" "scriptnum_abs n \<noteq> 0"
    using a assms False by (auto simp: nat_less_iff unat_eq_0[symmetric])
  then obtain bs l where r: "serialize_bytes (scriptnum_abs n) = bs @ [l]" "l \<noteq> 0" "length bs < 8"
    and top: "128 \<le> unat l \<longrightarrow> length (serialize_bytes (scriptnum_abs n)) < 8"
    and v: "le_nat (bs @ [l]) = unat (scriptnum_abs n)" by (rule serialize_bytes_top)
  note snoc = set_vch_snoc[of "bs @ [l]", simplified] set_vch_snoc[OF r(3)]
  show ?thesis
  proof (cases "128 \<le> unat l")
    case True
    have "le_nat (bs @ [l, 0]) = le_nat (bs @ [l])" by (simp add: le_nat_append)
    with True top r v a False show ?thesis
      by (simp add: scriptnum_serialize_alt snoc)
  next
    case lt: False
    then show ?thesis
      using r v a False by (simp add: scriptnum_serialize_alt Let_def snoc byte_or_80)
  qed
qed

lemma CScriptNum_canonical:
  assumes "CScriptNum vch True k = Inr n" and "k \<le> 8"
  shows "scriptnum_serialize n = vch"
proof (cases vch rule: rev_cases)
  case Nil
  with assms show ?thesis by (auto simp: CScriptNum_def set_vch_def scriptnum_serialize_def split: if_splits)
next
  case (snoc bs c)
  have neb: "\<not> length bs \<le> length bs - Suc 0" if "bs \<noteq> []" using that by (cases bs) simp_all
  from assms snoc have len: "length bs < 8" and n: "n = set_vch (bs @ [c])"
    and min: "c AND 0x7F \<noteq> 0 \<or> (bs \<noteq> [] \<and> 128 \<le> unat (last bs))"
    by (auto simp: CScriptNum_def byte_and_80 not_less nth_append neb last_conv_nth split: if_splits)
  define d where "d = c AND 0x7F"
  have d: "unat d < 128" by (simp add: d_def unat_and_7F)
  have neg: "n = (if 128 \<le> unat c then - int (le_nat (bs @ [d])) else int (le_nat (bs @ [d])))"
    using n set_vch_snoc[OF len, of c] byte_small_and_7F[of c] by (auto simp: d_def not_le)
  have pos: "0 < le_nat (bs @ [d])"
  proof (cases "d = 0")
    case True
    with min have "bs \<noteq> []" "last bs \<noteq> 0" by (auto simp: d_def)
    then show ?thesis using le_nat_pos[of bs] by (simp add: le_nat_append)
  next
    case False
    then show ?thesis by (simp add: le_nat_append unat_gt_0)
  qed
  have lt: "le_nat (bs @ [d]) < 2 ^ 63"
    using le_nat_snoc_63[OF len d] .
  then have rng: "- (2 ^ 63) \<le> n" "n < 2 ^ 63" unfolding neg by (auto simp del: of_nat_power)
  have a: "unat (scriptnum_abs n) = le_nat (bs @ [d])"
    unfolding unat_scriptnum_abs[OF rng] by (simp add: neg)
  have n0: "n \<noteq> 0" and ns: "n < 0 \<longleftrightarrow> 128 \<le> unat c" using neg pos by (auto split: if_splits)
  have cd: "c = (if 128 \<le> unat c then d OR 0x80 else d)"
    using byte_split_80[of c] byte_small_and_7F[of c] by (simp add: d_def)
  show ?thesis
  proof (cases "d = 0")
    case True
    with min have bs: "bs \<noteq> []" "128 \<le> unat (last bs)" by (simp_all add: d_def)
    have "serialize_bytes (scriptnum_abs n) = bs"
      using a bs True by (intro serialize_bytes_eqI) (auto simp: le_nat_append)
    then show ?thesis using bs n0 ns cd True snoc by (simp add: scriptnum_serialize_alt Let_def split: if_splits)
  next
    case False
    have "serialize_bytes (scriptnum_abs n) = bs @ [d]"
      using a False by (intro serialize_bytes_eqI) simp_all
    then show ?thesis using d n0 ns cd snoc by (simp add: scriptnum_serialize_alt Let_def split: if_splits)
  qed
qed

lemma scriptnum_serialize_shape:
  assumes "- (2 ^ 63) < n" and "n < 2 ^ 63" and "n \<noteq> 0"
  obtains bs c where "scriptnum_serialize n = bs @ [c]" and "length bs < 8"
    and "c AND 0x7F \<noteq> 0 \<or> (bs \<noteq> [] \<and> 128 \<le> unat (last bs))"
proof -
  have a: "unat (scriptnum_abs n) = nat \<bar>n\<bar>" using assms by (intro unat_scriptnum_abs) simp_all
  have "unat (scriptnum_abs n) < 2 ^ 63" "scriptnum_abs n \<noteq> 0"
    using a assms by (auto simp: nat_less_iff unat_eq_0[symmetric])
  then obtain bs l where r: "serialize_bytes (scriptnum_abs n) = bs @ [l]" "l \<noteq> 0" "length bs < 8"
    and top: "128 \<le> unat l \<longrightarrow> length (serialize_bytes (scriptnum_abs n)) < 8"
    by (rule serialize_bytes_top)
  show thesis
  proof (cases "128 \<le> unat l")
    case True
    with top r assms(3) show thesis
      by (intro that[of "bs @ [l]" "if n < 0 then 0x80 else 0"]) (simp_all add: scriptnum_serialize_alt)
  next
    case False
    then show thesis
      using r assms(3) by (intro that[of bs "if n < 0 then l OR 0x80 else l"])
        (simp_all add: scriptnum_serialize_alt Let_def byte_or_80 byte_small_and_7F)
  qed
qed

lemma CScriptNum_serialize:
  assumes "1 \<le> k" and "k \<le> 8" and "\<bar>n\<bar> < 2 ^ (8 * k - 1)"
  shows "CScriptNum (scriptnum_serialize n) fRequireMinimal k = Inr n"
proof (cases "n = 0")
  case True
  then show ?thesis by (simp add: CScriptNum_def scriptnum_serialize_def set_vch_def)
next
  case False
  have "(2 :: int) ^ (8 * k - 1) \<le> 2 ^ 63" using assms(2) by (intro power_increasing) simp_all
  with assms(3) have rng: "- (2 ^ 63) < n" "n < 2 ^ 63" by linarith+
  from scriptnum_serialize_shape[OF this False] obtain bs c where s: "scriptnum_serialize n = bs @ [c]"
    and len: "length bs < 8" and min: "c AND 0x7F \<noteq> 0 \<or> (bs \<noteq> [] \<and> 128 \<le> unat (last bs))" .
  have v: "set_vch (bs @ [c]) = n" using set_vch_serialize[OF rng] s by simp
  have "length bs < k"
  proof (rule ccontr)
    assume "\<not> length bs < k"
    then obtain j where j: "length bs = k + j" by (metis le_Suc_ex not_less)
    define d where "d = c AND 0x7F"
    have n: "nat \<bar>n\<bar> = le_nat (bs @ [d])"
      using v set_vch_snoc[OF len, of c] byte_small_and_7F[of c] by (auto simp: d_def split: if_splits)
    have p: "(2 :: nat) ^ (8 * k - 1) = 128 * 256 ^ (k - 1)"
      using assms(1) by (cases k) (simp_all add: power_add power_mult)
    have "128 * 256 ^ (k - 1) \<le> le_nat (bs @ [d])"
    proof (cases "d = 0")
      case True
      with min have b: "bs \<noteq> []" "128 \<le> unat (last bs)" by (simp_all add: d_def)
      have "(256::nat) ^ (k - 1) \<le> 256 ^ length (butlast bs)" using j by (intro power_increasing) simp_all
      then have "256 ^ (k - 1) * 128 \<le> 256 ^ length (butlast bs) * unat (last bs)"
        using b(2) by (rule mult_le_mono)
      also have "\<dots> \<le> le_nat bs"
        using le_nat_append[of "butlast bs" "[last bs]"] b(1) by simp
      finally show ?thesis by (simp add: le_nat_append)
    next
      case d0: False
      have "(256::nat) ^ k \<le> 256 ^ length bs" using j by (intro power_increasing) simp_all
      then have "256 ^ k * 1 \<le> 256 ^ length bs * unat d"
        using d0 by (intro mult_le_mono) (simp_all add: Suc_le_eq unat_gt_0)
      moreover have "128 * 256 ^ (k - 1) \<le> (256 :: nat) ^ k" using assms(1) by (cases k) simp_all
      ultimately show ?thesis by (simp add: le_nat_append)
    qed
    with n p have "2 ^ (8 * k - 1) \<le> nat \<bar>n\<bar>" by simp
    with assms(3) show False by (simp add: nat_le_iff le_nat_iff)
  qed
  with min v s show ?thesis
    by (auto simp: CScriptNum_def byte_and_80 not_less nth_append last_conv_nth)
qed

lemma le_nat_snoc_less:
  assumes "unat d < 128"
  shows "le_nat (bs @ [d]) < 2 ^ (8 * Suc (length bs) - 1)"
proof -
  define P where "P = (256 :: nat) ^ length bs"
  have "P * unat d \<le> P * 127" using assms by (intro mult_le_mono2) simp
  moreover have "le_nat bs < P" unfolding P_def by (rule le_nat_less)
  ultimately have "le_nat bs + P * unat d < 128 * P" by linarith
  moreover have "(2 :: nat) ^ (8 * Suc (length bs) - 1) = 128 * P" by (simp add: P_def power_add power_mult)
  ultimately show ?thesis by (simp add: le_nat_append P_def)
qed

lemma CScriptNum_range:
  assumes "CScriptNum vch m k = Inr n" and "k \<le> 8" and "1 \<le> k"
  shows "\<bar>n\<bar> < 2 ^ (8 * k - 1)"
proof (cases vch rule: rev_cases)
  case Nil
  with assms show ?thesis by (auto simp: CScriptNum_def set_vch_def split: if_splits)
next
  case (snoc bs c)
  from assms snoc have len: "length bs < k" and n: "n = set_vch (bs @ [c])"
    by (auto simp: CScriptNum_def split: if_splits)
  then have len8: "length bs < 8" using assms by simp
  define d where "d = c AND 0x7F"
  have "\<bar>n\<bar> = int (le_nat (bs @ [d]))"
    using n set_vch_snoc[OF len8, of c] byte_small_and_7F[of c] by (auto simp: d_def not_le)
  moreover have "le_nat (bs @ [d]) < 2 ^ (8 * Suc (length bs) - 1)"
    by (rule le_nat_snoc_less) (simp add: d_def unat_and_7F)
  moreover have "(2 :: nat) ^ (8 * Suc (length bs) - 1) \<le> 2 ^ (8 * k - 1)"
    using len by (intro power_increasing) simp_all
  ultimately have "nat \<bar>n\<bar> < 2 ^ (8 * k - 1)" by (metis less_le_trans nat_int)
  then show ?thesis by (simp add: nat_less_iff)
qed

subsection \<open>Pushing and decoding\<close>

lemma GetOp2_push_data:
  assumes "length b < 2 ^ 32"
  shows "GetOp2 (push_data [] b @ rest) = (True, hd (push_data [] b), b, rest)"
proof -
  let ?n = "length b"
  consider (a) "?n < 76" | (b) "76 \<le> ?n" "?n \<le> 255" | (c) "255 < ?n" "?n \<le> 65535" | (d) "65535 < ?n" by linarith
  then show ?thesis
  proof cases
    case a
    then have "(of_nat ?n :: u8) < 0x4c" "(of_nat ?n :: u8) \<le> 0x4e" "unat (of_nat ?n :: u8) = ?n"
      by (simp_all add: word_less_nat_alt word_le_nat_alt unat_of_nat take_bit_nat_eq_self)
    then show ?thesis using a
      by (auto simp: GetOp2_def GetOp2_size_def push_data_def)
  next
    case b
    then have "unat (of_nat ?n :: u8) = ?n" by (simp add: unat_of_nat take_bit_nat_eq_self)
    then show ?thesis using b by (auto simp: GetOp2_def GetOp2_size_def push_data_def)
  next
    case c
    then have "unat (of_nat ?n :: u16) = ?n" by (simp add: unat_of_nat take_bit_nat_eq_self)
    moreover have "(le_word (le_bytes 2 (of_nat ?n :: u16)) :: u16) = of_nat ?n" by (rule le_word_le_bytes_id) simp
    ultimately show ?thesis using c
      by (auto simp: GetOp2_def GetOp2_size_def push_data_def length_le_bytes simp del: le_bytes.simps)
  next
    case d
    then have "unat (of_nat ?n :: u32) = ?n" using assms by (simp add: unat_of_nat take_bit_nat_eq_self)
    moreover have "(le_word (le_bytes 4 (of_nat ?n :: u32)) :: u32) = of_nat ?n" by (rule le_word_le_bytes_id) simp
    ultimately show ?thesis using d
      by (auto simp: GetOp2_def GetOp2_size_def push_data_def length_le_bytes simp del: le_bytes.simps)
  qed
qed

lemma push_data_append: "push_data s b = s @ push_data [] b"
  by (simp add: push_data_def)

lemma push_data_opcode: "length b < 2 ^ 32 \<Longrightarrow> hd (push_data [] b) \<le> OP_PUSHDATA4"
  by (auto simp: push_data_def word_le_nat_alt unat_of_nat take_bit_nat_eq_self)


subsection \<open>The instructions of a script\<close>

text \<open>
  The instructions \<open>GetOp2\<close> yields from a position, up to the end or the first one
  that does not decode, and whether the end was reached.  The scans of the code are
  characterised as functions of this list.
\<close>

function script_ops :: "bytes \<Rightarrow> (u8 \<times> bytes) list \<times> bool" where
  "script_ops pc =
     (if pc = [] then ([], True)
      else let (fRet, opcode, d, pc') = GetOp2 pc in
        if fRet then (let (ops, e) = script_ops pc' in ((opcode, d) # ops, e)) else ([], False))"
  by pat_completeness auto
termination
  by (relation "measure length") (auto dest: GetOp2_shrinks')

declare script_ops.simps [simp del]

lemma script_ops_Nil [simp]: "script_ops [] = ([], True)"
  by (simp add: script_ops.simps)

lemma script_ops_fail: "pc \<noteq> [] \<Longrightarrow> GetOp2 pc = (False, opcode, d, pc') \<Longrightarrow> script_ops pc = ([], False)"
  by (simp add: script_ops.simps)

lemma script_ops_step:
  "GetOp2 pc = (True, opcode, d, pc') \<Longrightarrow>
     script_ops pc = ((opcode, d) # fst (script_ops pc'), snd (script_ops pc'))"
  by (subst script_ops.simps) (auto simp: GetOp2_def split: prod.splits)

lemma script_induct [case_names End Fail Step]:
  assumes "P []"
    and "\<And>pc opcode d pc'. pc \<noteq> [] \<Longrightarrow> GetOp2 pc = (False, opcode, d, pc') \<Longrightarrow> P pc"
    and "\<And>pc opcode d pc'. pc \<noteq> [] \<Longrightarrow> GetOp2 pc = (True, opcode, d, pc') \<Longrightarrow> P pc' \<Longrightarrow> P pc"
  shows "P pc"
proof (induction pc rule: length_induct)
  case (1 pc)
  obtain r opcode d pc' where g: "GetOp2 pc = (r, opcode, d, pc')" by (metis prod_cases4)
  show ?case
  proof (cases "pc = []")
    case False
    with g 1 assms(2,3) show ?thesis by (cases r) (auto dest: GetOp2_shrinks)
  qed (simp add: assms(1))
qed

lemmas script_op_simps = script_ops_fail script_ops_step

lemma Find_loop_ops: "Find_loop opc pc n = n + length (filter (\<lambda>(opcode, d). opcode = opc) (fst (script_ops pc)))"
  by (induction pc arbitrary: n rule: script_induct)
    (simp_all add: Find_loop.simps script_op_simps)

lemma IsPushOnly_ops:
  "IsPushOnly pc \<longleftrightarrow> snd (script_ops pc) \<and> (\<forall>(opcode, d) \<in> set (fst (script_ops pc)). opcode \<le> OP_16)"
  by (induction pc rule: script_induct)
    (auto simp add: IsPushOnly.simps script_op_simps not_less)

lemma last_push_ops:
  "last_push pc dat = (if IsPushOnly pc then Some (last (dat # map snd (fst (script_ops pc)))) else None)"
  by (induction pc arbitrary: dat rule: script_induct)
    (auto simp add: last_push.simps IsPushOnly.simps script_op_simps)

text \<open>The signature operations of an instruction list; \<open>prev\<close> is the instruction before.\<close>

fun sigops :: "bool \<Rightarrow> u8 \<Rightarrow> (u8 \<times> bytes) list \<Rightarrow> int" where
  "sigops fAccurate prev [] = 0"
| "sigops fAccurate prev ((opcode, d) # ops) =
     (if opcode = OP_CHECKSIG \<or> opcode = OP_CHECKSIGVERIFY then 1
      else if opcode = OP_CHECKMULTISIG \<or> opcode = OP_CHECKMULTISIGVERIFY then
        (if fAccurate \<and> OP_1 \<le> prev \<and> prev \<le> OP_16 then int (unat prev) - 0x50 else 20)
      else 0) + sigops fAccurate opcode ops"

lemma GetSigOpCount_loop_ops:
  "GetSigOpCount_loop fAccurate pc prev n = n + sigops fAccurate prev (fst (script_ops pc))"
  by (induction pc arbitrary: n prev rule: script_induct)
    (auto simp add: GetSigOpCount_loop.simps script_op_simps MAX_PUBKEYS_PER_MULTISIG_def DecodeOP_N_def
      word_le_nat_alt)

lemma sigops_bounds: "0 \<le> sigops a prev ops \<and> sigops a prev ops \<le> 20 * int (length ops)"
  by (induction a prev ops rule: sigops.induct) (auto simp: word_le_def)

lemma sigops_accurate: "sigops True prev ops \<le> sigops False prev ops"
  by (induction True prev ops rule: sigops.induct) (auto simp: word_le_def)

lemma script_ops_length: "length (fst (script_ops pc)) \<le> length pc"
  by (induction pc rule: script_induct) (auto simp: script_op_simps dest: GetOp2_shrinks)


subsection \<open>FindAndDelete\<close>

lemma FindAndDelete_skip_split:
  "FindAndDelete_skip b pc n = (pc', n') \<Longrightarrow>
     n \<le> n' \<and> pc = concat (replicate (n' - n) b) @ pc'"
proof (induction b pc n rule: FindAndDelete_skip.induct)
  case (1 b pc n)
  show ?case
  proof (cases "b \<noteq> [] \<and> length b \<le> length pc \<and> take (length b) pc = b")
    case True
    with 1 have IH: "Suc n \<le> n'" "drop (length b) pc = concat (replicate (n' - Suc n) b) @ pc'"
      by (simp_all add: FindAndDelete_skip.simps[of b pc])
    then have "concat (replicate (n' - n) b) = b @ concat (replicate (n' - Suc n) b)"
      by (simp add: Suc_diff_le flip: Suc_diff_Suc)
    with IH True show ?thesis by (metis append.assoc append_take_drop_id Suc_leD)
  next
    case False
    with 1(2) show ?thesis by (auto simp: FindAndDelete_skip.simps[of b pc])
  qed
qed

text \<open>\<open>deleted b xs k ys\<close>: \<open>ys\<close> is \<open>xs\<close> with \<open>k\<close> occurrences of \<open>b\<close> taken out.\<close>

inductive deleted :: "bytes \<Rightarrow> bytes \<Rightarrow> nat \<Rightarrow> bytes \<Rightarrow> bool" for b where
  del_nil: "deleted b [] 0 []"
| del_keep: "deleted b xs k ys \<Longrightarrow> deleted b (xs @ z) k (ys @ z)"
| del_cut: "deleted b xs k ys \<Longrightarrow> deleted b (xs @ b) (Suc k) ys"

lemma deleted_cuts: "deleted b xs k ys \<Longrightarrow> deleted b (xs @ concat (replicate j b)) (k + j) ys"
proof (induction j)
  case (Suc j)
  have "concat (replicate (Suc j) b) = concat (replicate j b) @ b"
    by (induction j) auto
  with del_cut[OF Suc.IH[OF Suc.prems]] show ?case by simp
qed simp

lemma deleted_length: "deleted b xs k ys \<Longrightarrow> length xs = length ys + k * length b"
  by (induction rule: deleted.induct) auto

lemma deleted_0: "deleted b xs 0 ys \<Longrightarrow> ys = xs"
  by (induction xs "0 :: nat" ys rule: deleted.induct) auto

lemma GetOp2_suffix:
  assumes "GetOp2 pc = (True, opcode, d, pc')"
  obtains z where "pc = z @ pc'"
proof -
  have "\<exists>k. pc' = drop k pc"
    using assms by (auto simp: GetOp2_def GetOp2_size_def split: list.splits if_splits option.splits)
      (metis drop_Suc_Cons drop_drop drop0)+
  then show thesis using that by (metis append_take_drop_id)
qed

lemma FindAndDelete_loop_deleted:
  assumes "deleted b xs n (result @ z)" and "pc2 = z @ pc" and "script = xs @ pc"
    and "FindAndDelete_loop b pc pc2 result n = (res, tl2, m)"
  shows "deleted b script m (res @ tl2)"
  using assms
proof (induction b pc pc2 result n arbitrary: xs z rule: FindAndDelete_loop.induct)
  case (1 b pc pc2 result n)
  obtain pc' n' where s: "FindAndDelete_skip b pc n = (pc', n')" by fastforce
  obtain r opcode d pc'' where g: "GetOp2 pc' = (r, opcode, d, pc'')" by (metis prod_cases4)
  from FindAndDelete_skip_split[OF s] have nn: "n \<le> n'" and pc: "pc = concat (replicate (n' - n) b) @ pc'" by auto
  have res: "result @ take (length pc2 - length pc) pc2 = result @ z" using 1(3) by simp
  have del: "deleted b (xs @ concat (replicate (n' - n) b)) n' (result @ z)"
    using deleted_cuts[OF 1(2), of "n' - n"] nn by simp
  have scr: "script = (xs @ concat (replicate (n' - n) b)) @ pc'" using 1(4) pc by simp
  show ?case
  proof (cases r)
    case True
    with g have "GetOp2 pc' = (True, opcode, d, pc'')" by simp
    then obtain z' where z': "pc' = z' @ pc''" by (rule GetOp2_suffix)
    have "FindAndDelete_loop b pc'' pc' (result @ z) n' = (res, tl2, m)"
      using 1(5) s g True res by (simp add: FindAndDelete_loop.simps[of b pc])
    moreover have "deleted b ((xs @ concat (replicate (n' - n) b)) @ z') n' ((result @ z) @ z')"
      using del by (rule del_keep)
    ultimately show ?thesis
      using 1(1)[OF refl refl s[symmetric] refl refl g[symmetric] refl refl True] res scr z' by simp
  next
    case False
    with 1(5) s g res have "res = result @ z" "tl2 = pc'" "m = n'"
      by (simp_all add: FindAndDelete_loop.simps[of b pc])
    then show ?thesis using del_keep[OF del, of pc'] scr by simp
  qed
qed

lemma FindAndDelete_deleted:
  assumes "FindAndDelete script b = (script', n)"
  shows "deleted b script n script'"
proof -
  have "deleted b script 0 script" using del_keep[OF del_nil, of b script] by simp
  moreover have "deleted b script m (res @ tl2)"
    if "FindAndDelete_loop b script script [] 0 = (res, tl2, m)" for res tl2 m
    using FindAndDelete_loop_deleted[OF _ _ _ that, of "[]" "[]"] by (simp add: del_nil)
  ultimately show ?thesis
    using assms by (auto simp: FindAndDelete_def split: if_splits prod.splits)
qed


section \<open>Properties\<close>

text \<open>C35: Script numbers.  For every operand width \<open>k\<close> from 1 to 8 bytes, decoding with
  \<open>fRequireMinimal\<close> yields \<open>n\<close> exactly on the bytes \<open>CScriptNum::serialize(n)\<close>, and
  exactly for \<open>|n| < 2^(8k-1)\<close>: minimal decoding and serialization are inverse
  bijections, and every other byte string of at most \<open>k\<close> bytes is rejected.\<close>

theorem scriptnum_minimal_iff:
  assumes "1 \<le> k" and "k \<le> 8"
  shows "CScriptNum vch True k = Inr n \<longleftrightarrow> vch = scriptnum_serialize n \<and> \<bar>n\<bar> < 2 ^ (8 * k - 1)"
  using assms CScriptNum_canonical[of vch k n] CScriptNum_range[of vch True k n] CScriptNum_serialize[of k n True]
  by auto

theorem scriptnum_minimal_iff_witness:
  "CScriptNum [0xff, 0x80] True nDefaultMaxNumSize = Inr (- 255) \<and> CScriptNum [0xff, 0x00, 0x80] True 4 \<noteq> Inr (- 255)"
  using scriptnum_minimal_iff[of nDefaultMaxNumSize "[0xff, 0x80]" "- 255"]
    scriptnum_minimal_iff[of 4 "[0xff, 0x00, 0x80]" "- 255"]
  by (simp add: nDefaultMaxNumSize_def scriptnum_serialize_def serialize_bytes.simps)

text \<open>Push and decode.  Whatever byte vector below 4 GiB \<open>operator<<\<close> appends to a
  script, \<open>GetOp2\<close> at that position succeeds, returns an opcode of the push range and
  exactly the pushed bytes, and stops at the end of the push.\<close>

theorem GetOp2_push:
  assumes "length b < 2 ^ 32"
  shows "\<exists>opcode. GetOp2 (drop (length script) (push_data script b @ rest)) = (True, opcode, b, rest) \<and> opcode \<le> OP_PUSHDATA4"
proof -
  have "drop (length script) (push_data script b @ rest) = push_data [] b @ rest"
    by (simp add: push_data_append[of script])
  then show ?thesis using GetOp2_push_data[OF assms] push_data_opcode[OF assms] by simp
qed

theorem GetOp2_push_witness:
  "\<exists>opcode. GetOp2 (drop (length [OP_DUP]) (push_data [OP_DUP] (replicate 300 7) @ [OP_EQUAL])) =
     (True, opcode, replicate 300 7, [OP_EQUAL]) \<and> opcode \<le> OP_PUSHDATA4"
  using GetOp2_push[of "replicate 300 7" "[OP_DUP]" "[OP_EQUAL]"] by simp

text \<open>Signature-operation counting.  The count is a function of the decoded
  instructions alone (20 per multisig, or the preceding small integer when counting
  accurately), it never exceeds 20 per script byte, and the accurate count never exceeds
  the legacy one.\<close>

theorem GetSigOpCount_spec:
  "GetSigOpCount script fAccurate = sigops fAccurate OP_INVALIDOPCODE (fst (script_ops script)) \<and>
   0 \<le> GetSigOpCount script fAccurate \<and> GetSigOpCount script fAccurate \<le> 20 * int (length script) \<and>
   GetSigOpCount script True \<le> GetSigOpCount script False"
proof -
  have e: "GetSigOpCount script a = sigops a OP_INVALIDOPCODE (fst (script_ops script))" for a
    by (simp add: GetSigOpCount_def GetSigOpCount_loop_ops)
  show ?thesis
    unfolding e using sigops_bounds[of fAccurate "OP_INVALIDOPCODE" "fst (script_ops script)"]
      sigops_accurate[of "OP_INVALIDOPCODE" "fst (script_ops script)"] script_ops_length[of script] by auto
qed

text \<open>Signature removal.  \<open>FindAndDelete\<close> returns the script with exactly the
  reported number of copies of the pattern taken out and everything else kept in order;
  so the script shrinks by that many pattern lengths, and is unchanged when it reports 0.\<close>

theorem FindAndDelete_spec:
  assumes "FindAndDelete script b = (script', n)"
  shows "deleted b script n script' \<and> length script = length script' + n * length b \<and> (n = 0 \<longrightarrow> script' = script)"
  using FindAndDelete_deleted[OF assms] deleted_length[OF FindAndDelete_deleted[OF assms]] deleted_0 by auto

theorem FindAndDelete_spec_witness:
  "FindAndDelete [OP_DUP, 0x02, 9, 9, OP_DUP, OP_DUP] [OP_DUP] = ([0x02, 9, 9], 3) \<and>
   length [OP_DUP, 0x02, 9, 9, OP_DUP, OP_DUP] = length [0x02, 9, 9 :: u8] + 3 * length [OP_DUP]"
proof -
  have e: "FindAndDelete [OP_DUP, 0x02, 9, 9, OP_DUP, OP_DUP] [OP_DUP] = ([0x02, 9, 9], 3)"
    by (simp add: FindAndDelete_def FindAndDelete_loop.simps FindAndDelete_skip.simps GetOp2_def GetOp2_size_def)
  show ?thesis using e FindAndDelete_spec[OF e] by blast
qed

end
