(* ===== verification/Transaction.thy ===== *)
theory Transaction
  imports Script
begin

text \<open>
  Transactions and blocks, \<open>src/src/primitives\<close> and the Sapling part of a transaction,
  \<open>src/src/sapling/sapling_transaction.h\<close>: the data, their predicates, value sums, and
  the wire format with its readers.  \<open>int16_t\<close>, \<open>int32_t\<close> and \<open>CAmount\<close> fields are
  integers; the writers reduce them to the width of the field and the readers sign
  extend.  Vectors of objects are read with \<open>Unserialize_list\<close>, which agrees with the
  chunked vector reader for every element size (theorem \<open>vector_roundtrip\<close>).
  The hash of a serialized object is a parameter \<open>H\<close> on bytes.
\<close>

unbundle bit_operations_syntax

section \<open>Data\<close>

record COutPoint =
  op_hash :: u256
  op_n :: u32

definition COutPoint_null :: COutPoint where
  "COutPoint_null = \<lparr>op_hash = 0, op_n = - 1\<rparr>"

definition COutPoint_IsNull :: "COutPoint \<Rightarrow> bool" where
  "COutPoint_IsNull p \<longleftrightarrow> op_hash p = 0 \<and> op_n p = - 1"

definition COutPoint_less :: "COutPoint \<Rightarrow> COutPoint \<Rightarrow> bool" where
  "COutPoint_less a b \<longleftrightarrow> op_hash a < op_hash b \<or> (op_hash a = op_hash b \<and> op_n a < op_n b)"

record CTxIn =
  prevout :: COutPoint
  scriptSig :: CScript
  nSequence :: u32

definition SEQUENCE_FINAL :: u32 where "SEQUENCE_FINAL = 0xffffffff"

definition CTxIn_IsFinal :: "CTxIn \<Rightarrow> bool" where
  "CTxIn_IsFinal i \<longleftrightarrow> nSequence i = SEQUENCE_FINAL"

definition CTxIn_IsNull :: "CTxIn \<Rightarrow> bool" where
  "CTxIn_IsNull i \<longleftrightarrow> COutPoint_IsNull (prevout i) \<and> scriptSig i = [] \<and> CTxIn_IsFinal i"

record CTxOut =
  nValue :: CAmount
  scriptPubKey :: CScript
  fWSSFundingTransaction :: bool
  nRounds :: int

definition CTxOut_null :: CTxOut where
  "CTxOut_null = \<lparr>nValue = - 1, scriptPubKey = [], fWSSFundingTransaction = False, nRounds = - 10\<rparr>"

definition CTxOut_make :: "CAmount \<Rightarrow> CScript \<Rightarrow> CTxOut" where
  "CTxOut_make v s = \<lparr>nValue = v, scriptPubKey = s, fWSSFundingTransaction = False, nRounds = - 10\<rparr>"

definition CTxOut_IsNull :: "CTxOut \<Rightarrow> bool" where
  "CTxOut_IsNull out \<longleftrightarrow> nValue out = - 1"

definition CTxOut_SetEmpty :: "CTxOut \<Rightarrow> CTxOut" where
  "CTxOut_SetEmpty out = out\<lparr>nValue := 0, scriptPubKey := [], fWSSFundingTransaction := False\<rparr>"

definition CTxOut_IsEmpty :: "CTxOut \<Rightarrow> bool" where
  "CTxOut_IsEmpty out \<longleftrightarrow> nValue out = 0 \<and> scriptPubKey out = []"

record SpendDescription =
  sd_cv :: u256
  sd_anchor :: u256
  sd_nullifier :: u256
  sd_rk :: u256
  sd_zkproof :: bytes
  sd_spendAuthSig :: bytes

record OutputDescription =
  od_cv :: u256
  od_cmu :: u256
  od_ephemeralKey :: u256
  od_encCiphertext :: bytes
  od_outCiphertext :: bytes
  od_zkproof :: bytes

record SaplingTxData =
  valueBalance :: CAmount
  vShieldedSpend :: "SpendDescription list"
  vShieldedOutput :: "OutputDescription list"
  bindingSig :: bytes

definition hasBindingSig :: "SaplingTxData \<Rightarrow> bool" where
  "hasBindingSig d \<longleftrightarrow> list_ex (\<lambda>c. c \<noteq> 0) (bindingSig d)"

record CTransaction =
  nVersion :: int
  nType :: int
  vin :: "CTxIn list"
  vout :: "CTxOut list"
  nLockTime :: u32
  sapData :: "SaplingTxData option"
  extraPayload :: "bytes option"

section \<open>Predicates and sums\<close>

definition tx_IsNull :: "CTransaction \<Rightarrow> bool" where
  "tx_IsNull tx \<longleftrightarrow> vin tx = [] \<and> vout tx = []"

definition hasSaplingData :: "CTransaction \<Rightarrow> bool" where
  "hasSaplingData tx \<longleftrightarrow>
     (case sapData tx of
        None \<Rightarrow> False
      | Some d \<Rightarrow> vShieldedOutput d \<noteq> [] \<or> vShieldedSpend d \<noteq> [] \<or> valueBalance d \<noteq> 0 \<or> hasBindingSig d)"

definition isSaplingVersion :: "CTransaction \<Rightarrow> bool" where
  "isSaplingVersion tx \<longleftrightarrow> 3 \<le> nVersion tx"

definition IsShieldedTx :: "CTransaction \<Rightarrow> bool" where
  "IsShieldedTx tx \<longleftrightarrow> isSaplingVersion tx \<and> hasSaplingData tx"

definition hasExtraPayload :: "CTransaction \<Rightarrow> bool" where
  "hasExtraPayload tx \<longleftrightarrow> (case extraPayload tx of None \<Rightarrow> False | Some p \<Rightarrow> p \<noteq> [])"

definition IsNormalType :: "CTransaction \<Rightarrow> bool" where
  "IsNormalType tx \<longleftrightarrow> nType tx = 0"

definition IsSpecialTx :: "CTransaction \<Rightarrow> bool" where
  "IsSpecialTx tx \<longleftrightarrow> isSaplingVersion tx \<and> nType tx \<noteq> 0 \<and> hasExtraPayload tx"

datatype SigVersion = SIGVERSION_BASE | SIGVERSION_SAPLING

definition GetRequiredSigVersion :: "CTransaction \<Rightarrow> SigVersion" where
  "GetRequiredSigVersion tx = (if isSaplingVersion tx then SIGVERSION_SAPLING else SIGVERSION_BASE)"

definition tx_IsCoinBase :: "CTransaction \<Rightarrow> bool" where
  "tx_IsCoinBase tx \<longleftrightarrow> length (vin tx) = 1 \<and> COutPoint_IsNull (prevout (vin tx ! 0))"

definition tx_IsCoinStake :: "CTransaction \<Rightarrow> bool" where
  "tx_IsCoinStake tx \<longleftrightarrow>
     (if vin tx = [] then False
      else if COutPoint_IsNull (prevout (vin tx ! 0)) then False
      else 2 \<le> length (vout tx) \<and> CTxOut_IsEmpty (vout tx ! 0))"

definition HasP2CSOutputs :: "CTransaction \<Rightarrow> bool" where
  "HasP2CSOutputs tx \<longleftrightarrow> list_ex (\<lambda>txout. IsPayToColdStaking (scriptPubKey txout)) (vout tx)"

datatype value_error = ValueNegative | ValueWraps | InvalidTxVersion

text \<open>
  The sums are \<open>int64_t\<close>; \<open>int64_wrap\<close> is the two's-complement reduction the check
  \<open>nValueOut + nValue < nValueOut\<close> is written for.
\<close>

fun GetValueOut_loop :: "CTxOut list \<Rightarrow> CAmount \<Rightarrow> value_error + CAmount" where
  "GetValueOut_loop [] nValueOut = Inr nValueOut"
| "GetValueOut_loop (out # outs) nValueOut =
     (if nValue out < 0 then Inl ValueNegative
      else if int64_wrap (nValueOut + nValue out) < nValueOut then Inl ValueWraps
      else GetValueOut_loop outs (int64_wrap (nValueOut + nValue out)))"

definition GetValueOut :: "CTransaction \<Rightarrow> value_error + CAmount" where
  "GetValueOut tx =
     (case GetValueOut_loop (vout tx) 0 of
        Inl e \<Rightarrow> Inl e
      | Inr nValueOut \<Rightarrow>
          if hasSaplingData tx \<and> valueBalance (the (sapData tx)) < 0 then
            (if \<not> isSaplingVersion tx then Inl InvalidTxVersion
             else Inr (int64_wrap (nValueOut + - valueBalance (the (sapData tx)))))
          else Inr nValueOut)"

definition GetShieldedValueIn :: "CTransaction \<Rightarrow> value_error + CAmount" where
  "GetShieldedValueIn tx =
     (if hasSaplingData tx \<and> 0 < valueBalance (the (sapData tx)) then
        (if \<not> isSaplingVersion tx then Inl InvalidTxVersion
         else Inr (valueBalance (the (sapData tx))))
      else Inr 0)"

fun CalculateModifiedSize_loop :: "CTxIn list \<Rightarrow> u32 \<Rightarrow> u32" where
  "CalculateModifiedSize_loop [] nTxSize = nTxSize"
| "CalculateModifiedSize_loop (i # is) nTxSize =
     (let offset = 41 + min 110 (of_nat (length (scriptSig i))) in
      CalculateModifiedSize_loop is (if offset < nTxSize then nTxSize - offset else nTxSize))"

section \<open>Wire format\<close>

definition Serialize_uint256 :: "u256 \<Rightarrow> bytes" where
  "Serialize_uint256 h = le_bytes 32 h"

definition Unserialize_uint256 :: "u256 reader" where
  "Unserialize_uint256 = rbind (stream_read 32) (\<lambda>obj. rreturn (le_word obj))"

interpretation c256: canonical_codec Serialize_uint256 Unserialize_uint256 "\<lambda>_. True"
  unfolding Serialize_uint256_def[abs_def] Unserialize_uint256_def by (rule le_codec) simp

definition Serialize_int16 :: "int \<Rightarrow> bytes" where "Serialize_int16 a = ser_writedata16 (word_of_int a)"
definition Unserialize_int16 :: "int reader" where
  "Unserialize_int16 = rbind ser_readdata16 (\<lambda>a. rreturn (sint a))"
definition Serialize_int32 :: "int \<Rightarrow> bytes" where "Serialize_int32 a = ser_writedata32 (word_of_int a)"
definition Unserialize_int32 :: "int reader" where
  "Unserialize_int32 = rbind ser_readdata32 (\<lambda>a. rreturn (sint a))"
definition Serialize_int64 :: "int \<Rightarrow> bytes" where "Serialize_int64 a = ser_writedata64 (word_of_int a)"
definition Unserialize_int64 :: "int reader" where
  "Unserialize_int64 = rbind ser_readdata64 (\<lambda>a. rreturn (sint a))"

definition Serialize_COutPoint :: "COutPoint \<Rightarrow> bytes" where
  "Serialize_COutPoint p = Serialize_uint256 (op_hash p) @ ser_writedata32 (op_n p)"

definition Unserialize_COutPoint :: "COutPoint reader" where
  "Unserialize_COutPoint =
     rbind Unserialize_uint256 (\<lambda>h. rbind ser_readdata32 (\<lambda>i. rreturn \<lparr>op_hash = h, op_n = i\<rparr>))"

definition Serialize_CTxIn :: "CTxIn \<Rightarrow> bytes" where
  "Serialize_CTxIn i =
     Serialize_COutPoint (prevout i) @ Serialize_blob (scriptSig i) @ ser_writedata32 (nSequence i)"

definition Unserialize_CTxIn :: "CTxIn reader" where
  "Unserialize_CTxIn =
     rbind Unserialize_COutPoint (\<lambda>p. rbind Unserialize_blob (\<lambda>s. rbind ser_readdata32 (\<lambda>q.
       rreturn \<lparr>prevout = p, scriptSig = s, nSequence = q\<rparr>)))"

definition Serialize_CTxOut :: "CTxOut \<Rightarrow> bytes" where
  "Serialize_CTxOut out = Serialize_int64 (nValue out) @ Serialize_blob (scriptPubKey out)"

definition Unserialize_CTxOut :: "CTxOut reader" where
  "Unserialize_CTxOut =
     rbind Unserialize_int64 (\<lambda>v. rbind Unserialize_blob (\<lambda>s.
       rreturn (CTxOut_null\<lparr>nValue := v, scriptPubKey := s\<rparr>)))"

definition Serialize_SpendDescription :: "SpendDescription \<Rightarrow> bytes" where
  "Serialize_SpendDescription d =
     Serialize_uint256 (sd_cv d) @ Serialize_uint256 (sd_anchor d) @ Serialize_uint256 (sd_nullifier d) @
     Serialize_uint256 (sd_rk d) @ Serialize_array ser_writedata8 (sd_zkproof d) @
     Serialize_array ser_writedata8 (sd_spendAuthSig d)"

definition GROTH_PROOF_SIZE :: nat where "GROTH_PROOF_SIZE = 48 + 96 + 48"
definition SPEND_AUTH_SIG_SIZE :: nat where "SPEND_AUTH_SIG_SIZE = 64"
definition ZC_SAPLING_ENCCIPHERTEXT_SIZE :: nat where
  "ZC_SAPLING_ENCCIPHERTEXT_SIZE = (1 + 11 + 8 + 32 + 512) + 16"
definition ZC_SAPLING_OUTCIPHERTEXT_SIZE :: nat where "ZC_SAPLING_OUTCIPHERTEXT_SIZE = (32 + 32) + 16"
definition BINDINGSIG_SIZE :: nat where "BINDINGSIG_SIZE = 64"

definition Unserialize_SpendDescription :: "SpendDescription reader" where
  "Unserialize_SpendDescription =
     rbind Unserialize_uint256 (\<lambda>cv. rbind Unserialize_uint256 (\<lambda>anchor.
     rbind Unserialize_uint256 (\<lambda>nf. rbind Unserialize_uint256 (\<lambda>rk.
     rbind (Unserialize_array GROTH_PROOF_SIZE ser_readdata8) (\<lambda>zk.
     rbind (Unserialize_array SPEND_AUTH_SIG_SIZE ser_readdata8) (\<lambda>sg.
       rreturn \<lparr>sd_cv = cv, sd_anchor = anchor, sd_nullifier = nf, sd_rk = rk, sd_zkproof = zk,
         sd_spendAuthSig = sg\<rparr>))))))"

definition Serialize_OutputDescription :: "OutputDescription \<Rightarrow> bytes" where
  "Serialize_OutputDescription d =
     Serialize_uint256 (od_cv d) @ Serialize_uint256 (od_cmu d) @ Serialize_uint256 (od_ephemeralKey d) @
     Serialize_array ser_writedata8 (od_encCiphertext d) @
     Serialize_array ser_writedata8 (od_outCiphertext d) @ Serialize_array ser_writedata8 (od_zkproof d)"

definition Unserialize_OutputDescription :: "OutputDescription reader" where
  "Unserialize_OutputDescription =
     rbind Unserialize_uint256 (\<lambda>cv. rbind Unserialize_uint256 (\<lambda>cmu.
     rbind Unserialize_uint256 (\<lambda>epk.
     rbind (Unserialize_array ZC_SAPLING_ENCCIPHERTEXT_SIZE ser_readdata8) (\<lambda>enc.
     rbind (Unserialize_array ZC_SAPLING_OUTCIPHERTEXT_SIZE ser_readdata8) (\<lambda>outc.
     rbind (Unserialize_array GROTH_PROOF_SIZE ser_readdata8) (\<lambda>zk.
       rreturn \<lparr>od_cv = cv, od_cmu = cmu, od_ephemeralKey = epk, od_encCiphertext = enc,
         od_outCiphertext = outc, od_zkproof = zk\<rparr>))))))"

definition Serialize_SaplingTxData :: "SaplingTxData \<Rightarrow> bytes" where
  "Serialize_SaplingTxData d =
     Serialize_int64 (valueBalance d) @ Serialize_vec Serialize_SpendDescription (vShieldedSpend d) @
     Serialize_vec Serialize_OutputDescription (vShieldedOutput d) @
     Serialize_array ser_writedata8 (bindingSig d)"

definition Unserialize_SaplingTxData :: "SaplingTxData reader" where
  "Unserialize_SaplingTxData =
     rbind Unserialize_int64 (\<lambda>vb.
     rbind (Unserialize_list Unserialize_SpendDescription) (\<lambda>sp.
     rbind (Unserialize_list Unserialize_OutputDescription) (\<lambda>op.
     rbind (Unserialize_array BINDINGSIG_SIZE ser_readdata8) (\<lambda>sg.
       rreturn \<lparr>valueBalance = vb, vShieldedSpend = sp, vShieldedOutput = op, bindingSig = sg\<rparr>))))"

definition SaplingTxData_default :: SaplingTxData where
  "SaplingTxData_default =
     \<lparr>valueBalance = 0, vShieldedSpend = [], vShieldedOutput = [], bindingSig = replicate BINDINGSIG_SIZE 0\<rparr>"

definition SerializeTransaction :: "CTransaction \<Rightarrow> bytes" where
  "SerializeTransaction tx =
     Serialize_int16 (nVersion tx) @ Serialize_int16 (nType tx) @
     Serialize_vec Serialize_CTxIn (vin tx) @ Serialize_vec Serialize_CTxOut (vout tx) @
     ser_writedata32 (nLockTime tx) @
     (if isSaplingVersion tx then
        Serialize_optional Serialize_SaplingTxData (sapData tx) @
        (if \<not> IsNormalType tx then Serialize_optional Serialize_blob (extraPayload tx) else [])
      else [])"

text \<open>
  A \<open>CMutableTransaction\<close> starts with an empty \<open>SaplingTxData\<close> and no payload; the
  fields the format does not carry keep those values.
\<close>

definition UnserializeTransaction :: "CTransaction reader" where
  "UnserializeTransaction =
     rbind Unserialize_int16 (\<lambda>ver. rbind Unserialize_int16 (\<lambda>typ.
     rbind (Unserialize_list Unserialize_CTxIn) (\<lambda>ins.
     rbind (Unserialize_list Unserialize_CTxOut) (\<lambda>outs.
     rbind ser_readdata32 (\<lambda>lock.
       let tx = \<lparr>nVersion = ver, nType = typ, vin = ins, vout = outs, nLockTime = lock,
                 sapData = Some SaplingTxData_default, extraPayload = None\<rparr> in
       if isSaplingVersion tx then
         rbind (Unserialize_optional Unserialize_SaplingTxData) (\<lambda>sap.
           if \<not> IsNormalType tx then
             rbind (Unserialize_optional Unserialize_blob) (\<lambda>pl.
               rreturn (tx\<lparr>sapData := sap, extraPayload := pl\<rparr>))
           else rreturn (tx\<lparr>sapData := sap\<rparr>))
       else rreturn tx)))))"

definition GetTotalSize :: "CTransaction \<Rightarrow> nat" where
  "GetTotalSize tx = length (SerializeTransaction tx)"

definition CalculateModifiedSize :: "CTransaction \<Rightarrow> u32 \<Rightarrow> u32" where
  "CalculateModifiedSize tx nTxSize =
     CalculateModifiedSize_loop (vin tx) (if nTxSize = 0 then of_nat (GetTotalSize tx) else nTxSize)"

definition tx_GetHash :: "(bytes \<Rightarrow> u256) \<Rightarrow> CTransaction \<Rightarrow> u256" where
  "tx_GetHash H tx = H (SerializeTransaction tx)"

section \<open>Blocks\<close>

record CBlockHeader =
  hdr_nVersion :: int
  hashPrevBlock :: u256
  hashMerkleRoot :: u256
  nTime :: u32
  nBits :: u32
  nNonce :: u32
  hashFinalSaplingRoot :: u256

definition CBlockHeader_null :: CBlockHeader where
  "CBlockHeader_null = \<lparr>hdr_nVersion = 9, hashPrevBlock = 0, hashMerkleRoot = 0, nTime = 0, nBits = 0,
     nNonce = 0, hashFinalSaplingRoot = 0\<rparr>"

definition CBlockHeader_IsNull :: "CBlockHeader \<Rightarrow> bool" where
  "CBlockHeader_IsNull h \<longleftrightarrow> nBits h = 0"

definition Serialize_CBlockHeader :: "CBlockHeader \<Rightarrow> bytes" where
  "Serialize_CBlockHeader h =
     Serialize_int32 (hdr_nVersion h) @ Serialize_uint256 (hashPrevBlock h) @
     Serialize_uint256 (hashMerkleRoot h) @ ser_writedata32 (nTime h) @ ser_writedata32 (nBits h) @
     ser_writedata32 (nNonce h) @
     (if 8 \<le> hdr_nVersion h then Serialize_uint256 (hashFinalSaplingRoot h) else [])"

definition Unserialize_CBlockHeader :: "CBlockHeader reader" where
  "Unserialize_CBlockHeader =
     rbind Unserialize_int32 (\<lambda>ver. rbind Unserialize_uint256 (\<lambda>prev. rbind Unserialize_uint256 (\<lambda>mrk.
     rbind ser_readdata32 (\<lambda>tm. rbind ser_readdata32 (\<lambda>bt. rbind ser_readdata32 (\<lambda>nc.
       let h = CBlockHeader_null\<lparr>hdr_nVersion := ver, hashPrevBlock := prev, hashMerkleRoot := mrk,
                 nTime := tm, nBits := bt, nNonce := nc\<rparr> in
       if 8 \<le> ver then rbind Unserialize_uint256 (\<lambda>r. rreturn (h\<lparr>hashFinalSaplingRoot := r\<rparr>))
       else rreturn h))))))"

text \<open>
  \<open>BEGIN(nVersion) \<dots> END(nNonce)\<close>, the 80 bytes Quark hashes for versions below 4,
  is the header without the Sapling root.
\<close>

definition CBlockHeader_GetHash :: "(bytes \<Rightarrow> u256) \<Rightarrow> (bytes \<Rightarrow> u256) \<Rightarrow> CBlockHeader \<Rightarrow> u256" where
  "CBlockHeader_GetHash HashQuark H h =
     (if hdr_nVersion h < 4 then
        HashQuark (Serialize_int32 (hdr_nVersion h) @ Serialize_uint256 (hashPrevBlock h) @
          Serialize_uint256 (hashMerkleRoot h) @ ser_writedata32 (nTime h) @ ser_writedata32 (nBits h) @
          ser_writedata32 (nNonce h))
      else H (Serialize_CBlockHeader h))"

record CBlock =
  header :: CBlockHeader
  vtx :: "CTransaction list"
  vchBlockSig :: bytes

definition IsProofOfStake :: "CBlock \<Rightarrow> bool" where
  "IsProofOfStake b \<longleftrightarrow> 1 < length (vtx b) \<and> tx_IsCoinStake (vtx b ! 1)"

definition GetBlockHeader :: "CBlock \<Rightarrow> CBlockHeader" where
  "GetBlockHeader b =
     CBlockHeader_null\<lparr>hdr_nVersion := hdr_nVersion (header b), hashPrevBlock := hashPrevBlock (header b),
       hashMerkleRoot := hashMerkleRoot (header b), nTime := nTime (header b), nBits := nBits (header b),
       nNonce := nNonce (header b),
       hashFinalSaplingRoot := (if 8 \<le> hdr_nVersion (header b) then hashFinalSaplingRoot (header b) else 0)\<rparr>"

definition Serialize_CBlock :: "CBlock \<Rightarrow> bytes" where
  "Serialize_CBlock b =
     Serialize_CBlockHeader (header b) @ Serialize_vec SerializeTransaction (vtx b) @
     (if 1 < length (vtx b) \<and> tx_IsCoinStake (vtx b ! 1) then Serialize_blob (vchBlockSig b) else [])"

definition Unserialize_CBlock :: "CBlock reader" where
  "Unserialize_CBlock =
     rbind Unserialize_CBlockHeader (\<lambda>h. rbind (Unserialize_list UnserializeTransaction) (\<lambda>txs.
       if 1 < length txs \<and> tx_IsCoinStake (txs ! 1)
       then rbind Unserialize_blob (\<lambda>sg. rreturn \<lparr>header = h, vtx = txs, vchBlockSig = sg\<rparr>)
       else rreturn \<lparr>header = h, vtx = txs, vchBlockSig = []\<rparr>))"

section \<open>Round trips\<close>

lemma sint_word_of_int:
  assumes "- (2 ^ (LENGTH('a::len) - 1)) \<le> n" and "n < 2 ^ (LENGTH('a) - 1)"
  shows "sint (word_of_int n :: 'a word) = n"
  using assms by (simp add: signed_of_int signed_take_bit_int_eq_self)

definition int16_ok :: "int \<Rightarrow> bool" where "int16_ok n \<longleftrightarrow> - (2 ^ 15) \<le> n \<and> n < 2 ^ 15"
definition int32_ok :: "int \<Rightarrow> bool" where "int32_ok n \<longleftrightarrow> - (2 ^ 31) \<le> n \<and> n < 2 ^ 31"

lemma sint_word_of_int_ok:
  "int16_ok n \<Longrightarrow> sint (word_of_int n :: u16) = n"
  "int32_ok n \<Longrightarrow> sint (word_of_int n :: u32) = n"
  "int64_ok n \<Longrightarrow> sint (word_of_int n :: u64) = n"
  by (simp_all add: sint_word_of_int int16_ok_def int32_ok_def int64_ok_def)

interpretation i16: codec Serialize_int16 Unserialize_int16 int16_ok
  by unfold_locales
    (simp add: Serialize_int16_def Unserialize_int16_def rbind_def c16.unser_ser sint_word_of_int_ok)

interpretation i32: codec Serialize_int32 Unserialize_int32 int32_ok
  by unfold_locales
    (simp add: Serialize_int32_def Unserialize_int32_def rbind_def c32.unser_ser sint_word_of_int_ok)

interpretation i64: codec Serialize_int64 Unserialize_int64 int64_ok
  by unfold_locales
    (simp add: Serialize_int64_def Unserialize_int64_def rbind_def c64.unser_ser sint_word_of_int_ok)

text \<open>What a reader can give back: sizes within the stream limits, fixed arrays of their size,
  and memory-only fields at their initial values.\<close>

definition CTxIn_ok :: "CTxIn \<Rightarrow> bool" where
  "CTxIn_ok i \<longleftrightarrow> length (scriptSig i) \<le> unat MAX_SIZE"

definition CTxOut_ok :: "CTxOut \<Rightarrow> bool" where
  "CTxOut_ok out \<longleftrightarrow> int64_ok (nValue out) \<and> length (scriptPubKey out) \<le> unat MAX_SIZE \<and>
     \<not> fWSSFundingTransaction out \<and> nRounds out = - 10"

definition SpendDescription_ok :: "SpendDescription \<Rightarrow> bool" where
  "SpendDescription_ok d \<longleftrightarrow> length (sd_zkproof d) = GROTH_PROOF_SIZE \<and> length (sd_spendAuthSig d) = SPEND_AUTH_SIG_SIZE"

definition OutputDescription_ok :: "OutputDescription \<Rightarrow> bool" where
  "OutputDescription_ok d \<longleftrightarrow> length (od_encCiphertext d) = ZC_SAPLING_ENCCIPHERTEXT_SIZE \<and>
     length (od_outCiphertext d) = ZC_SAPLING_OUTCIPHERTEXT_SIZE \<and> length (od_zkproof d) = GROTH_PROOF_SIZE"

definition SaplingTxData_ok :: "SaplingTxData \<Rightarrow> bool" where
  "SaplingTxData_ok d \<longleftrightarrow> int64_ok (valueBalance d) \<and>
     list_all SpendDescription_ok (vShieldedSpend d) \<and> length (vShieldedSpend d) \<le> unat MAX_SIZE \<and>
     list_all OutputDescription_ok (vShieldedOutput d) \<and> length (vShieldedOutput d) \<le> unat MAX_SIZE \<and>
     length (bindingSig d) = BINDINGSIG_SIZE"

definition CTransaction_ok :: "CTransaction \<Rightarrow> bool" where
  "CTransaction_ok tx \<longleftrightarrow> int16_ok (nVersion tx) \<and> int16_ok (nType tx) \<and>
     list_all CTxIn_ok (vin tx) \<and> length (vin tx) \<le> unat MAX_SIZE \<and>
     list_all CTxOut_ok (vout tx) \<and> length (vout tx) \<le> unat MAX_SIZE \<and>
     (if isSaplingVersion tx then pred_option SaplingTxData_ok (sapData tx)
      else sapData tx = Some SaplingTxData_default) \<and>
     (if isSaplingVersion tx \<and> \<not> IsNormalType tx then pred_option (\<lambda>p. length p \<le> unat MAX_SIZE) (extraPayload tx)
      else extraPayload tx = None)"

definition CBlock_ok :: "CBlock \<Rightarrow> bool" where
  "CBlock_ok b \<longleftrightarrow> int32_ok (hdr_nVersion (header b)) \<and>
     (\<not> 8 \<le> hdr_nVersion (header b) \<longrightarrow> hashFinalSaplingRoot (header b) = 0) \<and>
     list_all CTransaction_ok (vtx b) \<and> length (vtx b) \<le> unat MAX_SIZE \<and>
     (if IsProofOfStake b then length (vchBlockSig b) \<le> unat MAX_SIZE else vchBlockSig b = [])"

interpretation outpoint: codec Serialize_COutPoint Unserialize_COutPoint "\<lambda>_. True"
  by unfold_locales
    (simp add: Serialize_COutPoint_def Unserialize_COutPoint_def rbind_def c256.unser_ser c32.unser_ser)

interpretation txin: codec Serialize_CTxIn Unserialize_CTxIn CTxIn_ok
  by unfold_locales
    (simp add: Serialize_CTxIn_def Unserialize_CTxIn_def rbind_def outpoint.unser_ser blob.unser_ser
      c32.unser_ser CTxIn_ok_def)

interpretation txout: codec Serialize_CTxOut Unserialize_CTxOut CTxOut_ok
  by unfold_locales
    (simp add: Serialize_CTxOut_def Unserialize_CTxOut_def rbind_def i64.unser_ser blob.unser_ser
      CTxOut_ok_def CTxOut_null_def)

lemma byte_array_unser_ser:
  "length xs = N \<Longrightarrow>
     Unserialize_array N ser_readdata8 (Serialize_array ser_writedata8 xs @ rest) = Inr (xs, rest)"
  by (rule codec.unser_ser[OF c8.array_codec]) (simp add: list_all_iff)

interpretation spend: codec Serialize_SpendDescription Unserialize_SpendDescription SpendDescription_ok
  by unfold_locales
    (simp add: Serialize_SpendDescription_def Unserialize_SpendDescription_def rbind_def c256.unser_ser
      byte_array_unser_ser SpendDescription_ok_def)

interpretation outdesc: codec Serialize_OutputDescription Unserialize_OutputDescription OutputDescription_ok
  by unfold_locales
    (simp add: Serialize_OutputDescription_def Unserialize_OutputDescription_def rbind_def c256.unser_ser
      byte_array_unser_ser OutputDescription_ok_def)

interpretation sapling: codec Serialize_SaplingTxData Unserialize_SaplingTxData SaplingTxData_ok
  by unfold_locales
    (simp add: Serialize_SaplingTxData_def Unserialize_SaplingTxData_def rbind_def i64.unser_ser
      codec.unser_ser[OF spend.list_codec] codec.unser_ser[OF outdesc.list_codec] byte_array_unser_ser
      SaplingTxData_ok_def)

interpretation tx: codec SerializeTransaction UnserializeTransaction CTransaction_ok
  by unfold_locales
    (auto simp: SerializeTransaction_def UnserializeTransaction_def rbind_def i16.unser_ser c32.unser_ser
      codec.unser_ser[OF txin.list_codec] codec.unser_ser[OF txout.list_codec]
      codec.unser_ser[OF sapling.optional_codec] codec.unser_ser[OF blob.optional_codec]
      CTransaction_ok_def isSaplingVersion_def IsNormalType_def Let_def)

interpretation blockheader: codec Serialize_CBlockHeader Unserialize_CBlockHeader
    "\<lambda>h. int32_ok (hdr_nVersion h) \<and> (\<not> 8 \<le> hdr_nVersion h \<longrightarrow> hashFinalSaplingRoot h = 0)"
  by unfold_locales
    (auto simp: Serialize_CBlockHeader_def Unserialize_CBlockHeader_def rbind_def i32.unser_ser c256.unser_ser
      c32.unser_ser CBlockHeader_null_def Let_def)

interpretation block: codec Serialize_CBlock Unserialize_CBlock CBlock_ok
  by unfold_locales
    (auto simp: Serialize_CBlock_def Unserialize_CBlock_def rbind_def blockheader.unser_ser
      codec.unser_ser[OF tx.list_codec] blob.unser_ser CBlock_ok_def IsProofOfStake_def)

section \<open>Value sums\<close>

lemma int64_wrap_id: "int64_ok n \<Longrightarrow> int64_wrap n = n"
  by (simp add: int64_wrap_def sint_word_of_int_ok)

lemma int64_wrap_over:
  assumes "2 ^ 63 \<le> n" and "n < 2 ^ 64"
  shows "int64_wrap n = n - 2 ^ 64"
proof -
  have "(word_of_int n :: u64) = word_of_int (n - 2 ^ 64)"
    unfolding word_of_int_eq_iff take_bit_eq_mod using minus_mod_self2[of n "2 ^ 64"] by simp
  then have "int64_wrap n = int64_wrap (n - 2 ^ 64)" by (simp only: int64_wrap_def)
  also have "\<dots> = n - 2 ^ 64" using assms by (intro int64_wrap_id) (simp add: int64_ok_def)
  finally show ?thesis .
qed

lemma GetValueOut_loop_iff:
  assumes "0 \<le> acc" and "int64_ok acc" and "\<forall>out \<in> set outs. int64_ok (nValue out)"
  shows "GetValueOut_loop outs acc = Inr v \<longleftrightarrow>
    (\<forall>out \<in> set outs. 0 \<le> nValue out) \<and> v = acc + sum_list (map nValue outs) \<and> int64_ok v"
  using assms
proof (induction outs arbitrary: acc)
  case (Cons out outs)
  have a: "0 \<le> acc" "acc < 2 ^ 63" and o: "nValue out < 2 ^ 63" using Cons.prems by (auto simp: int64_ok_def)
  show ?case
  proof (cases "0 \<le> nValue out")
    case True
    show ?thesis
    proof (cases "acc + nValue out < 2 ^ 63")
      case fits: True
      then have "int64_ok (acc + nValue out)" using a True by (simp add: int64_ok_def)
      with Cons.IH[of "acc + nValue out"] Cons.prems True a show ?thesis
        by (auto simp: int64_wrap_id algebra_simps)
    next
      case False
      then have "int64_wrap (acc + nValue out) < acc" using a o True by (simp add: int64_wrap_over)
      moreover have "\<not> int64_ok (acc + (nValue out + sum_list (map nValue outs)))"
        if "\<forall>out \<in> set outs. 0 \<le> nValue out"
      proof -
        have "0 \<le> sum_list (map nValue outs)" using that by (intro sum_list_nonneg) auto
        with False show ?thesis by (simp add: int64_ok_def)
      qed
      ultimately show ?thesis using True by auto
    qed
  qed auto
qed auto

section \<open>Properties\<close>

text \<open>C36: Blocks on the wire.  Reading back a serialized block, header, transactions with their
  Sapling parts and payloads, and the block signature of a proof-of-stake block, returns the
  block and consumes exactly its bytes.\<close>

theorem block_roundtrip:
  assumes "CBlock_ok b"
  shows "Unserialize_CBlock (Serialize_CBlock b @ rest) = Inr (b, rest)"
  using assms by (rule block.unser_ser)

definition sample_tx :: CTransaction where
  "sample_tx = \<lparr>nVersion = 3, nType = 0,
     vin = [\<lparr>prevout = \<lparr>op_hash = 7, op_n = 1\<rparr>, scriptSig = [OP_1], nSequence = SEQUENCE_FINAL\<rparr>],
     vout = [CTxOut_make 0 [], CTxOut_make 250 [OP_1]],
     nLockTime = 0, sapData = Some (SaplingTxData_default\<lparr>valueBalance := - 5\<rparr>), extraPayload = None\<rparr>"

definition sample_block :: CBlock where
  "sample_block = \<lparr>header = CBlockHeader_null, vtx = [sample_tx, sample_tx], vchBlockSig = [1, 2, 3]\<rparr>"

lemmas sample_defs = sample_block_def sample_tx_def CTxOut_make_def SaplingTxData_default_def CBlockHeader_null_def
  SEQUENCE_FINAL_def

lemmas sample_ok_defs = CBlock_ok_def CTransaction_ok_def CTxIn_ok_def CTxOut_ok_def SaplingTxData_ok_def
  int16_ok_def int32_ok_def int64_ok_def MAX_SIZE_def isSaplingVersion_def IsNormalType_def IsProofOfStake_def
  tx_IsCoinStake_def COutPoint_IsNull_def CTxOut_IsEmpty_def

theorem block_roundtrip_witness:
  "IsProofOfStake sample_block \<and> Unserialize_CBlock (Serialize_CBlock sample_block @ [9]) = Inr (sample_block, [9])"
proof -
  have "CBlock_ok sample_block" by (simp add: sample_defs sample_ok_defs)
  moreover have "IsProofOfStake sample_block" by (simp add: sample_defs sample_ok_defs)
  ultimately show ?thesis using block_roundtrip[of sample_block "[9]"] by simp
qed



text \<open>
  The Sapling part of \<open>GetValueOut\<close> is added without the check the outputs get: a transaction
  whose outputs and negative value balance together exceed \<open>int64_t\<close> yields a wrapped sum.
\<close>

lemma GetValueOut_balance_wraps:
  "GetValueOut (sample_tx\<lparr>vout := [CTxOut_make 9223372036854775807 []]\<rparr>) = Inr (- 9223372036854775804)"
  by (simp add: GetValueOut_def sample_defs hasSaplingData_def isSaplingVersion_def int64_wrap_def)

end
