(* ===== verification/Compressor.thy ===== *)
theory Compressor
  imports Transaction
begin

text \<open>
  The compact formats of the coin database, \<open>src/src/compressor.h\<close> and \<open>compressor.cpp\<close>:
  amounts with their decimal exponent taken out, and scripts with one-byte templates for
  the common output types; \<open>CPubKey\<close> of \<open>pubkey.h\<close> as far as scripts need it.  Point
  parsing and serialization of libsecp256k1 are the parameters \<open>ec_parse\<close> and
  \<open>ec_serialize\<close> (uncompressed form).
\<close>

unbundle bit_operations_syntax

section \<open>Amounts\<close>

fun CompressAmount_loop :: "u64 \<Rightarrow> nat \<Rightarrow> nat \<Rightarrow> u64 \<times> nat" where
  "CompressAmount_loop n e 0 = (n, e)"
| "CompressAmount_loop n e (Suc k) =
     (if n mod 10 = 0 then CompressAmount_loop (n div 10) (Suc e) k else (n, e))"

text \<open>The loop \<open>while (((n % 10) == 0) && e < 9)\<close> starts with \<open>e = 0\<close>: at most nine rounds.\<close>

definition CompressAmount :: "u64 \<Rightarrow> u64" where
  "CompressAmount n0 =
     (if n0 = 0 then 0
      else let (n, e) = CompressAmount_loop n0 0 9 in
        if e < 9 then
          (let d = n mod 10; n = n div 10 in 1 + (n * 9 + d - 1) * 10 + of_nat e)
        else 1 + (n - 1) * 10 + 9)"

fun DecompressAmount_loop :: "u64 \<Rightarrow> nat \<Rightarrow> u64" where
  "DecompressAmount_loop n 0 = n"
| "DecompressAmount_loop n (Suc e) = DecompressAmount_loop (n * 10) e"

definition DecompressAmount :: "u64 \<Rightarrow> u64" where
  "DecompressAmount x0 =
     (if x0 = 0 then 0
      else let x = x0 - 1;
               e = unat (x mod 10);
               x = x div 10;
               n = (if e < 9 then (let d = x mod 9 + 1; x = x div 9 in x * 10 + d) else x + 1)
           in DecompressAmount_loop n e)"

section \<open>Public keys\<close>

definition PUBLIC_KEY_SIZE :: nat where "PUBLIC_KEY_SIZE = 65"
definition COMPRESSED_PUBLIC_KEY_SIZE :: nat where "COMPRESSED_PUBLIC_KEY_SIZE = 33"

definition pubkey_GetLen :: "byte \<Rightarrow> nat" where
  "pubkey_GetLen chHeader =
     (if chHeader = 2 \<or> chHeader = 3 then COMPRESSED_PUBLIC_KEY_SIZE
      else if chHeader = 4 \<or> chHeader = 6 \<or> chHeader = 7 then PUBLIC_KEY_SIZE
      else 0)"

definition pubkey_ValidSize :: "bytes \<Rightarrow> bool" where
  "pubkey_ValidSize vch \<longleftrightarrow> 0 < length vch \<and> pubkey_GetLen (vch ! 0) = length vch"

text \<open>A key is its bytes; an invalidated one is the single byte \<open>0xFF\<close>.\<close>

definition pubkey_Set :: "bytes \<Rightarrow> bytes" where
  "pubkey_Set p =
     (let len = (if p = [] then 0 else pubkey_GetLen (p ! 0)) in
      if len \<noteq> 0 \<and> len = length p then p else [0xFF])"

definition pubkey_size :: "bytes \<Rightarrow> nat" where "pubkey_size k = pubkey_GetLen (k ! 0)"
definition pubkey_IsValid :: "bytes \<Rightarrow> bool" where "pubkey_IsValid k \<longleftrightarrow> 0 < pubkey_size k"

definition pubkey_IsFullyValid :: "(bytes \<Rightarrow> 'p option) \<Rightarrow> bytes \<Rightarrow> bool" where
  "pubkey_IsFullyValid ec_parse k \<longleftrightarrow>
     (if \<not> pubkey_IsValid k then False else ec_parse (take (pubkey_size k) k) \<noteq> None)"

definition pubkey_Decompress :: "(bytes \<Rightarrow> 'p option) \<Rightarrow> ('p \<Rightarrow> bytes) \<Rightarrow> bytes \<Rightarrow> bytes option" where
  "pubkey_Decompress ec_parse ec_serialize k =
     (if \<not> pubkey_IsValid k then None
      else case ec_parse (take (pubkey_size k) k) of
        None \<Rightarrow> None
      | Some p \<Rightarrow> Some (pubkey_Set (ec_serialize p)))"

section \<open>Scripts\<close>

definition nSpecialScripts :: u32 where "nSpecialScripts = 6"

definition IsToKeyID :: "CScript \<Rightarrow> bytes option" where
  "IsToKeyID s =
     (if length s = 25 \<and> s ! 0 = OP_DUP \<and> s ! 1 = OP_HASH160 \<and> s ! 2 = 20 \<and> s ! 23 = OP_EQUALVERIFY \<and>
         s ! 24 = OP_CHECKSIG
      then Some (take 20 (drop 3 s)) else None)"

definition IsToScriptID :: "CScript \<Rightarrow> bytes option" where
  "IsToScriptID s =
     (if length s = 23 \<and> s ! 0 = OP_HASH160 \<and> s ! 1 = 20 \<and> s ! 22 = OP_EQUAL
      then Some (take 20 (drop 2 s)) else None)"

definition IsToPubKey :: "(bytes \<Rightarrow> 'p option) \<Rightarrow> CScript \<Rightarrow> bytes option" where
  "IsToPubKey ec_parse s =
     (if length s = 35 \<and> s ! 0 = 33 \<and> s ! 34 = OP_CHECKSIG \<and> (s ! 1 = 0x02 \<or> s ! 1 = 0x03)
      then Some (pubkey_Set (take 33 (drop 1 s)))
      else if length s = 67 \<and> s ! 0 = 65 \<and> s ! 66 = OP_CHECKSIG \<and> s ! 1 = 0x04
      then (let pubkey = pubkey_Set (take 65 (drop 1 s)) in
            if pubkey_IsFullyValid ec_parse pubkey then Some pubkey else None)
      else None)"

definition Compress :: "(bytes \<Rightarrow> 'p option) \<Rightarrow> CScript \<Rightarrow> bytes option" where
  "Compress ec_parse s =
     (case IsToKeyID s of
        Some keyID \<Rightarrow> Some (0x00 # keyID)
      | None \<Rightarrow>
     (case IsToScriptID s of
        Some scriptID \<Rightarrow> Some (0x01 # scriptID)
      | None \<Rightarrow>
     (case IsToPubKey ec_parse s of
        Some pubkey \<Rightarrow>
          (if pubkey ! 0 = 0x02 \<or> pubkey ! 0 = 0x03 then Some (pubkey ! 0 # take 32 (drop 1 pubkey))
           else if pubkey ! 0 = 0x04
             then Some ((0x04 OR (pubkey ! 64 AND 0x01)) # take 32 (drop 1 pubkey))
           else None)
      | None \<Rightarrow> None)))"

definition GetSpecialSize :: "u32 \<Rightarrow> nat" where
  "GetSpecialSize nSize =
     (if nSize = 0 \<or> nSize = 1 then 20
      else if nSize = 2 \<or> nSize = 3 \<or> nSize = 4 \<or> nSize = 5 then 32
      else 0)"

definition Decompress :: "(bytes \<Rightarrow> 'p option) \<Rightarrow> ('p \<Rightarrow> bytes) \<Rightarrow> u32 \<Rightarrow> bytes \<Rightarrow> CScript option" where
  "Decompress ec_parse ec_serialize nSize inp =
     (if nSize = 0x00 then Some ([OP_DUP, OP_HASH160, 20] @ take 20 inp @ [OP_EQUALVERIFY, OP_CHECKSIG])
      else if nSize = 0x01 then Some ([OP_HASH160, 20] @ take 20 inp @ [OP_EQUAL])
      else if nSize = 0x02 \<or> nSize = 0x03 then Some ([33, ucast nSize] @ take 32 inp @ [OP_CHECKSIG])
      else if nSize = 0x04 \<or> nSize = 0x05 then
        (case pubkey_Decompress ec_parse ec_serialize (pubkey_Set (ucast (nSize - 2) # take 32 inp)) of
           None \<Rightarrow> None
         | Some pubkey \<Rightarrow> Some ([65] @ take 65 pubkey @ [OP_CHECKSIG]))
      else None)"

definition Serialize_ScriptCompressor :: "(bytes \<Rightarrow> 'p option) \<Rightarrow> CScript \<Rightarrow> bytes" where
  "Serialize_ScriptCompressor ec_parse script =
     (case Compress ec_parse script of
        Some compr \<Rightarrow> compr
      | None \<Rightarrow> WriteVarInt (of_nat (length script) + nSpecialScripts) @ script)"

definition stream_ignore :: "u32 \<Rightarrow> unit reader" where
  "stream_ignore nSize =
     (if sint nSize < 0 then rthrow NegativeIgnore
      else rbind (stream_read (unat nSize)) (\<lambda>_. rreturn ()))"

text \<open>\<open>script\<close> is the value the object has before the call.\<close>

definition Unserialize_ScriptCompressor ::
  "(bytes \<Rightarrow> 'p option) \<Rightarrow> ('p \<Rightarrow> bytes) \<Rightarrow> CScript \<Rightarrow> CScript reader" where
  "Unserialize_ScriptCompressor ec_parse ec_serialize script =
     rbind ReadVarInt (\<lambda>nSize.
       if nSize < nSpecialScripts then
         rbind (stream_read (GetSpecialSize nSize)) (\<lambda>vch.
           rreturn (case Decompress ec_parse ec_serialize nSize vch of Some s \<Rightarrow> s | None \<Rightarrow> script))
       else
         (let nSize = nSize - nSpecialScripts in
          if of_nat MAX_SCRIPT_SIZE < nSize then
            rbind (stream_ignore nSize) (\<lambda>_. rreturn (push_opcode script OP_RETURN))
          else stream_read (unat nSize)))"

definition Serialize_TxOutCompressor :: "(bytes \<Rightarrow> 'p option) \<Rightarrow> CTxOut \<Rightarrow> bytes" where
  "Serialize_TxOutCompressor ec_parse txout =
     WriteVarInt (CompressAmount (word_of_int (nValue txout))) @
     Serialize_ScriptCompressor ec_parse (scriptPubKey txout)"

definition Unserialize_TxOutCompressor ::
  "(bytes \<Rightarrow> 'p option) \<Rightarrow> ('p \<Rightarrow> bytes) \<Rightarrow> CTxOut \<Rightarrow> CTxOut reader" where
  "Unserialize_TxOutCompressor ec_parse ec_serialize txout =
     rbind ReadVarInt (\<lambda>nVal.
     rbind (Unserialize_ScriptCompressor ec_parse ec_serialize (scriptPubKey txout)) (\<lambda>s.
       rreturn (txout\<lparr>nValue := sint (DecompressAmount nVal), scriptPubKey := s\<rparr>)))"

lemma of_nat_unat_id: "of_nat (unat w) = (w :: 'a::len word)"
  by simp

section \<open>Amounts round trip\<close>

lemma DecompressAmount_loop_eq: "DecompressAmount_loop n e = n * 10 ^ e"
  by (induction n e rule: DecompressAmount_loop.induct) (simp_all add: algebra_simps)

lemma word_mod_10: "(n :: u64) mod 10 = 0 \<longleftrightarrow> unat n mod 10 = 0"
proof -
  have "unat (n mod 10) = unat n mod 10" by (simp add: unat_mod)
  then show ?thesis by (metis unat_eq_0)
qed

lemma CompressAmount_loop_spec:
  "CompressAmount_loop n e k = (m, e') \<Longrightarrow>
     e \<le> e' \<and> e' \<le> e + k \<and> unat n = unat m * 10 ^ (e' - e) \<and> (e' < e + k \<longrightarrow> unat m mod 10 \<noteq> 0)"
proof (induction n e k rule: CompressAmount_loop.induct)
  case (2 n e k)
  show ?case
  proof (cases "n mod 10 = 0")
    case True
    with 2 have IH: "Suc e \<le> e'" "e' \<le> Suc e + k" "unat (n div 10) = unat m * 10 ^ (e' - Suc e)"
      "e' < Suc e + k \<longrightarrow> unat m mod 10 \<noteq> 0" by simp_all
    have "unat n = 10 * unat (n div 10)"
      using True word_mod_10[of n] by (simp add: unat_div) (metis dvd_mult_div_cancel mod_0_imp_dvd)
    moreover have "e' - e = Suc (e' - Suc e)" using IH(1) by simp
    ultimately show ?thesis using IH by simp
  next
    case False
    with 2(2) word_mod_10[of n] show ?thesis by auto
  qed
qed simp

lemma CompressAmount_nat:
  assumes "n \<noteq> 0" and "CompressAmount_loop n 0 9 = (m, e)" and "9 * unat n < 2 ^ 64"
  defines "q \<equiv> unat m div 10" and "d \<equiv> unat m mod 10"
  defines "V \<equiv> if e < 9 then 1 + (q * 9 + d - 1) * 10 + e else 1 + (unat m - 1) * 10 + 9"
  shows "unat (CompressAmount n) = V" and "0 < V"
proof -
  from CompressAmount_loop_spec[OF assms(2)] have e: "e \<le> 9" and N: "unat n = unat m * 10 ^ e"
    and d: "e < 9 \<longrightarrow> d \<noteq> 0" by (simp_all add: d_def)
  have m0: "0 < unat m" using N assms(1) by (metis gr0I mult_is_0 unat_eq_0)
  have dm: "unat m = 10 * q + d" "d < 10" by (simp_all add: q_def d_def)
  have "unat m * 10 \<le> unat n" if "0 < e"
    using N power_increasing[of 1 e "10 :: nat"] that by simp
  moreover have "unat m \<le> unat n" using N by simp
  ultimately have "V \<le> 9 * unat n"
    using e d dm m0 by (cases "e = 0") (auto simp: V_def)
  with assms(3) have V: "V < 2 ^ 64" by simp
  have "CompressAmount n = of_nat V"
  proof (cases "e < 9")
    case True
    have "m mod 10 = of_nat d" "m div 10 = of_nat q"
      by (simp_all add: word_unat_eq_iff q_def d_def unat_mod unat_div unat_of_nat take_bit_nat_eq_self)
        (use unsigned_less[where w = m and 'a = nat] in \<open>simp add: take_bit_nat_eq_self\<close>)
    then show ?thesis using True d assms(1,2) by (simp add: CompressAmount_def V_def Let_def of_nat_diff)
  next
    case False
    have "m - 1 = of_nat (unat m - 1)" using m0 by (simp add: of_nat_diff)
    then show ?thesis using False assms(1,2) by (simp add: CompressAmount_def V_def)
  qed
  with V show "unat (CompressAmount n) = V" by (simp add: unat_of_nat take_bit_nat_eq_self)
  show "0 < V" by (simp add: V_def)
qed

lemma DecompressAmount_CompressAmount:
  assumes "9 * unat n < 2 ^ 64"
  shows "DecompressAmount (CompressAmount n) = n"
proof (cases "n = 0")
  case True
  then show ?thesis by (simp add: CompressAmount_def DecompressAmount_def)
next
  case False
  obtain m e where l: "CompressAmount_loop n 0 9 = (m, e)" by fastforce
  define q where "q = unat m div 10"
  define d where "d = unat m mod 10"
  define V where "V = (if e < 9 then 1 + (q * 9 + d - 1) * 10 + e else 1 + (unat m - 1) * 10 + 9)"
  have V: "unat (CompressAmount n) = V" "0 < V"
    using CompressAmount_nat[OF False l assms] by (simp_all add: V_def q_def d_def)
  from CompressAmount_loop_spec[OF l] have e: "e \<le> 9" and N: "unat n = unat m * 10 ^ e"
    and d: "e < 9 \<longrightarrow> d \<noteq> 0" by (simp_all add: d_def)
  have m0: "0 < unat m" using N False by (metis gr0I mult_is_0 unat_eq_0)
  define x where "x = CompressAmount n - 1"
  have x: "unat x = V - 1" using V by (simp add: x_def unat_minus_one unat_gt_0[symmetric])
  have ex: "unat (x mod 10) = e" and xq: "unat (x div 10) = (if e < 9 then q * 9 + d - 1 else unat m - 1)"
    using x e by (auto simp: unat_mod unat_div V_def)
  have dm: "unat m = 10 * q + d" "d < 10" by (simp_all add: q_def d_def)
  have "n = m * 10 ^ e" using N by (metis of_nat_mult of_nat_numeral of_nat_power of_nat_unat_id)
  moreover have "(if e < 9 then x div 10 div 9 * 10 + (x div 10 mod 9 + 1) else x div 10 + 1) = m"
  proof (cases "e < 9")
    case True
    have "q * 9 + d - 1 = (d - 1) + q * 9" "d - 1 < 9" using True d dm by auto
    then have "(q * 9 + d - 1) div 9 = q" "(q * 9 + d - 1) mod 9 = d - 1" by simp_all
    then have "unat (x div 10 div 9) = q" "unat (x div 10 mod 9) = d - 1"
      using True xq by (simp_all add: unat_div unat_mod)
    then have "x div 10 div 9 = of_nat q" "x div 10 mod 9 = of_nat (d - 1)"
      by (metis of_nat_unat_id)+
    then have "x div 10 div 9 * 10 + (x div 10 mod 9 + 1) = of_nat (10 * q + d)"
      using d True by (simp add: of_nat_diff)
    with True show ?thesis using dm by (metis of_nat_unat_id)
  next
    case F: False
    then have "x div 10 + 1 = of_nat (unat m)" using xq m0
      by (metis Suc_pred' add.commute of_nat_Suc of_nat_unat_id)
    with F show ?thesis by simp
  qed
  moreover have "DecompressAmount (CompressAmount n) =
      (if e < 9 then x div 10 div 9 * 10 + (x div 10 mod 9 + 1) else x div 10 + 1) * 10 ^ e"
  proof -
    have "CompressAmount n \<noteq> 0" using V by (metis unat_eq_0 less_irrefl)
    then show ?thesis
      unfolding DecompressAmount_def Let_def DecompressAmount_loop_eq x_def[symmetric] ex by simp
  qed
  ultimately show ?thesis by simp
qed

section \<open>Scripts round trip\<close>

text \<open>
  What the format relies on from libsecp256k1: an uncompressed key that parses is recovered
  from its x coordinate and the parity of y.
\<close>

definition ec_compression_law :: "(bytes \<Rightarrow> 'p option) \<Rightarrow> ('p \<Rightarrow> bytes) \<Rightarrow> bool" where
  "ec_compression_law ec_parse ec_serialize \<longleftrightarrow>
     (\<forall>k p. length k = 65 \<longrightarrow> k ! 0 = 0x04 \<longrightarrow> ec_parse k = Some p \<longrightarrow>
        ec_serialize p = k \<and> ec_parse ((0x02 OR (k ! 64 AND 0x01)) # take 32 (drop 1 k)) = Some p)"

lemma list_split_at:
  assumes "length s = a + b + c"
  shows "s = take a s @ take b (drop a s) @ drop (a + b) s"
  by (metis append_take_drop_id drop_drop add.commute)

lemma take_prefixes:
  "1 \<le> length s \<Longrightarrow> take 1 s = [s ! 0]"
  "2 \<le> length s \<Longrightarrow> take 2 s = [s ! 0, s ! 1]"
  "3 \<le> length s \<Longrightarrow> take 3 s = [s ! 0, s ! 1, s ! 2]"
  by (auto simp: numeral_2_eq_2 numeral_3_eq_3 Suc_le_length_iff)

lemma drop_suffixes:
  "length s = n + 1 \<Longrightarrow> drop n s = [s ! n]"
  "length s = n + 2 \<Longrightarrow> drop n s = [s ! n, s ! (n + 1)]"
  by (simp_all add: Cons_nth_drop_Suc[symmetric])

lemma IsToKeyID_Some:
  assumes "IsToKeyID s = Some h"
  shows "length h = 20 \<and> s = [OP_DUP, OP_HASH160, 20] @ h @ [OP_EQUALVERIFY, OP_CHECKSIG]"
proof -
  from assms have l: "length s = 25" and i: "s ! 0 = OP_DUP" "s ! 1 = OP_HASH160" "s ! 2 = 20"
    "s ! 23 = OP_EQUALVERIFY" "s ! 24 = OP_CHECKSIG" and h: "h = take 20 (drop 3 s)"
    by (auto simp: IsToKeyID_def split: if_splits)
  have "take 3 s = [s ! 0, s ! 1, s ! 2]" "drop 23 s = [s ! 23, s ! 24]"
    using take_prefixes[of s] drop_suffixes[of s 23] l by simp_all
  then show ?thesis using list_split_at[of s 3 20 2] l i h by simp
qed

lemma IsToScriptID_Some:
  assumes "IsToScriptID s = Some h"
  shows "length h = 20 \<and> s = [OP_HASH160, 20] @ h @ [OP_EQUAL]"
proof -
  from assms have l: "length s = 23" and i: "s ! 0 = OP_HASH160" "s ! 1 = 20" "s ! 22 = OP_EQUAL"
    and h: "h = take 20 (drop 2 s)"
    by (auto simp: IsToScriptID_def split: if_splits)
  have "take 2 s = [s ! 0, s ! 1]" "drop 22 s = [s ! 22]"
    using take_prefixes[of s] drop_suffixes[of s 22] l by simp_all
  then show ?thesis using list_split_at[of s 2 20 1] l i h by simp
qed

lemma IsToPubKey_Some:
  assumes "IsToPubKey ec_parse s = Some k"
  obtains "length k = 33" "k ! 0 = 0x02 \<or> k ! 0 = 0x03" "s = [33] @ k @ [OP_CHECKSIG]"
  | p where "length k = 65" "k ! 0 = 0x04" "s = [65] @ k @ [OP_CHECKSIG]" "ec_parse k = Some p"
proof -
  have "length k = 33 \<and> (k ! 0 = 0x02 \<or> k ! 0 = 0x03) \<and> s = [33] @ k @ [OP_CHECKSIG]"
    if l: "length s = 35" and i: "s ! 0 = 33" "s ! 34 = OP_CHECKSIG" "s ! 1 = 0x02 \<or> s ! 1 = 0x03"
  proof -
    have k: "k = take 33 (drop 1 s)"
      using assms that by (auto simp: IsToPubKey_def pubkey_Set_def pubkey_GetLen_def Let_def
          COMPRESSED_PUBLIC_KEY_SIZE_def split: if_splits)
    have "take 1 s = [s ! 0]" "drop 34 s = [s ! 34]"
      using take_prefixes[of s] drop_suffixes[of s 34] l by simp_all
    then show ?thesis using list_split_at[of s 1 33 1] l i k by simp
  qed
  moreover have "length k = 65 \<and> k ! 0 = 0x04 \<and> s = [65] @ k @ [OP_CHECKSIG] \<and> (\<exists>p. ec_parse k = Some p)"
    if l: "length s = 67" and i: "s ! 0 = 65" "s ! 66 = OP_CHECKSIG" "s ! 1 = 0x04"
  proof -
    have k: "k = take 65 (drop 1 s)" "ec_parse k \<noteq> None"
      using assms that by (auto simp: IsToPubKey_def pubkey_Set_def pubkey_GetLen_def Let_def
          PUBLIC_KEY_SIZE_def pubkey_IsFullyValid_def pubkey_IsValid_def pubkey_size_def split: if_splits)
    have "take 1 s = [s ! 0]" "drop 66 s = [s ! 66]"
      using take_prefixes[of s] drop_suffixes[of s 66] l by simp_all
    then show ?thesis using list_split_at[of s 1 65 1] l i k by simp
  qed
  moreover have "length s = 35 \<and> s ! 0 = 33 \<and> s ! 34 = OP_CHECKSIG \<and> (s ! 1 = 0x02 \<or> s ! 1 = 0x03) \<or>
      length s = 67 \<and> s ! 0 = 65 \<and> s ! 66 = OP_CHECKSIG \<and> s ! 1 = 0x04"
    using assms unfolding IsToPubKey_def by (meson option.distinct(1))
  ultimately show thesis using that by blast
qed


lemma IsToPubKey_head: "IsToPubKey ec_parse s = Some k \<Longrightarrow> k ! 0 = 0x02 \<or> k ! 0 = 0x03 \<or> k ! 0 = 0x04"
  by (erule IsToPubKey_Some) auto

lemma WriteVarInt_small:
  assumes "x < 128"
  shows "WriteVarInt (of_nat x :: u32) = [of_nat x]"
proof -
  have u: "unat (of_nat x :: u32) = x" using assms by (simp add: unat_of_nat take_bit_nat_eq_self)
  then have "(of_nat x :: u32) \<le> 0x7F" using assms by (simp add: word_le_nat_alt)
  moreover have "(of_nat x AND 0x7F :: u32) = of_nat x"
  proof -
    have "(of_nat x AND 0x7F :: u32) = take_bit 7 (of_nat x)" by (simp add: take_bit_eq_mask mask_eq_exp_minus_1)
    also have "\<dots> = of_nat x" using assms u
      by (simp only: word_unat_eq_iff unsigned_take_bit_eq) (simp add: take_bit_nat_eq_self)
    finally show ?thesis .
  qed
  moreover have "(ucast (of_nat x :: u32) :: byte) = of_nat x"
    using assms u by (simp only: word_unat_eq_iff unsigned_ucast_eq) (simp add: unat_of_nat take_bit_nat_eq_self)
  ultimately show ?thesis by (simp add: WriteVarInt_rec)
qed

lemma ReadVarInt_small: "x < 128 \<Longrightarrow> ReadVarInt (of_nat x # rest) = Inr (of_nat x :: u32, rest)"
  using vi32.unser_ser[of "of_nat x" rest] by (simp add: WriteVarInt_small)

lemma Unserialize_special:
  assumes "x < 6" and "length d = GetSpecialSize (of_nat x)"
    and "Decompress ec_parse ec_serialize (of_nat x) d = Some script"
  shows "Unserialize_ScriptCompressor ec_parse ec_serialize script0 ((of_nat x # d) @ rest) = Inr (script, rest)"
proof -
  have "unat (of_nat x :: u32) = x" using assms(1) by (simp add: unat_of_nat take_bit_nat_eq_self)
  then have "(of_nat x :: u32) < nSpecialScripts" using assms(1) by (simp add: nSpecialScripts_def word_less_nat_alt)
  moreover have "ReadVarInt (of_nat x # d @ rest) = Inr (of_nat x :: u32, d @ rest)"
    using assms(1) by (intro ReadVarInt_small) simp
  moreover have "stream_read (GetSpecialSize (of_nat x)) (d @ rest) = Inr (d, rest)"
    using assms(2) by (intro stream_read_append) simp
  ultimately show ?thesis
    using assms(3) by (simp add: Unserialize_ScriptCompressor_def rbind_def)
qed

lemma byte_parity:
  fixes b :: byte
  obtains "b AND 0x01 = 0" | "b AND 0x01 = 1"
proof -
  have "b AND 0x01 = take_bit 1 b" by (simp add: take_bit_eq_mask mask_eq_exp_minus_1)
  then have "unat (b AND 0x01) = unat b mod 2" by (simp only: unsigned_take_bit_eq) (simp add: take_bit_eq_mod)
  then have "b AND 0x01 = 0 \<or> b AND 0x01 = 1" by (auto simp: word_unat_eq_iff)
  with that show thesis by blast
qed

lemma Decompress_uncompressed_key:
  assumes law: "ec_compression_law ec_parse ec_serialize"
    and k: "length k = 65" "k ! 0 = 0x04" "ec_parse k = Some p"
    and x: "x = 4 \<and> k ! 64 AND 0x01 = 0 \<or> x = 5 \<and> k ! 64 AND 0x01 = 1"
  shows "Decompress ec_parse ec_serialize (of_nat x) (take 32 (drop 1 k)) = Some ([65] @ k @ [OP_CHECKSIG])"
proof -
  from law k have s: "ec_serialize p = k"
    and pr: "ec_parse ((0x02 OR (k ! 64 AND 0x01)) # take 32 (drop 1 k)) = Some p"
    by (auto simp: ec_compression_law_def)
  have set: "pubkey_Set k = k" using k by (cases k) (simp_all add: pubkey_Set_def pubkey_GetLen_def PUBLIC_KEY_SIZE_def)
  let ?c = "\<lambda>h. h # take 32 (drop 1 k)"
  have c: "pubkey_Set (?c h) = ?c h \<and> pubkey_size (?c h) = 33" if "h = 2 \<or> h = 3" for h
    using that k by (auto simp: pubkey_Set_def pubkey_GetLen_def pubkey_size_def COMPRESSED_PUBLIC_KEY_SIZE_def)
  have "pubkey_Decompress ec_parse ec_serialize (pubkey_Set (?c h)) = Some k"
    if "h = 2 \<or> h = 3" and "h = 0x02 OR (k ! 64 AND 0x01)" for h
    using c[OF that(1)] pr that(2) k s set by (simp add: pubkey_Decompress_def pubkey_IsValid_def)
  from this[of 2] this[of 3] x k show ?thesis
    by (auto simp: Decompress_def)
qed

lemma Compress_Decompress:
  assumes law: "ec_compression_law ec_parse ec_serialize" and "Compress ec_parse s = Some c"
  shows "\<exists>x d. c = of_nat x # d \<and> x < 6 \<and> length d = GetSpecialSize (of_nat x) \<and>
      Decompress ec_parse ec_serialize (of_nat x) d = Some s"
proof (cases "IsToKeyID s")
  case (Some h)
  with IsToKeyID_Some[OF Some] assms(2) show ?thesis
    by (intro exI[of _ 0] exI[of _ h]) (simp add: Compress_def GetSpecialSize_def Decompress_def)
next
  case kid: None
  show ?thesis
  proof (cases "IsToScriptID s")
    case (Some h)
    with IsToScriptID_Some[OF Some] kid assms(2) show ?thesis
      by (intro exI[of _ 1] exI[of _ h]) (simp add: Compress_def GetSpecialSize_def Decompress_def)
  next
    case sid: None
    with kid assms(2) obtain k where k: "IsToPubKey ec_parse s = Some k"
      by (auto simp: Compress_def split: option.splits)
    let ?d = "take 32 (drop 1 k)"
    from k show ?thesis
    proof (cases rule: IsToPubKey_Some)
      case 1
      then have kd: "k = k ! 0 # ?d" by (cases k) simp_all
      have "c = k ! 0 # ?d" using 1 k kid sid assms(2)
        by (auto simp: Compress_def)
      moreover have "length ?d = 32" using 1 by simp
      moreover have "s = 33 # k ! 0 # ?d @ [OP_CHECKSIG]" using 1(3) kd by (metis append_Cons append_Nil)
      ultimately show ?thesis using 1(2)
        by (intro exI[of _ "unat (k ! 0)"] exI[of _ ?d]) (auto simp: GetSpecialSize_def Decompress_def)
    next
      case (2 p)
      have ck: "c = (0x04 OR (k ! 64 AND 0x01)) # ?d" using 2 k kid sid assms(2)
        by (auto simp: Compress_def)
      have d: "length ?d = 32" using 2 by simp
      note dec = Decompress_uncompressed_key[OF law 2(1,2,4)]
      show ?thesis
      proof (cases rule: byte_parity[of "k ! 64"])
        case 1
        with ck d dec[of 4] 2(3) show ?thesis
          by (intro exI[of _ 4] exI[of _ ?d]) (simp add: GetSpecialSize_def)
      next
        case b: 2
        with ck d dec[of 5] 2(3) show ?thesis
          by (intro exI[of _ 5] exI[of _ ?d]) (simp add: GetSpecialSize_def)
      qed
    qed
  qed
qed

lemma script_compressor_roundtrip:
  assumes law: "ec_compression_law ec_parse ec_serialize" and len: "length s \<le> MAX_SCRIPT_SIZE"
  shows "Unserialize_ScriptCompressor ec_parse ec_serialize script0 (Serialize_ScriptCompressor ec_parse s @ rest)
           = Inr (s, rest)"
proof (cases "Compress ec_parse s")
  case None
  define w where "w = (of_nat (length s) + nSpecialScripts :: u32)"
  have ws: "w = of_nat (length s + 6)" by (simp add: w_def nSpecialScripts_def)
  have uw: "unat w = length s + 6" using len
    unfolding ws by (simp only: unat_of_nat) (simp add: take_bit_nat_eq_self MAX_SCRIPT_SIZE_def)
  have ge: "\<not> w < nSpecialScripts" by (simp add: word_less_nat_alt uw nSpecialScripts_def)
  have sub: "w - nSpecialScripts = of_nat (length s)" by (simp add: w_def)
  have us: "unat (of_nat (length s) :: u32) = length s" using len
    by (simp add: unat_of_nat take_bit_nat_eq_self MAX_SCRIPT_SIZE_def)
  have "\<not> of_nat MAX_SCRIPT_SIZE < (of_nat (length s) :: u32)"
    using len us by (simp add: word_less_nat_alt unat_of_nat take_bit_nat_eq_self MAX_SCRIPT_SIZE_def)
  moreover have "stream_read (length s) (s @ rest) = Inr (s, rest)" by (rule stream_read_append) simp
  moreover have "Serialize_ScriptCompressor ec_parse s = WriteVarInt w @ s"
    by (simp add: Serialize_ScriptCompressor_def None w_def)
  ultimately show ?thesis
    using ge sub us by (simp add: Unserialize_ScriptCompressor_def rbind_def vi32.unser_ser)
next
  case (Some c)
  have ser: "Serialize_ScriptCompressor ec_parse s = c" by (simp add: Serialize_ScriptCompressor_def Some)
  from Compress_Decompress[OF law Some] obtain x d where "c = of_nat x # d" "x < 6" "length d = GetSpecialSize (of_nat x)"
    "Decompress ec_parse ec_serialize (of_nat x) d = Some s" by blast
  then show ?thesis unfolding ser using Unserialize_special[of x d ec_parse ec_serialize s script0 rest] by simp
qed

lemma script_compressor_overlong:
  assumes "MAX_SCRIPT_SIZE < length s" and "length s < 2 ^ 31"
  shows "Unserialize_ScriptCompressor ec_parse ec_serialize script0 (Serialize_ScriptCompressor ec_parse s @ rest)
           = Inr (script0 @ [OP_RETURN], rest)"
proof -
  define w where "w = (of_nat (length s) + nSpecialScripts :: u32)"
  have ws: "w = of_nat (length s + 6)" by (simp add: w_def nSpecialScripts_def)
  have uw: "unat w = length s + 6" using assms(2)
    unfolding ws by (simp only: unat_of_nat) (simp add: take_bit_nat_eq_self)
  have ge: "\<not> w < nSpecialScripts" by (simp add: word_less_nat_alt uw nSpecialScripts_def)
  have sub: "w - nSpecialScripts = of_nat (length s)" by (simp add: w_def)
  have us: "unat (of_nat (length s) :: u32) = length s" using assms(2)
    by (simp add: unat_of_nat take_bit_nat_eq_self)
  have ml: "of_nat MAX_SCRIPT_SIZE < (of_nat (length s) :: u32)"
    using assms(1) us by (simp add: word_less_nat_alt unat_of_nat take_bit_nat_eq_self MAX_SCRIPT_SIZE_def)
  have "length s \<noteq> 25 \<and> length s \<noteq> 23 \<and> length s \<noteq> 35 \<and> length s \<noteq> 67"
    using assms(1) by (auto simp: MAX_SCRIPT_SIZE_def)
  then have "Serialize_ScriptCompressor ec_parse s = WriteVarInt w @ s"
    by (simp add: Serialize_ScriptCompressor_def Compress_def IsToKeyID_def IsToScriptID_def IsToPubKey_def w_def)
  moreover have "stream_read (length s) (s @ rest) = Inr (s, rest)" by (rule stream_read_append) simp
  moreover have "\<not> sint (of_nat (length s) :: u32) < 0"
  proof -
    have "sint (word_of_int (int (length s)) :: u32) = int (length s)"
      using assms(2) by (intro sint_word_of_int) simp_all
    then show ?thesis by simp
  qed
  ultimately show ?thesis
    using ge sub us ml
    by (simp add: Unserialize_ScriptCompressor_def rbind_def vi32.unser_ser stream_ignore_def push_opcode_def)
qed

section \<open>Properties\<close>

text \<open>Compressed outputs.  Writing an output of the coin database in compact form and reading
  it back restores value and script and consumes exactly the bytes written, for every
  non-negative amount below 2^64/9 and every script of at most 10,000 bytes: key-hash,
  script-hash and public-key templates as well as the generic form.  For uncompressed public
  keys it rests on the law that libsecp256k1 recovers a key it parsed from x and the parity
  of y.\<close>

theorem txout_compressor_roundtrip:
  assumes "ec_compression_law ec_parse ec_serialize"
    and "0 \<le> nValue out" and "9 * nValue out < 2 ^ 64" and "length (scriptPubKey out) \<le> MAX_SCRIPT_SIZE"
  shows "Unserialize_TxOutCompressor ec_parse ec_serialize out0 (Serialize_TxOutCompressor ec_parse out @ rest)
    = Inr (out0\<lparr>nValue := nValue out, scriptPubKey := scriptPubKey out\<rparr>, rest)"
proof -
  let ?w = "word_of_int (nValue out) :: u64"
  have "unat ?w = nat (nValue out)" using assms(2,3) by (intro unat_word_of_int64) simp_all
  then have "DecompressAmount (CompressAmount ?w) = ?w"
    using assms(2,3) by (intro DecompressAmount_CompressAmount) simp
  moreover have "sint ?w = nValue out" using assms(2,3) by (intro sint_word_of_int) simp_all
  ultimately show ?thesis
    using script_compressor_roundtrip[OF assms(1,4)]
    by (simp add: Unserialize_TxOutCompressor_def Serialize_TxOutCompressor_def rbind_def vi64.unser_ser)
qed

definition sample_key :: bytes where "sample_key = 0x04 # replicate 64 7"

definition sample_parse :: "bytes \<Rightarrow> unit option" where
  "sample_parse k = (if k = sample_key \<or> k = 0x03 # replicate 32 7 then Some () else None)"

lemma sample_law: "ec_compression_law sample_parse (\<lambda>_. sample_key)"
  by (auto simp: ec_compression_law_def sample_parse_def sample_key_def nth_Cons' split: if_splits)

theorem txout_compressor_roundtrip_witness:
  "Compress sample_parse ([65] @ sample_key @ [OP_CHECKSIG]) = Some (0x05 # replicate 32 7) \<and>
   Unserialize_TxOutCompressor sample_parse (\<lambda>_. sample_key) CTxOut_null
     (Serialize_TxOutCompressor sample_parse (CTxOut_make 5000000000 ([65] @ sample_key @ [OP_CHECKSIG])) @ [1])
   = Inr (CTxOut_make 5000000000 ([65] @ sample_key @ [OP_CHECKSIG]), [1])"
  using txout_compressor_roundtrip[OF sample_law,
      of "CTxOut_make 5000000000 ([65] @ sample_key @ [OP_CHECKSIG])" CTxOut_null "[1]"]
  by (simp add: CTxOut_make_def CTxOut_null_def MAX_SCRIPT_SIZE_def sample_key_def Compress_def IsToKeyID_def
      IsToScriptID_def IsToPubKey_def pubkey_Set_def pubkey_GetLen_def PUBLIC_KEY_SIZE_def pubkey_size_def
      pubkey_IsFullyValid_def pubkey_IsValid_def sample_parse_def nth_append)

text \<open>Over-long scripts.  A script above the 10,000-byte limit, which no input can spend, is
  read back as the single opcode \<open>OP_RETURN\<close>: still unspendable, with the stream positioned
  behind the bytes of the original script.\<close>

theorem overlong_script_unspendable:
  assumes "MAX_SCRIPT_SIZE < length s" and "length s < 2 ^ 31"
  shows "Unserialize_ScriptCompressor ec_parse ec_serialize [] (Serialize_ScriptCompressor ec_parse s @ rest)
           = Inr ([OP_RETURN], rest) \<and> IsUnspendable s \<and> IsUnspendable [OP_RETURN]"
  using script_compressor_overlong[OF assms, of ec_parse ec_serialize "[]" rest] assms(1)
  by (simp add: IsUnspendable_def)

theorem overlong_script_unspendable_witness:
  "Unserialize_ScriptCompressor sample_parse (\<lambda>_. sample_key) []
     (Serialize_ScriptCompressor sample_parse (replicate 20000 0) @ [5]) = Inr ([OP_RETURN], [5])"
  using overlong_script_unspendable[of "replicate 20000 0" sample_parse "\<lambda>_. sample_key" "[5]"]
  by (simp add: MAX_SCRIPT_SIZE_def)

end
