(* ===== verification/Coins.thy ===== *)
theory Coins
  imports Compressor "HOL-Library.AList"
begin

text \<open>
  The set of unspent outputs and its layered caches: \<open>src/src/coins.h\<close>, \<open>coins.cpp\<close>.
  The hash maps are association lists with distinct keys, in an arbitrary iteration order.
  The virtual methods of \<open>CCoinsView\<close> are a record of functions over the state \<open>'v\<close> of a
  view; a cache holds the state of its base and calls it through that record, so caches
  stack as they do in the program.  Reads return the state as well, because reading through
  a cache fills it.  The two flag bits of a cache entry are two booleans.  \<open>'t\<close> is the
  Sapling commitment tree, of which only \<open>root\<close> is used.  The memory accounting
  (\<open>cachedCoinsUsage\<close>) depends on allocator capacities and is left out.
\<close>

section \<open>Coins and cache entries\<close>

record Coin =
  fCoinBase :: bool
  fCoinStake :: bool
  coin_out :: CTxOut
  coin_nHeight :: u32

definition Coin_null :: Coin where
  "Coin_null = \<lparr>fCoinBase = False, fCoinStake = False, coin_out = CTxOut_null, coin_nHeight = 0\<rparr>"

definition Coin_Clear :: "Coin \<Rightarrow> Coin" where
  "Coin_Clear c = c\<lparr>coin_out := CTxOut_null, fCoinBase := False, fCoinStake := False, coin_nHeight := 0\<rparr>"

definition IsSpent :: "Coin \<Rightarrow> bool" where
  "IsSpent c \<longleftrightarrow> CTxOut_IsNull (coin_out c)"

definition Serialize_Coin :: "(bytes \<Rightarrow> 'p option) \<Rightarrow> Coin \<Rightarrow> bytes option" where
  "Serialize_Coin ec_parse c =
     (if IsSpent c then None
      else Some (WriteVarInt (coin_nHeight c * 4 + (if fCoinBase c then 2 else 0) + (if fCoinStake c then 1 else 0))
        @ Serialize_TxOutCompressor ec_parse (coin_out c)))"

definition Unserialize_Coin :: "(bytes \<Rightarrow> 'p option) \<Rightarrow> ('p \<Rightarrow> bytes) \<Rightarrow> Coin reader" where
  "Unserialize_Coin ec_parse ec_serialize =
     rbind ReadVarInt (\<lambda>code.
     rbind (Unserialize_TxOutCompressor ec_parse ec_serialize CTxOut_null) (\<lambda>txout.
       rreturn \<lparr>fCoinBase = (and code 2 \<noteq> 0), fCoinStake = (and code 1 \<noteq> 0), coin_out = txout,
         coin_nHeight = drop_bit 2 code\<rparr>))"

record CCoinsCacheEntry =
  ce_coin :: Coin
  ce_dirty :: bool
  ce_fresh :: bool

definition CCoinsCacheEntry_default :: CCoinsCacheEntry where
  "CCoinsCacheEntry_default = \<lparr>ce_coin = Coin_null, ce_dirty = False, ce_fresh = False\<rparr>"

record 't CAnchorsSaplingCacheEntry =
  ae_entered :: bool
  ae_tree :: 't
  ae_dirty :: bool

record CNullifiersCacheEntry =
  ne_entered :: bool
  ne_dirty :: bool

type_synonym CCoinsMap = "(COutPoint \<times> CCoinsCacheEntry) list"
type_synonym 't CAnchorsSaplingMap = "(u256 \<times> 't CAnchorsSaplingCacheEntry) list"
type_synonym CNullifiersMap = "(u256 \<times> CNullifiersCacheEntry) list"

datatype coins_error = AssertionFailed | ReplacesNonPruned | FreshMisapplied

section \<open>Views\<close>

record ('v, 't) CCoinsView =
  GetCoin_v :: "'v \<Rightarrow> COutPoint \<Rightarrow> Coin option \<times> 'v"
  HaveCoin_v :: "'v \<Rightarrow> COutPoint \<Rightarrow> bool \<times> 'v"
  GetBestBlock_v :: "'v \<Rightarrow> u256 \<times> 'v"
  GetHeadBlocks_v :: "'v \<Rightarrow> u256 list"
  GetSaplingAnchorAt_v :: "'v \<Rightarrow> u256 \<Rightarrow> 't option \<times> 'v"
  GetNullifier_v :: "'v \<Rightarrow> u256 \<Rightarrow> bool \<times> 'v"
  GetBestAnchor_v :: "'v \<Rightarrow> u256 \<times> 'v"
  BatchWrite_v :: "'v \<Rightarrow> CCoinsMap \<Rightarrow> u256 \<Rightarrow> u256 \<Rightarrow> 't CAnchorsSaplingMap \<Rightarrow> CNullifiersMap \<Rightarrow>
    coins_error + bool \<times> 'v"

text \<open>The base class itself: a view of nothing, which refuses writes.\<close>

definition empty_view :: "('v, 't) CCoinsView" where
  "empty_view = \<lparr>GetCoin_v = \<lambda>v p. (None, v), HaveCoin_v = \<lambda>v p. (False, v), GetBestBlock_v = \<lambda>v. (0, v),
     GetHeadBlocks_v = \<lambda>v. [], GetSaplingAnchorAt_v = \<lambda>v rt. (None, v), GetNullifier_v = \<lambda>v n. (False, v),
     GetBestAnchor_v = \<lambda>v. (0, v), BatchWrite_v = \<lambda>v mc hb ha ma mn. Inr (False, v)\<rparr>"

record ('v, 't) CCoinsViewCache =
  cv_base :: 'v
  hashBlock :: u256
  cacheCoins :: CCoinsMap
  hashSaplingAnchor :: u256
  cacheSaplingAnchors :: "'t CAnchorsSaplingMap"
  cacheSaplingNullifiers :: CNullifiersMap

definition new_cache :: "'v \<Rightarrow> ('v, 't) CCoinsViewCache" where
  "new_cache baseIn = \<lparr>cv_base = baseIn, hashBlock = 0, cacheCoins = [], hashSaplingAnchor = 0,
     cacheSaplingAnchors = [], cacheSaplingNullifiers = []\<rparr>"

section \<open>Coins through a cache\<close>

definition FetchCoin ::
  "('v, 't) CCoinsView \<Rightarrow> ('v, 't) CCoinsViewCache \<Rightarrow> COutPoint \<Rightarrow>
     CCoinsCacheEntry option \<times> ('v, 't) CCoinsViewCache" where
  "FetchCoin vt c outpoint =
     (case map_of (cacheCoins c) outpoint of
        Some e \<Rightarrow> (Some e, c)
      | None \<Rightarrow>
          (case GetCoin_v vt (cv_base c) outpoint of
             (None, b) \<Rightarrow> (None, c\<lparr>cv_base := b\<rparr>)
           | (Some tmp, b) \<Rightarrow>
               let e = \<lparr>ce_coin = tmp, ce_dirty = False, ce_fresh = IsSpent tmp\<rparr> in
               (Some e, c\<lparr>cv_base := b, cacheCoins := AList.update outpoint e (cacheCoins c)\<rparr>)))"

definition GetCoin where
  "GetCoin vt c outpoint = (let (it, c') = FetchCoin vt c outpoint in (map_option ce_coin it, c'))"

definition AddCoin ::
  "('v, 't) CCoinsViewCache \<Rightarrow> COutPoint \<Rightarrow> Coin \<Rightarrow> bool \<Rightarrow> coins_error + ('v, 't) CCoinsViewCache" where
  "AddCoin c outpoint coin possible_overwrite =
     (if IsSpent coin then Inl AssertionFailed
      else if IsUnspendable (scriptPubKey (coin_out coin)) then Inr c
      else let e = (case map_of (cacheCoins c) outpoint of Some e \<Rightarrow> e | None \<Rightarrow> CCoinsCacheEntry_default) in
        if \<not> possible_overwrite \<and> \<not> IsSpent (ce_coin e) then Inl ReplacesNonPruned
        else let fresh = (\<not> possible_overwrite \<and> \<not> ce_dirty e) in
          Inr (c\<lparr>cacheCoins := AList.update outpoint
                 \<lparr>ce_coin = coin, ce_dirty = True, ce_fresh = (ce_fresh e \<or> fresh)\<rparr> (cacheCoins c)\<rparr>))"

definition SpendCoin ::
  "('v, 't) CCoinsView \<Rightarrow> ('v, 't) CCoinsViewCache \<Rightarrow> COutPoint \<Rightarrow> Coin option \<times> ('v, 't) CCoinsViewCache" where
  "SpendCoin vt c outpoint =
     (case FetchCoin vt c outpoint of
        (None, c') \<Rightarrow> (None, c')
      | (Some e, c') \<Rightarrow>
          (Some (ce_coin e),
           if ce_fresh e then c'\<lparr>cacheCoins := AList.delete outpoint (cacheCoins c')\<rparr>
           else c'\<lparr>cacheCoins := AList.update outpoint
                   (e\<lparr>ce_dirty := True, ce_coin := Coin_Clear (ce_coin e)\<rparr>) (cacheCoins c')\<rparr>))"

definition AccessCoin where
  "AccessCoin vt c outpoint =
     (case FetchCoin vt c outpoint of (None, c') \<Rightarrow> (Coin_null, c') | (Some e, c') \<Rightarrow> (ce_coin e, c'))"

definition HaveCoin where
  "HaveCoin vt c outpoint =
     (case FetchCoin vt c outpoint of (None, c') \<Rightarrow> (False, c') | (Some e, c') \<Rightarrow> (\<not> IsSpent (ce_coin e), c'))"

definition HaveCoinInCache :: "('v, 't) CCoinsViewCache \<Rightarrow> COutPoint \<Rightarrow> bool" where
  "HaveCoinInCache c outpoint \<longleftrightarrow> map_of (cacheCoins c) outpoint \<noteq> None"

definition GetBestBlock where
  "GetBestBlock vt c =
     (if hashBlock c = 0 then
        (let (h, b) = GetBestBlock_v vt (cv_base c); c' = c\<lparr>cv_base := b, hashBlock := h\<rparr> in (h, c'))
      else (hashBlock c, c))"

definition SetBestBlock :: "('v, 't) CCoinsViewCache \<Rightarrow> u256 \<Rightarrow> ('v, 't) CCoinsViewCache" where
  "SetBestBlock c hashBlockIn = c\<lparr>hashBlock := hashBlockIn\<rparr>"

definition Uncache :: "('v, 't) CCoinsViewCache \<Rightarrow> COutPoint \<Rightarrow> ('v, 't) CCoinsViewCache" where
  "Uncache c outpoint =
     (case map_of (cacheCoins c) outpoint of
        Some e \<Rightarrow> if \<not> ce_dirty e \<and> \<not> ce_fresh e
                  then c\<lparr>cacheCoins := AList.delete outpoint (cacheCoins c)\<rparr> else c
      | None \<Rightarrow> c)"

definition GetCacheSize :: "('v, 't) CCoinsViewCache \<Rightarrow> nat" where
  "GetCacheSize c = length (cacheCoins c)"

section \<open>Writing a child's entries into a cache\<close>

fun BatchWriteAnchors :: "'t CAnchorsSaplingMap \<Rightarrow> 't CAnchorsSaplingMap \<Rightarrow> 't CAnchorsSaplingMap" where
  "BatchWriteAnchors [] cache = cache"
| "BatchWriteAnchors ((rt, child) # mapAnchors) cache =
     BatchWriteAnchors mapAnchors
       (if ae_dirty child then
          (case map_of cache rt of
             None \<Rightarrow> AList.update rt \<lparr>ae_entered = ae_entered child, ae_tree = ae_tree child, ae_dirty = True\<rparr> cache
           | Some parent \<Rightarrow>
               if ae_entered parent \<noteq> ae_entered child
               then AList.update rt (parent\<lparr>ae_entered := ae_entered child, ae_dirty := True\<rparr>) cache
               else cache)
        else cache)"

fun BatchWriteNullifiers :: "CNullifiersMap \<Rightarrow> CNullifiersMap \<Rightarrow> CNullifiersMap" where
  "BatchWriteNullifiers [] cache = cache"
| "BatchWriteNullifiers ((n, child) # mapNullifiers) cache =
     BatchWriteNullifiers mapNullifiers
       (if ne_dirty child then
          (case map_of cache n of
             None \<Rightarrow> AList.update n \<lparr>ne_entered = ne_entered child, ne_dirty = True\<rparr> cache
           | Some parent \<Rightarrow>
               if ne_entered parent \<noteq> ne_entered child
               then AList.update n (parent\<lparr>ne_entered := ne_entered child, ne_dirty := True\<rparr>) cache
               else cache)
        else cache)"

definition BatchWriteCoin :: "COutPoint \<Rightarrow> CCoinsCacheEntry \<Rightarrow> CCoinsMap \<Rightarrow> coins_error + CCoinsMap" where
  "BatchWriteCoin outpoint it cache =
     (if \<not> ce_dirty it then Inr cache
      else case map_of cache outpoint of
        None \<Rightarrow>
          (if \<not> (ce_fresh it \<and> IsSpent (ce_coin it))
           then Inr (AList.update outpoint \<lparr>ce_coin = ce_coin it, ce_dirty = True, ce_fresh = ce_fresh it\<rparr> cache)
           else Inr cache)
      | Some itUs \<Rightarrow>
          (if ce_fresh it \<and> \<not> IsSpent (ce_coin itUs) then Inl FreshMisapplied
           else if ce_fresh itUs \<and> IsSpent (ce_coin it) then Inr (AList.delete outpoint cache)
           else Inr (AList.update outpoint (itUs\<lparr>ce_coin := ce_coin it, ce_dirty := True\<rparr>) cache)))"

fun BatchWriteCoins :: "CCoinsMap \<Rightarrow> CCoinsMap \<Rightarrow> coins_error + CCoinsMap" where
  "BatchWriteCoins [] cache = Inr cache"
| "BatchWriteCoins ((outpoint, it) # mapCoins) cache =
     (case BatchWriteCoin outpoint it cache of
        Inl e \<Rightarrow> Inl e
      | Inr cache' \<Rightarrow> BatchWriteCoins mapCoins cache')"

definition BatchWrite where
  "BatchWrite c mapCoins hashBlockIn hashSaplingAnchorIn mapSaplingAnchors mapSaplingNullifiers =
     (case BatchWriteCoins mapCoins (cacheCoins c) of
        Inl e \<Rightarrow> Inl e
      | Inr coins \<Rightarrow>
          Inr (True, c\<lparr>cacheCoins := coins,
            cacheSaplingAnchors := BatchWriteAnchors mapSaplingAnchors (cacheSaplingAnchors c),
            cacheSaplingNullifiers := BatchWriteNullifiers mapSaplingNullifiers (cacheSaplingNullifiers c),
            hashSaplingAnchor := hashSaplingAnchorIn, hashBlock := hashBlockIn\<rparr>))"

definition Flush where
  "Flush vt c =
     (case BatchWrite_v vt (cv_base c) (cacheCoins c) (hashBlock c) (hashSaplingAnchor c)
             (cacheSaplingAnchors c) (cacheSaplingNullifiers c) of
        Inl e \<Rightarrow> Inl e
      | Inr (fOk, b) \<Rightarrow>
          Inr (fOk, c\<lparr>cv_base := b, cacheCoins := [], cacheSaplingAnchors := [], cacheSaplingNullifiers := []\<rparr>))"

section \<open>Sapling anchors and nullifiers\<close>

definition GetSaplingAnchorAt where
  "GetSaplingAnchorAt vt c rt =
     (case map_of (cacheSaplingAnchors c) rt of
        Some e \<Rightarrow> (if ae_entered e then Some (ae_tree e) else None, c)
      | None \<Rightarrow>
          (case GetSaplingAnchorAt_v vt (cv_base c) rt of
             (None, b) \<Rightarrow> (None, c\<lparr>cv_base := b\<rparr>)
           | (Some tree, b) \<Rightarrow>
               (Some tree, c\<lparr>cv_base := b, cacheSaplingAnchors := AList.update rt
                  \<lparr>ae_entered = True, ae_tree = tree, ae_dirty = False\<rparr> (cacheSaplingAnchors c)\<rparr>)))"

definition GetNullifier where
  "GetNullifier vt c nullifier =
     (case map_of (cacheSaplingNullifiers c) nullifier of
        Some e \<Rightarrow> (ne_entered e, c)
      | None \<Rightarrow>
          let (tmp, b) = GetNullifier_v vt (cv_base c) nullifier in
          (tmp, c\<lparr>cv_base := b, cacheSaplingNullifiers := AList.update nullifier
             \<lparr>ne_entered = tmp, ne_dirty = False\<rparr> (cacheSaplingNullifiers c)\<rparr>))"

definition GetBestAnchor where
  "GetBestAnchor vt c =
     (if hashSaplingAnchor c = 0 then
        (let (h, b) = GetBestAnchor_v vt (cv_base c); c' = c\<lparr>cv_base := b, hashSaplingAnchor := h\<rparr> in (h, c'))
      else (hashSaplingAnchor c, c))"

definition PushAnchor where
  "PushAnchor root vt c tree =
     (let newrt = root tree; (currentRoot, c') = GetBestAnchor vt c in
      if currentRoot \<noteq> newrt then
        c'\<lparr>cacheSaplingAnchors := AList.update newrt \<lparr>ae_entered = True, ae_tree = tree, ae_dirty = True\<rparr>
             (cacheSaplingAnchors c'), hashSaplingAnchor := newrt\<rparr>
      else c')"

definition PopAnchor where
  "PopAnchor vt c newrt =
     (let (currentRoot, c1) = GetBestAnchor vt c in
      if currentRoot \<noteq> newrt then
        (case GetSaplingAnchorAt vt c1 currentRoot of
           (None, c2) \<Rightarrow> Inl AssertionFailed
         | (Some tree, c2) \<Rightarrow>
             (case map_of (cacheSaplingAnchors c2) currentRoot of
                None \<Rightarrow> Inl AssertionFailed
              | Some e \<Rightarrow>
                  Inr (c2\<lparr>cacheSaplingAnchors := AList.update currentRoot (e\<lparr>ae_entered := False, ae_dirty := True\<rparr>)
                            (cacheSaplingAnchors c2), hashSaplingAnchor := newrt\<rparr>)))
      else Inr c1)"

fun SetNullifiers_loop :: "SpendDescription list \<Rightarrow> bool \<Rightarrow> CNullifiersMap \<Rightarrow> CNullifiersMap" where
  "SetNullifiers_loop [] spent cache = cache"
| "SetNullifiers_loop (d # ds) spent cache =
     SetNullifiers_loop ds spent (AList.update (sd_nullifier d) \<lparr>ne_entered = spent, ne_dirty = True\<rparr> cache)"

definition SetNullifiers :: "('v, 't) CCoinsViewCache \<Rightarrow> CTransaction \<Rightarrow> bool \<Rightarrow> ('v, 't) CCoinsViewCache" where
  "SetNullifiers c tx spent =
     (case sapData tx of
        None \<Rightarrow> c
      | Some d \<Rightarrow> c\<lparr>cacheSaplingNullifiers :=
                       SetNullifiers_loop (vShieldedSpend d) spent (cacheSaplingNullifiers c)\<rparr>)"

fun HaveShieldedRequirements_loop where
  "HaveShieldedRequirements_loop vt [] c = (True, c)"
| "HaveShieldedRequirements_loop vt (d # ds) c =
     (let (spent, c1) = GetNullifier vt c (sd_nullifier d) in
      if spent then (False, c1)
      else case GetSaplingAnchorAt vt c1 (sd_anchor d) of
        (None, c2) \<Rightarrow> (False, c2)
      | (Some tree, c2) \<Rightarrow> HaveShieldedRequirements_loop vt ds c2)"

definition HaveShieldedRequirements where
  "HaveShieldedRequirements vt c tx =
     (if IsShieldedTx tx then HaveShieldedRequirements_loop vt (vShieldedSpend (the (sapData tx))) c
      else (True, c))"

section \<open>Transactions against a cache\<close>

fun AddCoins_loop where
  "AddCoins_loop vt txid fCoinbase fCoinstake nHeight check i [] c = Inr c"
| "AddCoins_loop vt txid fCoinbase fCoinstake nHeight check i (txout # vouts) c =
     (let p = \<lparr>op_hash = txid, op_n = of_nat i\<rparr>;
          (overwrite, c1) = (if check then HaveCoin vt c p else (False, c))
      in case AddCoin c1 p \<lparr>fCoinBase = fCoinbase, fCoinStake = fCoinstake, coin_out = txout,
                coin_nHeight = word_of_int nHeight\<rparr> overwrite of
           Inl e \<Rightarrow> Inl e
         | Inr c2 \<Rightarrow> AddCoins_loop vt txid fCoinbase fCoinstake nHeight check (Suc i) vouts c2)"

definition AddCoins where
  "AddCoins H vt c tx nHeight check =
     AddCoins_loop vt (tx_GetHash H tx) (tx_IsCoinBase tx) (tx_IsCoinStake tx) nHeight check 0 (vout tx) c"

fun HaveInputs_loop where
  "HaveInputs_loop vt [] c = (True, c)"
| "HaveInputs_loop vt (i # is) c =
     (let (have, c') = HaveCoin vt c (prevout i) in if have then HaveInputs_loop vt is c' else (False, c'))"

definition HaveInputs where
  "HaveInputs vt c tx = (if tx_IsCoinBase tx then (True, c) else HaveInputs_loop vt (vin tx) c)"

fun GetValueIn_loop where
  "GetValueIn_loop vt [] nResult c = (nResult, c)"
| "GetValueIn_loop vt (i # is) nResult c =
     (let (coin, c') = AccessCoin vt c (prevout i) in
      GetValueIn_loop vt is (int64_wrap (nResult + nValue (coin_out coin))) c')"

definition GetValueIn where
  "GetValueIn vt c tx =
     (if tx_IsCoinBase tx then (Inr 0, c)
      else let (nResult, c') = GetValueIn_loop vt (vin tx) 0 c in
        (case GetShieldedValueIn tx of Inl e \<Rightarrow> Inl e | Inr v \<Rightarrow> Inr (int64_wrap (nResult + v)), c'))"

definition GetCoinDepthAtHeight where
  "GetCoinDepthAtHeight vt c outpoint nHeight =
     (let (coin, c') = AccessCoin vt c outpoint in
      (if \<not> IsSpent coin then sint (word_of_int nHeight - coin_nHeight coin + 1 :: u32) else - 1, c'))"

fun PruneInvalidEntries_loop where
  "PruneInvalidEntries_loop vt [] c = c"
| "PruneInvalidEntries_loop vt (p # ps) c =
     (let (have, c1) = HaveCoin vt c p in
      PruneInvalidEntries_loop vt ps (if have then snd (SpendCoin vt c1 p) else c1))"

text \<open>\<open>setInvalidOutPoints\<close> is the list loaded from the hard-coded table.\<close>

definition PruneInvalidEntries where
  "PruneInvalidEntries vt setInvalidOutPoints c = Flush vt (PruneInvalidEntries_loop vt setInvalidOutPoints c)"

fun AccessByTxid_loop where
  "AccessByTxid_loop vt txid n 0 c = (Coin_null, c)"
| "AccessByTxid_loop vt txid n (Suc k) c =
     (let (alternate, c') = AccessCoin vt c \<lparr>op_hash = txid, op_n = of_nat n\<rparr> in
      if \<not> IsSpent alternate then (alternate, c') else AccessByTxid_loop vt txid (Suc n) k c')"

definition AccessByTxid where
  "AccessByTxid MAX_OUTPUTS_PER_BLOCK vt c txid = AccessByTxid_loop vt txid 0 MAX_OUTPUTS_PER_BLOCK c"

text \<open>The methods of a cache as a view of its own.\<close>

definition cache_view :: "('v, 't) CCoinsView \<Rightarrow> (('v, 't) CCoinsViewCache, 't) CCoinsView" where
  "cache_view vt = \<lparr>GetCoin_v = GetCoin vt, HaveCoin_v = HaveCoin vt, GetBestBlock_v = GetBestBlock vt,
     GetHeadBlocks_v = \<lambda>c. GetHeadBlocks_v vt (cv_base c), GetSaplingAnchorAt_v = GetSaplingAnchorAt vt,
     GetNullifier_v = GetNullifier vt, GetBestAnchor_v = GetBestAnchor vt, BatchWrite_v = BatchWrite\<rparr>"

section \<open>What a view promises\<close>

record chainstate =
  cs_utxo :: "COutPoint \<Rightarrow> Coin option"
  cs_nullifier :: "u256 \<Rightarrow> bool"
  cs_anchor :: "u256 \<Rightarrow> bool"
  cs_best :: u256
  cs_bestAnchor :: u256

definition visible :: "Coin \<Rightarrow> Coin option" where
  "visible c = (if IsSpent c then None else Some c)"

definition merge_coins :: "CCoinsMap \<Rightarrow> (COutPoint \<Rightarrow> Coin option) \<Rightarrow> COutPoint \<Rightarrow> Coin option" where
  "merge_coins m u p = (case map_of m p of Some e \<Rightarrow> if ce_dirty e then visible (ce_coin e) else u p | None \<Rightarrow> u p)"

definition merge_anchors :: "'t CAnchorsSaplingMap \<Rightarrow> (u256 \<Rightarrow> bool) \<Rightarrow> u256 \<Rightarrow> bool" where
  "merge_anchors m u rt = (case map_of m rt of Some e \<Rightarrow> if ae_dirty e then ae_entered e else u rt | None \<Rightarrow> u rt)"

definition merge_nullifiers :: "CNullifiersMap \<Rightarrow> (u256 \<Rightarrow> bool) \<Rightarrow> u256 \<Rightarrow> bool" where
  "merge_nullifiers m u n = (case map_of m n of Some e \<Rightarrow> if ne_dirty e then ne_entered e else u n | None \<Rightarrow> u n)"

text \<open>A batch a view accepts: one entry per key, \<open>FRESH\<close> only on outpoints the view does not
  have, each tree under its own root, and the empty tree never removed.\<close>

definition batch_ok ::
  "('t \<Rightarrow> u256) \<Rightarrow> u256 \<Rightarrow> chainstate \<Rightarrow> CCoinsMap \<Rightarrow> 't CAnchorsSaplingMap \<Rightarrow> CNullifiersMap \<Rightarrow> bool" where
  "batch_ok root empty_root s mc ma mn \<longleftrightarrow>
     distinct (map fst mc) \<and> distinct (map fst ma) \<and> distinct (map fst mn) \<and>
     (\<forall>p e. map_of mc p = Some e \<longrightarrow> ce_dirty e \<longrightarrow> ce_fresh e \<longrightarrow> cs_utxo s p = None) \<and>
     (\<forall>rt e. map_of ma rt = Some e \<longrightarrow> root (ae_tree e) = rt \<and> (ae_dirty e \<longrightarrow> ae_entered e \<or> rt \<noteq> empty_root))"

locale coins_view =
  fixes vt :: "('v, 't) CCoinsView" and vinv :: "'v \<Rightarrow> bool" and abst :: "'v \<Rightarrow> chainstate"
    and root :: "'t \<Rightarrow> u256" and empty_root :: u256
  assumes GetCoin_law: "vinv v \<Longrightarrow> GetCoin_v vt v p = (r, v') \<Longrightarrow>
      vinv v' \<and> abst v' = abst v \<and> Option.bind r visible = cs_utxo (abst v) p"
    and GetBestBlock_law: "vinv v \<Longrightarrow> GetBestBlock_v vt v = (h, v') \<Longrightarrow>
      vinv v' \<and> abst v' = abst v \<and> h = cs_best (abst v)"
    and GetSaplingAnchorAt_law: "vinv v \<Longrightarrow> GetSaplingAnchorAt_v vt v rt = (t, v') \<Longrightarrow>
      vinv v' \<and> abst v' = abst v \<and> (t \<noteq> None \<longleftrightarrow> cs_anchor (abst v) rt) \<and> (\<forall>x. t = Some x \<longrightarrow> root x = rt)"
    and GetNullifier_law: "vinv v \<Longrightarrow> GetNullifier_v vt v n = (b, v') \<Longrightarrow>
      vinv v' \<and> abst v' = abst v \<and> b = cs_nullifier (abst v) n"
    and GetBestAnchor_law: "vinv v \<Longrightarrow> GetBestAnchor_v vt v = (h, v') \<Longrightarrow>
      vinv v' \<and> abst v' = abst v \<and> h = cs_bestAnchor (abst v)"
    and BatchWrite_law: "vinv v \<Longrightarrow> batch_ok root empty_root (abst v) mc ma mn \<Longrightarrow> hb \<noteq> 0 \<Longrightarrow>
      \<exists>v'. BatchWrite_v vt v mc hb ha ma mn = Inr (True, v') \<and> vinv v' \<and>
        cs_utxo (abst v') = merge_coins mc (cs_utxo (abst v)) \<and>
        cs_anchor (abst v') = merge_anchors ma (cs_anchor (abst v)) \<and>
        cs_nullifier (abst v') = merge_nullifiers mn (cs_nullifier (abst v)) \<and>
        cs_best (abst v') = hb \<and> (ha \<noteq> 0 \<longrightarrow> cs_bestAnchor (abst v') = ha)"

section \<open>The state a cache shows and its invariant\<close>

definition cache_utxo :: "(COutPoint \<Rightarrow> Coin option) \<Rightarrow> CCoinsMap \<Rightarrow> COutPoint \<Rightarrow> Coin option" where
  "cache_utxo u m p = (case map_of m p of Some e \<Rightarrow> visible (ce_coin e) | None \<Rightarrow> u p)"

definition cache_anchor :: "(u256 \<Rightarrow> bool) \<Rightarrow> 't CAnchorsSaplingMap \<Rightarrow> u256 \<Rightarrow> bool" where
  "cache_anchor u m rt = (case map_of m rt of Some e \<Rightarrow> ae_entered e | None \<Rightarrow> u rt)"

definition cache_nullifier :: "(u256 \<Rightarrow> bool) \<Rightarrow> CNullifiersMap \<Rightarrow> u256 \<Rightarrow> bool" where
  "cache_nullifier u m n = (case map_of m n of Some e \<Rightarrow> ne_entered e | None \<Rightarrow> u n)"

definition cache_abst :: "('v \<Rightarrow> chainstate) \<Rightarrow> ('v, 't) CCoinsViewCache \<Rightarrow> chainstate" where
  "cache_abst abst c =
     (let s = abst (cv_base c) in
      \<lparr>cs_utxo = cache_utxo (cs_utxo s) (cacheCoins c),
       cs_nullifier = cache_nullifier (cs_nullifier s) (cacheSaplingNullifiers c),
       cs_anchor = cache_anchor (cs_anchor s) (cacheSaplingAnchors c),
       cs_best = (if hashBlock c = 0 then cs_best s else hashBlock c),
       cs_bestAnchor = (if hashSaplingAnchor c = 0 then cs_bestAnchor s else hashSaplingAnchor c)\<rparr>)"

definition coins_ok :: "(COutPoint \<Rightarrow> Coin option) \<Rightarrow> CCoinsMap \<Rightarrow> bool" where
  "coins_ok u m \<longleftrightarrow> distinct (map fst m) \<and>
     (\<forall>p e. map_of m p = Some e \<longrightarrow> (ce_fresh e \<longrightarrow> u p = None) \<and> (\<not> ce_dirty e \<longrightarrow> visible (ce_coin e) = u p))"

definition anchors_ok :: "('t \<Rightarrow> u256) \<Rightarrow> u256 \<Rightarrow> (u256 \<Rightarrow> bool) \<Rightarrow> 't CAnchorsSaplingMap \<Rightarrow> bool" where
  "anchors_ok root empty_root u m \<longleftrightarrow> distinct (map fst m) \<and>
     (\<forall>rt e. map_of m rt = Some e \<longrightarrow> root (ae_tree e) = rt \<and> (\<not> ae_dirty e \<longrightarrow> ae_entered e = u rt) \<and>
        (ae_dirty e \<longrightarrow> ae_entered e \<or> rt \<noteq> empty_root))"

definition nullifiers_ok :: "(u256 \<Rightarrow> bool) \<Rightarrow> CNullifiersMap \<Rightarrow> bool" where
  "nullifiers_ok u m \<longleftrightarrow> distinct (map fst m) \<and>
     (\<forall>n e. map_of m n = Some e \<longrightarrow> \<not> ne_dirty e \<longrightarrow> ne_entered e = u n)"

definition cache_inv ::
  "('v \<Rightarrow> bool) \<Rightarrow> ('v \<Rightarrow> chainstate) \<Rightarrow> ('t \<Rightarrow> u256) \<Rightarrow> u256 \<Rightarrow> ('v, 't) CCoinsViewCache \<Rightarrow> bool" where
  "cache_inv vinv abst root empty_root c \<longleftrightarrow>
     vinv (cv_base c) \<and> coins_ok (cs_utxo (abst (cv_base c))) (cacheCoins c) \<and>
     anchors_ok root empty_root (cs_anchor (abst (cv_base c))) (cacheSaplingAnchors c) \<and>
     nullifiers_ok (cs_nullifier (abst (cv_base c))) (cacheSaplingNullifiers c)"

lemmas alist_simps = update_conv' delete_conv' distinct_update distinct_delete

lemma new_cache_inv: "vinv b \<Longrightarrow> cache_inv vinv abst root empty_root (new_cache b)"
  by (simp add: cache_inv_def new_cache_def coins_ok_def anchors_ok_def nullifiers_ok_def)

lemma new_cache_abst: "cache_abst abst (new_cache b) = abst b"
  by (simp add: cache_abst_def Let_def new_cache_def cache_utxo_def[abs_def] cache_nullifier_def[abs_def]
      cache_anchor_def[abs_def])

subsection \<open>Entry updates\<close>

lemma coins_ok_update:
  assumes "coins_ok u m" and "ce_fresh e \<longrightarrow> u p = None" and "\<not> ce_dirty e \<longrightarrow> visible (ce_coin e) = u p"
  shows "coins_ok u (AList.update p e m)"
    and "cache_utxo u (AList.update p e m) = (cache_utxo u m)(p := visible (ce_coin e))"
  using assms by (auto simp: coins_ok_def alist_simps cache_utxo_def fun_eq_iff)

lemma coins_ok_delete:
  assumes "coins_ok u m"
  shows "coins_ok u (AList.delete p m)" and "cache_utxo u (AList.delete p m) = (cache_utxo u m)(p := u p)"
  using assms by (auto simp: coins_ok_def alist_simps cache_utxo_def fun_eq_iff)

lemma BatchWriteCoin_ok:
  assumes "coins_ok u m" and "ce_dirty e \<longrightarrow> ce_fresh e \<longrightarrow> cache_utxo u m p = None"
  shows "\<exists>m'. BatchWriteCoin p e m = Inr m' \<and> coins_ok u m' \<and>
    cache_utxo u m' = (cache_utxo u m)(p := if ce_dirty e then visible (ce_coin e) else cache_utxo u m p)"
proof (cases "ce_dirty e")
  case False
  then show ?thesis using assms(1) by (simp add: BatchWriteCoin_def)
next
  case d: True
  show ?thesis
  proof (cases "map_of m p")
    case None
    then have u: "cache_utxo u m p = u p" by (simp add: cache_utxo_def)
    show ?thesis
    proof (cases "ce_fresh e \<and> IsSpent (ce_coin e)")
      case True
      with d None u assms show ?thesis by (auto simp: BatchWriteCoin_def visible_def)
    next
      case False
      let ?e = "\<lparr>ce_coin = ce_coin e, ce_dirty = True, ce_fresh = ce_fresh e\<rparr>"
      have "ce_fresh ?e \<longrightarrow> u p = None" using d u assms(2) by simp
      with False d None coins_ok_update[OF assms(1), of ?e p] show ?thesis by (simp add: BatchWriteCoin_def)
    qed
  next
    case (Some us)
    then have us: "cache_utxo u m p = visible (ce_coin us)" and fr: "ce_fresh us \<longrightarrow> u p = None"
      using assms(1) by (auto simp: cache_utxo_def coins_ok_def)
    have nf: "\<not> (ce_fresh e \<and> \<not> IsSpent (ce_coin us))" using d us assms(2) by (auto simp: visible_def split: if_splits)
    show ?thesis
    proof (cases "ce_fresh us \<and> IsSpent (ce_coin e)")
      case True
      then have "u p = visible (ce_coin e)" using fr by (simp add: visible_def)
      with True Some nf d coins_ok_delete[OF assms(1), of p] show ?thesis by (simp add: BatchWriteCoin_def)
    next
      case False
      with Some nf d fr coins_ok_update[OF assms(1), of "us\<lparr>ce_coin := ce_coin e, ce_dirty := True\<rparr>" p]
      show ?thesis by (auto simp: BatchWriteCoin_def)
    qed
  qed
qed

lemma BatchWriteCoins_ok:
  assumes "coins_ok u m" and "distinct (map fst mc)"
    and "\<forall>p e. map_of mc p = Some e \<longrightarrow> ce_dirty e \<longrightarrow> ce_fresh e \<longrightarrow> cache_utxo u m p = None"
  shows "\<exists>m'. BatchWriteCoins mc m = Inr m' \<and> coins_ok u m' \<and> cache_utxo u m' = merge_coins mc (cache_utxo u m)"
  using assms
proof (induction mc m rule: BatchWriteCoins.induct)
  case (1 m)
  then show ?case by (simp add: merge_coins_def[abs_def])
next
  case (2 p e mc m)
  have "ce_dirty e \<longrightarrow> ce_fresh e \<longrightarrow> cache_utxo u m p = None" using 2(4) by simp
  then obtain m1 where m1: "BatchWriteCoin p e m = Inr m1" "coins_ok u m1"
    "cache_utxo u m1 = (cache_utxo u m)(p := if ce_dirty e then visible (ce_coin e) else cache_utxo u m p)"
    using BatchWriteCoin_ok[OF 2(2)] by blast
  have np: "map_of mc p = None" using 2(3) by (simp add: map_of_eq_None_iff)
  then have "\<forall>q e'. map_of mc q = Some e' \<longrightarrow> ce_dirty e' \<longrightarrow> ce_fresh e' \<longrightarrow> cache_utxo u m1 q = None"
    using 2(4) m1(3) by (auto split: if_splits)
  then obtain m' where m': "BatchWriteCoins mc m1 = Inr m'" "coins_ok u m'"
    "cache_utxo u m' = merge_coins mc (cache_utxo u m1)" using 2(1)[OF m1(1)] m1(2) 2(3) by auto
  have "merge_coins mc (cache_utxo u m1) = merge_coins ((p, e) # mc) (cache_utxo u m)"
    using np unfolding m1(3) by (auto simp: merge_coins_def fun_eq_iff split: option.splits)
  with m' m1 show ?case by simp
qed

lemma anchors_ok_update:
  assumes "anchors_ok root empty_root u m" and "root (ae_tree e) = rt" and "\<not> ae_dirty e \<longrightarrow> ae_entered e = u rt"
    and "ae_dirty e \<longrightarrow> ae_entered e \<or> rt \<noteq> empty_root"
  shows "anchors_ok root empty_root u (AList.update rt e m)"
    and "cache_anchor u (AList.update rt e m) = (cache_anchor u m)(rt := ae_entered e)"
  using assms by (auto simp: anchors_ok_def alist_simps cache_anchor_def fun_eq_iff)

lemma nullifiers_ok_update:
  assumes "nullifiers_ok u m" and "\<not> ne_dirty e \<longrightarrow> ne_entered e = u n"
  shows "nullifiers_ok u (AList.update n e m)"
    and "cache_nullifier u (AList.update n e m) = (cache_nullifier u m)(n := ne_entered e)"
  using assms by (auto simp: nullifiers_ok_def alist_simps cache_nullifier_def fun_eq_iff)

lemma BatchWriteAnchors_ok:
  assumes "anchors_ok root empty_root u m" and "distinct (map fst ma)"
    and "\<forall>rt e. map_of ma rt = Some e \<longrightarrow> root (ae_tree e) = rt \<and> (ae_dirty e \<longrightarrow> ae_entered e \<or> rt \<noteq> empty_root)"
  shows "anchors_ok root empty_root u (BatchWriteAnchors ma m) \<and>
    cache_anchor u (BatchWriteAnchors ma m) = merge_anchors ma (cache_anchor u m)"
  using assms
proof (induction ma m rule: BatchWriteAnchors.induct)
  case (1 m)
  then show ?case by (simp add: merge_anchors_def[abs_def])
next
  case (2 rt e ma m)
  define m1 where "m1 = (if ae_dirty e then
      (case map_of m rt of
         None \<Rightarrow> AList.update rt \<lparr>ae_entered = ae_entered e, ae_tree = ae_tree e, ae_dirty = True\<rparr> m
       | Some parent \<Rightarrow> if ae_entered parent \<noteq> ae_entered e
           then AList.update rt (parent\<lparr>ae_entered := ae_entered e, ae_dirty := True\<rparr>) m else m) else m)"
  have e: "root (ae_tree e) = rt" "ae_dirty e \<longrightarrow> ae_entered e \<or> rt \<noteq> empty_root" using 2(4) by auto
  have "anchors_ok root empty_root u m1 \<and>
      cache_anchor u m1 = (cache_anchor u m)(rt := if ae_dirty e then ae_entered e else cache_anchor u m rt)"
  proof (cases "ae_dirty e")
    case True
    show ?thesis
    proof (cases "map_of m rt")
      case None
      with anchors_ok_update[OF 2(2), of "\<lparr>ae_entered = ae_entered e, ae_tree = ae_tree e, ae_dirty = True\<rparr>" rt] e True
      show ?thesis by (simp add: m1_def)
    next
      case (Some q)
      then have "root (ae_tree q) = rt" "cache_anchor u m rt = ae_entered q"
        using 2(2) by (auto simp: anchors_ok_def cache_anchor_def)
      with Some anchors_ok_update[OF 2(2), of "q\<lparr>ae_entered := ae_entered e, ae_dirty := True\<rparr>" rt] e True 2(2)
      show ?thesis by (auto simp: m1_def fun_upd_idem)
    qed
  qed (use 2(2) in \<open>simp add: m1_def\<close>)
  then have m1: "anchors_ok root empty_root u m1"
    "cache_anchor u m1 = (cache_anchor u m)(rt := if ae_dirty e then ae_entered e else cache_anchor u m rt)" by auto
  have np: "map_of ma rt = None" using 2(3) by (simp add: map_of_eq_None_iff)
  have "merge_anchors ma (cache_anchor u m1) = merge_anchors ((rt, e) # ma) (cache_anchor u m)"
    using np unfolding m1(2) by (auto simp: merge_anchors_def fun_eq_iff split: option.splits)
  moreover have "\<forall>q e'. map_of ma q = Some e' \<longrightarrow> root (ae_tree e') = q \<and> (ae_dirty e' \<longrightarrow> ae_entered e' \<or> q \<noteq> empty_root)"
  proof (intro allI impI)
    fix q e' assume "map_of ma q = Some e'"
    with np have "map_of ((rt, e) # ma) q = Some e'" by auto
    with 2(4) show "root (ae_tree e') = q \<and> (ae_dirty e' \<longrightarrow> ae_entered e' \<or> q \<noteq> empty_root)" by blast
  qed
  ultimately show ?case using 2(1)[folded m1_def, OF m1(1)] 2(3) by (simp add: m1_def[symmetric])
qed

lemma BatchWriteNullifiers_ok:
  assumes "nullifiers_ok u m" and "distinct (map fst mn)"
  shows "nullifiers_ok u (BatchWriteNullifiers mn m) \<and>
    cache_nullifier u (BatchWriteNullifiers mn m) = merge_nullifiers mn (cache_nullifier u m)"
  using assms
proof (induction mn m rule: BatchWriteNullifiers.induct)
  case (1 m)
  then show ?case by (simp add: merge_nullifiers_def[abs_def])
next
  case (2 n e mn m)
  define m1 where "m1 = (if ne_dirty e then
      (case map_of m n of
         None \<Rightarrow> AList.update n \<lparr>ne_entered = ne_entered e, ne_dirty = True\<rparr> m
       | Some parent \<Rightarrow> if ne_entered parent \<noteq> ne_entered e
           then AList.update n (parent\<lparr>ne_entered := ne_entered e, ne_dirty := True\<rparr>) m else m) else m)"
  have "nullifiers_ok u m1 \<and>
      cache_nullifier u m1 = (cache_nullifier u m)(n := if ne_dirty e then ne_entered e else cache_nullifier u m n)"
  proof (cases "ne_dirty e")
    case True
    show ?thesis
    proof (cases "map_of m n")
      case None
      with nullifiers_ok_update[OF 2(2), of "\<lparr>ne_entered = ne_entered e, ne_dirty = True\<rparr>" n] True
      show ?thesis by (simp add: m1_def)
    next
      case (Some q)
      then have "cache_nullifier u m n = ne_entered q" by (auto simp: cache_nullifier_def)
      with Some nullifiers_ok_update[OF 2(2), of "q\<lparr>ne_entered := ne_entered e, ne_dirty := True\<rparr>" n] True 2(2)
      show ?thesis by (auto simp: m1_def fun_upd_idem)
    qed
  qed (use 2(2) in \<open>simp add: m1_def\<close>)
  then have m1: "nullifiers_ok u m1"
    "cache_nullifier u m1 = (cache_nullifier u m)(n := if ne_dirty e then ne_entered e else cache_nullifier u m n)" by auto
  have np: "map_of mn n = None" using 2(3) by (simp add: map_of_eq_None_iff)
  have "merge_nullifiers mn (cache_nullifier u m1) = merge_nullifiers ((n, e) # mn) (cache_nullifier u m)"
    using np unfolding m1(2) by (auto simp: merge_nullifiers_def fun_eq_iff split: option.splits)
  then show ?case using 2(1)[folded m1_def, OF m1(1)] 2(3) by (simp add: m1_def[symmetric])
qed


section \<open>Operations of a cache over any view\<close>

context coins_view
begin

abbreviation "cinv \<equiv> cache_inv vinv abst root empty_root"
abbreviation "cabst \<equiv> cache_abst abst"

lemma cs_utxo_cabst: "cs_utxo (cabst c) = cache_utxo (cs_utxo (abst (cv_base c))) (cacheCoins c)"
  by (simp add: cache_abst_def Let_def)

lemma cache_set_coins:
  assumes "cinv c" and "coins_ok (cs_utxo (abst (cv_base c))) m"
  shows "cinv (c\<lparr>cacheCoins := m\<rparr>) \<and>
    cabst (c\<lparr>cacheCoins := m\<rparr>) = (cabst c)\<lparr>cs_utxo := cache_utxo (cs_utxo (abst (cv_base c))) m\<rparr>"
  using assms by (simp add: cache_inv_def cache_abst_def Let_def)

lemma FetchCoin_ok:
  assumes "cinv c" and "FetchCoin vt c p = (it, c')"
  shows "cinv c' \<and> cabst c' = cabst c \<and> map_of (cacheCoins c') p = it \<and>
    cs_utxo (cabst c) p = (case it of None \<Rightarrow> None | Some e \<Rightarrow> visible (ce_coin e))"
proof (cases "map_of (cacheCoins c) p")
  case (Some e)
  with assms(2) have "it = Some e" "c' = c" by (auto simp: FetchCoin_def)
  with assms(1) Some show ?thesis by (simp add: cache_abst_def Let_def cache_utxo_def)
next
  case None
  obtain r b where g: "GetCoin_v vt (cv_base c) p = (r, b)" by fastforce
  have b: "vinv b" "abst b = abst (cv_base c)" "Option.bind r visible = cs_utxo (abst (cv_base c)) p"
    using GetCoin_law[OF _ g] assms(1) by (auto simp: cache_inv_def)
  show ?thesis
  proof (cases r)
    case r: None
    with assms(2) None g have "it = None" "c' = c\<lparr>cv_base := b\<rparr>" by (simp_all add: FetchCoin_def)
    with assms(1) r None b show ?thesis by (simp add: cache_inv_def cache_abst_def Let_def cache_utxo_def)
  next
    case (Some tmp)
    let ?e = "\<lparr>ce_coin = tmp, ce_dirty = False, ce_fresh = IsSpent tmp\<rparr>"
    let ?u = "cs_utxo (abst (cv_base c))"
    have v: "visible tmp = ?u p" using b(3) Some by simp
    have "coins_ok ?u (AList.update p ?e (cacheCoins c))"
      and u: "cache_utxo ?u (AList.update p ?e (cacheCoins c)) = (cache_utxo ?u (cacheCoins c))(p := visible tmp)"
    proof -
      have "coins_ok ?u (cacheCoins c)" using assms(1) by (simp add: cache_inv_def)
      moreover have "IsSpent tmp \<longrightarrow> ?u p = None" using v[symmetric] by (simp add: visible_def)
      ultimately show "coins_ok ?u (AList.update p ?e (cacheCoins c))"
        "cache_utxo ?u (AList.update p ?e (cacheCoins c)) = (cache_utxo ?u (cacheCoins c))(p := visible tmp)"
        using coins_ok_update[of ?u "cacheCoins c" ?e p] v by simp_all
    qed
    moreover have "cache_utxo ?u (cacheCoins c) p = visible tmp" using None v by (simp add: cache_utxo_def)
    moreover have "it = Some ?e" "c' = c\<lparr>cv_base := b, cacheCoins := AList.update p ?e (cacheCoins c)\<rparr>"
      using assms(2) None g Some by (simp_all add: FetchCoin_def Let_def)
    ultimately show ?thesis
      using assms(1) b(1,2) by (simp add: cache_inv_def cache_abst_def Let_def fun_upd_idem alist_simps)
  qed
qed

lemma GetCoin_ok:
  assumes "cinv c" and "GetCoin vt c p = (r, c')"
  shows "cinv c' \<and> cabst c' = cabst c \<and> Option.bind r visible = cs_utxo (cabst c) p"
proof -
  obtain it c1 where f: "FetchCoin vt c p = (it, c1)" by fastforce
  with assms(2) have "r = map_option ce_coin it" "c' = c1" by (simp_all add: GetCoin_def)
  with FetchCoin_ok[OF assms(1) f] show ?thesis by (cases it) simp_all
qed

lemma AccessCoin_ok:
  assumes "cinv c" and "AccessCoin vt c p = (coin, c')"
  shows "cinv c' \<and> cabst c' = cabst c \<and> visible coin = cs_utxo (cabst c) p"
proof -
  obtain it c1 where f: "FetchCoin vt c p = (it, c1)" by fastforce
  with assms(2) have "coin = (case it of None \<Rightarrow> Coin_null | Some e \<Rightarrow> ce_coin e)" "c' = c1"
    by (simp_all add: AccessCoin_def split: option.splits)
  moreover have "visible Coin_null = None"
    by (simp add: visible_def Coin_null_def IsSpent_def CTxOut_null_def CTxOut_IsNull_def)
  ultimately show ?thesis using FetchCoin_ok[OF assms(1) f] by (cases it) simp_all
qed

lemma HaveCoin_ok:
  assumes "cinv c" and "HaveCoin vt c p = (have, c')"
  shows "cinv c' \<and> cabst c' = cabst c \<and> have = (cs_utxo (cabst c) p \<noteq> None)"
proof -
  obtain it c1 where f: "FetchCoin vt c p = (it, c1)" by fastforce
  with assms(2) have "have = (case it of None \<Rightarrow> False | Some e \<Rightarrow> \<not> IsSpent (ce_coin e))" "c' = c1"
    by (simp_all add: HaveCoin_def split: option.splits)
  with FetchCoin_ok[OF assms(1) f] show ?thesis by (cases it) (simp_all add: visible_def)
qed

lemma SpendCoin_ok:
  assumes "cinv c" and "SpendCoin vt c p = (moved, c')"
  shows "cinv c' \<and> cabst c' = (cabst c)\<lparr>cs_utxo := (cs_utxo (cabst c))(p := None)\<rparr> \<and>
    Option.bind moved visible = cs_utxo (cabst c) p"
proof -
  obtain it c1 where f: "FetchCoin vt c p = (it, c1)" by fastforce
  note ok = FetchCoin_ok[OF assms(1) f]
  show ?thesis
  proof (cases it)
    case None
    with assms(2) f ok show ?thesis by (auto simp: SpendCoin_def fun_upd_idem)
  next
    case (Some e)
    let ?u = "cs_utxo (abst (cv_base c1))"
    from ok Some have c1: "coins_ok ?u (cacheCoins c1)" "map_of (cacheCoins c1) p = Some e"
      by (auto simp: cache_inv_def)
    have clear: "visible (Coin_Clear x) = None" for x
      by (simp add: visible_def IsSpent_def Coin_Clear_def CTxOut_null_def CTxOut_IsNull_def)
    have "moved = Some (ce_coin e)" using assms(2) f Some by (simp add: SpendCoin_def)
    moreover have "cs_utxo (cabst c) p = visible (ce_coin e)" using ok Some by (metis option.simps(5))
    ultimately have moved: "Option.bind moved visible = cs_utxo (cabst c) p" by simp
    have "\<exists>m. c' = c1\<lparr>cacheCoins := m\<rparr> \<and> coins_ok ?u m \<and> cache_utxo ?u m = (cache_utxo ?u (cacheCoins c1))(p := None)"
    proof (cases "ce_fresh e")
      case True
      then have "?u p = None" using c1 by (simp add: coins_ok_def)
      with True assms(2) f Some coins_ok_delete[OF c1(1), of p] show ?thesis
        by (intro exI[of _ "AList.delete p (cacheCoins c1)"]) (simp add: SpendCoin_def)
    next
      case False
      let ?e = "e\<lparr>ce_dirty := True, ce_coin := Coin_Clear (ce_coin e)\<rparr>"
      from False assms(2) f Some clear coins_ok_update[OF c1(1), of ?e p] show ?thesis
        by (intro exI[of _ "AList.update p ?e (cacheCoins c1)"]) (simp add: SpendCoin_def)
    qed
    then obtain m where m: "c' = c1\<lparr>cacheCoins := m\<rparr>" "coins_ok ?u m"
      "cache_utxo ?u m = (cs_utxo (cabst c1))(p := None)" by (auto simp: cs_utxo_cabst)
    from ok have "cinv c1" "cabst c1 = cabst c" by simp_all
    with cache_set_coins[OF this(1) m(2)] m moved show ?thesis by simp
  qed
qed

lemma AddCoin_ok:
  assumes "cinv c" and "\<not> IsSpent coin" and "\<not> IsUnspendable (scriptPubKey (coin_out coin))"
    and "\<not> po \<longrightarrow> cs_utxo (cabst c) p = None"
  shows "\<exists>c'. AddCoin c p coin po = Inr c' \<and> cinv c' \<and>
    cabst c' = (cabst c)\<lparr>cs_utxo := (cs_utxo (cabst c))(p := Some coin)\<rparr>"
proof -
  let ?u = "cs_utxo (abst (cv_base c))"
  have ok: "coins_ok ?u (cacheCoins c)" using assms(1) by (simp add: cache_inv_def)
  define e where "e = (case map_of (cacheCoins c) p of Some e \<Rightarrow> e | None \<Rightarrow> CCoinsCacheEntry_default)"
  have u: "cs_utxo (cabst c) p = cache_utxo ?u (cacheCoins c) p" by (simp add: cache_abst_def Let_def)
  have sp: "\<not> po \<longrightarrow> IsSpent (ce_coin e)"
    using assms(4) u by (auto simp: e_def cache_utxo_def visible_def CCoinsCacheEntry_default_def Coin_null_def
        IsSpent_def CTxOut_null_def CTxOut_IsNull_def split: option.splits if_splits)
  have fr: "ce_fresh e \<or> \<not> po \<and> \<not> ce_dirty e \<longrightarrow> ?u p = None"
  proof (cases "map_of (cacheCoins c) p")
    case None
    with assms(4) u show ?thesis by (auto simp: e_def cache_utxo_def CCoinsCacheEntry_default_def)
  next
    case (Some x)
    then have "e = x" "ce_fresh x \<longrightarrow> ?u p = None" "\<not> ce_dirty x \<longrightarrow> visible (ce_coin x) = ?u p"
      using ok by (simp_all add: e_def coins_ok_def)
    with sp show ?thesis by (auto simp: visible_def)
  qed
  let ?e = "\<lparr>ce_coin = coin, ce_dirty = True, ce_fresh = (ce_fresh e \<or> (\<not> po \<and> \<not> ce_dirty e))\<rparr>"
  have "AddCoin c p coin po = Inr (c\<lparr>cacheCoins := AList.update p ?e (cacheCoins c)\<rparr>)"
    using assms(2,3) sp by (auto simp: AddCoin_def Let_def e_def[symmetric])
  moreover have "coins_ok ?u (AList.update p ?e (cacheCoins c))"
    "cache_utxo ?u (AList.update p ?e (cacheCoins c)) = (cache_utxo ?u (cacheCoins c))(p := visible coin)"
    using coins_ok_update[OF ok, of ?e p] fr by auto
  ultimately show ?thesis
    using assms(1,2) by (auto simp: cache_inv_def cache_abst_def Let_def visible_def)
qed

lemma Uncache_ok:
  assumes "cinv c"
  shows "cinv (Uncache c p) \<and> cabst (Uncache c p) = cabst c"
proof (cases "map_of (cacheCoins c) p")
  case (Some e)
  let ?u = "cs_utxo (abst (cv_base c))"
  have ok: "coins_ok ?u (cacheCoins c)" using assms by (simp add: cache_inv_def)
  show ?thesis
  proof (cases "\<not> ce_dirty e \<and> \<not> ce_fresh e")
    case True
    then have "cache_utxo ?u (cacheCoins c) p = ?u p" using Some ok by (auto simp: cache_utxo_def coins_ok_def)
    with True Some assms coins_ok_delete[OF ok, of p] show ?thesis
      by (auto simp: Uncache_def cache_inv_def cache_abst_def Let_def fun_upd_idem)
  qed (use Some assms in \<open>auto simp: Uncache_def\<close>)
qed (use assms in \<open>simp add: Uncache_def\<close>)

lemma GetBestBlock_ok:
  assumes "cinv c" and "GetBestBlock vt c = (h, c')"
  shows "cinv c' \<and> cabst c' = cabst c \<and> h = cs_best (cabst c)"
proof (cases "hashBlock c = 0")
  case True
  obtain h' b where g: "GetBestBlock_v vt (cv_base c) = (h', b)" by fastforce
  have "vinv b" "abst b = abst (cv_base c)" "h' = cs_best (abst (cv_base c))"
    using GetBestBlock_law[OF _ g] assms(1) by (simp_all add: cache_inv_def)
  moreover have "c' = c\<lparr>cv_base := b, hashBlock := h'\<rparr>" "h = h'"
    using True g assms(2) by (auto simp: GetBestBlock_def Let_def)
  ultimately show ?thesis using True assms(1) by (simp add: cache_inv_def cache_abst_def Let_def)
next
  case False
  with assms show ?thesis by (auto simp: GetBestBlock_def cache_abst_def Let_def)
qed

lemma GetBestAnchor_ok:
  assumes "cinv c" and "GetBestAnchor vt c = (h, c')"
  shows "cinv c' \<and> cabst c' = cabst c \<and> h = cs_bestAnchor (cabst c)"
proof (cases "hashSaplingAnchor c = 0")
  case True
  obtain h' b where g: "GetBestAnchor_v vt (cv_base c) = (h', b)" by fastforce
  have "vinv b" "abst b = abst (cv_base c)" "h' = cs_bestAnchor (abst (cv_base c))"
    using GetBestAnchor_law[OF _ g] assms(1) by (simp_all add: cache_inv_def)
  moreover have "c' = c\<lparr>cv_base := b, hashSaplingAnchor := h'\<rparr>" "h = h'"
    using True g assms(2) by (auto simp: GetBestAnchor_def Let_def)
  ultimately show ?thesis using True assms(1) by (simp add: cache_inv_def cache_abst_def Let_def)
next
  case False
  with assms show ?thesis by (auto simp: GetBestAnchor_def cache_abst_def Let_def)
qed

lemma GetNullifier_ok:
  assumes "cinv c" and "GetNullifier vt c n = (r, c')"
  shows "cinv c' \<and> cabst c' = cabst c \<and> r = cs_nullifier (cabst c) n"
proof (cases "map_of (cacheSaplingNullifiers c) n")
  case (Some e)
  with assms(2) have "c' = c" "r = ne_entered e" by (simp_all add: GetNullifier_def)
  with assms(1) Some show ?thesis by (simp add: cache_abst_def Let_def cache_nullifier_def)
next
  case None
  let ?u = "cs_nullifier (abst (cv_base c))" and ?e = "\<lparr>ne_entered = r, ne_dirty = False\<rparr>"
  obtain tmp b where g: "GetNullifier_v vt (cv_base c) n = (tmp, b)" by fastforce
  have b: "vinv b" "abst b = abst (cv_base c)" "tmp = ?u n"
    using GetNullifier_law[OF _ g] assms(1) by (simp_all add: cache_inv_def)
  have c': "r = tmp" "c' = c\<lparr>cv_base := b, cacheSaplingNullifiers := AList.update n ?e (cacheSaplingNullifiers c)\<rparr>"
    using None g assms(2) by (auto simp: GetNullifier_def)
  have "nullifiers_ok ?u (AList.update n ?e (cacheSaplingNullifiers c))"
    "cache_nullifier ?u (AList.update n ?e (cacheSaplingNullifiers c)) = (cache_nullifier ?u (cacheSaplingNullifiers c))(n := r)"
    using nullifiers_ok_update[of ?u "cacheSaplingNullifiers c" ?e n] assms(1) b c'(1)
    by (simp_all add: cache_inv_def)
  moreover have "cache_nullifier ?u (cacheSaplingNullifiers c) n = r" using None b(3) c'(1) by (simp add: cache_nullifier_def)
  ultimately show ?thesis
    using assms(1) b(1,2) c'(2) by (simp add: cache_inv_def cache_abst_def Let_def fun_upd_idem)
qed

lemma GetSaplingAnchorAt_ok:
  assumes "cinv c" and "GetSaplingAnchorAt vt c rt = (t, c')"
  shows "cinv c' \<and> cabst c' = cabst c \<and> (t \<noteq> None \<longleftrightarrow> cs_anchor (cabst c) rt) \<and>
    (\<forall>x. t = Some x \<longrightarrow> root x = rt) \<and> hashSaplingAnchor c' = hashSaplingAnchor c \<and>
    (t \<noteq> None \<longrightarrow> map_of (cacheSaplingAnchors c') rt \<noteq> None)"
proof (cases "map_of (cacheSaplingAnchors c) rt")
  case (Some e)
  with assms(2) have "c' = c" "t = (if ae_entered e then Some (ae_tree e) else None)"
    by (simp_all add: GetSaplingAnchorAt_def)
  moreover have "root (ae_tree e) = rt" using Some assms(1) by (simp add: cache_inv_def anchors_ok_def)
  ultimately show ?thesis using assms(1) Some by (simp add: cache_abst_def Let_def cache_anchor_def)
next
  case None
  let ?u = "cs_anchor (abst (cv_base c))"
  obtain r b where g: "GetSaplingAnchorAt_v vt (cv_base c) rt = (r, b)" by fastforce
  have b: "vinv b" "abst b = abst (cv_base c)" "r \<noteq> None \<longleftrightarrow> ?u rt" "\<And>x. r = Some x \<Longrightarrow> root x = rt"
    using GetSaplingAnchorAt_law[OF _ g] assms(1) by (simp_all add: cache_inv_def)
  have ur: "cs_anchor (cabst c) rt = ?u rt" using None by (simp add: cache_abst_def Let_def cache_anchor_def)
  show ?thesis
  proof (cases r)
    case r: None
    with None g assms(2) have "c' = c\<lparr>cv_base := b\<rparr>" "t = None" by (simp_all add: GetSaplingAnchorAt_def)
    with assms(1) b(1,2,3) ur r show ?thesis by (simp add: cache_inv_def cache_abst_def Let_def)
  next
    case (Some x)
    let ?e = "\<lparr>ae_entered = True, ae_tree = x, ae_dirty = False\<rparr>"
    have c': "t = Some x" "c' = c\<lparr>cv_base := b, cacheSaplingAnchors := AList.update rt ?e (cacheSaplingAnchors c)\<rparr>"
      using None g Some assms(2) by (simp_all add: GetSaplingAnchorAt_def)
    have "anchors_ok root empty_root ?u (AList.update rt ?e (cacheSaplingAnchors c))"
      "cache_anchor ?u (AList.update rt ?e (cacheSaplingAnchors c)) = (cache_anchor ?u (cacheSaplingAnchors c))(rt := True)"
      using anchors_ok_update[of root empty_root ?u "cacheSaplingAnchors c" ?e rt] assms(1) b(3) b(4)[OF Some] Some
      by (simp_all add: cache_inv_def)
    moreover have "cache_anchor ?u (cacheSaplingAnchors c) rt = True" using None b(3) Some by (simp add: cache_anchor_def)
    ultimately show ?thesis
      using assms(1) b(1,2,3) b(4)[OF Some] c' Some ur
      by (simp add: cache_inv_def cache_abst_def Let_def fun_upd_idem alist_simps)
  qed
qed

lemma BatchWrite_ok:
  assumes "cinv c" and "batch_ok root empty_root (cabst c) mc ma mn" and "hb \<noteq> 0"
  shows "\<exists>c'. BatchWrite c mc hb ha ma mn = Inr (True, c') \<and> cinv c' \<and>
    cs_utxo (cabst c') = merge_coins mc (cs_utxo (cabst c)) \<and>
    cs_anchor (cabst c') = merge_anchors ma (cs_anchor (cabst c)) \<and>
    cs_nullifier (cabst c') = merge_nullifiers mn (cs_nullifier (cabst c)) \<and>
    cs_best (cabst c') = hb \<and> (ha \<noteq> 0 \<longrightarrow> cs_bestAnchor (cabst c') = ha)"
proof -
  let ?s = "abst (cv_base c)"
  have cok: "coins_ok (cs_utxo ?s) (cacheCoins c)" and aok: "anchors_ok root empty_root (cs_anchor ?s) (cacheSaplingAnchors c)"
    and nok: "nullifiers_ok (cs_nullifier ?s) (cacheSaplingNullifiers c)" and b: "vinv (cv_base c)"
    using assms(1) by (simp_all add: cache_inv_def)
  have fresh: "\<forall>p e. map_of mc p = Some e \<longrightarrow> ce_dirty e \<longrightarrow> ce_fresh e \<longrightarrow> cache_utxo (cs_utxo ?s) (cacheCoins c) p = None"
    and d: "distinct (map fst mc)" "distinct (map fst ma)" "distinct (map fst mn)"
    and rts: "\<forall>rt e. map_of ma rt = Some e \<longrightarrow> root (ae_tree e) = rt \<and> (ae_dirty e \<longrightarrow> ae_entered e \<or> rt \<noteq> empty_root)"
    using assms(2) by (simp_all add: batch_ok_def cs_utxo_cabst)
  obtain m' where m': "BatchWriteCoins mc (cacheCoins c) = Inr m'" "coins_ok (cs_utxo ?s) m'"
    "cache_utxo (cs_utxo ?s) m' = merge_coins mc (cache_utxo (cs_utxo ?s) (cacheCoins c))"
    using BatchWriteCoins_ok[OF cok d(1) fresh] by blast
  show ?thesis
    using m' BatchWriteAnchors_ok[OF aok d(2) rts] BatchWriteNullifiers_ok[OF nok d(3)] assms(3) b
    by (simp add: BatchWrite_def cache_inv_def cache_abst_def Let_def)
qed

text \<open>A cache over a view is a view again: caches stack to any depth.\<close>

lemma cache_is_view: "coins_view (cache_view vt) cinv cabst root empty_root"
proof unfold_locales
  fix c :: "('v, 't) CCoinsViewCache" and mc :: CCoinsMap and ma :: "'t CAnchorsSaplingMap"
    and mn :: CNullifiersMap and hb ha :: u256
  assume "cinv c" "batch_ok root empty_root (cabst c) mc ma mn" "hb \<noteq> 0"
  then show "\<exists>v'. BatchWrite_v (cache_view vt) c mc hb ha ma mn = Inr (True, v') \<and> cinv v' \<and>
    cs_utxo (cabst v') = merge_coins mc (cs_utxo (cabst c)) \<and>
    cs_anchor (cabst v') = merge_anchors ma (cs_anchor (cabst c)) \<and>
    cs_nullifier (cabst v') = merge_nullifiers mn (cs_nullifier (cabst c)) \<and>
    cs_best (cabst v') = hb \<and> (ha \<noteq> 0 \<longrightarrow> cs_bestAnchor (cabst v') = ha)"
    unfolding cache_view_def by (simp only: CCoinsView.select_convs) (rule BatchWrite_ok)
next
  fix c c' :: "('v, 't) CCoinsViewCache" and rt t
  assume "cinv c" "GetSaplingAnchorAt_v (cache_view vt) c rt = (t, c')"
  then show "cinv c' \<and> cabst c' = cabst c \<and> (t \<noteq> None \<longleftrightarrow> cs_anchor (cabst c) rt) \<and> (\<forall>x. t = Some x \<longrightarrow> root x = rt)"
    using GetSaplingAnchorAt_ok[of c rt t c'] by (simp add: cache_view_def)
qed (unfold cache_view_def CCoinsView.select_convs,
    (rule GetCoin_ok GetBestBlock_ok GetNullifier_ok GetBestAnchor_ok; assumption)+)

lemma Flush_ok:
  assumes "cinv c" and "hashBlock c \<noteq> 0" and "hashSaplingAnchor c \<noteq> 0"
  shows "\<exists>c'. Flush vt c = Inr (True, c') \<and> cinv c' \<and> cabst c' = cabst c \<and> abst (cv_base c') = cabst c \<and>
    cacheCoins c' = []"
proof -
  let ?s = "abst (cv_base c)"
  have b: "vinv (cv_base c)" and cok: "coins_ok (cs_utxo ?s) (cacheCoins c)"
    and aok: "anchors_ok root empty_root (cs_anchor ?s) (cacheSaplingAnchors c)"
    and nok: "nullifiers_ok (cs_nullifier ?s) (cacheSaplingNullifiers c)"
    using assms(1) by (simp_all add: cache_inv_def)
  have "batch_ok root empty_root ?s (cacheCoins c) (cacheSaplingAnchors c) (cacheSaplingNullifiers c)"
    using cok aok nok by (simp add: batch_ok_def coins_ok_def anchors_ok_def nullifiers_ok_def)
  then obtain v' where v': "BatchWrite_v vt (cv_base c) (cacheCoins c) (hashBlock c) (hashSaplingAnchor c)
      (cacheSaplingAnchors c) (cacheSaplingNullifiers c) = Inr (True, v')" "vinv v'"
    "cs_utxo (abst v') = merge_coins (cacheCoins c) (cs_utxo ?s)"
    "cs_anchor (abst v') = merge_anchors (cacheSaplingAnchors c) (cs_anchor ?s)"
    "cs_nullifier (abst v') = merge_nullifiers (cacheSaplingNullifiers c) (cs_nullifier ?s)"
    "cs_best (abst v') = hashBlock c" "cs_bestAnchor (abst v') = hashSaplingAnchor c"
    using BatchWrite_law[OF b _ assms(2)] assms(3) by blast
  have "merge_coins (cacheCoins c) (cs_utxo ?s) = cache_utxo (cs_utxo ?s) (cacheCoins c)"
    using cok by (auto simp: merge_coins_def cache_utxo_def coins_ok_def fun_eq_iff split: option.splits)
  moreover have "merge_anchors (cacheSaplingAnchors c) (cs_anchor ?s) = cache_anchor (cs_anchor ?s) (cacheSaplingAnchors c)"
    using aok by (auto simp: merge_anchors_def cache_anchor_def anchors_ok_def fun_eq_iff split: option.splits)
  moreover have "merge_nullifiers (cacheSaplingNullifiers c) (cs_nullifier ?s)
      = cache_nullifier (cs_nullifier ?s) (cacheSaplingNullifiers c)"
    using nok by (auto simp: merge_nullifiers_def cache_nullifier_def nullifiers_ok_def fun_eq_iff split: option.splits)
  ultimately have ab: "abst v' = cabst c"
    using v' assms(2,3) by (intro chainstate.equality) (simp_all add: cache_abst_def Let_def)
  let ?c = "c\<lparr>cv_base := v', cacheCoins := [], cacheSaplingAnchors := [], cacheSaplingNullifiers := []\<rparr>"
  have "cabst ?c = abst v'"
    using v' assms(2,3) by (intro chainstate.equality) (simp_all add: cache_abst_def Let_def cache_utxo_def[abs_def]
        cache_anchor_def[abs_def] cache_nullifier_def[abs_def])
  moreover have "cinv ?c" using v'(2) by (simp add: cache_inv_def coins_ok_def anchors_ok_def nullifiers_ok_def)
  ultimately show ?thesis using v'(1) ab by (simp add: Flush_def)
qed

lemma cache_set_anchor:
  assumes "cinv c" and "root (ae_tree e) = rt" and "ae_dirty e" and "ae_entered e \<or> rt \<noteq> empty_root" and "h \<noteq> 0"
  shows "cinv (c\<lparr>cacheSaplingAnchors := AList.update rt e (cacheSaplingAnchors c), hashSaplingAnchor := h\<rparr>) \<and>
    cabst (c\<lparr>cacheSaplingAnchors := AList.update rt e (cacheSaplingAnchors c), hashSaplingAnchor := h\<rparr>) =
      (cabst c)\<lparr>cs_anchor := (cs_anchor (cabst c))(rt := ae_entered e), cs_bestAnchor := h\<rparr>"
  using assms anchors_ok_update[of root empty_root "cs_anchor (abst (cv_base c))" "cacheSaplingAnchors c" e rt]
  by (simp add: cache_inv_def cache_abst_def Let_def)

lemma PushAnchor_ok:
  assumes "cinv c" and "root tree \<noteq> 0"
  shows "cinv (PushAnchor root vt c tree) \<and>
    cabst (PushAnchor root vt c tree) =
      (if cs_bestAnchor (cabst c) = root tree then cabst c
       else (cabst c)\<lparr>cs_anchor := (cs_anchor (cabst c))(root tree := True), cs_bestAnchor := root tree\<rparr>)"
proof -
  obtain h c1 where g: "GetBestAnchor vt c = (h, c1)" by fastforce
  have c1: "cinv c1" "cabst c1 = cabst c" "h = cs_bestAnchor (cabst c)" using GetBestAnchor_ok[OF assms(1) g] by simp_all
  let ?e = "\<lparr>ae_entered = True, ae_tree = tree, ae_dirty = True\<rparr>"
  show ?thesis
  proof (cases "h = root tree")
    case True
    with g c1 show ?thesis by (simp add: PushAnchor_def)
  next
    case False
    with g have "PushAnchor root vt c tree = c1\<lparr>cacheSaplingAnchors := AList.update (root tree) ?e (cacheSaplingAnchors c1),
        hashSaplingAnchor := root tree\<rparr>" by (simp add: PushAnchor_def Let_def)
    with cache_set_anchor[OF c1(1), of ?e "root tree" "root tree"] assms(2) False c1(2,3) show ?thesis by simp
  qed
qed

lemma PopAnchor_ok:
  assumes "cinv c" and "newrt \<noteq> 0" and "cs_anchor (cabst c) (cs_bestAnchor (cabst c))"
    and "cs_bestAnchor (cabst c) \<noteq> empty_root"
  shows "\<exists>c'. PopAnchor vt c newrt = Inr c' \<and> cinv c' \<and>
    cabst c' = (if cs_bestAnchor (cabst c) = newrt then cabst c
       else (cabst c)\<lparr>cs_anchor := (cs_anchor (cabst c))(cs_bestAnchor (cabst c) := False), cs_bestAnchor := newrt\<rparr>)"
proof -
  obtain h c1 where g: "GetBestAnchor vt c = (h, c1)" by fastforce
  have c1: "cinv c1" "cabst c1 = cabst c" "h = cs_bestAnchor (cabst c)" using GetBestAnchor_ok[OF assms(1) g] by simp_all
  obtain t c2 where a: "GetSaplingAnchorAt vt c1 h = (t, c2)" by fastforce
  note c2 = GetSaplingAnchorAt_ok[OF c1(1) a]
  show ?thesis
  proof (cases "h = newrt")
    case True
    with g c1 show ?thesis by (simp add: PopAnchor_def)
  next
    case False
    have "cs_anchor (cabst c1) h" using assms(3) c1(2,3) by simp
    then obtain tree e where t: "t = Some tree" and e: "map_of (cacheSaplingAnchors c2) h = Some e" using c2 by auto
    have re: "root (ae_tree e) = h" using c2 e by (simp add: cache_inv_def anchors_ok_def)
    let ?e = "e\<lparr>ae_entered := False, ae_dirty := True\<rparr>"
    have "PopAnchor vt c newrt = Inr (c2\<lparr>cacheSaplingAnchors := AList.update h ?e (cacheSaplingAnchors c2),
        hashSaplingAnchor := newrt\<rparr>)" using g a t e False by (simp add: PopAnchor_def)
    moreover have "cinv c2" "cabst c2 = cabst c" using c2 c1(2) by simp_all
    ultimately show ?thesis
      using cache_set_anchor[of c2 ?e h newrt] re assms(2,4) c1(3) False by simp
  qed
qed

lemma SetNullifiers_loop_ok:
  assumes "nullifiers_ok u m"
  shows "nullifiers_ok u (SetNullifiers_loop ds spent m) \<and>
    cache_nullifier u (SetNullifiers_loop ds spent m) n =
      (if n \<in> sd_nullifier ` set ds then spent else cache_nullifier u m n)"
  using assms
proof (induction ds spent m rule: SetNullifiers_loop.induct)
  case (2 d ds spent m)
  let ?e = "\<lparr>ne_entered = spent, ne_dirty = True\<rparr>"
  have "nullifiers_ok u (AList.update (sd_nullifier d) ?e m)"
    "cache_nullifier u (AList.update (sd_nullifier d) ?e m) = (cache_nullifier u m)(sd_nullifier d := spent)"
    using nullifiers_ok_update[OF 2(2), of ?e "sd_nullifier d"] by simp_all
  with 2(1) show ?case by simp
qed simp

lemma SetNullifiers_ok:
  assumes "cinv c" and "sapData tx = Some d"
  shows "cinv (SetNullifiers c tx spent) \<and>
    cabst (SetNullifiers c tx spent) = (cabst c)\<lparr>cs_nullifier :=
      (\<lambda>n. if n \<in> sd_nullifier ` set (vShieldedSpend d) then spent else cs_nullifier (cabst c) n)\<rparr>"
proof -
  let ?u = "cs_nullifier (abst (cv_base c))"
  have "nullifiers_ok ?u (cacheSaplingNullifiers c)" using assms(1) by (simp add: cache_inv_def)
  note l = SetNullifiers_loop_ok[OF this, of "vShieldedSpend d" spent]
  from l have "cache_nullifier ?u (SetNullifiers_loop (vShieldedSpend d) spent (cacheSaplingNullifiers c)) =
      (\<lambda>n. if n \<in> sd_nullifier ` set (vShieldedSpend d) then spent else cache_nullifier ?u (cacheSaplingNullifiers c) n)"
    by (simp add: fun_eq_iff)
  with l assms show ?thesis by (simp add: SetNullifiers_def cache_inv_def cache_abst_def Let_def)
qed

end

section \<open>Transactions against a view\<close>

context coins_view
begin

lemma HaveInputs_loop_ok:
  assumes "cinv c" and "HaveInputs_loop vt is c = (hv, c')"
  shows "cinv c' \<and> cabst c' = cabst c \<and> hv = (\<forall>i \<in> set is. cs_utxo (cabst c) (prevout i) \<noteq> None)"
  using assms
proof (induction "is" arbitrary: c)
  case (Cons i "is")
  obtain h c1 where h: "HaveCoin vt c (prevout i) = (h, c1)" by fastforce
  have c1: "cinv c1" "cabst c1 = cabst c" "h = (cs_utxo (cabst c) (prevout i) \<noteq> None)"
    using HaveCoin_ok[OF Cons.prems(1) h] by simp_all
  show ?case
  proof (cases h)
    case True
    with Cons.prems(2) h have "HaveInputs_loop vt is c1 = (hv, c')" by simp
    from Cons.IH[OF c1(1) this] c1 True show ?thesis by simp
  next
    case False
    with Cons.prems(2) h have "hv = False" "c' = c1" by simp_all
    with c1 False show ?thesis by simp
  qed
qed simp

lemma HaveInputs_ok:
  assumes "cinv c" and "HaveInputs vt c tx = (hv, c')"
  shows "cinv c' \<and> cabst c' = cabst c \<and>
    hv = (tx_IsCoinBase tx \<or> (\<forall>i \<in> set (vin tx). cs_utxo (cabst c) (prevout i) \<noteq> None))"
  using assms HaveInputs_loop_ok[OF assms(1), of "vin tx" hv c']
  by (cases "tx_IsCoinBase tx") (simp_all add: HaveInputs_def)

lemma HaveShieldedRequirements_loop_ok:
  assumes "cinv c" and "HaveShieldedRequirements_loop vt ds c = (hv, c')"
  shows "cinv c' \<and> cabst c' = cabst c \<and>
    hv = (\<forall>d \<in> set ds. \<not> cs_nullifier (cabst c) (sd_nullifier d) \<and> cs_anchor (cabst c) (sd_anchor d))"
  using assms
proof (induction ds arbitrary: c)
  case (Cons d ds)
  obtain n c1 where n: "GetNullifier vt c (sd_nullifier d) = (n, c1)" by fastforce
  have c1: "cinv c1" "cabst c1 = cabst c" "n = cs_nullifier (cabst c) (sd_nullifier d)"
    using GetNullifier_ok[OF Cons.prems(1) n] by simp_all
  obtain t c2 where t: "GetSaplingAnchorAt vt c1 (sd_anchor d) = (t, c2)" by fastforce
  have c2: "cinv c2" "cabst c2 = cabst c" "(t \<noteq> None) = cs_anchor (cabst c) (sd_anchor d)"
    using GetSaplingAnchorAt_ok[OF c1(1) t] c1(2) by simp_all
  show ?case
  proof (cases n)
    case True
    with Cons.prems(2) n have "hv = False" "c' = c1" by simp_all
    with c1 True show ?thesis by simp
  next
    case nn: False
    show ?thesis
    proof (cases t)
      case None
      with Cons.prems(2) n t nn have "hv = False" "c' = c2" by simp_all
      with c2 None show ?thesis by simp
    next
      case (Some x)
      with Cons.prems(2) n t nn have "HaveShieldedRequirements_loop vt ds c2 = (hv, c')" by simp
      from Cons.IH[OF c2(1) this] c1(3) c2 nn Some show ?thesis by simp
    qed
  qed
qed simp

lemma HaveShieldedRequirements_ok:
  assumes "cinv c" and "HaveShieldedRequirements vt c tx = (hv, c')"
  shows "cinv c' \<and> cabst c' = cabst c \<and>
    hv = (IsShieldedTx tx \<longrightarrow> (\<forall>d \<in> set (vShieldedSpend (the (sapData tx))).
      \<not> cs_nullifier (cabst c) (sd_nullifier d) \<and> cs_anchor (cabst c) (sd_anchor d)))"
  using assms HaveShieldedRequirements_loop_ok[OF assms(1), of "vShieldedSpend (the (sapData tx))" hv c']
  by (cases "IsShieldedTx tx") (simp_all add: HaveShieldedRequirements_def)

lemma AddCoin_unspendable:
  assumes "\<not> IsSpent coin" and "IsUnspendable (scriptPubKey (coin_out coin))"
  shows "AddCoin c p coin po = Inr c"
  using assms by (simp add: AddCoin_def)

text \<open>The outputs of a transaction from index \<open>i\<close> on, as they enter the set.\<close>

lemma AddCoins_loop_ok:
  assumes "cinv c" and "\<forall>txout \<in> set outs. \<not> CTxOut_IsNull txout" and "i + length outs \<le> 2 ^ 32"
    and "check \<or> (\<forall>p. op_hash p = txid \<and> i \<le> unat (op_n p) \<and> unat (op_n p) < i + length outs \<and>
      \<not> IsUnspendable (scriptPubKey (outs ! (unat (op_n p) - i))) \<longrightarrow> cs_utxo (cabst c) p = None)"
  shows "\<exists>c'. AddCoins_loop vt txid cb cstk h check i outs c = Inr c' \<and> cinv c' \<and>
    cabst c' = (cabst c)\<lparr>cs_utxo := (\<lambda>p.
      if op_hash p = txid \<and> i \<le> unat (op_n p) \<and> unat (op_n p) < i + length outs \<and>
         \<not> IsUnspendable (scriptPubKey (outs ! (unat (op_n p) - i)))
      then Some \<lparr>fCoinBase = cb, fCoinStake = cstk, coin_out = outs ! (unat (op_n p) - i), coin_nHeight = word_of_int h\<rparr>
      else cs_utxo (cabst c) p)\<rparr>"
  using assms
proof (induction outs arbitrary: c i)
  case Nil
  then show ?case by (auto intro!: chainstate.equality simp: fun_eq_iff)
next
  case (Cons txout outs)
  let ?p = "\<lparr>op_hash = txid, op_n = of_nat i\<rparr>"
  let ?coin = "\<lparr>fCoinBase = cb, fCoinStake = cstk, coin_out = txout, coin_nHeight = word_of_int h\<rparr>"
  obtain ov c1 where h: "(if check then HaveCoin vt c ?p else (False, c)) = (ov, c1)" by fastforce
  have ui: "unat (of_nat i :: u32) = i" using Cons.prems(3) by (simp add: unat_of_nat take_bit_nat_eq_self)
  have c1: "cinv c1" "cabst c1 = cabst c" "\<not> IsUnspendable (scriptPubKey txout) \<Longrightarrow> \<not> ov \<longrightarrow> cs_utxo (cabst c) ?p = None"
    using h HaveCoin_ok[OF Cons.prems(1), of ?p ov c1] Cons.prems(1,4) ui by (auto split: if_splits)
  have ns: "\<not> IsSpent ?coin" using Cons.prems(2) by (simp add: IsSpent_def)
  let ?u = "if IsUnspendable (scriptPubKey txout) then cs_utxo (cabst c) else (cs_utxo (cabst c))(?p := Some ?coin)"
  have "\<exists>c2. AddCoin c1 ?p ?coin ov = Inr c2 \<and> cinv c2 \<and> cabst c2 = (cabst c)\<lparr>cs_utxo := ?u\<rparr>"
  proof (cases "IsUnspendable (scriptPubKey txout)")
    case True
    then show ?thesis using AddCoin_unspendable[OF ns, of c1 ?p ov] c1 by simp
  next
    case False
    then show ?thesis using AddCoin_ok[OF c1(1) ns, of ov ?p] c1(2,3) by simp
  qed
  then obtain c2 where c2: "AddCoin c1 ?p ?coin ov = Inr c2" "cinv c2" "cabst c2 = (cabst c)\<lparr>cs_utxo := ?u\<rparr>" by blast
  have later: "check \<or> (\<forall>p. op_hash p = txid \<and> Suc i \<le> unat (op_n p) \<and> unat (op_n p) < Suc i + length outs \<and>
      \<not> IsUnspendable (scriptPubKey (outs ! (unat (op_n p) - Suc i))) \<longrightarrow> cs_utxo (cabst c2) p = None)"
    using Cons.prems(4) ui by (auto simp: c2(3) nth_Cons' Suc_le_eq)
  from Cons.IH[OF c2(2) _ _ later] Cons.prems(2,3) obtain c' where
    c': "AddCoins_loop vt txid cb cstk h check (Suc i) outs c2 = Inr c'" "cinv c'"
    and ab: "cabst c' = (cabst c2)\<lparr>cs_utxo := (\<lambda>p.
      if op_hash p = txid \<and> Suc i \<le> unat (op_n p) \<and> unat (op_n p) < Suc i + length outs \<and>
         \<not> IsUnspendable (scriptPubKey (outs ! (unat (op_n p) - Suc i)))
      then Some \<lparr>fCoinBase = cb, fCoinStake = cstk, coin_out = outs ! (unat (op_n p) - Suc i), coin_nHeight = word_of_int h\<rparr>
      else cs_utxo (cabst c2) p)\<rparr>" by auto
  have same: "p = ?p \<longleftrightarrow> op_hash p = txid \<and> unat (op_n p) = i" for p :: COutPoint
    by (cases p) (auto simp: ui word_unat_eq_iff)
  have "AddCoins_loop vt txid cb cstk h check i (txout # outs) c = Inr c'"
    using h c2(1) c'(1) by simp
  moreover have "cabst c' = (cabst c)\<lparr>cs_utxo := (\<lambda>p.
      if op_hash p = txid \<and> i \<le> unat (op_n p) \<and> unat (op_n p) < i + length (txout # outs) \<and>
         \<not> IsUnspendable (scriptPubKey ((txout # outs) ! (unat (op_n p) - i)))
      then Some \<lparr>fCoinBase = cb, fCoinStake = cstk, coin_out = (txout # outs) ! (unat (op_n p) - i), coin_nHeight = word_of_int h\<rparr>
      else cs_utxo (cabst c) p)\<rparr>"
  proof -
    have "unat (op_n p) = i \<or> \<not> i \<le> unat (op_n p) \<or> Suc i \<le> unat (op_n p)" for p :: COutPoint by linarith
    then show ?thesis unfolding ab c2(3)
      by (intro chainstate.equality) (auto simp: fun_eq_iff same nth_Cons' Suc_le_eq)
  qed
  ultimately show ?case using c'(2) by blast
qed

end

end
