(* ===== verification/CoinsDB.thy ===== *)
theory CoinsDB
  imports Coins
begin

text \<open>
  The coin database at the bottom of the stack: \<open>CCoinsViewDB\<close> of \<open>src/src/txdb.cpp\<close> and
  \<open>src/src/sapling/sapling_txdb.cpp\<close>.  The key-value store is a record of maps, one per key
  prefix.  A \<open>CDBBatch\<close> is the list of its operations; \<open>WriteBatch\<close> applies one batch
  atomically, which is what LevelDB documents.  \<open>over_limit\<close> stands for the comparison of
  the batch's size estimate with \<open>-dbbatchsize\<close> and decides where a write is split into
  several batches; \<open>empty_tree\<close> is the tree without notes and \<open>empty_root\<close> its root.
\<close>

section \<open>The store\<close>

record 't CoinsDB =
  db_coin :: "COutPoint \<Rightarrow> Coin option"          \<comment> \<open>\<open>DB_COIN\<close>\<close>
  db_best_block :: "u256 option"                      \<comment> \<open>\<open>DB_BEST_BLOCK\<close>\<close>
  db_head_blocks :: "u256 list option"                \<comment> \<open>\<open>DB_HEAD_BLOCKS\<close>\<close>
  db_sapling_anchor :: "u256 \<Rightarrow> 't option"        \<comment> \<open>\<open>DB_SAPLING_ANCHOR\<close>\<close>
  db_sapling_nullifier :: "u256 \<Rightarrow> bool option"   \<comment> \<open>\<open>DB_SAPLING_NULLIFIER\<close>\<close>
  db_best_sapling_anchor :: "u256 option"             \<comment> \<open>\<open>DB_BEST_SAPLING_ANCHOR\<close>\<close>

datatype 't db_op =
    WriteCoin COutPoint Coin
  | EraseCoin COutPoint
  | WriteBest u256
  | EraseBest
  | WriteHeads "u256 list"
  | EraseHeads
  | WriteAnchor u256 't
  | EraseAnchor u256
  | WriteNullifier u256 bool
  | EraseNullifier u256
  | WriteBestAnchor u256

fun apply_op :: "'t db_op \<Rightarrow> 't CoinsDB \<Rightarrow> 't CoinsDB" where
  "apply_op (WriteCoin p c) db = db\<lparr>db_coin := (db_coin db)(p := Some c)\<rparr>"
| "apply_op (EraseCoin p) db = db\<lparr>db_coin := (db_coin db)(p := None)\<rparr>"
| "apply_op (WriteBest h) db = db\<lparr>db_best_block := Some h\<rparr>"
| "apply_op EraseBest db = db\<lparr>db_best_block := None\<rparr>"
| "apply_op (WriteHeads hs) db = db\<lparr>db_head_blocks := Some hs\<rparr>"
| "apply_op EraseHeads db = db\<lparr>db_head_blocks := None\<rparr>"
| "apply_op (WriteAnchor rt t) db = db\<lparr>db_sapling_anchor := (db_sapling_anchor db)(rt := Some t)\<rparr>"
| "apply_op (EraseAnchor rt) db = db\<lparr>db_sapling_anchor := (db_sapling_anchor db)(rt := None)\<rparr>"
| "apply_op (WriteNullifier n b) db = db\<lparr>db_sapling_nullifier := (db_sapling_nullifier db)(n := Some b)\<rparr>"
| "apply_op (EraseNullifier n) db = db\<lparr>db_sapling_nullifier := (db_sapling_nullifier db)(n := None)\<rparr>"
| "apply_op (WriteBestAnchor h) db = db\<lparr>db_best_sapling_anchor := Some h\<rparr>"

definition WriteBatch :: "'t CoinsDB \<Rightarrow> 't db_op list \<Rightarrow> 't CoinsDB" where
  "WriteBatch db batch = fold apply_op batch db"

section \<open>Reads\<close>

definition db_GetCoin :: "'t CoinsDB \<Rightarrow> COutPoint \<Rightarrow> Coin option" where
  "db_GetCoin db outpoint = db_coin db outpoint"

definition db_HaveCoin :: "'t CoinsDB \<Rightarrow> COutPoint \<Rightarrow> bool" where
  "db_HaveCoin db outpoint \<longleftrightarrow> db_coin db outpoint \<noteq> None"

definition db_GetBestBlock :: "'t CoinsDB \<Rightarrow> u256" where
  "db_GetBestBlock db = (case db_best_block db of None \<Rightarrow> 0 | Some h \<Rightarrow> h)"

definition db_GetHeadBlocks :: "'t CoinsDB \<Rightarrow> u256 list" where
  "db_GetHeadBlocks db = (case db_head_blocks db of None \<Rightarrow> [] | Some hs \<Rightarrow> hs)"

definition db_GetSaplingAnchorAt :: "'t \<Rightarrow> u256 \<Rightarrow> 't CoinsDB \<Rightarrow> u256 \<Rightarrow> 't option" where
  "db_GetSaplingAnchorAt empty_tree empty_root db rt =
     (if rt = empty_root then Some empty_tree else db_sapling_anchor db rt)"

definition db_GetNullifier :: "'t CoinsDB \<Rightarrow> u256 \<Rightarrow> bool" where
  "db_GetNullifier db nf \<longleftrightarrow> db_sapling_nullifier db nf \<noteq> None"

definition db_GetBestAnchor :: "u256 \<Rightarrow> 't CoinsDB \<Rightarrow> u256" where
  "db_GetBestAnchor empty_root db = (case db_best_sapling_anchor db of None \<Rightarrow> empty_root | Some h \<Rightarrow> h)"

section \<open>Writes\<close>

definition db_BatchWriteNullifiers :: "CNullifiersMap \<Rightarrow> 't db_op list" where
  "db_BatchWriteNullifiers m =
     concat (map (\<lambda>(n, it). if ne_dirty it then (if \<not> ne_entered it then [EraseNullifier n] else [WriteNullifier n True])
                            else []) m)"

definition db_BatchWriteAnchors :: "u256 \<Rightarrow> 't CAnchorsSaplingMap \<Rightarrow> 't db_op list" where
  "db_BatchWriteAnchors empty_root m =
     concat (map (\<lambda>(rt, it). if ae_dirty it then
        (if \<not> ae_entered it then [EraseAnchor rt]
         else if rt \<noteq> empty_root then [WriteAnchor rt (ae_tree it)] else [])
        else []) m)"

definition BatchWriteSapling where
  "BatchWriteSapling empty_root hashSaplingAnchorIn ma mn =
     db_BatchWriteAnchors empty_root ma @ db_BatchWriteNullifiers mn @
     (if hashSaplingAnchorIn \<noteq> 0 then [WriteBestAnchor hashSaplingAnchorIn] else [])"

text \<open>
  The coin loop: the batch under construction and the batches already written.  A batch
  over the size limit is written and a new one started.
\<close>

fun db_coin_loop :: "('t db_op list \<Rightarrow> bool) \<Rightarrow> CCoinsMap \<Rightarrow> 't db_op list \<Rightarrow> 't db_op list list \<times> 't db_op list" where
  "db_coin_loop over_limit [] batch = ([], batch)"
| "db_coin_loop over_limit ((p, it) # mapCoins) batch =
     (let batch = (if ce_dirty it then batch @ [if IsSpent (ce_coin it) then EraseCoin p else WriteCoin p (ce_coin it)]
                   else batch) in
      if over_limit batch then
        (let (done, rest) = db_coin_loop over_limit mapCoins [] in (batch # done, rest))
      else db_coin_loop over_limit mapCoins batch)"

text \<open>The batches a call writes, in order, or the assertion it stops at.\<close>

definition db_batches where
  "db_batches over_limit empty_root db mapCoins hashBlockIn hashSaplingAnchorIn ma mn =
     (if hashBlockIn = 0 then Inl AssertionFailed
      else let old_tip0 = db_GetBestBlock db; old_heads = db_GetHeadBlocks db in
        if old_tip0 = 0 \<and> length old_heads = 2 \<and> old_heads ! 0 \<noteq> hashBlockIn then Inl AssertionFailed
        else let old_tip = (if old_tip0 = 0 \<and> length old_heads = 2 then old_heads ! 1 else old_tip0);
                 batch0 = [EraseBest, WriteHeads [hashBlockIn, old_tip]];
                 (done, batch) = db_coin_loop over_limit mapCoins batch0
             in Inr (done @ [batch @ BatchWriteSapling empty_root hashSaplingAnchorIn ma mn @
                             [EraseHeads, WriteBest hashBlockIn]]))"

definition db_BatchWrite where
  "db_BatchWrite over_limit empty_root db mapCoins hashBlockIn hashSaplingAnchorIn ma mn =
     (case db_batches over_limit empty_root db mapCoins hashBlockIn hashSaplingAnchorIn ma mn of
        Inl e \<Rightarrow> Inl e
      | Inr batches \<Rightarrow> Inr (True, foldl WriteBatch db batches))"

definition db_view :: "('t db_op list \<Rightarrow> bool) \<Rightarrow> 't \<Rightarrow> u256 \<Rightarrow> ('t CoinsDB, 't) CCoinsView" where
  "db_view over_limit empty_tree empty_root = \<lparr>GetCoin_v = \<lambda>db p. (db_GetCoin db p, db),
     HaveCoin_v = \<lambda>db p. (db_HaveCoin db p, db), GetBestBlock_v = \<lambda>db. (db_GetBestBlock db, db),
     GetHeadBlocks_v = db_GetHeadBlocks,
     GetSaplingAnchorAt_v = \<lambda>db rt. (db_GetSaplingAnchorAt empty_tree empty_root db rt, db),
     GetNullifier_v = \<lambda>db n. (db_GetNullifier db n, db),
     GetBestAnchor_v = \<lambda>db. (db_GetBestAnchor empty_root db, db),
     BatchWrite_v = db_BatchWrite over_limit empty_root\<rparr>"

section \<open>The database is a view\<close>

definition coin_ops :: "CCoinsMap \<Rightarrow> 't db_op list" where
  "coin_ops mc = concat (map (\<lambda>(p, it). if ce_dirty it
     then [if IsSpent (ce_coin it) then EraseCoin p else WriteCoin p (ce_coin it)] else []) mc)"

lemma db_coin_loop_ops: "db_coin_loop f mc batch = (done, rest) \<Longrightarrow> concat done @ rest = batch @ coin_ops mc"
proof (induction f mc batch arbitrary: "done" rest rule: db_coin_loop.induct)
  case (1 f batch)
  then show ?case by (simp add: coin_ops_def)
next
  case (2 f p it mc batch)
  define b where "b = (if ce_dirty it then batch @ [if IsSpent (ce_coin it) then EraseCoin p else WriteCoin p (ce_coin it)] else batch)"
  have b: "b @ coin_ops mc = batch @ coin_ops ((p, it) # mc)" by (simp add: b_def coin_ops_def)
  show ?case
  proof (cases "f b")
    case True
    obtain d r where l: "db_coin_loop f mc [] = (d, r)" by fastforce
    from 2(3) True l have "done = b # d" "rest = r" by (auto simp: Let_def b_def[symmetric])
    moreover have "concat d @ r = coin_ops mc" using 2(1)[OF b_def] True l by simp
    ultimately show ?thesis using b by simp
  next
    case False
    with 2(3) have "db_coin_loop f mc b = (done, rest)" by (simp add: Let_def b_def[symmetric])
    with 2(2)[OF b_def] False b show ?thesis by simp
  qed
qed

lemma foldl_WriteBatch: "foldl WriteBatch db bs = fold apply_op (concat bs) db"
  by (induction bs arbitrary: db) (simp_all add: WriteBatch_def)

lemma fold_coin_ops:
  "distinct (map fst mc) \<Longrightarrow> fold apply_op (coin_ops mc) db = db\<lparr>db_coin := merge_coins mc (db_coin db)\<rparr>"
proof (induction mc arbitrary: db)
  case Nil
  then show ?case by (simp add: coin_ops_def merge_coins_def[abs_def])
next
  case (Cons a mc)
  obtain p it where a: "a = (p, it)" by fastforce
  have np: "map_of mc p = None" using Cons.prems a by (simp add: map_of_eq_None_iff)
  let ?u = "if ce_dirty it then (db_coin db)(p := visible (ce_coin it)) else db_coin db"
  have "fold apply_op (coin_ops (a # mc)) db = fold apply_op (coin_ops mc) (db\<lparr>db_coin := ?u\<rparr>)"
    by (simp add: a coin_ops_def visible_def)
  also have "\<dots> = db\<lparr>db_coin := merge_coins mc ?u\<rparr>" using Cons by simp
  also have "merge_coins mc ?u = merge_coins (a # mc) (db_coin db)"
    using np by (auto simp: a merge_coins_def fun_eq_iff split: option.splits)
  finally show ?case .
qed

lemma fold_nullifier_ops:
  assumes "distinct (map fst mn)"
  shows "\<exists>u. fold apply_op (db_BatchWriteNullifiers mn) db = db\<lparr>db_sapling_nullifier := u\<rparr> \<and>
    (\<lambda>n. u n \<noteq> None) = merge_nullifiers mn (\<lambda>n. db_sapling_nullifier db n \<noteq> None)"
  using assms
proof (induction mn arbitrary: db)
  case Nil
  then show ?case
    by (intro exI[of _ "db_sapling_nullifier db"]) (simp add: db_BatchWriteNullifiers_def merge_nullifiers_def[abs_def])
next
  case (Cons a mn)
  obtain n it where a: "a = (n, it)" by fastforce
  have np: "map_of mn n = None" using Cons.prems a by (simp add: map_of_eq_None_iff)
  let ?w = "if ne_dirty it then (db_sapling_nullifier db)(n := if ne_entered it then Some True else None)
            else db_sapling_nullifier db"
  have step: "fold apply_op (db_BatchWriteNullifiers (a # mn)) db =
      fold apply_op (db_BatchWriteNullifiers mn) (db\<lparr>db_sapling_nullifier := ?w\<rparr>)"
    by (simp add: a db_BatchWriteNullifiers_def)
  obtain u where u: "fold apply_op (db_BatchWriteNullifiers mn) (db\<lparr>db_sapling_nullifier := ?w\<rparr>) = db\<lparr>db_sapling_nullifier := u\<rparr>"
    "(\<lambda>n. u n \<noteq> None) = merge_nullifiers mn (\<lambda>n. ?w n \<noteq> None)"
    using Cons.IH[of "db\<lparr>db_sapling_nullifier := ?w\<rparr>"] Cons.prems by auto
  have "merge_nullifiers mn (\<lambda>n. ?w n \<noteq> None) = merge_nullifiers (a # mn) (\<lambda>n. db_sapling_nullifier db n \<noteq> None)"
    using np by (auto simp: a merge_nullifiers_def fun_eq_iff split: option.splits)
  with u step show ?case by auto
qed

lemma fold_anchor_ops:
  assumes "distinct (map fst ma)" and "\<forall>rt e. map_of ma rt = Some e \<longrightarrow> root (ae_tree e) = rt"
    and "\<forall>rt t. db_sapling_anchor db rt = Some t \<longrightarrow> root t = rt"
  shows "\<exists>u. fold apply_op (db_BatchWriteAnchors er ma) db = db\<lparr>db_sapling_anchor := u\<rparr> \<and>
    (\<forall>rt t. u rt = Some t \<longrightarrow> root t = rt) \<and>
    (\<forall>rt. rt \<noteq> er \<longrightarrow> (u rt \<noteq> None) = merge_anchors ma (\<lambda>rt. db_sapling_anchor db rt \<noteq> None) rt)"
  using assms
proof (induction ma arbitrary: db)
  case Nil
  then show ?case
    by (intro exI[of _ "db_sapling_anchor db"]) (simp add: db_BatchWriteAnchors_def merge_anchors_def)
next
  case (Cons a ma)
  obtain rt it where a: "a = (rt, it)" by fastforce
  have np: "map_of ma rt = None" using Cons.prems a by (simp add: map_of_eq_None_iff)
  have rit: "root (ae_tree it) = rt" using Cons.prems(2) a by simp
  have tl: "\<forall>q e. map_of ma q = Some e \<longrightarrow> root (ae_tree e) = q"
  proof (intro allI impI)
    fix q e assume "map_of ma q = Some e"
    with np a have "map_of (a # ma) q = Some e" by auto
    with Cons.prems(2) show "root (ae_tree e) = q" by blast
  qed
  let ?w = "if ae_dirty it then
      (if \<not> ae_entered it then (db_sapling_anchor db)(rt := None)
       else if rt \<noteq> er then (db_sapling_anchor db)(rt := Some (ae_tree it)) else db_sapling_anchor db)
    else db_sapling_anchor db"
  have step: "fold apply_op (db_BatchWriteAnchors er (a # ma)) db =
      fold apply_op (db_BatchWriteAnchors er ma) (db\<lparr>db_sapling_anchor := ?w\<rparr>)"
    by (simp add: a db_BatchWriteAnchors_def)
  have "\<forall>q t. ?w q = Some t \<longrightarrow> root t = q" using Cons.prems(3) rit by auto
  with Cons.IH[of "db\<lparr>db_sapling_anchor := ?w\<rparr>"] Cons.prems(1) tl obtain u where
    u: "fold apply_op (db_BatchWriteAnchors er ma) (db\<lparr>db_sapling_anchor := ?w\<rparr>) = db\<lparr>db_sapling_anchor := u\<rparr>"
    "\<forall>q t. u q = Some t \<longrightarrow> root t = q"
    "\<forall>q. q \<noteq> er \<longrightarrow> (u q \<noteq> None) = merge_anchors ma (\<lambda>q. ?w q \<noteq> None) q" by auto
  have "merge_anchors ma (\<lambda>q. ?w q \<noteq> None) q = merge_anchors (a # ma) (\<lambda>q. db_sapling_anchor db q \<noteq> None) q"
    if "q \<noteq> er" for q
    using np that by (auto simp: a merge_anchors_def split: option.splits)
  with u step show ?case by auto
qed

lemma db_BatchWrite_result:
  assumes "distinct (map fst mc)" and "hb \<noteq> 0"
    and "db_GetBestBlock db = 0 \<and> length (db_GetHeadBlocks db) = 2 \<longrightarrow> db_GetHeadBlocks db ! 0 = hb"
    and "tip = (if db_GetBestBlock db = 0 \<and> length (db_GetHeadBlocks db) = 2 then db_GetHeadBlocks db ! 1 else db_GetBestBlock db)"
  shows "db_BatchWrite f er db mc hb ha ma mn = Inr (True,
    fold apply_op (BatchWriteSapling er ha ma mn @ [EraseHeads, WriteBest hb])
      (db\<lparr>db_best_block := None, db_head_blocks := Some [hb, tip], db_coin := merge_coins mc (db_coin db)\<rparr>))"
proof -
  obtain dn rest where l: "db_coin_loop f mc [EraseBest, WriteHeads [hb, tip]] = (dn, rest)" by fastforce
  let ?last = "rest @ BatchWriteSapling er ha ma mn @ [EraseHeads, WriteBest hb]"
  have b: "db_batches f er db mc hb ha ma mn = Inr (dn @ [?last])"
    using assms(2,3,4) l by (auto simp: db_batches_def Let_def)
  have cc: "concat (dn @ [?last]) = [EraseBest, WriteHeads [hb, tip]] @ coin_ops mc @
      BatchWriteSapling er ha ma mn @ [EraseHeads, WriteBest hb]"
    using db_coin_loop_ops[OF l] by simp
  have "foldl WriteBatch db (dn @ [?last]) =
    fold apply_op (BatchWriteSapling er ha ma mn @ [EraseHeads, WriteBest hb])
      (db\<lparr>db_best_block := None, db_head_blocks := Some [hb, tip], db_coin := merge_coins mc (db_coin db)\<rparr>)"
    unfolding foldl_WriteBatch cc using assms(1) by (simp add: fold_coin_ops)
  with b show ?thesis by (simp add: db_BatchWrite_def)
qed

definition db_inv :: "('t \<Rightarrow> u256) \<Rightarrow> 't CoinsDB \<Rightarrow> bool" where
  "db_inv root db \<longleftrightarrow> (\<forall>p c. db_coin db p = Some c \<longrightarrow> \<not> IsSpent c) \<and>
     (\<forall>rt t. db_sapling_anchor db rt = Some t \<longrightarrow> root t = rt) \<and> db_head_blocks db = None"

definition db_abst :: "('t \<Rightarrow> u256) \<Rightarrow> 't \<Rightarrow> 't CoinsDB \<Rightarrow> chainstate" where
  "db_abst root empty_tree db =
     \<lparr>cs_utxo = db_coin db, cs_nullifier = db_GetNullifier db,
      cs_anchor = (\<lambda>rt. rt = root empty_tree \<or> db_sapling_anchor db rt \<noteq> None),
      cs_best = db_GetBestBlock db, cs_bestAnchor = db_GetBestAnchor (root empty_tree) db\<rparr>"

lemma db_BatchWrite_ok:
  assumes "db_inv root db" and "batch_ok root (root empty_tree) (db_abst root empty_tree db) mc ma mn" and "hb \<noteq> 0"
  shows "\<exists>db'. db_BatchWrite f (root empty_tree) db mc hb ha ma mn = Inr (True, db') \<and> db_inv root db' \<and>
    cs_utxo (db_abst root empty_tree db') = merge_coins mc (cs_utxo (db_abst root empty_tree db)) \<and>
    cs_anchor (db_abst root empty_tree db') = merge_anchors ma (cs_anchor (db_abst root empty_tree db)) \<and>
    cs_nullifier (db_abst root empty_tree db') = merge_nullifiers mn (cs_nullifier (db_abst root empty_tree db)) \<and>
    cs_best (db_abst root empty_tree db') = hb \<and> (ha \<noteq> 0 \<longrightarrow> cs_bestAnchor (db_abst root empty_tree db') = ha)"
proof -
  let ?er = "root empty_tree" and ?tip = "db_GetBestBlock db"
  have heads: "db_GetHeadBlocks db = []" and us: "\<forall>p c. db_coin db p = Some c \<longrightarrow> \<not> IsSpent c"
    and rts: "\<forall>rt t. db_sapling_anchor db rt = Some t \<longrightarrow> root t = rt"
    using assms(1) by (simp_all add: db_inv_def db_GetHeadBlocks_def)
  have d: "distinct (map fst mc)" "distinct (map fst ma)" "distinct (map fst mn)"
    and ra: "\<forall>rt e. map_of ma rt = Some e \<longrightarrow> root (ae_tree e) = rt"
    and em: "\<forall>e. map_of ma ?er = Some e \<longrightarrow> ae_dirty e \<longrightarrow> ae_entered e"
    using assms(2) unfolding batch_ok_def by blast+
  let ?db1 = "db\<lparr>db_best_block := None, db_head_blocks := Some [hb, ?tip], db_coin := merge_coins mc (db_coin db)\<rparr>"
  obtain ua where ua: "fold apply_op (db_BatchWriteAnchors ?er ma) ?db1 = ?db1\<lparr>db_sapling_anchor := ua\<rparr>"
    "\<forall>rt t. ua rt = Some t \<longrightarrow> root t = rt"
    "\<forall>rt. rt \<noteq> ?er \<longrightarrow> (ua rt \<noteq> None) = merge_anchors ma (\<lambda>rt. db_sapling_anchor db rt \<noteq> None) rt"
    using fold_anchor_ops[OF d(2) ra, of ?db1 ?er] rts by auto
  obtain un where un: "fold apply_op (db_BatchWriteNullifiers mn) (?db1\<lparr>db_sapling_anchor := ua\<rparr>)
      = ?db1\<lparr>db_sapling_anchor := ua, db_sapling_nullifier := un\<rparr>"
    "(\<lambda>n. un n \<noteq> None) = merge_nullifiers mn (\<lambda>n. db_sapling_nullifier db n \<noteq> None)"
    using fold_nullifier_ops[OF d(3), of "?db1\<lparr>db_sapling_anchor := ua\<rparr>"] by auto
  let ?db' = "?db1\<lparr>db_sapling_anchor := ua, db_sapling_nullifier := un, db_head_blocks := None,
      db_best_block := Some hb, db_best_sapling_anchor := (if ha \<noteq> 0 then Some ha else db_best_sapling_anchor db)\<rparr>"
  have w: "db_BatchWrite f ?er db mc hb ha ma mn = Inr (True, ?db')"
    using db_BatchWrite_result[OF d(1) assms(3), of db ?tip f ?er ha ma mn] heads ua(1) un(1)
    by (simp add: BatchWriteSapling_def)
  have "db_inv root ?db'"
    using us ua(2) by (auto simp: db_inv_def merge_coins_def visible_def split: option.splits if_splits)
  moreover have "(\<lambda>rt. rt = ?er \<or> ua rt \<noteq> None) = merge_anchors ma (\<lambda>rt. rt = ?er \<or> db_sapling_anchor db rt \<noteq> None)"
  proof
    fix rt
    show "(rt = ?er \<or> ua rt \<noteq> None) = merge_anchors ma (\<lambda>rt. rt = ?er \<or> db_sapling_anchor db rt \<noteq> None) rt"
    proof (cases "rt = ?er")
      case True
      then show ?thesis using em by (simp add: merge_anchors_def split: option.splits)
    next
      case False
      with ua(3) have "(ua rt \<noteq> None) = merge_anchors ma (\<lambda>rt. db_sapling_anchor db rt \<noteq> None) rt" by blast
      then show ?thesis using False by (simp add: merge_anchors_def split: option.splits)
    qed
  qed
  ultimately show ?thesis
    using w un(2) by (simp add: db_abst_def db_GetNullifier_def[abs_def] db_GetBestBlock_def db_GetBestAnchor_def)
qed

interpretation dbv: coins_view "db_view over_limit empty_tree (root empty_tree)" "db_inv root"
    "db_abst root empty_tree" root "root empty_tree" for over_limit empty_tree root
proof unfold_locales
  fix v mc ma mn and hb ha :: u256
  assume "db_inv root v" "batch_ok root (root empty_tree) (db_abst root empty_tree v) mc ma mn" "hb \<noteq> 0"
  then show "\<exists>v'. BatchWrite_v (db_view over_limit empty_tree (root empty_tree)) v mc hb ha ma mn = Inr (True, v') \<and>
    db_inv root v' \<and>
    cs_utxo (db_abst root empty_tree v') = merge_coins mc (cs_utxo (db_abst root empty_tree v)) \<and>
    cs_anchor (db_abst root empty_tree v') = merge_anchors ma (cs_anchor (db_abst root empty_tree v)) \<and>
    cs_nullifier (db_abst root empty_tree v') = merge_nullifiers mn (cs_nullifier (db_abst root empty_tree v)) \<and>
    cs_best (db_abst root empty_tree v') = hb \<and> (ha \<noteq> 0 \<longrightarrow> cs_bestAnchor (db_abst root empty_tree v') = ha)"
    unfolding db_view_def by (simp only: CCoinsView.select_convs) (rule db_BatchWrite_ok)
next
  fix v p r v'
  assume "db_inv root v" "GetCoin_v (db_view over_limit empty_tree (root empty_tree)) v p = (r, v')"
  then show "db_inv root v' \<and> db_abst root empty_tree v' = db_abst root empty_tree v \<and>
      Option.bind r visible = cs_utxo (db_abst root empty_tree v) p"
    by (cases r) (auto simp: db_view_def db_GetCoin_def db_abst_def visible_def db_inv_def)
qed (auto simp: db_view_def db_abst_def db_GetSaplingAnchorAt_def db_inv_def split: if_splits)

text \<open>The tip cache over the database, and a block's scratch cache over the tip cache.\<close>

interpretation tip: coins_view "cache_view (db_view over_limit empty_tree (root empty_tree))"
    "cache_inv (db_inv root) (db_abst root empty_tree) root (root empty_tree)"
    "cache_abst (db_abst root empty_tree)" root "root empty_tree" for over_limit empty_tree root
  by (rule dbv.cache_is_view)


section \<open>Interrupted writes\<close>

lemma db_coin_loop_first: "db_coin_loop f mc batch = (x # d, r) \<Longrightarrow> \<exists>ys. x = batch @ ys"
  by (induction f mc batch arbitrary: d r rule: db_coin_loop.induct)
    (fastforce simp: Let_def split: if_splits prod.splits)+

lemma take_coin_ops: "\<exists>i. take j (coin_ops mc :: 't db_op list) = coin_ops (take i mc)"
proof (induction mc arbitrary: j)
  case (Cons a mc)
  obtain p it where a: "a = (p, it)" by fastforce
  show ?case
  proof (cases "ce_dirty it")
    case True
    show ?thesis
    proof (cases j)
      case 0
      then show ?thesis by (intro exI[of _ 0]) (simp add: coin_ops_def)
    next
      case (Suc j')
      obtain i where "take j' (coin_ops mc :: 't db_op list) = coin_ops (take i mc)" using Cons.IH by blast
      with Suc True a show ?thesis by (intro exI[of _ "Suc i"]) (simp add: coin_ops_def)
    qed
  next
    case False
    obtain i where "take j (coin_ops mc :: 't db_op list) = coin_ops (take i mc)" using Cons.IH by blast
    with False a show ?thesis by (intro exI[of _ "Suc i"]) (simp add: coin_ops_def)
  qed
qed (simp add: coin_ops_def)

lemma map_of_take: "distinct (map fst mc) \<Longrightarrow> map_of (take i mc) p = None \<or> map_of (take i mc) p = map_of mc p"
proof (induction mc arbitrary: i)
  case (Cons a mc)
  then show ?case by (cases i) (auto split: if_splits)
qed simp

lemma merge_coins_take:
  assumes "distinct (map fst mc)"
  shows "merge_coins (take i mc) u p = u p \<or> merge_coins (take i mc) u p = merge_coins mc u p"
    and "merge_coins mc (merge_coins (take i mc) u) = merge_coins mc u"
proof -
  show "merge_coins (take i mc) u p = u p \<or> merge_coins (take i mc) u p = merge_coins mc u p" for p
    using map_of_take[OF assms, of i p] by (auto simp: merge_coins_def)
  then show "merge_coins mc (merge_coins (take i mc) u) = merge_coins mc u"
    by (fastforce simp: merge_coins_def fun_eq_iff split: option.splits)
qed

lemma db_batches_Inr:
  assumes "db_batches f er db mc hb ha ma mn = Inr bs"
  obtains tip dn rest where "hb \<noteq> 0"
    and "tip = (if db_GetBestBlock db = 0 \<and> length (db_GetHeadBlocks db) = 2 then db_GetHeadBlocks db ! 1 else db_GetBestBlock db)"
    and "db_coin_loop f mc [EraseBest, WriteHeads [hb, tip]] = (dn, rest)"
    and "bs = dn @ [rest @ BatchWriteSapling er ha ma mn @ [EraseHeads, WriteBest hb]]"
  using assms by (auto simp: db_batches_def Let_def split: if_splits prod.splits)

lemma interrupted_state:
  assumes "db_batches f er db mc hb ha ma mn = Inr bs" and "distinct (map fst mc)" and "0 < k" and "k < length bs"
  obtains i tip where "foldl WriteBatch db (take k bs) =
      db\<lparr>db_best_block := None, db_head_blocks := Some [hb, tip], db_coin := merge_coins (take i mc) (db_coin db)\<rparr>"
    and "tip = (if db_GetBestBlock db = 0 \<and> length (db_GetHeadBlocks db) = 2 then db_GetHeadBlocks db ! 1 else db_GetBestBlock db)"
proof -
  from assms(1) obtain tip dn rest where tip: "tip = (if db_GetBestBlock db = 0 \<and> length (db_GetHeadBlocks db) = 2
        then db_GetHeadBlocks db ! 1 else db_GetBestBlock db)"
    and l: "db_coin_loop f mc [EraseBest, WriteHeads [hb, tip]] = (dn, rest)"
    and bs: "bs = dn @ [rest @ BatchWriteSapling er ha ma mn @ [EraseHeads, WriteBest hb]]" by (rule db_batches_Inr)
  let ?ops = "[EraseBest, WriteHeads [hb, tip]] @ coin_ops mc"
  have tk: "take k bs = take k dn" using assms(4) bs by simp
  from assms(3,4) bs obtain x d where dn: "dn = x # d" by (cases dn) auto
  from db_coin_loop_first[OF l[unfolded dn]] obtain ys where x: "x = [EraseBest, WriteHeads [hb, tip]] @ ys" by blast
  have "concat (take k dn) @ (concat (drop k dn) @ rest) = ?ops"
    using db_coin_loop_ops[OF l] by (metis append.assoc append_take_drop_id concat_append)
  moreover have "\<exists>zs. concat (take k dn) = [EraseBest, WriteHeads [hb, tip]] @ zs" using assms(3) x dn by (cases k) auto
  then obtain zs where zs: "concat (take k dn) = [EraseBest, WriteHeads [hb, tip]] @ zs" by blast
  ultimately have "zs = take (length zs) (coin_ops mc)" by (metis append.assoc append_eq_conv_conj same_append_eq)
  then obtain i where "zs = coin_ops (take i mc)" using take_coin_ops by metis
  moreover have "distinct (map fst (take i mc))" using assms(2) by (simp add: distinct_take flip: take_map)
  ultimately have "foldl WriteBatch db (take k bs) =
      db\<lparr>db_best_block := None, db_head_blocks := Some [hb, tip], db_coin := merge_coins (take i mc) (db_coin db)\<rparr>"
    unfolding foldl_WriteBatch tk zs by (simp add: fold_coin_ops)
  with that tip show thesis by blast
qed

section \<open>Running a cache\<close>

text \<open>
  States a cache over the database can get into, together with the chain state a caller
  believes it to show: \<open>cache_reach over_limit empty_tree root s c\<close>.  Each rule is one call
  as the block-connection code makes it, under the contract stated at its declaration.
\<close>

inductive cache_reach ::
  "('t db_op list \<Rightarrow> bool) \<Rightarrow> 't \<Rightarrow> ('t \<Rightarrow> u256) \<Rightarrow> chainstate \<Rightarrow> ('t CoinsDB, 't) CCoinsViewCache \<Rightarrow> bool"
  for over_limit empty_tree root where
  start: "db_inv root db \<Longrightarrow>
    cache_reach over_limit empty_tree root (db_abst root empty_tree db) (new_cache db)"
| have_coin: "cache_reach over_limit empty_tree root s c \<Longrightarrow>
    HaveCoin (db_view over_limit empty_tree (root empty_tree)) c p = (b, c') \<Longrightarrow>
    cache_reach over_limit empty_tree root s c'"
| add_coin: "cache_reach over_limit empty_tree root s c \<Longrightarrow> \<not> IsUnspendable (scriptPubKey (coin_out coin)) \<Longrightarrow>
    po \<or> cs_utxo s p = None \<Longrightarrow> AddCoin c p coin po = Inr c' \<Longrightarrow>
    cache_reach over_limit empty_tree root (s\<lparr>cs_utxo := (cs_utxo s)(p := Some coin)\<rparr>) c'"
| spend_coin: "cache_reach over_limit empty_tree root s c \<Longrightarrow>
    SpendCoin (db_view over_limit empty_tree (root empty_tree)) c p = (m, c') \<Longrightarrow>
    cache_reach over_limit empty_tree root (s\<lparr>cs_utxo := (cs_utxo s)(p := None)\<rparr>) c'"
| uncache: "cache_reach over_limit empty_tree root s c \<Longrightarrow> cache_reach over_limit empty_tree root s (Uncache c p)"
| set_best: "cache_reach over_limit empty_tree root s c \<Longrightarrow> h \<noteq> 0 \<Longrightarrow>
    cache_reach over_limit empty_tree root (s\<lparr>cs_best := h\<rparr>) (SetBestBlock c h)"
| push_anchor: "cache_reach over_limit empty_tree root s c \<Longrightarrow> root tree \<noteq> 0 \<Longrightarrow> cs_bestAnchor s \<noteq> root tree \<Longrightarrow>
    cache_reach over_limit empty_tree root
      (s\<lparr>cs_anchor := (cs_anchor s)(root tree := True), cs_bestAnchor := root tree\<rparr>)
      (PushAnchor root (db_view over_limit empty_tree (root empty_tree)) c tree)"
| pop_anchor: "cache_reach over_limit empty_tree root s c \<Longrightarrow> newrt \<noteq> 0 \<Longrightarrow> cs_bestAnchor s \<noteq> newrt \<Longrightarrow>
    cs_anchor s (cs_bestAnchor s) \<Longrightarrow> cs_bestAnchor s \<noteq> root empty_tree \<Longrightarrow>
    PopAnchor (db_view over_limit empty_tree (root empty_tree)) c newrt = Inr c' \<Longrightarrow>
    cache_reach over_limit empty_tree root
      (s\<lparr>cs_anchor := (cs_anchor s)(cs_bestAnchor s := False), cs_bestAnchor := newrt\<rparr>) c'"
| set_nullifiers: "cache_reach over_limit empty_tree root s c \<Longrightarrow> sapData tx = Some d \<Longrightarrow>
    cache_reach over_limit empty_tree root
      (s\<lparr>cs_nullifier := (\<lambda>n. if n \<in> sd_nullifier ` set (vShieldedSpend d) then spent else cs_nullifier s n)\<rparr>)
      (SetNullifiers c tx spent)"
| flush: "cache_reach over_limit empty_tree root s c \<Longrightarrow> hashBlock c \<noteq> 0 \<Longrightarrow> hashSaplingAnchor c \<noteq> 0 \<Longrightarrow>
    Flush (db_view over_limit empty_tree (root empty_tree)) c = Inr (b, c') \<Longrightarrow>
    cache_reach over_limit empty_tree root s c'"

lemma AddCoin_spent: "AddCoin c p coin po = Inr c' \<Longrightarrow> \<not> IsSpent coin"
  by (auto simp: AddCoin_def split: if_splits)

lemma SetBestBlock_ok:
  assumes "cache_inv vinv abst root er c" and "h \<noteq> 0"
  shows "cache_inv vinv abst root er (SetBestBlock c h) \<and> cache_abst abst (SetBestBlock c h) = (cache_abst abst c)\<lparr>cs_best := h\<rparr>"
  using assms by (simp add: SetBestBlock_def cache_inv_def cache_abst_def Let_def)

lemma cache_reach_sound:
  assumes "cache_reach over_limit empty_tree root s c"
  shows "cache_inv (db_inv root) (db_abst root empty_tree) root (root empty_tree) c \<and>
    cache_abst (db_abst root empty_tree) c = s"
  using assms
proof (induction rule: cache_reach.induct)
  case (start db)
  then show ?case by (simp add: new_cache_inv new_cache_abst)
next
  case (have_coin s c p b c')
  show ?case using dbv.HaveCoin_ok[OF conjunct1[OF have_coin.IH] have_coin.hyps(2)] have_coin.IH by simp
next
  case (add_coin s c coin po p c')
  then obtain c2 where "AddCoin c p coin po = Inr c2"
    "cache_inv (db_inv root) (db_abst root empty_tree) root (root empty_tree) c2"
    "cache_abst (db_abst root empty_tree) c2 = s\<lparr>cs_utxo := (cs_utxo s)(p := Some coin)\<rparr>"
    using dbv.AddCoin_ok[of root empty_tree c coin po p] AddCoin_spent[of c p coin po c'] by auto
  with add_coin show ?case by simp
next
  case (spend_coin s c p m c')
  show ?case using dbv.SpendCoin_ok[OF conjunct1[OF spend_coin.IH] spend_coin.hyps(2)] spend_coin.IH by simp
next
  case (uncache s c p)
  show ?case using dbv.Uncache_ok[OF conjunct1[OF uncache.IH]] uncache.IH by simp
next
  case (set_best s c h)
  show ?case using SetBestBlock_ok[OF conjunct1[OF set_best.IH] set_best.hyps(2)] set_best.IH by simp
next
  case (push_anchor s c tree)
  then show ?case using dbv.PushAnchor_ok[of root empty_tree c tree over_limit] by simp
next
  case (pop_anchor s c newrt c')
  then show ?case using dbv.PopAnchor_ok[of root empty_tree c newrt over_limit] by auto
next
  case (set_nullifiers s c tx d spent)
  show ?case using dbv.SetNullifiers_ok[OF conjunct1[OF set_nullifiers.IH] set_nullifiers.hyps(2)] set_nullifiers.IH by simp
next
  case (flush s c b c')
  then show ?case using dbv.Flush_ok[of root empty_tree c over_limit] by auto
qed

subsection \<open>Sample data\<close>

definition sample_root :: "nat \<Rightarrow> u256" where
  "sample_root n = of_nat n + 1"

definition sample_db :: "nat CoinsDB" where
  "sample_db = \<lparr>db_coin = (\<lambda>_. None), db_best_block = None, db_head_blocks = None,
     db_sapling_anchor = (\<lambda>_. None), db_sapling_nullifier = (\<lambda>_. None), db_best_sapling_anchor = None\<rparr>"

definition sample_out :: COutPoint where
  "sample_out = \<lparr>op_hash = 7, op_n = 0\<rparr>"

definition sample_coin :: Coin where
  "sample_coin = \<lparr>fCoinBase = False, fCoinStake = False, coin_out = CTxOut_make 5 [OP_1], coin_nHeight = 9\<rparr>"

lemma sample_db_inv: "db_inv sample_root sample_db"
  by (simp add: db_inv_def sample_db_def)

lemma sample_coin_ok: "\<not> IsSpent sample_coin" "\<not> IsUnspendable (scriptPubKey (coin_out sample_coin))"
  by code_simp+

lemma null_spent: "IsSpent (ce_coin CCoinsCacheEntry_default)"
  by code_simp

lemma sample_reach:
  "cache_reach (\<lambda>_. False) 0 sample_root
     ((db_abst sample_root 0 sample_db)\<lparr>cs_utxo := (cs_utxo (db_abst sample_root 0 sample_db))(sample_out := Some sample_coin)\<rparr>)
     ((new_cache sample_db)\<lparr>cacheCoins := [(sample_out, \<lparr>ce_coin = sample_coin, ce_dirty = True, ce_fresh = True\<rparr>)]\<rparr>)"
proof (rule cache_reach.add_coin[OF cache_reach.start[OF sample_db_inv] sample_coin_ok(2)])
  show "False \<or> cs_utxo (db_abst sample_root 0 sample_db) sample_out = None" by (simp add: db_abst_def sample_db_def)
  show "AddCoin (new_cache sample_db) sample_out sample_coin False =
    Inr ((new_cache sample_db)\<lparr>cacheCoins := [(sample_out, \<lparr>ce_coin = sample_coin, ce_dirty = True, ce_fresh = True\<rparr>)]\<rparr>)"
    by (simp add: AddCoin_def sample_coin_ok new_cache_def CCoinsCacheEntry_default_def null_spent[unfolded CCoinsCacheEntry_default_def, simplified] Let_def)
qed

lemma Flush_base:
  "Flush vt c = Inr (b, c') \<Longrightarrow> BatchWrite_v vt (cv_base c) (cacheCoins c) (hashBlock c) (hashSaplingAnchor c)
     (cacheSaplingAnchors c) (cacheSaplingNullifiers c) = Inr (b, cv_base c')"
  by (auto simp: Flush_def split: sum.splits)

lemma BatchWrite_hashes: "BatchWrite c mc hb ha ma mn = Inr (b, c') \<Longrightarrow> hashBlock c' = hb \<and> hashSaplingAnchor c' = ha"
  by (auto simp: BatchWrite_def split: sum.splits)

lemma Flush_cache_hashes:
  assumes "Flush (cache_view vt) c = Inr (b, c')"
  shows "hashBlock (cv_base c') = hashBlock c \<and> hashSaplingAnchor (cv_base c') = hashSaplingAnchor c"
  using Flush_base[OF assms] BatchWrite_hashes by (simp add: cache_view_def)

definition sample_coins :: CCoinsMap where
  "sample_coins = [(sample_out, \<lparr>ce_coin = sample_coin, ce_dirty = True, ce_fresh = True\<rparr>),
      (sample_out\<lparr>op_n := 1\<rparr>, \<lparr>ce_coin = sample_coin, ce_dirty = True, ce_fresh = True\<rparr>)]"

definition sample_block_cache :: "((nat CoinsDB, nat) CCoinsViewCache, nat) CCoinsViewCache" where
  "sample_block_cache = \<lparr>cv_base = new_cache sample_db, hashBlock = 4, cacheCoins = [], hashSaplingAnchor = 1,
     cacheSaplingAnchors = [], cacheSaplingNullifiers = []\<rparr>"

lemma sample_block_cache_inv:
  "cache_inv (cache_inv (db_inv sample_root) (db_abst sample_root 0) sample_root (sample_root 0))
      (cache_abst (db_abst sample_root 0)) sample_root (sample_root 0) sample_block_cache"
proof -
  have "cache_inv (db_inv sample_root) (db_abst sample_root 0) sample_root (sample_root 0) (new_cache sample_db)"
    by (rule new_cache_inv) (rule sample_db_inv)
  then show ?thesis
    unfolding cache_inv_def[of "cache_inv (db_inv sample_root) (db_abst sample_root 0) sample_root (sample_root 0)"]
    by (simp add: sample_block_cache_def coins_ok_def anchors_ok_def nullifiers_ok_def)
qed

section \<open>Properties of the coin store\<close>

lemma cache_queries:
  assumes "cache_reach over_limit empty_tree root s c"
  shows "fst (HaveCoin (db_view over_limit empty_tree (root empty_tree)) c p) = (cs_utxo s p \<noteq> None)"
    and "Option.bind (fst (GetCoin (db_view over_limit empty_tree (root empty_tree)) c p)) visible = cs_utxo s p"
    and "fst (GetNullifier (db_view over_limit empty_tree (root empty_tree)) c n) = cs_nullifier s n"
    and "(fst (GetSaplingAnchorAt (db_view over_limit empty_tree (root empty_tree)) c rt) \<noteq> None) = cs_anchor s rt"
    and "fst (GetBestBlock (db_view over_limit empty_tree (root empty_tree)) c) = cs_best s"
    and "fst (GetBestAnchor (db_view over_limit empty_tree (root empty_tree)) c) = cs_bestAnchor s"
proof -
  note i = cache_reach_sound[OF assms]
  note ok = dbv.HaveCoin_ok[OF conjunct1[OF i] prod.collapse[symmetric], of over_limit p]
    dbv.GetCoin_ok[OF conjunct1[OF i] prod.collapse[symmetric], of over_limit p]
    dbv.GetNullifier_ok[OF conjunct1[OF i] prod.collapse[symmetric], of over_limit n]
    dbv.GetSaplingAnchorAt_ok[OF conjunct1[OF i] prod.collapse[symmetric], of over_limit rt]
    dbv.GetBestBlock_ok[OF conjunct1[OF i] prod.collapse[symmetric], of over_limit]
    dbv.GetBestAnchor_ok[OF conjunct1[OF i] prod.collapse[symmetric], of over_limit]
  show "fst (HaveCoin (db_view over_limit empty_tree (root empty_tree)) c p) = (cs_utxo s p \<noteq> None)"
    using ok(1) i by simp
  show "Option.bind (fst (GetCoin (db_view over_limit empty_tree (root empty_tree)) c p)) visible = cs_utxo s p"
    using ok(2) i by simp
  show "fst (GetNullifier (db_view over_limit empty_tree (root empty_tree)) c n) = cs_nullifier s n"
    using ok(3) i by simp
  show "(fst (GetSaplingAnchorAt (db_view over_limit empty_tree (root empty_tree)) c rt) \<noteq> None) = cs_anchor s rt"
    using ok(4) i by simp
  show "fst (GetBestBlock (db_view over_limit empty_tree (root empty_tree)) c) = cs_best s"
    using ok(5) i by simp
  show "fst (GetBestAnchor (db_view over_limit empty_tree (root empty_tree)) c) = cs_bestAnchor s"
    using ok(6) i by simp
qed





lemma interrupted_write:
  assumes "db_batches f er db mc hb ha ma mn = Inr bs" and "distinct (map fst mc)" and "0 < k" and "k < length bs"
    and "db_head_blocks db = None"
  defines "db1 \<equiv> foldl WriteBatch db (take k bs)"
  shows "db_GetBestBlock db1 = 0" and "db_GetHeadBlocks db1 = [hb, db_GetBestBlock db]"
    and "db_coin db1 p = db_coin db p \<or> db_coin db1 p = merge_coins mc (db_coin db) p"
    and "db_BatchWrite f er db1 mc hb ha ma mn = db_BatchWrite f er db mc hb ha ma mn"
proof -
  have heads: "db_GetHeadBlocks db = []" using assms(5) by (simp add: db_GetHeadBlocks_def)
  from interrupted_state[OF assms(1-4)] obtain i tip where d: "db1 =
      db\<lparr>db_best_block := None, db_head_blocks := Some [hb, tip], db_coin := merge_coins (take i mc) (db_coin db)\<rparr>"
    and "tip = (if db_GetBestBlock db = 0 \<and> length (db_GetHeadBlocks db) = 2 then db_GetHeadBlocks db ! 1 else db_GetBestBlock db)"
    unfolding db1_def by blast
  with heads have tip: "tip = db_GetBestBlock db" by simp
  show n: "db_GetBestBlock db1 = 0" by (simp add: d db_GetBestBlock_def)
  show h: "db_GetHeadBlocks db1 = [hb, db_GetBestBlock db]" by (simp add: d db_GetHeadBlocks_def tip)
  show "db_coin db1 p = db_coin db p \<or> db_coin db1 p = merge_coins mc (db_coin db) p"
    using merge_coins_take(1)[OF assms(2)] by (simp add: d)
  have hb: "hb \<noteq> 0" using db_batches_Inr[OF assms(1)] by blast
  have "db_BatchWrite f er db1 mc hb ha ma mn = Inr (True,
    fold apply_op (BatchWriteSapling er ha ma mn @ [EraseHeads, WriteBest hb])
      (db1\<lparr>db_best_block := None, db_head_blocks := Some [hb, db_GetBestBlock db], db_coin := merge_coins mc (db_coin db1)\<rparr>))"
    using n h by (intro db_BatchWrite_result[OF assms(2) hb]) simp_all
  moreover have "db_BatchWrite f er db mc hb ha ma mn = Inr (True,
    fold apply_op (BatchWriteSapling er ha ma mn @ [EraseHeads, WriteBest hb])
      (db\<lparr>db_best_block := None, db_head_blocks := Some [hb, db_GetBestBlock db], db_coin := merge_coins mc (db_coin db)\<rparr>))"
    using heads by (intro db_BatchWrite_result[OF assms(2) hb]) simp_all
  ultimately show "db_BatchWrite f er db1 mc hb ha ma mn = db_BatchWrite f er db mc hb ha ma mn"
    by (simp add: d merge_coins_take(2)[OF assms(2)])
qed

text \<open>C3: Interrupting the database write between any two of its batches leaves a database whose best block
  is null and whose head blocks name the new and the old tip, in which every coin is either its old
  or its new version; and writing the same cache again from there ends in the very database the
  uninterrupted write produces.\<close>

theorem interrupted_write_recovers:
  assumes "db_batches f er db mc hb ha ma mn = Inr bs" and "distinct (map fst mc)" and "0 < k" and "k < length bs"
    and "db_head_blocks db = None"
  shows "let db1 = foldl WriteBatch db (take k bs) in
    db_GetBestBlock db1 = 0 \<and> db_GetHeadBlocks db1 = [hb, db_GetBestBlock db] \<and>
    (db_coin db1 p = db_coin db p \<or> db_coin db1 p = merge_coins mc (db_coin db) p) \<and>
    db_BatchWrite f er db1 mc hb ha ma mn = db_BatchWrite f er db mc hb ha ma mn"
  unfolding Let_def by (intro conjI interrupted_write[OF assms])

theorem interrupted_write_recovers_witness:
  "\<exists>b bs. db_batches (\<lambda>_. True) 1 (sample_db :: nat CoinsDB) sample_coins 4 1 ([] :: nat CAnchorsSaplingMap) [] = Inr (b # bs) \<and>
    db_BatchWrite (\<lambda>_. True) 1 (WriteBatch sample_db b) sample_coins 4 1 ([] :: nat CAnchorsSaplingMap) [] = db_BatchWrite (\<lambda>_. True) 1 (sample_db :: nat CoinsDB) sample_coins 4 1 ([] :: nat CAnchorsSaplingMap) []"
proof -
  obtain b b2 bs where b: "db_batches (\<lambda>_. True) 1 (sample_db :: nat CoinsDB) sample_coins 4 1 ([] :: nat CAnchorsSaplingMap) [] = Inr (b # b2 # bs)"
    by (simp add: sample_coins_def db_batches_def sample_db_def db_GetHeadBlocks_def db_GetBestBlock_def)
  have "distinct (map fst sample_coins)" by (simp add: sample_coins_def sample_out_def)
  moreover have "db_head_blocks sample_db = None" by (simp add: sample_db_def)
  ultimately show ?thesis using interrupted_write_recovers[OF b, of 1] b by (auto simp: Let_def)
qed

lemma double_spend_facts:
  assumes "cache_reach over_limit empty_tree root s c"
  shows "Option.bind (fst (SpendCoin (db_view over_limit empty_tree (root empty_tree))
        (snd (SpendCoin (db_view over_limit empty_tree (root empty_tree)) c p)) p)) visible = None"
    and "\<not> tx_IsCoinBase tx \<Longrightarrow> p \<in> prevout ` set (vin tx) \<Longrightarrow>
      \<not> fst (HaveInputs (db_view over_limit empty_tree (root empty_tree))
        (snd (SpendCoin (db_view over_limit empty_tree (root empty_tree)) c p)) tx)"
    and "sapData tx1 = Some d1 \<Longrightarrow> IsShieldedTx tx \<Longrightarrow> sapData tx = Some d \<Longrightarrow>
      sd_nullifier ` set (vShieldedSpend d) \<inter> sd_nullifier ` set (vShieldedSpend d1) \<noteq> {} \<Longrightarrow>
      \<not> fst (HaveShieldedRequirements (db_view over_limit empty_tree (root empty_tree)) (SetNullifiers c tx1 True) tx)"
proof -
  let ?vt = "db_view over_limit empty_tree (root empty_tree)"
  have "cache_reach over_limit empty_tree root (s\<lparr>cs_utxo := (cs_utxo s)(p := None)\<rparr>) (snd (SpendCoin ?vt c p))"
    by (rule cache_reach.spend_coin[OF assms prod.collapse[symmetric]])
  note sp = cache_reach_sound[OF this]
  show "Option.bind (fst (SpendCoin ?vt (snd (SpendCoin ?vt c p)) p)) visible = None"
    using dbv.SpendCoin_ok[OF conjunct1[OF sp] prod.collapse[symmetric], of over_limit p] sp by simp
  show "\<not> fst (HaveInputs ?vt (snd (SpendCoin ?vt c p)) tx)"
    if "\<not> tx_IsCoinBase tx" and "p \<in> prevout ` set (vin tx)"
    using dbv.HaveInputs_ok[OF conjunct1[OF sp] prod.collapse[symmetric], of over_limit tx] sp that by auto
  assume t: "sapData tx1 = Some d1" "IsShieldedTx tx" "sapData tx = Some d"
    "sd_nullifier ` set (vShieldedSpend d) \<inter> sd_nullifier ` set (vShieldedSpend d1) \<noteq> {}"
  note sn = cache_reach_sound[OF cache_reach.set_nullifiers[OF assms t(1), of True]]
  show "\<not> fst (HaveShieldedRequirements ?vt (SetNullifiers c tx1 True) tx)"
    using dbv.HaveShieldedRequirements_ok[OF conjunct1[OF sn] prod.collapse[symmetric], of over_limit tx] sn t by fastforce
qed

text \<open>C4: No double spend through the caches: once \<open>SpendCoin\<close> has spent an output, an
  immediate second spend finds nothing to hand out, and a transaction that names it is no longer
  accepted by \<open>HaveInputs\<close>; likewise once \<open>SetNullifiers\<close> has recorded a shielded spend, no
  transaction revealing one of the same nullifiers passes \<open>HaveShieldedRequirements\<close>.\<close>

theorem no_double_spend:
  assumes "cache_reach over_limit empty_tree root s c"
  shows "(Option.bind (fst (SpendCoin (db_view over_limit empty_tree (root empty_tree))
        (snd (SpendCoin (db_view over_limit empty_tree (root empty_tree)) c p)) p)) visible = None) \<and>
    (\<not> tx_IsCoinBase tx \<longrightarrow> p \<in> prevout ` set (vin tx) \<longrightarrow>
      \<not> fst (HaveInputs (db_view over_limit empty_tree (root empty_tree))
        (snd (SpendCoin (db_view over_limit empty_tree (root empty_tree)) c p)) tx)) \<and>
    (sapData tx1 = Some d1 \<longrightarrow> IsShieldedTx tx \<longrightarrow> sapData tx = Some d \<longrightarrow>
      sd_nullifier ` set (vShieldedSpend d) \<inter> sd_nullifier ` set (vShieldedSpend d1) \<noteq> {} \<longrightarrow>
      \<not> fst (HaveShieldedRequirements (db_view over_limit empty_tree (root empty_tree)) (SetNullifiers c tx1 True) tx))"
  using double_spend_facts[OF assms] by blast

theorem no_double_spend_witness:
  "Option.bind (fst (SpendCoin (db_view (\<lambda>_. False) 0 (sample_root 0))
     (snd (SpendCoin (db_view (\<lambda>_. False) 0 (sample_root 0))
       ((new_cache sample_db)\<lparr>cacheCoins := [(sample_out, \<lparr>ce_coin = sample_coin, ce_dirty = True, ce_fresh = True\<rparr>)]\<rparr>)
       sample_out)) sample_out)) visible = None"
  using no_double_spend[OF sample_reach, of sample_out] by blast



end
