(* ===== verification/Hasher.thy ===== *)
theory Hasher
  imports Passion_Prelude
begin

text \<open>
  The buffered block hashers of \<open>src/src/crypto\<close>: the byte-order helpers of
  \<open>common.h\<close>, and the state, \<open>Write\<close> and padding code that \<open>CSHA256\<close>,
  \<open>CSHA512\<close>, \<open>CSHA1\<close> and \<open>CRIPEMD160\<close> share word for word.  The block size
  \<open>bs\<close> and the compression function \<open>T\<close> are arguments here; the theories of the
  four hashes supply them.  The locale \<open>block_hash\<close> states what \<open>Write\<close> relies on and
  shows that feeding data in pieces is the same as hashing its concatenation.
\<close>

unbundle bit_operations_syntax

section \<open>Byte order\<close>

definition ReadLE32 :: "bytes \<Rightarrow> u32" where "ReadLE32 ptr = le_word (take 4 ptr)"
definition ReadLE64 :: "bytes \<Rightarrow> u64" where "ReadLE64 ptr = le_word (take 8 ptr)"
definition WriteLE32 :: "u32 \<Rightarrow> bytes" where "WriteLE32 x = le_bytes 4 x"
definition WriteLE64 :: "u64 \<Rightarrow> bytes" where "WriteLE64 x = le_bytes 8 x"
definition ReadBE32 :: "bytes \<Rightarrow> u32" where "ReadBE32 ptr = le_word (rev (take 4 ptr))"
definition ReadBE64 :: "bytes \<Rightarrow> u64" where "ReadBE64 ptr = le_word (rev (take 8 ptr))"
definition WriteBE32 :: "u32 \<Rightarrow> bytes" where "WriteBE32 x = rev (le_bytes 4 x)"
definition WriteBE64 :: "u64 \<Rightarrow> bytes" where "WriteBE64 x = rev (le_bytes 8 x)"

lemma length_Write_words [simp]:
  "length (WriteLE32 x) = 4" "length (WriteLE64 y) = 8" "length (WriteBE32 x) = 4" "length (WriteBE64 y) = 8"
  by (simp_all add: WriteLE32_def WriteLE64_def WriteBE32_def WriteBE64_def)

lemma Read_Write_words [simp]:
  "ReadLE32 (WriteLE32 x @ xs) = x" "ReadLE64 (WriteLE64 y @ xs) = y"
  "ReadBE32 (WriteBE32 x @ xs) = x" "ReadBE64 (WriteBE64 y @ xs) = y"
  by (simp_all add: WriteLE32_def WriteLE64_def WriteBE32_def WriteBE64_def
      ReadLE32_def ReadLE64_def ReadBE32_def ReadBE64_def le_word_le_bytes_id)

lemma Read_take:
  "4 \<le> n \<Longrightarrow> ReadLE32 (take n p) = ReadLE32 p" "8 \<le> n \<Longrightarrow> ReadLE64 (take n p) = ReadLE64 p"
  "4 \<le> n \<Longrightarrow> ReadBE32 (take n p) = ReadBE32 p" "8 \<le> n \<Longrightarrow> ReadBE64 (take n p) = ReadBE64 p"
  by (simp_all add: ReadLE32_def ReadLE64_def ReadBE32_def ReadBE64_def min_absorb1)

section \<open>Hasher objects\<close>

record 's hasher =
  hs_s :: 's
  hs_buf :: bytes
  hs_bytes :: u64

text \<open>A new object's buffer is uninitialised memory, \<open>buf\<close>.\<close>

definition hasher_new :: "'s \<Rightarrow> bytes \<Rightarrow> 's hasher" where
  "hasher_new init buf = \<lparr>hs_s = init, hs_buf = buf, hs_bytes = 0\<rparr>"

definition hasher_Reset :: "'s \<Rightarrow> 's hasher \<Rightarrow> 's hasher" where
  "hasher_Reset init h = h\<lparr>hs_bytes := 0, hs_s := init\<rparr>"

definition memcpy_at :: "bytes \<Rightarrow> nat \<Rightarrow> bytes \<Rightarrow> bytes" where
  "memcpy_at buf off src = take off buf @ src @ drop (off + length src) buf"

function hasher_full :: "nat \<Rightarrow> ('s \<Rightarrow> bytes \<Rightarrow> 's) \<Rightarrow> 's \<Rightarrow> u64 \<Rightarrow> bytes \<Rightarrow> 's \<times> u64 \<times> bytes" where
  "hasher_full bs T s n data =
     (if 0 < bs \<and> bs \<le> length data then hasher_full bs T (T s data) (n + of_nat bs) (drop bs data)
      else (s, n, data))"
  by pat_completeness auto
termination
  by (relation "measure (\<lambda>(bs, T, s, n, data). length data)") auto

declare hasher_full.simps [simp del]

definition hasher_Write :: "nat \<Rightarrow> ('s \<Rightarrow> bytes \<Rightarrow> 's) \<Rightarrow> 's hasher \<Rightarrow> bytes \<Rightarrow> 's hasher" where
  "hasher_Write bs T h data =
     (let bufsize = unat (hs_bytes h) mod bs;
          (s, buf, n, data', bufsize') =
            (if bufsize \<noteq> 0 \<and> bs \<le> bufsize + length data then
               let buf = memcpy_at (hs_buf h) bufsize (take (bs - bufsize) data) in
               (T (hs_s h) buf, buf, hs_bytes h + of_nat (bs - bufsize), drop (bs - bufsize) data, 0)
             else (hs_s h, hs_buf h, hs_bytes h, data, bufsize));
          (s', n', rest) = hasher_full bs T s n data'
      in if rest \<noteq> [] then \<lparr>hs_s = s', hs_buf = memcpy_at buf bufsize' rest, hs_bytes = n' + of_nat (length rest)\<rparr>
         else \<lparr>hs_s = s', hs_buf = buf, hs_bytes = n'\<rparr>)"

text \<open>
  The padding part of \<open>Finalize\<close>: a block-sized constant \<open>pad\<close> starting with
  \<open>0x80\<close>, of which \<open>1 + ((c - bytes % bs) % bs)\<close> bytes are written, then the size.
\<close>

definition hasher_finish :: "nat \<Rightarrow> ('s \<Rightarrow> bytes \<Rightarrow> 's) \<Rightarrow> nat \<Rightarrow> bytes \<Rightarrow> 's hasher \<Rightarrow> 's hasher" where
  "hasher_finish bs T c sizedesc h =
     (let pad = 0x80 # replicate (bs - 1) 0 in
      hasher_Write bs T
        (hasher_Write bs T h (take (1 + ((c - unat (hs_bytes h) mod bs) mod bs)) pad)) sizedesc)"

section \<open>Hashing in pieces\<close>

function blocks :: "nat \<Rightarrow> bytes \<Rightarrow> bytes list" where
  "blocks bs d = (if 0 < bs \<and> bs \<le> length d then take bs d # blocks bs (drop bs d) else [])"
  by pat_completeness auto
termination
  by (relation "measure (\<lambda>(bs, d). length d)") auto

declare blocks.simps [simp del]

lemma blocks_short: "length d < bs \<Longrightarrow> blocks bs d = []"
  by (subst blocks.simps) simp

lemma blocks_step: "0 < bs \<Longrightarrow> length b = bs \<Longrightarrow> blocks bs (b @ d) = b # blocks bs d"
  by (subst blocks.simps) simp

lemma blocks_append:
  assumes "0 < bs" and "length p = bs * k"
  shows "blocks bs (p @ d) = blocks bs p @ blocks bs d"
  using assms(2)
proof (induction k arbitrary: p)
  case 0
  then show ?case using assms(1) by (simp add: blocks_short)
next
  case (Suc k)
  then have l: "bs \<le> length p" "length (take bs p) = bs" "length (drop bs p) = bs * k" by simp_all
  have "blocks bs (p @ d) = take bs p # blocks bs (drop bs p @ d)"
    using blocks_step[OF assms(1) l(2), of "drop bs p @ d"] by (simp flip: append_assoc)
  moreover have "blocks bs p = take bs p # blocks bs (drop bs p)"
    using blocks_step[OF assms(1) l(2), of "drop bs p"] by simp
  ultimately show ?case using Suc.IH[OF l(3)] by simp
qed

text \<open>The data that padding adds to a message of \<open>n\<close> bytes.\<close>

definition md_padding :: "nat \<Rightarrow> nat \<Rightarrow> nat \<Rightarrow> bytes" where
  "md_padding bs c n = 0x80 # replicate ((c - n mod bs) mod bs) 0"

locale block_hash =
  fixes bs :: nat and T :: "'s \<Rightarrow> bytes \<Rightarrow> 's"
  assumes bs_pos: "0 < bs" and bs_dvd: "bs dvd 2 ^ 64"
    and T_prefix: "bs \<le> length d \<Longrightarrow> T s (take bs d) = T s d"
begin

definition absorbed :: "'s \<Rightarrow> bytes \<Rightarrow> 's hasher \<Rightarrow> bool" where
  "absorbed init d h \<longleftrightarrow> hs_s h = foldl T init (blocks bs d) \<and> length (hs_buf h) = bs \<and>
     hs_bytes h = of_nat (length d) \<and>
     take (length d mod bs) (hs_buf h) = drop (bs * (length d div bs)) d"

lemma bufsize: "unat (of_nat n :: u64) mod bs = n mod bs"
  using bs_dvd by (simp add: unat_of_nat take_bit_eq_mod mod_mod_cancel)

lemma hasher_full_blocks:
  "hasher_full bs T s n d =
     (foldl T s (blocks bs d), n + of_nat (bs * (length d div bs)), drop (bs * (length d div bs)) d)"
proof (induction "length d" arbitrary: d s n rule: less_induct)
  case less
  show ?case
  proof (cases "bs \<le> length d")
    case True
    have "length (drop bs d) < length d" using True bs_pos by simp
    note IH = less[OF this, of "T s d" "n + of_nat bs"]
    have "length d div bs = Suc ((length d - bs) div bs)" using True bs_pos by (simp add: le_div_geq)
    with IH True bs_pos show ?thesis
      by (subst hasher_full.simps, subst blocks.simps) (simp add: T_prefix algebra_simps)
  next
    case False
    then show ?thesis by (subst hasher_full.simps, subst blocks.simps) simp
  qed
qed

lemma absorbed_new: "length buf = bs \<Longrightarrow> absorbed init [] (hasher_new init buf)"
  using bs_pos by (simp add: absorbed_def hasher_new_def blocks_short)

lemma absorbed_Reset: "absorbed init d h \<Longrightarrow> absorbed init [] (hasher_Reset init h)"
  using bs_pos by (simp add: absorbed_def hasher_Reset_def blocks_short)

text \<open>Writing to an object whose buffer is empty.\<close>

lemma absorbed_aligned:
  assumes "length p = bs * k" and "length buf = bs" and "hasher_full bs T (foldl T init (blocks bs p)) (of_nat (length p)) x = (s', n', rest)"
  shows "absorbed init (p @ x) (if rest \<noteq> [] then \<lparr>hs_s = s', hs_buf = memcpy_at buf 0 rest, hs_bytes = n' + of_nat (length rest)\<rparr>
      else \<lparr>hs_s = s', hs_buf = buf, hs_bytes = n'\<rparr>)"
proof -
  let ?m = "bs * (length x div bs)"
  have r: "s' = foldl T (foldl T init (blocks bs p)) (blocks bs x)" "n' = of_nat (length p) + of_nat ?m" "rest = drop ?m x"
    using assms(3) by (simp_all add: hasher_full_blocks)
  have lm: "length rest = length x mod bs" by (simp add: r(3) minus_mult_div_eq_mod)
  then have lt: "length rest < bs" using bs_pos by simp
  have s: "s' = foldl T init (blocks bs (p @ x))" by (simp add: r(1) blocks_append[OF bs_pos assms(1)])
  have l: "length (p @ x) = bs * k + length x" by (simp add: assms(1))
  have md: "length (p @ x) mod bs = length x mod bs" "bs * (length (p @ x) div bs) = length p + ?m"
    unfolding l using bs_pos by (simp_all only: mod_mult_self4) (simp add: assms(1) distrib_left)
  have d: "drop (bs * (length (p @ x) div bs)) (p @ x) = rest" unfolding md(2) by (simp add: r(3))
  have ln: "length x = ?m + length rest" by (simp add: lm)
  then have "of_nat (length x) = (of_nat ?m + of_nat (length rest) :: u64)" by (metis of_nat_add)
  then have n: "n' + of_nat (length rest) = of_nat (length (p @ x))" by (simp add: r(2))
  show ?thesis
    using s d n lt lm md(1) assms(2) by (cases "rest = []") (simp_all add: absorbed_def memcpy_at_def)
qed

lemma Write_absorbed:
  assumes "absorbed init d h"
  shows "absorbed init (d @ x) (hasher_Write bs T h x)"
proof -
  let ?r = "length d mod bs" and ?m = "bs * (length d div bs)"
  define p q where "p = take ?m d" and "q = drop ?m d"
  have d: "d = p @ q" and lp: "length p = bs * (length d div bs)" and lq: "length q = ?r"
    by (simp_all add: p_def q_def minus_mult_div_eq_mod)
  have rb: "?r < bs" using bs_pos by simp
  have a: "hs_s h = foldl T init (blocks bs p)" "length (hs_buf h) = bs" "hs_bytes h = of_nat (length d)"
    "take ?r (hs_buf h) = q"
    using assms blocks_append[OF bs_pos lp, of q] blocks_short[of q bs] lq rb
    by (simp_all add: absorbed_def flip: d q_def)
  have bsz: "unat (hs_bytes h) mod bs = ?r" unfolding a(3) by (rule bufsize)
  show ?thesis
  proof (cases "?r \<noteq> 0 \<and> bs \<le> ?r + length x")
    case True
    let ?b = "memcpy_at (hs_buf h) ?r (take (bs - ?r) x)" and ?x = "drop (bs - ?r) x"
    have lt: "length (take (bs - ?r) x) = bs - ?r" using True by simp linarith
    have b: "?b = q @ take (bs - ?r) x" unfolding memcpy_at_def lt using a(2,4) rb by simp
    have lb: "length (p @ ?b) = bs * Suc (length d div bs)" "length ?b = bs"
      using lt rb by (simp_all only: b length_append lp lq) simp_all
    have st: "T (hs_s h) ?b = foldl T init (blocks bs (p @ ?b))"
      using blocks_append[OF bs_pos lp] blocks_step[OF bs_pos lb(2), of "[]"] bs_pos by (simp add: a(1) blocks_short)
    have "length d = bs * (length d div bs) + ?r" by simp
    then have lq2: "length d + (bs - ?r) = length (p @ ?b)" using rb lb(1) mult_Suc_right[of bs "length d div bs"] by linarith
    have nn: "hs_bytes h + of_nat (bs - ?r) = of_nat (length (p @ ?b))"
      unfolding lq2[symmetric] by (simp add: a(3))
    obtain s' n' rest where f: "hasher_full bs T (foldl T init (blocks bs (p @ ?b))) (of_nat (length (p @ ?b))) ?x = (s', n', rest)"
      using prod_cases3 by blast
    have dx: "d @ x = (p @ ?b) @ ?x" unfolding b by (subst d) simp
    have "hasher_Write bs T h x = (if rest \<noteq> [] then \<lparr>hs_s = s', hs_buf = memcpy_at ?b 0 rest, hs_bytes = n' + of_nat (length rest)\<rparr>
        else \<lparr>hs_s = s', hs_buf = ?b, hs_bytes = n'\<rparr>)"
      unfolding hasher_Write_def bsz Let_def using True st nn f by simp
    with absorbed_aligned[OF lb(1,2) f] dx show ?thesis by simp
  next
    case False
    show ?thesis
    proof (cases "?r = 0")
      case True
      then have "q = []" using lq by simp
      then have q: "q = []" "d = p" by (simp, subst d) simp
      obtain s' n' rest where f: "hasher_full bs T (foldl T init (blocks bs p)) (of_nat (length p)) x = (s', n', rest)"
        using prod_cases3 by blast
      have "hasher_Write bs T h x = (if rest \<noteq> [] then \<lparr>hs_s = s', hs_buf = memcpy_at (hs_buf h) 0 rest, hs_bytes = n' + of_nat (length rest)\<rparr>
        else \<lparr>hs_s = s', hs_buf = hs_buf h, hs_bytes = n'\<rparr>)"
        unfolding hasher_Write_def bsz Let_def using True f a(1,3) q by simp
      with absorbed_aligned[OF lp a(2) f] q show ?thesis by simp
    next
      case r: False
      with False have lx: "?r + length x < bs" by simp
      have f: "hasher_full bs T (hs_s h) (hs_bytes h) x = (hs_s h, hs_bytes h, x)"
        using lx by (subst hasher_full.simps) simp
      have bl: "blocks bs (d @ x) = blocks bs p"
        using blocks_append[OF bs_pos lp, of "q @ x"] blocks_short[of "q @ x" bs] lx lq by (subst d) simp
      have "length (d @ x) = bs * (length d div bs) + (?r + length x)" by simp
      then have md: "length (d @ x) div bs = length d div bs" "length (d @ x) mod bs = ?r + length x"
        using lx by (simp_all only: div_mult_self4 mod_mult_self4) (simp_all add: bs_pos)
      have dr: "drop (bs * (length (d @ x) div bs)) (d @ x) = q @ x"
        unfolding md(1) using lp d by (metis append_assoc append_eq_conv_conj)
      have "hasher_Write bs T h x = (if x \<noteq> [] then
          \<lparr>hs_s = hs_s h, hs_buf = memcpy_at (hs_buf h) ?r x, hs_bytes = hs_bytes h + of_nat (length x)\<rparr> else h)"
        unfolding hasher_Write_def bsz Let_def using False r f by (cases "x = []") auto
      moreover have "take (?r + length x) (memcpy_at (hs_buf h) ?r x) = q @ x" "length (memcpy_at (hs_buf h) ?r x) = bs"
        using a(2,4) lx lq by (simp_all add: memcpy_at_def)
      ultimately show ?thesis
        using a bl md(2) dr assms by (cases "x = []") (simp_all add: absorbed_def)
    qed
  qed
qed

lemma foldl_Write_absorbed: "absorbed init d h \<Longrightarrow> absorbed init (d @ concat ds) (foldl (hasher_Write bs T) h ds)"
proof (induction ds arbitrary: d h)
  case (Cons x ds)
  from Cons.IH[OF Write_absorbed[OF Cons.prems, of x]] show ?case by simp
qed simp

lemma finish_absorbed:
  assumes "absorbed init d h" and "bs \<le> c"
  shows "absorbed init (d @ md_padding bs c (length d) @ sizedesc) (hasher_finish bs T c sizedesc h)"
proof -
  have "unat (hs_bytes h) mod bs = length d mod bs" using assms(1) bufsize by (simp add: absorbed_def)
  moreover have "(c - length d mod bs) mod bs < bs" using bs_pos by simp
  ultimately have "take (1 + ((c - unat (hs_bytes h) mod bs) mod bs)) (0x80 # replicate (bs - 1) 0) = md_padding bs c (length d)"
    by (simp add: md_padding_def min_absorb1)
  then show ?thesis
    using Write_absorbed[OF Write_absorbed[OF assms(1)], of "md_padding bs c (length d)" sizedesc]
    by (simp add: hasher_finish_def Let_def)
qed

text \<open>What the compression function has seen after \<open>Finalize\<close>: all of the padded message.\<close>

lemma hash_state:
  assumes "length buf = bs" and "bs \<le> c"
  shows "hs_s (hasher_finish bs T c sizedesc (foldl (hasher_Write bs T) (hasher_new init buf) ds)) =
    foldl T init (blocks bs (concat ds @ md_padding bs c (length (concat ds)) @ sizedesc))"
  using finish_absorbed[OF foldl_Write_absorbed[OF absorbed_new[OF assms(1)]] assms(2)] by (simp add: absorbed_def)

end

text \<open>The padded message is a whole number of blocks when the size field completes the block.\<close>

lemma md_padding_whole:
  assumes "0 < bs" and "c + 1 + k = 2 * bs" and "bs \<le> c"
  shows "bs dvd n + length (md_padding bs c n) + k"
proof -
  let ?r = "n mod bs"
  have r: "?r < bs" using assms(1) by simp
  have "n = bs * (n div bs) + ?r" "c - ?r + ?r = c" using r assms(3) by simp_all
  then have "n + (c - ?r) + 1 + k = bs * (n div bs) + 2 * bs" using assms(2) by linarith
  then have "bs dvd n + (c - ?r) + 1 + k" by simp
  then have "(n + 1 + k + (c - ?r)) mod bs = 0" by (simp only: dvd_eq_mod_eq_0 add_ac)
  then have "(n + 1 + k + (c - ?r) mod bs) mod bs = 0" by (simp only: mod_add_right_eq)
  moreover have "n + length (md_padding bs c n) + k = n + 1 + k + (c - ?r) mod bs" by (simp add: md_padding_def)
  ultimately show ?thesis by (simp only: dvd_eq_mod_eq_0)
qed

end
