(* ===== verification/Rounds.thy ===== *)
theory Rounds
  imports Hasher
begin

text \<open>
  What the proofs about the compression functions share: the reference form of a
  message schedule and of a sequence of rounds, the same rounds over a window of sixteen
  schedule words, rotations, and the rules that name the intermediate values of a chain of
  assignments.
\<close>

section \<open>Schedules and rounds\<close>

text \<open>
  Schedule words from position 16 on are computed by \<open>nx\<close> from the sixteen words
  before them; a round \<open>rnd\<close> consumes its constant and its word.
\<close>

fun fips_W :: "('w list \<Rightarrow> 'w) \<Rightarrow> 'w list \<Rightarrow> nat \<Rightarrow> 'w" where
  "fips_W nx M t = (if t < 16 then M ! t else nx (map (fips_W nx M) [t - 16..<t]))"

declare fips_W.simps [simp del]

definition fips_rounds ::
  "('s \<Rightarrow> 'k \<Rightarrow> 'w \<Rightarrow> 's) \<Rightarrow> ('w list \<Rightarrow> 'w) \<Rightarrow> 'k list \<Rightarrow> 'w list \<Rightarrow> 's \<Rightarrow> 's" where
  "fips_rounds rnd nx K M st = foldl (\<lambda>st t. rnd st (K ! t) (fips_W nx M t)) st [0..<length K]"

text \<open>The same rounds with the schedule kept in a window of sixteen words.\<close>

fun window_rounds ::
  "('s \<Rightarrow> 'k \<Rightarrow> 'w \<Rightarrow> 's) \<Rightarrow> ('w list \<Rightarrow> 'w) \<Rightarrow> 's \<Rightarrow> 'w list \<Rightarrow> 'k list \<Rightarrow> 's" where
  "window_rounds rnd nx st W [] = st"
| "window_rounds rnd nx st W (k # ks) = window_rounds rnd nx (rnd st k (hd W)) (tl W @ [nx W]) ks"

lemma window_rounds_W:
  "window_rounds rnd nx st (map (fips_W nx M) [t..<t + 16]) ks =
    foldl (\<lambda>st i. rnd st (ks ! i) (fips_W nx M (t + i))) st [0..<length ks]"
proof (induction ks arbitrary: st t)
  case (Cons k ks)
  let ?W = "fips_W nx M"
  have nx: "?W (t + 16) = nx (map ?W [t..<t + 16])" by (subst fips_W.simps) simp
  have sp: "[t..<t + 16] = t # [Suc t..<t + 16]" "[Suc t..<Suc t + 16] = [Suc t..<t + 16] @ [t + 16]"
    by (simp_all add: upt_conv_Cons)
  have "tl (map ?W [t..<t + 16]) @ [?W (t + 16)] = map ?W [Suc t..<Suc t + 16]" unfolding sp by simp
  then have w: "tl (map ?W [t..<t + 16]) @ [nx (map ?W [t..<t + 16])] = map ?W [Suc t..<Suc t + 16]" unfolding nx .
  have h: "hd (map ?W [t..<t + 16]) = ?W t" unfolding sp by simp
  have "window_rounds rnd nx st (map ?W [t..<t + 16]) (k # ks) =
      window_rounds rnd nx (rnd st k (?W t)) (map ?W [Suc t..<Suc t + 16]) ks"
    using w h by simp
  also have "\<dots> = foldl (\<lambda>st i. rnd st (ks ! i) (?W (Suc t + i))) (rnd st k (?W t)) [0..<length ks]"
    by (rule Cons.IH)
  also have "\<dots> = foldl (\<lambda>st i. rnd st ((k # ks) ! i) (?W (t + i))) st [0..<length (k # ks)]"
    by (simp add: upt_conv_Cons foldl_map flip: map_Suc_upt del: upt_Suc)
  finally show ?case .
qed simp

lemma window_rounds_fips:
  assumes "length M = 16"
  shows "window_rounds rnd nx st M ks = fips_rounds rnd nx ks M st"
proof -
  have "map (fips_W nx M) [0..<0 + 16] = M"
    using assms by (intro nth_equalityI) (simp_all add: fips_W.simps)
  with window_rounds_W[of rnd nx st M 0 ks] show ?thesis by (simp add: fips_rounds_def)
qed

lemma window_step:
  "window_rounds rnd nx st [w0, w1, w2, w3, w4, w5, w6, w7, w8, w9, w10, w11, w12, w13, w14, w15] (k # ks) =
     window_rounds rnd nx (rnd st k w0)
       [w1, w2, w3, w4, w5, w6, w7, w8, w9, w10, w11, w12, w13, w14, w15,
        nx [w0, w1, w2, w3, w4, w5, w6, w7, w8, w9, w10, w11, w12, w13, w14, w15]] ks"
  by simp

lemma add_4_assoc: "a + b + c + d = a + (b + c + d)" for a :: "'a::ab_semigroup_add"
  by (simp add: add.assoc)

text \<open>The Boolean functions of FIPS 180-4 and the forms the source writes them in.\<close>

definition fips_ch :: "'a::len word \<Rightarrow> 'a word \<Rightarrow> 'a word \<Rightarrow> 'a word" where
  "fips_ch x y z = (x AND y) XOR (NOT x AND z)"

definition fips_maj :: "'a::len word \<Rightarrow> 'a word \<Rightarrow> 'a word \<Rightarrow> 'a word" where
  "fips_maj x y z = (x AND y) XOR (x AND z) XOR (y AND z)"

lemma fips_ch_alt: "z XOR (x AND (y XOR z)) = fips_ch x y z"
  by (rule bit_word_eqI) (auto simp: fips_ch_def bit_simps)

lemma fips_maj_alt: "(x AND y) OR (z AND (x OR y)) = fips_maj x y z"
  by (rule bit_word_eqI) (auto simp: fips_maj_def bit_simps)

lemma rotr_shifts:
  fixes x :: "'a::len word"
  assumes "n + m = LENGTH('a)" and "0 < m"
  shows "drop_bit n x OR push_bit m x = word_rotr n x"
proof (rule bit_word_eqI)
  fix i assume i: "i < LENGTH('a)"
  show "bit (drop_bit n x OR push_bit m x) i = bit (word_rotr n x) i"
  proof (cases "i + n < LENGTH('a)")
    case True
    with i assms show ?thesis
      by (auto simp: bit_word_rotr_iff bit_or_iff bit_drop_bit_eq bit_push_bit_iff add.commute)
  next
    case False
    then have "(i + n) mod LENGTH('a) = i - m" using i assms by (simp add: mod_if) linarith
    with False i assms show ?thesis
      by (auto simp: bit_word_rotr_iff bit_or_iff bit_drop_bit_eq bit_push_bit_iff add.commute dest: bit_imp_le_length)
  qed
qed


lemma rotl_shifts:
  fixes x :: "'a::len word"
  assumes "n + m = LENGTH('a)" and "0 < n" and "0 < m"
  shows "push_bit n x OR drop_bit m x = word_rotl n x"
proof -
  have "push_bit n x OR drop_bit m x = word_rotr m x"
    using rotr_shifts[of m n x] assms by (simp add: or.commute add.commute)
  also have "word_rotr m x = word_rotl n (word_rotr n (word_rotr m x))" by (simp add: word_rot_lr)
  also have "word_rotr n (word_rotr m x) = x"
  proof (rule bit_word_eqI)
    fix i assume "i < LENGTH('a)"
    then show "bit (word_rotr n (word_rotr m x)) i = bit x i"
      using assms(1) by (simp add: bit_word_rotr_iff mod_simps add.assoc)
  qed
  finally show ?thesis .
qed

lemma push_bit_3_of_nat: "push_bit 3 (of_nat n :: u64) = of_nat (8 * n)"
  by (simp add: push_bit_eq_mult)

text \<open>Naming the intermediate values of a chain of assignments.\<close>

lemma let_eqI: "(\<And>x. t = x \<Longrightarrow> f x = r) \<Longrightarrow> Let t f = r"
  by simp

lemma let_valueI: "f t = r \<Longrightarrow> Let t f = r"
  by simp

lemma case_prod_eqI: "(\<And>x y. p = (x, y) \<Longrightarrow> f x y = r) \<Longrightarrow> case_prod f p = r"
  by (cases p) simp

end
