(* ===== verification/SHA2.thy ===== *)
theory SHA2
  imports Rounds
begin

text \<open>
  SHA-256 and SHA-512, \<open>src/src/crypto/sha256.cpp\<close> and \<open>sha512.cpp\<close>.  The
  compression functions are transcribed call by call: the source keeps the eight working
  variables in fixed registers, permutes the arguments of \<open>Round\<close> instead of shifting
  them, and updates sixteen schedule words in place.  The reference is FIPS 180-4: shifted
  working variables and a schedule indexed by the round.
\<close>

section \<open>The common part of the reference\<close>

text \<open>
  The round constants are the first bits of the fractional parts of the cube roots of
  the first primes.  \<open>k\<close> is the \<open>b\<close>-bit fraction of the cube root of \<open>p\<close> if the cube root of
  \<open>p * 2 ^ (3 * b)\<close>, rounded down, ends in \<open>k\<close>.
\<close>

definition cube_int :: "nat \<Rightarrow> nat" where
  "cube_int p = (if p < 8 then 1 else if p < 27 then 2 else if p < 64 then 3 else if p < 125 then 4
     else if p < 216 then 5 else if p < 343 then 6 else 7)"

definition cube_frac :: "nat \<Rightarrow> nat \<Rightarrow> nat \<Rightarrow> bool" where
  "cube_frac b p k \<longleftrightarrow> k < 2 ^ b \<and>
     (cube_int p * 2 ^ b + k) ^ 3 \<le> p * 2 ^ (3 * b) \<and> p * 2 ^ (3 * b) < (cube_int p * 2 ^ b + k + 1) ^ 3"

text \<open>The schedule of SHA-2.\<close>

definition sha2_next :: "('w \<Rightarrow> 'w) \<Rightarrow> ('w \<Rightarrow> 'w) \<Rightarrow> 'w::plus list \<Rightarrow> 'w" where
  "sha2_next sg0 sg1 W = sg1 (W ! 14) + W ! 9 + sg0 (W ! 1) + W ! 0"

lemma sha2_next_eq:
  fixes w0 :: "'w::len word"
  shows "sha2_next sg0 sg1 [w0, w1, w2, w3, w4, w5, w6, w7, w8, w9, w10, w11, w12, w13, w14, w15] =
    w0 + (sg1 w14 + w9 + sg0 w1)"
  by (simp add: sha2_next_def add.commute)

section \<open>SHA-256\<close>

type_synonym sha256_state = "u32 \<times> u32 \<times> u32 \<times> u32 \<times> u32 \<times> u32 \<times> u32 \<times> u32"

definition sha256_Ch :: "u32 \<Rightarrow> u32 \<Rightarrow> u32 \<Rightarrow> u32" where "sha256_Ch x y z = z XOR (x AND (y XOR z))"
definition sha256_Maj :: "u32 \<Rightarrow> u32 \<Rightarrow> u32 \<Rightarrow> u32" where "sha256_Maj x y z = (x AND y) OR (z AND (x OR y))"
definition sha256_Sigma0 :: "u32 \<Rightarrow> u32" where
  "sha256_Sigma0 x = (drop_bit 2 x OR push_bit 30 x) XOR (drop_bit 13 x OR push_bit 19 x) XOR (drop_bit 22 x OR push_bit 10 x)"
definition sha256_Sigma1 :: "u32 \<Rightarrow> u32" where
  "sha256_Sigma1 x = (drop_bit 6 x OR push_bit 26 x) XOR (drop_bit 11 x OR push_bit 21 x) XOR (drop_bit 25 x OR push_bit 7 x)"
definition sha256_sigma0 :: "u32 \<Rightarrow> u32" where
  "sha256_sigma0 x = (drop_bit 7 x OR push_bit 25 x) XOR (drop_bit 18 x OR push_bit 14 x) XOR drop_bit 3 x"
definition sha256_sigma1 :: "u32 \<Rightarrow> u32" where
  "sha256_sigma1 x = (drop_bit 17 x OR push_bit 15 x) XOR (drop_bit 19 x OR push_bit 13 x) XOR drop_bit 10 x"

text \<open>\<open>Round\<close> updates \<open>d\<close> and \<open>h\<close> through references; here it returns both.\<close>

definition sha256_Round :: "u32 \<Rightarrow> u32 \<Rightarrow> u32 \<Rightarrow> u32 \<Rightarrow> u32 \<Rightarrow> u32 \<Rightarrow> u32 \<Rightarrow> u32 \<Rightarrow> u32 \<Rightarrow> u32 \<Rightarrow> u32 \<times> u32" where
  "sha256_Round a b c d e f g h k w =
     (let t1 = h + sha256_Sigma1 e + sha256_Ch e f g + k + w; t2 = sha256_Sigma0 a + sha256_Maj a b c
      in (d + t1, t1 + t2))"

definition sha256_Initialize :: sha256_state where
  "sha256_Initialize = (0x6a09e667, 0xbb67ae85, 0x3c6ef372, 0xa54ff53a,
     0x510e527f, 0x9b05688c, 0x1f83d9ab, 0x5be0cd19)"

definition sha256_Transform :: "sha256_state \<Rightarrow> bytes \<Rightarrow> sha256_state" where
  "sha256_Transform s chunk =
     (case s of (s0, s1, s2, s3, s4, s5, s6, s7) \<Rightarrow>
      let a = s0; b = s1; c = s2; d = s3; e = s4; f = s5; g = s6; h = s7;
          w0 = ReadBE32 (drop 0 chunk);
          (d, h) = sha256_Round a b c d e f g h 0x428a2f98 w0;
          w1 = ReadBE32 (drop 4 chunk);
          (c, g) = sha256_Round h a b c d e f g 0x71374491 w1;
          w2 = ReadBE32 (drop 8 chunk);
          (b, f) = sha256_Round g h a b c d e f 0xb5c0fbcf w2;
          w3 = ReadBE32 (drop 12 chunk);
          (a, e) = sha256_Round f g h a b c d e 0xe9b5dba5 w3;
          w4 = ReadBE32 (drop 16 chunk);
          (h, d) = sha256_Round e f g h a b c d 0x3956c25b w4;
          w5 = ReadBE32 (drop 20 chunk);
          (g, c) = sha256_Round d e f g h a b c 0x59f111f1 w5;
          w6 = ReadBE32 (drop 24 chunk);
          (f, b) = sha256_Round c d e f g h a b 0x923f82a4 w6;
          w7 = ReadBE32 (drop 28 chunk);
          (e, a) = sha256_Round b c d e f g h a 0xab1c5ed5 w7;
          w8 = ReadBE32 (drop 32 chunk);
          (d, h) = sha256_Round a b c d e f g h 0xd807aa98 w8;
          w9 = ReadBE32 (drop 36 chunk);
          (c, g) = sha256_Round h a b c d e f g 0x12835b01 w9;
          w10 = ReadBE32 (drop 40 chunk);
          (b, f) = sha256_Round g h a b c d e f 0x243185be w10;
          w11 = ReadBE32 (drop 44 chunk);
          (a, e) = sha256_Round f g h a b c d e 0x550c7dc3 w11;
          w12 = ReadBE32 (drop 48 chunk);
          (h, d) = sha256_Round e f g h a b c d 0x72be5d74 w12;
          w13 = ReadBE32 (drop 52 chunk);
          (g, c) = sha256_Round d e f g h a b c 0x80deb1fe w13;
          w14 = ReadBE32 (drop 56 chunk);
          (f, b) = sha256_Round c d e f g h a b 0x9bdc06a7 w14;
          w15 = ReadBE32 (drop 60 chunk);
          (e, a) = sha256_Round b c d e f g h a 0xc19bf174 w15;
          w0 = w0 + (sha256_sigma1 w14 + w9 + sha256_sigma0 w1);
          (d, h) = sha256_Round a b c d e f g h 0xe49b69c1 w0;
          w1 = w1 + (sha256_sigma1 w15 + w10 + sha256_sigma0 w2);
          (c, g) = sha256_Round h a b c d e f g 0xefbe4786 w1;
          w2 = w2 + (sha256_sigma1 w0 + w11 + sha256_sigma0 w3);
          (b, f) = sha256_Round g h a b c d e f 0x0fc19dc6 w2;
          w3 = w3 + (sha256_sigma1 w1 + w12 + sha256_sigma0 w4);
          (a, e) = sha256_Round f g h a b c d e 0x240ca1cc w3;
          w4 = w4 + (sha256_sigma1 w2 + w13 + sha256_sigma0 w5);
          (h, d) = sha256_Round e f g h a b c d 0x2de92c6f w4;
          w5 = w5 + (sha256_sigma1 w3 + w14 + sha256_sigma0 w6);
          (g, c) = sha256_Round d e f g h a b c 0x4a7484aa w5;
          w6 = w6 + (sha256_sigma1 w4 + w15 + sha256_sigma0 w7);
          (f, b) = sha256_Round c d e f g h a b 0x5cb0a9dc w6;
          w7 = w7 + (sha256_sigma1 w5 + w0 + sha256_sigma0 w8);
          (e, a) = sha256_Round b c d e f g h a 0x76f988da w7;
          w8 = w8 + (sha256_sigma1 w6 + w1 + sha256_sigma0 w9);
          (d, h) = sha256_Round a b c d e f g h 0x983e5152 w8;
          w9 = w9 + (sha256_sigma1 w7 + w2 + sha256_sigma0 w10);
          (c, g) = sha256_Round h a b c d e f g 0xa831c66d w9;
          w10 = w10 + (sha256_sigma1 w8 + w3 + sha256_sigma0 w11);
          (b, f) = sha256_Round g h a b c d e f 0xb00327c8 w10;
          w11 = w11 + (sha256_sigma1 w9 + w4 + sha256_sigma0 w12);
          (a, e) = sha256_Round f g h a b c d e 0xbf597fc7 w11;
          w12 = w12 + (sha256_sigma1 w10 + w5 + sha256_sigma0 w13);
          (h, d) = sha256_Round e f g h a b c d 0xc6e00bf3 w12;
          w13 = w13 + (sha256_sigma1 w11 + w6 + sha256_sigma0 w14);
          (g, c) = sha256_Round d e f g h a b c 0xd5a79147 w13;
          w14 = w14 + (sha256_sigma1 w12 + w7 + sha256_sigma0 w15);
          (f, b) = sha256_Round c d e f g h a b 0x06ca6351 w14;
          w15 = w15 + (sha256_sigma1 w13 + w8 + sha256_sigma0 w0);
          (e, a) = sha256_Round b c d e f g h a 0x14292967 w15;
          w0 = w0 + (sha256_sigma1 w14 + w9 + sha256_sigma0 w1);
          (d, h) = sha256_Round a b c d e f g h 0x27b70a85 w0;
          w1 = w1 + (sha256_sigma1 w15 + w10 + sha256_sigma0 w2);
          (c, g) = sha256_Round h a b c d e f g 0x2e1b2138 w1;
          w2 = w2 + (sha256_sigma1 w0 + w11 + sha256_sigma0 w3);
          (b, f) = sha256_Round g h a b c d e f 0x4d2c6dfc w2;
          w3 = w3 + (sha256_sigma1 w1 + w12 + sha256_sigma0 w4);
          (a, e) = sha256_Round f g h a b c d e 0x53380d13 w3;
          w4 = w4 + (sha256_sigma1 w2 + w13 + sha256_sigma0 w5);
          (h, d) = sha256_Round e f g h a b c d 0x650a7354 w4;
          w5 = w5 + (sha256_sigma1 w3 + w14 + sha256_sigma0 w6);
          (g, c) = sha256_Round d e f g h a b c 0x766a0abb w5;
          w6 = w6 + (sha256_sigma1 w4 + w15 + sha256_sigma0 w7);
          (f, b) = sha256_Round c d e f g h a b 0x81c2c92e w6;
          w7 = w7 + (sha256_sigma1 w5 + w0 + sha256_sigma0 w8);
          (e, a) = sha256_Round b c d e f g h a 0x92722c85 w7;
          w8 = w8 + (sha256_sigma1 w6 + w1 + sha256_sigma0 w9);
          (d, h) = sha256_Round a b c d e f g h 0xa2bfe8a1 w8;
          w9 = w9 + (sha256_sigma1 w7 + w2 + sha256_sigma0 w10);
          (c, g) = sha256_Round h a b c d e f g 0xa81a664b w9;
          w10 = w10 + (sha256_sigma1 w8 + w3 + sha256_sigma0 w11);
          (b, f) = sha256_Round g h a b c d e f 0xc24b8b70 w10;
          w11 = w11 + (sha256_sigma1 w9 + w4 + sha256_sigma0 w12);
          (a, e) = sha256_Round f g h a b c d e 0xc76c51a3 w11;
          w12 = w12 + (sha256_sigma1 w10 + w5 + sha256_sigma0 w13);
          (h, d) = sha256_Round e f g h a b c d 0xd192e819 w12;
          w13 = w13 + (sha256_sigma1 w11 + w6 + sha256_sigma0 w14);
          (g, c) = sha256_Round d e f g h a b c 0xd6990624 w13;
          w14 = w14 + (sha256_sigma1 w12 + w7 + sha256_sigma0 w15);
          (f, b) = sha256_Round c d e f g h a b 0xf40e3585 w14;
          w15 = w15 + (sha256_sigma1 w13 + w8 + sha256_sigma0 w0);
          (e, a) = sha256_Round b c d e f g h a 0x106aa070 w15;
          w0 = w0 + (sha256_sigma1 w14 + w9 + sha256_sigma0 w1);
          (d, h) = sha256_Round a b c d e f g h 0x19a4c116 w0;
          w1 = w1 + (sha256_sigma1 w15 + w10 + sha256_sigma0 w2);
          (c, g) = sha256_Round h a b c d e f g 0x1e376c08 w1;
          w2 = w2 + (sha256_sigma1 w0 + w11 + sha256_sigma0 w3);
          (b, f) = sha256_Round g h a b c d e f 0x2748774c w2;
          w3 = w3 + (sha256_sigma1 w1 + w12 + sha256_sigma0 w4);
          (a, e) = sha256_Round f g h a b c d e 0x34b0bcb5 w3;
          w4 = w4 + (sha256_sigma1 w2 + w13 + sha256_sigma0 w5);
          (h, d) = sha256_Round e f g h a b c d 0x391c0cb3 w4;
          w5 = w5 + (sha256_sigma1 w3 + w14 + sha256_sigma0 w6);
          (g, c) = sha256_Round d e f g h a b c 0x4ed8aa4a w5;
          w6 = w6 + (sha256_sigma1 w4 + w15 + sha256_sigma0 w7);
          (f, b) = sha256_Round c d e f g h a b 0x5b9cca4f w6;
          w7 = w7 + (sha256_sigma1 w5 + w0 + sha256_sigma0 w8);
          (e, a) = sha256_Round b c d e f g h a 0x682e6ff3 w7;
          w8 = w8 + (sha256_sigma1 w6 + w1 + sha256_sigma0 w9);
          (d, h) = sha256_Round a b c d e f g h 0x748f82ee w8;
          w9 = w9 + (sha256_sigma1 w7 + w2 + sha256_sigma0 w10);
          (c, g) = sha256_Round h a b c d e f g 0x78a5636f w9;
          w10 = w10 + (sha256_sigma1 w8 + w3 + sha256_sigma0 w11);
          (b, f) = sha256_Round g h a b c d e f 0x84c87814 w10;
          w11 = w11 + (sha256_sigma1 w9 + w4 + sha256_sigma0 w12);
          (a, e) = sha256_Round f g h a b c d e 0x8cc70208 w11;
          w12 = w12 + (sha256_sigma1 w10 + w5 + sha256_sigma0 w13);
          (h, d) = sha256_Round e f g h a b c d 0x90befffa w12;
          w13 = w13 + (sha256_sigma1 w11 + w6 + sha256_sigma0 w14);
          (g, c) = sha256_Round d e f g h a b c 0xa4506ceb w13;
          (f, b) = sha256_Round c d e f g h a b 0xbef9a3f7 (w14 + sha256_sigma1 w12 + w7 + sha256_sigma0 w15);
          (e, a) = sha256_Round b c d e f g h a 0xc67178f2 (w15 + sha256_sigma1 w13 + w8 + sha256_sigma0 w0)
      in (s0 + a, s1 + b, s2 + c, s3 + d, s4 + e, s5 + f, s6 + g, s7 + h))"

definition sha256_roots :: "(nat \<times> u32) list" where
  "sha256_roots =
    [(2, 0x428a2f98), (3, 0x71374491), (5, 0xb5c0fbcf), (7, 0xe9b5dba5),
     (11, 0x3956c25b), (13, 0x59f111f1), (17, 0x923f82a4), (19, 0xab1c5ed5),
     (23, 0xd807aa98), (29, 0x12835b01), (31, 0x243185be), (37, 0x550c7dc3),
     (41, 0x72be5d74), (43, 0x80deb1fe), (47, 0x9bdc06a7), (53, 0xc19bf174),
     (59, 0xe49b69c1), (61, 0xefbe4786), (67, 0x0fc19dc6), (71, 0x240ca1cc),
     (73, 0x2de92c6f), (79, 0x4a7484aa), (83, 0x5cb0a9dc), (89, 0x76f988da),
     (97, 0x983e5152), (101, 0xa831c66d), (103, 0xb00327c8), (107, 0xbf597fc7),
     (109, 0xc6e00bf3), (113, 0xd5a79147), (127, 0x06ca6351), (131, 0x14292967),
     (137, 0x27b70a85), (139, 0x2e1b2138), (149, 0x4d2c6dfc), (151, 0x53380d13),
     (157, 0x650a7354), (163, 0x766a0abb), (167, 0x81c2c92e), (173, 0x92722c85),
     (179, 0xa2bfe8a1), (181, 0xa81a664b), (191, 0xc24b8b70), (193, 0xc76c51a3),
     (197, 0xd192e819), (199, 0xd6990624), (211, 0xf40e3585), (223, 0x106aa070),
     (227, 0x19a4c116), (229, 0x1e376c08), (233, 0x2748774c), (239, 0x34b0bcb5),
     (241, 0x391c0cb3), (251, 0x4ed8aa4a), (257, 0x5b9cca4f), (263, 0x682e6ff3),
     (269, 0x748f82ee), (271, 0x78a5636f), (277, 0x84c87814), (281, 0x8cc70208),
     (283, 0x90befffa), (293, 0xa4506ceb), (307, 0xbef9a3f7), (311, 0xc67178f2)]"

definition sha256_K :: "u32 list" where
  "sha256_K = map snd sha256_roots"

lemma sha256_K_roots: "list_all (\<lambda>(p, k). cube_frac 32 p (unat k)) sha256_roots"
  by (simp add: sha256_roots_def cube_frac_def cube_int_def)

definition sha256_round :: "sha256_state \<Rightarrow> u32 \<Rightarrow> u32 \<Rightarrow> sha256_state" where
  "sha256_round st k w =
     (case st of (a, b, c, d, e, f, g, h) \<Rightarrow>
      case sha256_Round a b c d e f g h k w of (d', h') \<Rightarrow> (h', a, b, c, d', e, f, g))"

lemma sha256_round_eq:
  "sha256_round (a, b, c, d, e, f, g, h) k w =
     (case sha256_Round a b c d e f g h k w of (d', h') \<Rightarrow> (h', a, b, c, d', e, f, g))"
  by (simp add: sha256_round_def)

lemma sha256_Transform_window:
  "sha256_Transform (s0, s1, s2, s3, s4, s5, s6, s7) chunk =
     (case window_rounds sha256_round (sha2_next sha256_sigma0 sha256_sigma1) (s0, s1, s2, s3, s4, s5, s6, s7)
        [ReadBE32 (drop 0 chunk), ReadBE32 (drop 4 chunk), ReadBE32 (drop 8 chunk), ReadBE32 (drop 12 chunk),
         ReadBE32 (drop 16 chunk), ReadBE32 (drop 20 chunk), ReadBE32 (drop 24 chunk), ReadBE32 (drop 28 chunk),
         ReadBE32 (drop 32 chunk), ReadBE32 (drop 36 chunk), ReadBE32 (drop 40 chunk), ReadBE32 (drop 44 chunk),
         ReadBE32 (drop 48 chunk), ReadBE32 (drop 52 chunk), ReadBE32 (drop 56 chunk), ReadBE32 (drop 60 chunk)] sha256_K of
      (a, b, c, d, e, f, g, h) \<Rightarrow> (s0 + a, s1 + b, s2 + c, s3 + d, s4 + e, s5 + f, s6 + g, s7 + h))"
  unfolding sha256_Transform_def sha256_K_def sha256_roots_def list.map prod.sel prod.case add_4_assoc
  apply (rule let_eqI case_prod_eqI)+
  apply (simp (no_asm_simp) only: window_step sha2_next_eq window_rounds.simps(1) sha256_round_eq prod.case)
  done

subsection \<open>The reference\<close>

definition sha256_fips_round :: "sha256_state \<Rightarrow> u32 \<Rightarrow> u32 \<Rightarrow> sha256_state" where
  "sha256_fips_round st k w =
     (case st of (a, b, c, d, e, f, g, h) \<Rightarrow>
      let T1 = h + (word_rotr 6 e XOR word_rotr 11 e XOR word_rotr 25 e) + fips_ch e f g + k + w;
          T2 = (word_rotr 2 a XOR word_rotr 13 a XOR word_rotr 22 a) + fips_maj a b c
      in (T1 + T2, a, b, c, d + T1, e, f, g))"

definition sha256_words :: "bytes \<Rightarrow> u32 list" where
  "sha256_words b = map (\<lambda>i. ReadBE32 (drop (4 * i) b)) [0..<16]"

definition sha256_compress :: "sha256_state \<Rightarrow> bytes \<Rightarrow> sha256_state" where
  "sha256_compress H b =
     (case H of (h0, h1, h2, h3, h4, h5, h6, h7) \<Rightarrow>
      case fips_rounds sha256_fips_round
             (sha2_next (\<lambda>x. word_rotr 7 x XOR word_rotr 18 x XOR drop_bit 3 x)
                        (\<lambda>x. word_rotr 17 x XOR word_rotr 19 x XOR drop_bit 10 x)) sha256_K (sha256_words b) H of
        (a, b, c, d, e, f, g, h) \<Rightarrow> (h0 + a, h1 + b, h2 + c, h3 + d, h4 + e, h5 + f, h6 + g, h7 + h))"

definition sha256_output :: "sha256_state \<Rightarrow> bytes" where
  "sha256_output st =
     (case st of (s0, s1, s2, s3, s4, s5, s6, s7) \<Rightarrow>
      WriteBE32 s0 @ WriteBE32 s1 @ WriteBE32 s2 @ WriteBE32 s3 @ WriteBE32 s4 @ WriteBE32 s5 @ WriteBE32 s6 @ WriteBE32 s7)"

definition SHA256 :: "bytes \<Rightarrow> bytes" where
  "SHA256 d = sha256_output (foldl sha256_compress sha256_Initialize
     (blocks 64 (d @ md_padding 64 119 (length d) @ WriteBE64 (of_nat (8 * length d)))))"

lemma sha256_fips_fun:
  "sha256_sigma0 = (\<lambda>x. word_rotr 7 x XOR word_rotr 18 x XOR drop_bit 3 x)"
  "sha256_sigma1 = (\<lambda>x. word_rotr 17 x XOR word_rotr 19 x XOR drop_bit 10 x)"
  "sha256_round = sha256_fips_round"
  by (simp_all add: fun_eq_iff sha256_sigma0_def sha256_sigma1_def sha256_round_def sha256_fips_round_def sha256_Round_def
      sha256_Sigma0_def sha256_Sigma1_def sha256_Ch_def sha256_Maj_def fips_ch_alt fips_maj_alt rotr_shifts Let_def)

lemma sha256_Transform_compress: "sha256_Transform s chunk = sha256_compress s chunk"
proof -
  obtain s0 s1 s2 s3 s4 s5 s6 s7 where s: "s = (s0, s1, s2, s3, s4, s5, s6, s7)" using surj_pair by metis
  have w: "[ReadBE32 (drop 0 chunk), ReadBE32 (drop 4 chunk), ReadBE32 (drop 8 chunk), ReadBE32 (drop 12 chunk),
         ReadBE32 (drop 16 chunk), ReadBE32 (drop 20 chunk), ReadBE32 (drop 24 chunk), ReadBE32 (drop 28 chunk),
         ReadBE32 (drop 32 chunk), ReadBE32 (drop 36 chunk), ReadBE32 (drop 40 chunk), ReadBE32 (drop 44 chunk),
         ReadBE32 (drop 48 chunk), ReadBE32 (drop 52 chunk), ReadBE32 (drop 56 chunk), ReadBE32 (drop 60 chunk)] = sha256_words chunk"
    by (simp add: sha256_words_def upt_rec)
  have l: "length (sha256_words chunk) = 16" by (simp add: sha256_words_def)
  show ?thesis
    unfolding s sha256_Transform_window w window_rounds_fips[OF l] by (simp add: sha256_compress_def sha256_fips_fun)
qed

subsection \<open>The hasher\<close>

definition CSHA256_new :: "bytes \<Rightarrow> sha256_state hasher" where
  "CSHA256_new buf = hasher_new sha256_Initialize buf"

definition CSHA256_Write :: "sha256_state hasher \<Rightarrow> bytes \<Rightarrow> sha256_state hasher" where
  "CSHA256_Write = hasher_Write 64 sha256_Transform"

definition CSHA256_Reset :: "sha256_state hasher \<Rightarrow> sha256_state hasher" where
  "CSHA256_Reset = hasher_Reset sha256_Initialize"

datatype hash_error = LengthError

definition CSHA256_FinalizeNoPadding :: "sha256_state hasher \<Rightarrow> bool \<Rightarrow> hash_error + bytes" where
  "CSHA256_FinalizeNoPadding h enforce_compression =
     (if enforce_compression \<and> hs_bytes h \<noteq> 64 then Inl LengthError else Inr (sha256_output (hs_s h)))"

definition CSHA256_Finalize :: "sha256_state hasher \<Rightarrow> bytes" where
  "CSHA256_Finalize h =
     (let sizedesc = WriteBE64 (push_bit 3 (hs_bytes h)) in
      projr (CSHA256_FinalizeNoPadding (hasher_finish 64 sha256_Transform 119 sizedesc h) False))"

interpretation sha256: block_hash 64 sha256_Transform
proof unfold_locales
  fix d :: bytes and s
  assume "64 \<le> length d"
  have "sha256_words (take 64 d) = sha256_words d" by (simp add: sha256_words_def drop_take Read_take)
  then show "sha256_Transform s (take 64 d) = sha256_Transform s d"
    by (simp add: sha256_Transform_compress sha256_compress_def)
qed simp_all

text \<open>From any hasher that has absorbed \<open>d\<close>, \<open>Finalize\<close> gives the hash of \<open>d\<close>.\<close>

lemma CSHA256_Finalize_absorbed:
  assumes "sha256.absorbed sha256_Initialize d h"
  shows "CSHA256_Finalize h = SHA256 d"
proof -
  have b: "hs_bytes h = of_nat (length d)" using assms by (simp add: sha256.absorbed_def)
  have T: "sha256_Transform = sha256_compress" by (simp add: fun_eq_iff sha256_Transform_compress)
  have "hs_s (hasher_finish 64 sha256_Transform 119 sd h) =
      foldl sha256_Transform sha256_Initialize (blocks 64 (d @ md_padding 64 119 (length d) @ sd))" for sd
    using sha256.finish_absorbed[OF assms, of 119 sd] by (simp add: sha256.absorbed_def)
  then show ?thesis
    by (simp add: CSHA256_Finalize_def SHA256_def b push_bit_3_of_nat T CSHA256_FinalizeNoPadding_def Let_def)
qed

lemma CSHA256_new_absorbed: "length buf = 64 \<Longrightarrow> sha256.absorbed sha256_Initialize [] (CSHA256_new buf)"
  unfolding CSHA256_new_def by (rule sha256.absorbed_new)

lemma CSHA256_Reset_absorbed: "sha256.absorbed sha256_Initialize d h \<Longrightarrow> sha256.absorbed sha256_Initialize [] (CSHA256_Reset h)"
  unfolding CSHA256_Reset_def by (rule sha256.absorbed_Reset)

lemma CSHA256_Write_absorbed:
  "sha256.absorbed sha256_Initialize d h \<Longrightarrow> sha256.absorbed sha256_Initialize (d @ x) (CSHA256_Write h x)"
  unfolding CSHA256_Write_def by (rule sha256.Write_absorbed)

lemma CSHA256_foldl_absorbed:
  "sha256.absorbed sha256_Initialize d h \<Longrightarrow> sha256.absorbed sha256_Initialize (d @ concat ds) (foldl CSHA256_Write h ds)"
  unfolding CSHA256_Write_def by (rule sha256.foldl_Write_absorbed)

lemma length_SHA256 [simp]: "length (SHA256 d) = 32"
  by (simp add: SHA256_def sha256_output_def split: prod.split)

section \<open>SHA-512\<close>

type_synonym sha512_state = "u64 \<times> u64 \<times> u64 \<times> u64 \<times> u64 \<times> u64 \<times> u64 \<times> u64"

definition sha512_Ch :: "u64 \<Rightarrow> u64 \<Rightarrow> u64 \<Rightarrow> u64" where "sha512_Ch x y z = z XOR (x AND (y XOR z))"
definition sha512_Maj :: "u64 \<Rightarrow> u64 \<Rightarrow> u64 \<Rightarrow> u64" where "sha512_Maj x y z = (x AND y) OR (z AND (x OR y))"
definition sha512_Sigma0 :: "u64 \<Rightarrow> u64" where
  "sha512_Sigma0 x = (drop_bit 28 x OR push_bit 36 x) XOR (drop_bit 34 x OR push_bit 30 x) XOR (drop_bit 39 x OR push_bit 25 x)"
definition sha512_Sigma1 :: "u64 \<Rightarrow> u64" where
  "sha512_Sigma1 x = (drop_bit 14 x OR push_bit 50 x) XOR (drop_bit 18 x OR push_bit 46 x) XOR (drop_bit 41 x OR push_bit 23 x)"
definition sha512_sigma0 :: "u64 \<Rightarrow> u64" where
  "sha512_sigma0 x = (drop_bit 1 x OR push_bit 63 x) XOR (drop_bit 8 x OR push_bit 56 x) XOR drop_bit 7 x"
definition sha512_sigma1 :: "u64 \<Rightarrow> u64" where
  "sha512_sigma1 x = (drop_bit 19 x OR push_bit 45 x) XOR (drop_bit 61 x OR push_bit 3 x) XOR drop_bit 6 x"

text \<open>\<open>Round\<close> updates \<open>d\<close> and \<open>h\<close> through references; here it returns both.\<close>

definition sha512_Round :: "u64 \<Rightarrow> u64 \<Rightarrow> u64 \<Rightarrow> u64 \<Rightarrow> u64 \<Rightarrow> u64 \<Rightarrow> u64 \<Rightarrow> u64 \<Rightarrow> u64 \<Rightarrow> u64 \<Rightarrow> u64 \<times> u64" where
  "sha512_Round a b c d e f g h k w =
     (let t1 = h + sha512_Sigma1 e + sha512_Ch e f g + k + w; t2 = sha512_Sigma0 a + sha512_Maj a b c
      in (d + t1, t1 + t2))"

definition sha512_Initialize :: sha512_state where
  "sha512_Initialize = (0x6a09e667f3bcc908, 0xbb67ae8584caa73b, 0x3c6ef372fe94f82b, 0xa54ff53a5f1d36f1,
     0x510e527fade682d1, 0x9b05688c2b3e6c1f, 0x1f83d9abfb41bd6b, 0x5be0cd19137e2179)"

definition sha512_Transform :: "sha512_state \<Rightarrow> bytes \<Rightarrow> sha512_state" where
  "sha512_Transform s chunk =
     (case s of (s0, s1, s2, s3, s4, s5, s6, s7) \<Rightarrow>
      let a = s0; b = s1; c = s2; d = s3; e = s4; f = s5; g = s6; h = s7;
          w0 = ReadBE64 (drop 0 chunk);
          (d, h) = sha512_Round a b c d e f g h 0x428a2f98d728ae22 w0;
          w1 = ReadBE64 (drop 8 chunk);
          (c, g) = sha512_Round h a b c d e f g 0x7137449123ef65cd w1;
          w2 = ReadBE64 (drop 16 chunk);
          (b, f) = sha512_Round g h a b c d e f 0xb5c0fbcfec4d3b2f w2;
          w3 = ReadBE64 (drop 24 chunk);
          (a, e) = sha512_Round f g h a b c d e 0xe9b5dba58189dbbc w3;
          w4 = ReadBE64 (drop 32 chunk);
          (h, d) = sha512_Round e f g h a b c d 0x3956c25bf348b538 w4;
          w5 = ReadBE64 (drop 40 chunk);
          (g, c) = sha512_Round d e f g h a b c 0x59f111f1b605d019 w5;
          w6 = ReadBE64 (drop 48 chunk);
          (f, b) = sha512_Round c d e f g h a b 0x923f82a4af194f9b w6;
          w7 = ReadBE64 (drop 56 chunk);
          (e, a) = sha512_Round b c d e f g h a 0xab1c5ed5da6d8118 w7;
          w8 = ReadBE64 (drop 64 chunk);
          (d, h) = sha512_Round a b c d e f g h 0xd807aa98a3030242 w8;
          w9 = ReadBE64 (drop 72 chunk);
          (c, g) = sha512_Round h a b c d e f g 0x12835b0145706fbe w9;
          w10 = ReadBE64 (drop 80 chunk);
          (b, f) = sha512_Round g h a b c d e f 0x243185be4ee4b28c w10;
          w11 = ReadBE64 (drop 88 chunk);
          (a, e) = sha512_Round f g h a b c d e 0x550c7dc3d5ffb4e2 w11;
          w12 = ReadBE64 (drop 96 chunk);
          (h, d) = sha512_Round e f g h a b c d 0x72be5d74f27b896f w12;
          w13 = ReadBE64 (drop 104 chunk);
          (g, c) = sha512_Round d e f g h a b c 0x80deb1fe3b1696b1 w13;
          w14 = ReadBE64 (drop 112 chunk);
          (f, b) = sha512_Round c d e f g h a b 0x9bdc06a725c71235 w14;
          w15 = ReadBE64 (drop 120 chunk);
          (e, a) = sha512_Round b c d e f g h a 0xc19bf174cf692694 w15;
          w0 = w0 + (sha512_sigma1 w14 + w9 + sha512_sigma0 w1);
          (d, h) = sha512_Round a b c d e f g h 0xe49b69c19ef14ad2 w0;
          w1 = w1 + (sha512_sigma1 w15 + w10 + sha512_sigma0 w2);
          (c, g) = sha512_Round h a b c d e f g 0xefbe4786384f25e3 w1;
          w2 = w2 + (sha512_sigma1 w0 + w11 + sha512_sigma0 w3);
          (b, f) = sha512_Round g h a b c d e f 0x0fc19dc68b8cd5b5 w2;
          w3 = w3 + (sha512_sigma1 w1 + w12 + sha512_sigma0 w4);
          (a, e) = sha512_Round f g h a b c d e 0x240ca1cc77ac9c65 w3;
          w4 = w4 + (sha512_sigma1 w2 + w13 + sha512_sigma0 w5);
          (h, d) = sha512_Round e f g h a b c d 0x2de92c6f592b0275 w4;
          w5 = w5 + (sha512_sigma1 w3 + w14 + sha512_sigma0 w6);
          (g, c) = sha512_Round d e f g h a b c 0x4a7484aa6ea6e483 w5;
          w6 = w6 + (sha512_sigma1 w4 + w15 + sha512_sigma0 w7);
          (f, b) = sha512_Round c d e f g h a b 0x5cb0a9dcbd41fbd4 w6;
          w7 = w7 + (sha512_sigma1 w5 + w0 + sha512_sigma0 w8);
          (e, a) = sha512_Round b c d e f g h a 0x76f988da831153b5 w7;
          w8 = w8 + (sha512_sigma1 w6 + w1 + sha512_sigma0 w9);
          (d, h) = sha512_Round a b c d e f g h 0x983e5152ee66dfab w8;
          w9 = w9 + (sha512_sigma1 w7 + w2 + sha512_sigma0 w10);
          (c, g) = sha512_Round h a b c d e f g 0xa831c66d2db43210 w9;
          w10 = w10 + (sha512_sigma1 w8 + w3 + sha512_sigma0 w11);
          (b, f) = sha512_Round g h a b c d e f 0xb00327c898fb213f w10;
          w11 = w11 + (sha512_sigma1 w9 + w4 + sha512_sigma0 w12);
          (a, e) = sha512_Round f g h a b c d e 0xbf597fc7beef0ee4 w11;
          w12 = w12 + (sha512_sigma1 w10 + w5 + sha512_sigma0 w13);
          (h, d) = sha512_Round e f g h a b c d 0xc6e00bf33da88fc2 w12;
          w13 = w13 + (sha512_sigma1 w11 + w6 + sha512_sigma0 w14);
          (g, c) = sha512_Round d e f g h a b c 0xd5a79147930aa725 w13;
          w14 = w14 + (sha512_sigma1 w12 + w7 + sha512_sigma0 w15);
          (f, b) = sha512_Round c d e f g h a b 0x06ca6351e003826f w14;
          w15 = w15 + (sha512_sigma1 w13 + w8 + sha512_sigma0 w0);
          (e, a) = sha512_Round b c d e f g h a 0x142929670a0e6e70 w15;
          w0 = w0 + (sha512_sigma1 w14 + w9 + sha512_sigma0 w1);
          (d, h) = sha512_Round a b c d e f g h 0x27b70a8546d22ffc w0;
          w1 = w1 + (sha512_sigma1 w15 + w10 + sha512_sigma0 w2);
          (c, g) = sha512_Round h a b c d e f g 0x2e1b21385c26c926 w1;
          w2 = w2 + (sha512_sigma1 w0 + w11 + sha512_sigma0 w3);
          (b, f) = sha512_Round g h a b c d e f 0x4d2c6dfc5ac42aed w2;
          w3 = w3 + (sha512_sigma1 w1 + w12 + sha512_sigma0 w4);
          (a, e) = sha512_Round f g h a b c d e 0x53380d139d95b3df w3;
          w4 = w4 + (sha512_sigma1 w2 + w13 + sha512_sigma0 w5);
          (h, d) = sha512_Round e f g h a b c d 0x650a73548baf63de w4;
          w5 = w5 + (sha512_sigma1 w3 + w14 + sha512_sigma0 w6);
          (g, c) = sha512_Round d e f g h a b c 0x766a0abb3c77b2a8 w5;
          w6 = w6 + (sha512_sigma1 w4 + w15 + sha512_sigma0 w7);
          (f, b) = sha512_Round c d e f g h a b 0x81c2c92e47edaee6 w6;
          w7 = w7 + (sha512_sigma1 w5 + w0 + sha512_sigma0 w8);
          (e, a) = sha512_Round b c d e f g h a 0x92722c851482353b w7;
          w8 = w8 + (sha512_sigma1 w6 + w1 + sha512_sigma0 w9);
          (d, h) = sha512_Round a b c d e f g h 0xa2bfe8a14cf10364 w8;
          w9 = w9 + (sha512_sigma1 w7 + w2 + sha512_sigma0 w10);
          (c, g) = sha512_Round h a b c d e f g 0xa81a664bbc423001 w9;
          w10 = w10 + (sha512_sigma1 w8 + w3 + sha512_sigma0 w11);
          (b, f) = sha512_Round g h a b c d e f 0xc24b8b70d0f89791 w10;
          w11 = w11 + (sha512_sigma1 w9 + w4 + sha512_sigma0 w12);
          (a, e) = sha512_Round f g h a b c d e 0xc76c51a30654be30 w11;
          w12 = w12 + (sha512_sigma1 w10 + w5 + sha512_sigma0 w13);
          (h, d) = sha512_Round e f g h a b c d 0xd192e819d6ef5218 w12;
          w13 = w13 + (sha512_sigma1 w11 + w6 + sha512_sigma0 w14);
          (g, c) = sha512_Round d e f g h a b c 0xd69906245565a910 w13;
          w14 = w14 + (sha512_sigma1 w12 + w7 + sha512_sigma0 w15);
          (f, b) = sha512_Round c d e f g h a b 0xf40e35855771202a w14;
          w15 = w15 + (sha512_sigma1 w13 + w8 + sha512_sigma0 w0);
          (e, a) = sha512_Round b c d e f g h a 0x106aa07032bbd1b8 w15;
          w0 = w0 + (sha512_sigma1 w14 + w9 + sha512_sigma0 w1);
          (d, h) = sha512_Round a b c d e f g h 0x19a4c116b8d2d0c8 w0;
          w1 = w1 + (sha512_sigma1 w15 + w10 + sha512_sigma0 w2);
          (c, g) = sha512_Round h a b c d e f g 0x1e376c085141ab53 w1;
          w2 = w2 + (sha512_sigma1 w0 + w11 + sha512_sigma0 w3);
          (b, f) = sha512_Round g h a b c d e f 0x2748774cdf8eeb99 w2;
          w3 = w3 + (sha512_sigma1 w1 + w12 + sha512_sigma0 w4);
          (a, e) = sha512_Round f g h a b c d e 0x34b0bcb5e19b48a8 w3;
          w4 = w4 + (sha512_sigma1 w2 + w13 + sha512_sigma0 w5);
          (h, d) = sha512_Round e f g h a b c d 0x391c0cb3c5c95a63 w4;
          w5 = w5 + (sha512_sigma1 w3 + w14 + sha512_sigma0 w6);
          (g, c) = sha512_Round d e f g h a b c 0x4ed8aa4ae3418acb w5;
          w6 = w6 + (sha512_sigma1 w4 + w15 + sha512_sigma0 w7);
          (f, b) = sha512_Round c d e f g h a b 0x5b9cca4f7763e373 w6;
          w7 = w7 + (sha512_sigma1 w5 + w0 + sha512_sigma0 w8);
          (e, a) = sha512_Round b c d e f g h a 0x682e6ff3d6b2b8a3 w7;
          w8 = w8 + (sha512_sigma1 w6 + w1 + sha512_sigma0 w9);
          (d, h) = sha512_Round a b c d e f g h 0x748f82ee5defb2fc w8;
          w9 = w9 + (sha512_sigma1 w7 + w2 + sha512_sigma0 w10);
          (c, g) = sha512_Round h a b c d e f g 0x78a5636f43172f60 w9;
          w10 = w10 + (sha512_sigma1 w8 + w3 + sha512_sigma0 w11);
          (b, f) = sha512_Round g h a b c d e f 0x84c87814a1f0ab72 w10;
          w11 = w11 + (sha512_sigma1 w9 + w4 + sha512_sigma0 w12);
          (a, e) = sha512_Round f g h a b c d e 0x8cc702081a6439ec w11;
          w12 = w12 + (sha512_sigma1 w10 + w5 + sha512_sigma0 w13);
          (h, d) = sha512_Round e f g h a b c d 0x90befffa23631e28 w12;
          w13 = w13 + (sha512_sigma1 w11 + w6 + sha512_sigma0 w14);
          (g, c) = sha512_Round d e f g h a b c 0xa4506cebde82bde9 w13;
          w14 = w14 + (sha512_sigma1 w12 + w7 + sha512_sigma0 w15);
          (f, b) = sha512_Round c d e f g h a b 0xbef9a3f7b2c67915 w14;
          w15 = w15 + (sha512_sigma1 w13 + w8 + sha512_sigma0 w0);
          (e, a) = sha512_Round b c d e f g h a 0xc67178f2e372532b w15;
          w0 = w0 + (sha512_sigma1 w14 + w9 + sha512_sigma0 w1);
          (d, h) = sha512_Round a b c d e f g h 0xca273eceea26619c w0;
          w1 = w1 + (sha512_sigma1 w15 + w10 + sha512_sigma0 w2);
          (c, g) = sha512_Round h a b c d e f g 0xd186b8c721c0c207 w1;
          w2 = w2 + (sha512_sigma1 w0 + w11 + sha512_sigma0 w3);
          (b, f) = sha512_Round g h a b c d e f 0xeada7dd6cde0eb1e w2;
          w3 = w3 + (sha512_sigma1 w1 + w12 + sha512_sigma0 w4);
          (a, e) = sha512_Round f g h a b c d e 0xf57d4f7fee6ed178 w3;
          w4 = w4 + (sha512_sigma1 w2 + w13 + sha512_sigma0 w5);
          (h, d) = sha512_Round e f g h a b c d 0x06f067aa72176fba w4;
          w5 = w5 + (sha512_sigma1 w3 + w14 + sha512_sigma0 w6);
          (g, c) = sha512_Round d e f g h a b c 0x0a637dc5a2c898a6 w5;
          w6 = w6 + (sha512_sigma1 w4 + w15 + sha512_sigma0 w7);
          (f, b) = sha512_Round c d e f g h a b 0x113f9804bef90dae w6;
          w7 = w7 + (sha512_sigma1 w5 + w0 + sha512_sigma0 w8);
          (e, a) = sha512_Round b c d e f g h a 0x1b710b35131c471b w7;
          w8 = w8 + (sha512_sigma1 w6 + w1 + sha512_sigma0 w9);
          (d, h) = sha512_Round a b c d e f g h 0x28db77f523047d84 w8;
          w9 = w9 + (sha512_sigma1 w7 + w2 + sha512_sigma0 w10);
          (c, g) = sha512_Round h a b c d e f g 0x32caab7b40c72493 w9;
          w10 = w10 + (sha512_sigma1 w8 + w3 + sha512_sigma0 w11);
          (b, f) = sha512_Round g h a b c d e f 0x3c9ebe0a15c9bebc w10;
          w11 = w11 + (sha512_sigma1 w9 + w4 + sha512_sigma0 w12);
          (a, e) = sha512_Round f g h a b c d e 0x431d67c49c100d4c w11;
          w12 = w12 + (sha512_sigma1 w10 + w5 + sha512_sigma0 w13);
          (h, d) = sha512_Round e f g h a b c d 0x4cc5d4becb3e42b6 w12;
          w13 = w13 + (sha512_sigma1 w11 + w6 + sha512_sigma0 w14);
          (g, c) = sha512_Round d e f g h a b c 0x597f299cfc657e2a w13;
          (f, b) = sha512_Round c d e f g h a b 0x5fcb6fab3ad6faec (w14 + sha512_sigma1 w12 + w7 + sha512_sigma0 w15);
          (e, a) = sha512_Round b c d e f g h a 0x6c44198c4a475817 (w15 + sha512_sigma1 w13 + w8 + sha512_sigma0 w0)
      in (s0 + a, s1 + b, s2 + c, s3 + d, s4 + e, s5 + f, s6 + g, s7 + h))"

definition sha512_roots :: "(nat \<times> u64) list" where
  "sha512_roots =
    [(2, 0x428a2f98d728ae22), (3, 0x7137449123ef65cd), (5, 0xb5c0fbcfec4d3b2f),
     (7, 0xe9b5dba58189dbbc), (11, 0x3956c25bf348b538), (13, 0x59f111f1b605d019),
     (17, 0x923f82a4af194f9b), (19, 0xab1c5ed5da6d8118), (23, 0xd807aa98a3030242),
     (29, 0x12835b0145706fbe), (31, 0x243185be4ee4b28c), (37, 0x550c7dc3d5ffb4e2),
     (41, 0x72be5d74f27b896f), (43, 0x80deb1fe3b1696b1), (47, 0x9bdc06a725c71235),
     (53, 0xc19bf174cf692694), (59, 0xe49b69c19ef14ad2), (61, 0xefbe4786384f25e3),
     (67, 0x0fc19dc68b8cd5b5), (71, 0x240ca1cc77ac9c65), (73, 0x2de92c6f592b0275),
     (79, 0x4a7484aa6ea6e483), (83, 0x5cb0a9dcbd41fbd4), (89, 0x76f988da831153b5),
     (97, 0x983e5152ee66dfab), (101, 0xa831c66d2db43210), (103, 0xb00327c898fb213f),
     (107, 0xbf597fc7beef0ee4), (109, 0xc6e00bf33da88fc2), (113, 0xd5a79147930aa725),
     (127, 0x06ca6351e003826f), (131, 0x142929670a0e6e70), (137, 0x27b70a8546d22ffc),
     (139, 0x2e1b21385c26c926), (149, 0x4d2c6dfc5ac42aed), (151, 0x53380d139d95b3df),
     (157, 0x650a73548baf63de), (163, 0x766a0abb3c77b2a8), (167, 0x81c2c92e47edaee6),
     (173, 0x92722c851482353b), (179, 0xa2bfe8a14cf10364), (181, 0xa81a664bbc423001),
     (191, 0xc24b8b70d0f89791), (193, 0xc76c51a30654be30), (197, 0xd192e819d6ef5218),
     (199, 0xd69906245565a910), (211, 0xf40e35855771202a), (223, 0x106aa07032bbd1b8),
     (227, 0x19a4c116b8d2d0c8), (229, 0x1e376c085141ab53), (233, 0x2748774cdf8eeb99),
     (239, 0x34b0bcb5e19b48a8), (241, 0x391c0cb3c5c95a63), (251, 0x4ed8aa4ae3418acb),
     (257, 0x5b9cca4f7763e373), (263, 0x682e6ff3d6b2b8a3), (269, 0x748f82ee5defb2fc),
     (271, 0x78a5636f43172f60), (277, 0x84c87814a1f0ab72), (281, 0x8cc702081a6439ec),
     (283, 0x90befffa23631e28), (293, 0xa4506cebde82bde9), (307, 0xbef9a3f7b2c67915),
     (311, 0xc67178f2e372532b), (313, 0xca273eceea26619c), (317, 0xd186b8c721c0c207),
     (331, 0xeada7dd6cde0eb1e), (337, 0xf57d4f7fee6ed178), (347, 0x06f067aa72176fba),
     (349, 0x0a637dc5a2c898a6), (353, 0x113f9804bef90dae), (359, 0x1b710b35131c471b),
     (367, 0x28db77f523047d84), (373, 0x32caab7b40c72493), (379, 0x3c9ebe0a15c9bebc),
     (383, 0x431d67c49c100d4c), (389, 0x4cc5d4becb3e42b6), (397, 0x597f299cfc657e2a),
     (401, 0x5fcb6fab3ad6faec), (409, 0x6c44198c4a475817)]"

definition sha512_K :: "u64 list" where
  "sha512_K = map snd sha512_roots"

lemma sha512_K_roots: "list_all (\<lambda>(p, k). cube_frac 64 p (unat k)) sha512_roots"
  by (simp add: sha512_roots_def cube_frac_def cube_int_def)

definition sha512_round :: "sha512_state \<Rightarrow> u64 \<Rightarrow> u64 \<Rightarrow> sha512_state" where
  "sha512_round st k w =
     (case st of (a, b, c, d, e, f, g, h) \<Rightarrow>
      case sha512_Round a b c d e f g h k w of (d', h') \<Rightarrow> (h', a, b, c, d', e, f, g))"

lemma sha512_round_eq:
  "sha512_round (a, b, c, d, e, f, g, h) k w =
     (case sha512_Round a b c d e f g h k w of (d', h') \<Rightarrow> (h', a, b, c, d', e, f, g))"
  by (simp add: sha512_round_def)

lemma sha512_Transform_window:
  "sha512_Transform (s0, s1, s2, s3, s4, s5, s6, s7) chunk =
     (case window_rounds sha512_round (sha2_next sha512_sigma0 sha512_sigma1) (s0, s1, s2, s3, s4, s5, s6, s7)
        [ReadBE64 (drop 0 chunk), ReadBE64 (drop 8 chunk), ReadBE64 (drop 16 chunk), ReadBE64 (drop 24 chunk),
         ReadBE64 (drop 32 chunk), ReadBE64 (drop 40 chunk), ReadBE64 (drop 48 chunk), ReadBE64 (drop 56 chunk),
         ReadBE64 (drop 64 chunk), ReadBE64 (drop 72 chunk), ReadBE64 (drop 80 chunk), ReadBE64 (drop 88 chunk),
         ReadBE64 (drop 96 chunk), ReadBE64 (drop 104 chunk), ReadBE64 (drop 112 chunk), ReadBE64 (drop 120 chunk)] sha512_K of
      (a, b, c, d, e, f, g, h) \<Rightarrow> (s0 + a, s1 + b, s2 + c, s3 + d, s4 + e, s5 + f, s6 + g, s7 + h))"
  unfolding sha512_Transform_def sha512_K_def sha512_roots_def list.map prod.sel prod.case add_4_assoc
  apply (rule let_eqI case_prod_eqI)+
  apply (simp (no_asm_simp) only: window_step sha2_next_eq window_rounds.simps(1) sha512_round_eq prod.case)
  done

subsection \<open>The reference\<close>

definition sha512_fips_round :: "sha512_state \<Rightarrow> u64 \<Rightarrow> u64 \<Rightarrow> sha512_state" where
  "sha512_fips_round st k w =
     (case st of (a, b, c, d, e, f, g, h) \<Rightarrow>
      let T1 = h + (word_rotr 14 e XOR word_rotr 18 e XOR word_rotr 41 e) + fips_ch e f g + k + w;
          T2 = (word_rotr 28 a XOR word_rotr 34 a XOR word_rotr 39 a) + fips_maj a b c
      in (T1 + T2, a, b, c, d + T1, e, f, g))"

definition sha512_words :: "bytes \<Rightarrow> u64 list" where
  "sha512_words b = map (\<lambda>i. ReadBE64 (drop (8 * i) b)) [0..<16]"

definition sha512_compress :: "sha512_state \<Rightarrow> bytes \<Rightarrow> sha512_state" where
  "sha512_compress H b =
     (case H of (h0, h1, h2, h3, h4, h5, h6, h7) \<Rightarrow>
      case fips_rounds sha512_fips_round
             (sha2_next (\<lambda>x. word_rotr 1 x XOR word_rotr 8 x XOR drop_bit 7 x)
                        (\<lambda>x. word_rotr 19 x XOR word_rotr 61 x XOR drop_bit 6 x)) sha512_K (sha512_words b) H of
        (a, b, c, d, e, f, g, h) \<Rightarrow> (h0 + a, h1 + b, h2 + c, h3 + d, h4 + e, h5 + f, h6 + g, h7 + h))"

definition sha512_output :: "sha512_state \<Rightarrow> bytes" where
  "sha512_output st =
     (case st of (s0, s1, s2, s3, s4, s5, s6, s7) \<Rightarrow>
      WriteBE64 s0 @ WriteBE64 s1 @ WriteBE64 s2 @ WriteBE64 s3 @ WriteBE64 s4 @ WriteBE64 s5 @ WriteBE64 s6 @ WriteBE64 s7)"

definition SHA512 :: "bytes \<Rightarrow> bytes" where
  "SHA512 d = sha512_output (foldl sha512_compress sha512_Initialize
     (blocks 128 (d @ md_padding 128 239 (length d) @ replicate 8 0 @ WriteBE64 (of_nat (8 * length d)))))"

lemma sha512_fips_fun:
  "sha512_sigma0 = (\<lambda>x. word_rotr 1 x XOR word_rotr 8 x XOR drop_bit 7 x)"
  "sha512_sigma1 = (\<lambda>x. word_rotr 19 x XOR word_rotr 61 x XOR drop_bit 6 x)"
  "sha512_round = sha512_fips_round"
  by (simp_all add: fun_eq_iff sha512_sigma0_def sha512_sigma1_def sha512_round_def sha512_fips_round_def sha512_Round_def
      sha512_Sigma0_def sha512_Sigma1_def sha512_Ch_def sha512_Maj_def fips_ch_alt fips_maj_alt rotr_shifts Let_def)

lemma sha512_Transform_compress: "sha512_Transform s chunk = sha512_compress s chunk"
proof -
  obtain s0 s1 s2 s3 s4 s5 s6 s7 where s: "s = (s0, s1, s2, s3, s4, s5, s6, s7)" using surj_pair by metis
  have w: "[ReadBE64 (drop 0 chunk), ReadBE64 (drop 8 chunk), ReadBE64 (drop 16 chunk), ReadBE64 (drop 24 chunk),
         ReadBE64 (drop 32 chunk), ReadBE64 (drop 40 chunk), ReadBE64 (drop 48 chunk), ReadBE64 (drop 56 chunk),
         ReadBE64 (drop 64 chunk), ReadBE64 (drop 72 chunk), ReadBE64 (drop 80 chunk), ReadBE64 (drop 88 chunk),
         ReadBE64 (drop 96 chunk), ReadBE64 (drop 104 chunk), ReadBE64 (drop 112 chunk), ReadBE64 (drop 120 chunk)] = sha512_words chunk"
    by (simp add: sha512_words_def upt_rec)
  have l: "length (sha512_words chunk) = 16" by (simp add: sha512_words_def)
  show ?thesis
    unfolding s sha512_Transform_window w window_rounds_fips[OF l] by (simp add: sha512_compress_def sha512_fips_fun)
qed

subsection \<open>The hasher\<close>

definition CSHA512_new :: "bytes \<Rightarrow> sha512_state hasher" where
  "CSHA512_new buf = hasher_new sha512_Initialize buf"

definition CSHA512_Write :: "sha512_state hasher \<Rightarrow> bytes \<Rightarrow> sha512_state hasher" where
  "CSHA512_Write = hasher_Write 128 sha512_Transform"

definition CSHA512_Reset :: "sha512_state hasher \<Rightarrow> sha512_state hasher" where
  "CSHA512_Reset = hasher_Reset sha512_Initialize"

definition CSHA512_Finalize :: "sha512_state hasher \<Rightarrow> bytes" where
  "CSHA512_Finalize h =
     (let sizedesc = replicate 8 0 @ WriteBE64 (push_bit 3 (hs_bytes h)) in
      sha512_output (hs_s (hasher_finish 128 sha512_Transform 239 sizedesc h)))"

interpretation sha512: block_hash 128 sha512_Transform
proof unfold_locales
  fix d :: bytes and s
  assume "128 \<le> length d"
  have "sha512_words (take 128 d) = sha512_words d" by (simp add: sha512_words_def drop_take Read_take)
  then show "sha512_Transform s (take 128 d) = sha512_Transform s d"
    by (simp add: sha512_Transform_compress sha512_compress_def)
qed simp_all

text \<open>From any hasher that has absorbed \<open>d\<close>, \<open>Finalize\<close> gives the hash of \<open>d\<close>.\<close>

lemma CSHA512_Finalize_absorbed:
  assumes "sha512.absorbed sha512_Initialize d h"
  shows "CSHA512_Finalize h = SHA512 d"
proof -
  have b: "hs_bytes h = of_nat (length d)" using assms by (simp add: sha512.absorbed_def)
  have T: "sha512_Transform = sha512_compress" by (simp add: fun_eq_iff sha512_Transform_compress)
  have "hs_s (hasher_finish 128 sha512_Transform 239 sd h) =
      foldl sha512_Transform sha512_Initialize (blocks 128 (d @ md_padding 128 239 (length d) @ sd))" for sd
    using sha512.finish_absorbed[OF assms, of 239 sd] by (simp add: sha512.absorbed_def)
  then show ?thesis
    by (simp add: CSHA512_Finalize_def SHA512_def b push_bit_3_of_nat T Let_def)
qed

lemma CSHA512_new_absorbed: "length buf = 128 \<Longrightarrow> sha512.absorbed sha512_Initialize [] (CSHA512_new buf)"
  unfolding CSHA512_new_def by (rule sha512.absorbed_new)

lemma CSHA512_Reset_absorbed: "sha512.absorbed sha512_Initialize d h \<Longrightarrow> sha512.absorbed sha512_Initialize [] (CSHA512_Reset h)"
  unfolding CSHA512_Reset_def by (rule sha512.absorbed_Reset)

lemma CSHA512_Write_absorbed:
  "sha512.absorbed sha512_Initialize d h \<Longrightarrow> sha512.absorbed sha512_Initialize (d @ x) (CSHA512_Write h x)"
  unfolding CSHA512_Write_def by (rule sha512.Write_absorbed)

lemma CSHA512_foldl_absorbed:
  "sha512.absorbed sha512_Initialize d h \<Longrightarrow> sha512.absorbed sha512_Initialize (d @ concat ds) (foldl CSHA512_Write h ds)"
  unfolding CSHA512_Write_def by (rule sha512.foldl_Write_absorbed)

lemma length_SHA512 [simp]: "length (SHA512 d) = 64"
  by (simp add: SHA512_def sha512_output_def split: prod.split)

end
