(* ===== verification/SHA1.thy ===== *)
theory SHA1
  imports Rounds
begin

text \<open>
  SHA-1, \<open>src/src/crypto/sha1.cpp\<close>: the compression function call by call, its FIPS
  180-4 reference, and the hasher object.
\<close>

type_synonym sha1_state = "u32 \<times> u32 \<times> u32 \<times> u32 \<times> u32"

text \<open>\<open>Round\<close> updates \<open>b\<close> and \<open>e\<close> through references; here it returns both.\<close>

definition sha1_Round :: "u32 \<Rightarrow> u32 \<Rightarrow> u32 \<Rightarrow> u32 \<Rightarrow> u32 \<Rightarrow> u32 \<Rightarrow> u32 \<Rightarrow> u32 \<Rightarrow> u32 \<times> u32" where
  "sha1_Round a b c d e f k w =
     (push_bit 30 b OR drop_bit 2 b, e + ((push_bit 5 a OR drop_bit 27 a) + f + k + w))"

definition sha1_f1 :: "u32 \<Rightarrow> u32 \<Rightarrow> u32 \<Rightarrow> u32" where "sha1_f1 b c d = d XOR (b AND (c XOR d))"
definition sha1_f2 :: "u32 \<Rightarrow> u32 \<Rightarrow> u32 \<Rightarrow> u32" where "sha1_f2 b c d = b XOR c XOR d"
definition sha1_f3 :: "u32 \<Rightarrow> u32 \<Rightarrow> u32 \<Rightarrow> u32" where "sha1_f3 b c d = (b AND c) OR (d AND (b OR c))"
definition sha1_left :: "u32 \<Rightarrow> u32" where "sha1_left x = push_bit 1 x OR drop_bit 31 x"

definition sha1_Initialize :: sha1_state where
  "sha1_Initialize = (0x67452301, 0xEFCDAB89, 0x98BADCFE, 0x10325476, 0xC3D2E1F0)"

definition sha1_k1 :: u32 where "sha1_k1 = 0x5A827999"
definition sha1_k2 :: u32 where "sha1_k2 = 0x6ED9EBA1"
definition sha1_k3 :: u32 where "sha1_k3 = 0x8F1BBCDC"
definition sha1_k4 :: u32 where "sha1_k4 = 0xCA62C1D6"

definition sha1_Transform :: "sha1_state \<Rightarrow> bytes \<Rightarrow> sha1_state" where
  "sha1_Transform s chunk =
     (case s of (s0, s1, s2, s3, s4) \<Rightarrow>
      let a = s0; b = s1; c = s2; d = s3; e = s4;
          w0 = ReadBE32 (drop 0 chunk);
          (b, e) = sha1_Round a b c d e (sha1_f1 b c d) sha1_k1 w0;
          w1 = ReadBE32 (drop 4 chunk);
          (a, d) = sha1_Round e a b c d (sha1_f1 a b c) sha1_k1 w1;
          w2 = ReadBE32 (drop 8 chunk);
          (e, c) = sha1_Round d e a b c (sha1_f1 e a b) sha1_k1 w2;
          w3 = ReadBE32 (drop 12 chunk);
          (d, b) = sha1_Round c d e a b (sha1_f1 d e a) sha1_k1 w3;
          w4 = ReadBE32 (drop 16 chunk);
          (c, a) = sha1_Round b c d e a (sha1_f1 c d e) sha1_k1 w4;
          w5 = ReadBE32 (drop 20 chunk);
          (b, e) = sha1_Round a b c d e (sha1_f1 b c d) sha1_k1 w5;
          w6 = ReadBE32 (drop 24 chunk);
          (a, d) = sha1_Round e a b c d (sha1_f1 a b c) sha1_k1 w6;
          w7 = ReadBE32 (drop 28 chunk);
          (e, c) = sha1_Round d e a b c (sha1_f1 e a b) sha1_k1 w7;
          w8 = ReadBE32 (drop 32 chunk);
          (d, b) = sha1_Round c d e a b (sha1_f1 d e a) sha1_k1 w8;
          w9 = ReadBE32 (drop 36 chunk);
          (c, a) = sha1_Round b c d e a (sha1_f1 c d e) sha1_k1 w9;
          w10 = ReadBE32 (drop 40 chunk);
          (b, e) = sha1_Round a b c d e (sha1_f1 b c d) sha1_k1 w10;
          w11 = ReadBE32 (drop 44 chunk);
          (a, d) = sha1_Round e a b c d (sha1_f1 a b c) sha1_k1 w11;
          w12 = ReadBE32 (drop 48 chunk);
          (e, c) = sha1_Round d e a b c (sha1_f1 e a b) sha1_k1 w12;
          w13 = ReadBE32 (drop 52 chunk);
          (d, b) = sha1_Round c d e a b (sha1_f1 d e a) sha1_k1 w13;
          w14 = ReadBE32 (drop 56 chunk);
          (c, a) = sha1_Round b c d e a (sha1_f1 c d e) sha1_k1 w14;
          w15 = ReadBE32 (drop 60 chunk);
          (b, e) = sha1_Round a b c d e (sha1_f1 b c d) sha1_k1 w15;
          w0 = sha1_left (w0 XOR w13 XOR w8 XOR w2);
          (a, d) = sha1_Round e a b c d (sha1_f1 a b c) sha1_k1 w0;
          w1 = sha1_left (w1 XOR w14 XOR w9 XOR w3);
          (e, c) = sha1_Round d e a b c (sha1_f1 e a b) sha1_k1 w1;
          w2 = sha1_left (w2 XOR w15 XOR w10 XOR w4);
          (d, b) = sha1_Round c d e a b (sha1_f1 d e a) sha1_k1 w2;
          w3 = sha1_left (w3 XOR w0 XOR w11 XOR w5);
          (c, a) = sha1_Round b c d e a (sha1_f1 c d e) sha1_k1 w3;
          w4 = sha1_left (w4 XOR w1 XOR w12 XOR w6);
          (b, e) = sha1_Round a b c d e (sha1_f2 b c d) sha1_k2 w4;
          w5 = sha1_left (w5 XOR w2 XOR w13 XOR w7);
          (a, d) = sha1_Round e a b c d (sha1_f2 a b c) sha1_k2 w5;
          w6 = sha1_left (w6 XOR w3 XOR w14 XOR w8);
          (e, c) = sha1_Round d e a b c (sha1_f2 e a b) sha1_k2 w6;
          w7 = sha1_left (w7 XOR w4 XOR w15 XOR w9);
          (d, b) = sha1_Round c d e a b (sha1_f2 d e a) sha1_k2 w7;
          w8 = sha1_left (w8 XOR w5 XOR w0 XOR w10);
          (c, a) = sha1_Round b c d e a (sha1_f2 c d e) sha1_k2 w8;
          w9 = sha1_left (w9 XOR w6 XOR w1 XOR w11);
          (b, e) = sha1_Round a b c d e (sha1_f2 b c d) sha1_k2 w9;
          w10 = sha1_left (w10 XOR w7 XOR w2 XOR w12);
          (a, d) = sha1_Round e a b c d (sha1_f2 a b c) sha1_k2 w10;
          w11 = sha1_left (w11 XOR w8 XOR w3 XOR w13);
          (e, c) = sha1_Round d e a b c (sha1_f2 e a b) sha1_k2 w11;
          w12 = sha1_left (w12 XOR w9 XOR w4 XOR w14);
          (d, b) = sha1_Round c d e a b (sha1_f2 d e a) sha1_k2 w12;
          w13 = sha1_left (w13 XOR w10 XOR w5 XOR w15);
          (c, a) = sha1_Round b c d e a (sha1_f2 c d e) sha1_k2 w13;
          w14 = sha1_left (w14 XOR w11 XOR w6 XOR w0);
          (b, e) = sha1_Round a b c d e (sha1_f2 b c d) sha1_k2 w14;
          w15 = sha1_left (w15 XOR w12 XOR w7 XOR w1);
          (a, d) = sha1_Round e a b c d (sha1_f2 a b c) sha1_k2 w15;
          w0 = sha1_left (w0 XOR w13 XOR w8 XOR w2);
          (e, c) = sha1_Round d e a b c (sha1_f2 e a b) sha1_k2 w0;
          w1 = sha1_left (w1 XOR w14 XOR w9 XOR w3);
          (d, b) = sha1_Round c d e a b (sha1_f2 d e a) sha1_k2 w1;
          w2 = sha1_left (w2 XOR w15 XOR w10 XOR w4);
          (c, a) = sha1_Round b c d e a (sha1_f2 c d e) sha1_k2 w2;
          w3 = sha1_left (w3 XOR w0 XOR w11 XOR w5);
          (b, e) = sha1_Round a b c d e (sha1_f2 b c d) sha1_k2 w3;
          w4 = sha1_left (w4 XOR w1 XOR w12 XOR w6);
          (a, d) = sha1_Round e a b c d (sha1_f2 a b c) sha1_k2 w4;
          w5 = sha1_left (w5 XOR w2 XOR w13 XOR w7);
          (e, c) = sha1_Round d e a b c (sha1_f2 e a b) sha1_k2 w5;
          w6 = sha1_left (w6 XOR w3 XOR w14 XOR w8);
          (d, b) = sha1_Round c d e a b (sha1_f2 d e a) sha1_k2 w6;
          w7 = sha1_left (w7 XOR w4 XOR w15 XOR w9);
          (c, a) = sha1_Round b c d e a (sha1_f2 c d e) sha1_k2 w7;
          w8 = sha1_left (w8 XOR w5 XOR w0 XOR w10);
          (b, e) = sha1_Round a b c d e (sha1_f3 b c d) sha1_k3 w8;
          w9 = sha1_left (w9 XOR w6 XOR w1 XOR w11);
          (a, d) = sha1_Round e a b c d (sha1_f3 a b c) sha1_k3 w9;
          w10 = sha1_left (w10 XOR w7 XOR w2 XOR w12);
          (e, c) = sha1_Round d e a b c (sha1_f3 e a b) sha1_k3 w10;
          w11 = sha1_left (w11 XOR w8 XOR w3 XOR w13);
          (d, b) = sha1_Round c d e a b (sha1_f3 d e a) sha1_k3 w11;
          w12 = sha1_left (w12 XOR w9 XOR w4 XOR w14);
          (c, a) = sha1_Round b c d e a (sha1_f3 c d e) sha1_k3 w12;
          w13 = sha1_left (w13 XOR w10 XOR w5 XOR w15);
          (b, e) = sha1_Round a b c d e (sha1_f3 b c d) sha1_k3 w13;
          w14 = sha1_left (w14 XOR w11 XOR w6 XOR w0);
          (a, d) = sha1_Round e a b c d (sha1_f3 a b c) sha1_k3 w14;
          w15 = sha1_left (w15 XOR w12 XOR w7 XOR w1);
          (e, c) = sha1_Round d e a b c (sha1_f3 e a b) sha1_k3 w15;
          w0 = sha1_left (w0 XOR w13 XOR w8 XOR w2);
          (d, b) = sha1_Round c d e a b (sha1_f3 d e a) sha1_k3 w0;
          w1 = sha1_left (w1 XOR w14 XOR w9 XOR w3);
          (c, a) = sha1_Round b c d e a (sha1_f3 c d e) sha1_k3 w1;
          w2 = sha1_left (w2 XOR w15 XOR w10 XOR w4);
          (b, e) = sha1_Round a b c d e (sha1_f3 b c d) sha1_k3 w2;
          w3 = sha1_left (w3 XOR w0 XOR w11 XOR w5);
          (a, d) = sha1_Round e a b c d (sha1_f3 a b c) sha1_k3 w3;
          w4 = sha1_left (w4 XOR w1 XOR w12 XOR w6);
          (e, c) = sha1_Round d e a b c (sha1_f3 e a b) sha1_k3 w4;
          w5 = sha1_left (w5 XOR w2 XOR w13 XOR w7);
          (d, b) = sha1_Round c d e a b (sha1_f3 d e a) sha1_k3 w5;
          w6 = sha1_left (w6 XOR w3 XOR w14 XOR w8);
          (c, a) = sha1_Round b c d e a (sha1_f3 c d e) sha1_k3 w6;
          w7 = sha1_left (w7 XOR w4 XOR w15 XOR w9);
          (b, e) = sha1_Round a b c d e (sha1_f3 b c d) sha1_k3 w7;
          w8 = sha1_left (w8 XOR w5 XOR w0 XOR w10);
          (a, d) = sha1_Round e a b c d (sha1_f3 a b c) sha1_k3 w8;
          w9 = sha1_left (w9 XOR w6 XOR w1 XOR w11);
          (e, c) = sha1_Round d e a b c (sha1_f3 e a b) sha1_k3 w9;
          w10 = sha1_left (w10 XOR w7 XOR w2 XOR w12);
          (d, b) = sha1_Round c d e a b (sha1_f3 d e a) sha1_k3 w10;
          w11 = sha1_left (w11 XOR w8 XOR w3 XOR w13);
          (c, a) = sha1_Round b c d e a (sha1_f3 c d e) sha1_k3 w11;
          w12 = sha1_left (w12 XOR w9 XOR w4 XOR w14);
          (b, e) = sha1_Round a b c d e (sha1_f2 b c d) sha1_k4 w12;
          w13 = sha1_left (w13 XOR w10 XOR w5 XOR w15);
          (a, d) = sha1_Round e a b c d (sha1_f2 a b c) sha1_k4 w13;
          w14 = sha1_left (w14 XOR w11 XOR w6 XOR w0);
          (e, c) = sha1_Round d e a b c (sha1_f2 e a b) sha1_k4 w14;
          w15 = sha1_left (w15 XOR w12 XOR w7 XOR w1);
          (d, b) = sha1_Round c d e a b (sha1_f2 d e a) sha1_k4 w15;
          w0 = sha1_left (w0 XOR w13 XOR w8 XOR w2);
          (c, a) = sha1_Round b c d e a (sha1_f2 c d e) sha1_k4 w0;
          w1 = sha1_left (w1 XOR w14 XOR w9 XOR w3);
          (b, e) = sha1_Round a b c d e (sha1_f2 b c d) sha1_k4 w1;
          w2 = sha1_left (w2 XOR w15 XOR w10 XOR w4);
          (a, d) = sha1_Round e a b c d (sha1_f2 a b c) sha1_k4 w2;
          w3 = sha1_left (w3 XOR w0 XOR w11 XOR w5);
          (e, c) = sha1_Round d e a b c (sha1_f2 e a b) sha1_k4 w3;
          w4 = sha1_left (w4 XOR w1 XOR w12 XOR w6);
          (d, b) = sha1_Round c d e a b (sha1_f2 d e a) sha1_k4 w4;
          w5 = sha1_left (w5 XOR w2 XOR w13 XOR w7);
          (c, a) = sha1_Round b c d e a (sha1_f2 c d e) sha1_k4 w5;
          w6 = sha1_left (w6 XOR w3 XOR w14 XOR w8);
          (b, e) = sha1_Round a b c d e (sha1_f2 b c d) sha1_k4 w6;
          w7 = sha1_left (w7 XOR w4 XOR w15 XOR w9);
          (a, d) = sha1_Round e a b c d (sha1_f2 a b c) sha1_k4 w7;
          w8 = sha1_left (w8 XOR w5 XOR w0 XOR w10);
          (e, c) = sha1_Round d e a b c (sha1_f2 e a b) sha1_k4 w8;
          w9 = sha1_left (w9 XOR w6 XOR w1 XOR w11);
          (d, b) = sha1_Round c d e a b (sha1_f2 d e a) sha1_k4 w9;
          w10 = sha1_left (w10 XOR w7 XOR w2 XOR w12);
          (c, a) = sha1_Round b c d e a (sha1_f2 c d e) sha1_k4 w10;
          w11 = sha1_left (w11 XOR w8 XOR w3 XOR w13);
          (b, e) = sha1_Round a b c d e (sha1_f2 b c d) sha1_k4 w11;
          w12 = sha1_left (w12 XOR w9 XOR w4 XOR w14);
          (a, d) = sha1_Round e a b c d (sha1_f2 a b c) sha1_k4 w12;
          (e, c) = sha1_Round d e a b c (sha1_f2 e a b) sha1_k4 (sha1_left (w13 XOR w10 XOR w5 XOR w15));
          (d, b) = sha1_Round c d e a b (sha1_f2 d e a) sha1_k4 (sha1_left (w14 XOR w11 XOR w6 XOR w0));
          (c, a) = sha1_Round b c d e a (sha1_f2 c d e) sha1_k4 (sha1_left (w15 XOR w12 XOR w7 XOR w1))
      in (s0 + a, s1 + b, s2 + c, s3 + d, s4 + e))"

section \<open>The reference\<close>

definition sha1_next :: "u32 list \<Rightarrow> u32" where
  "sha1_next W = word_rotl 1 (W ! 13 XOR W ! 8 XOR W ! 2 XOR W ! 0)"

definition sha1_fips_round :: "sha1_state \<Rightarrow> (u32 \<Rightarrow> u32 \<Rightarrow> u32 \<Rightarrow> u32) \<times> u32 \<Rightarrow> u32 \<Rightarrow> sha1_state" where
  "sha1_fips_round st fk w =
     (case st of (a, b, c, d, e) \<Rightarrow> case fk of (f, k) \<Rightarrow>
      let T = word_rotl 5 a + f b c d + e + k + w in (T, a, word_rotl 30 b, c, d))"

definition sha1_parity :: "u32 \<Rightarrow> u32 \<Rightarrow> u32 \<Rightarrow> u32" where
  "sha1_parity x y z = x XOR y XOR z"

definition sha1_K :: "((u32 \<Rightarrow> u32 \<Rightarrow> u32 \<Rightarrow> u32) \<times> u32) list" where
  "sha1_K = replicate 20 (fips_ch, 0x5A827999) @ replicate 20 (sha1_parity, 0x6ED9EBA1) @
     replicate 20 (fips_maj, 0x8F1BBCDC) @ replicate 20 (sha1_parity, 0xCA62C1D6)"

definition sha1_words :: "bytes \<Rightarrow> u32 list" where
  "sha1_words b = map (\<lambda>i. ReadBE32 (drop (4 * i) b)) [0..<16]"

definition sha1_compress :: "sha1_state \<Rightarrow> bytes \<Rightarrow> sha1_state" where
  "sha1_compress H b =
     (case H of (h0, h1, h2, h3, h4) \<Rightarrow>
      case fips_rounds sha1_fips_round sha1_next sha1_K (sha1_words b) H of
        (a, b, c, d, e) \<Rightarrow> (h0 + a, h1 + b, h2 + c, h3 + d, h4 + e))"

definition sha1_output :: "sha1_state \<Rightarrow> bytes" where
  "sha1_output st =
     (case st of (s0, s1, s2, s3, s4) \<Rightarrow>
      WriteBE32 s0 @ WriteBE32 s1 @ WriteBE32 s2 @ WriteBE32 s3 @ WriteBE32 s4)"

definition SHA1 :: "bytes \<Rightarrow> bytes" where
  "SHA1 d = sha1_output (foldl sha1_compress sha1_Initialize
     (blocks 64 (d @ md_padding 64 119 (length d) @ WriteBE64 (of_nat (8 * length d)))))"

text \<open>The rounds with the functions of the source.\<close>

definition sha1_round :: "sha1_state \<Rightarrow> (u32 \<Rightarrow> u32 \<Rightarrow> u32 \<Rightarrow> u32) \<times> u32 \<Rightarrow> u32 \<Rightarrow> sha1_state" where
  "sha1_round st fk w =
     (case st of (a, b, c, d, e) \<Rightarrow> case fk of (f, k) \<Rightarrow>
      case sha1_Round a b c d e (f b c d) k w of (b', e') \<Rightarrow> (e', a, b', c, d))"

lemma sha1_round_eq:
  "sha1_round (a, b, c, d, e) (f, k) w = (case sha1_Round a b c d e (f b c d) k w of (b', e') \<Rightarrow> (e', a, b', c, d))"
  by (simp add: sha1_round_def)

lemma sha1_left_rotl: "sha1_left x = word_rotl 1 x"
  unfolding sha1_left_def by (rule rotl_shifts) simp_all

lemma sha1_next_eq:
  "sha1_next [w0, w1, w2, w3, w4, w5, w6, w7, w8, w9, w10, w11, w12, w13, w14, w15] = sha1_left (w0 XOR w13 XOR w8 XOR w2)"
  by (simp add: sha1_next_def sha1_left_rotl xor.assoc xor.commute xor.left_commute)

lemma sha1_fips_fun: "sha1_f1 = fips_ch" "sha1_f2 = sha1_parity" "sha1_f3 = fips_maj" "sha1_round = sha1_fips_round"
  by (simp_all add: fun_eq_iff sha1_f1_def sha1_f2_def sha1_f3_def sha1_parity_def fips_ch_alt fips_maj_alt sha1_round_def
      sha1_Round_def sha1_fips_round_def rotl_shifts Let_def add_ac)

lemma sha1_K_eq:
  "sha1_K = [(sha1_f1, sha1_k1), (sha1_f1, sha1_k1), (sha1_f1, sha1_k1), (sha1_f1, sha1_k1), (sha1_f1, sha1_k1),
     (sha1_f1, sha1_k1), (sha1_f1, sha1_k1), (sha1_f1, sha1_k1), (sha1_f1, sha1_k1), (sha1_f1, sha1_k1),
     (sha1_f1, sha1_k1), (sha1_f1, sha1_k1), (sha1_f1, sha1_k1), (sha1_f1, sha1_k1), (sha1_f1, sha1_k1),
     (sha1_f1, sha1_k1), (sha1_f1, sha1_k1), (sha1_f1, sha1_k1), (sha1_f1, sha1_k1), (sha1_f1, sha1_k1),
     (sha1_f2, sha1_k2), (sha1_f2, sha1_k2), (sha1_f2, sha1_k2), (sha1_f2, sha1_k2), (sha1_f2, sha1_k2),
     (sha1_f2, sha1_k2), (sha1_f2, sha1_k2), (sha1_f2, sha1_k2), (sha1_f2, sha1_k2), (sha1_f2, sha1_k2),
     (sha1_f2, sha1_k2), (sha1_f2, sha1_k2), (sha1_f2, sha1_k2), (sha1_f2, sha1_k2), (sha1_f2, sha1_k2),
     (sha1_f2, sha1_k2), (sha1_f2, sha1_k2), (sha1_f2, sha1_k2), (sha1_f2, sha1_k2), (sha1_f2, sha1_k2),
     (sha1_f3, sha1_k3), (sha1_f3, sha1_k3), (sha1_f3, sha1_k3), (sha1_f3, sha1_k3), (sha1_f3, sha1_k3),
     (sha1_f3, sha1_k3), (sha1_f3, sha1_k3), (sha1_f3, sha1_k3), (sha1_f3, sha1_k3), (sha1_f3, sha1_k3),
     (sha1_f3, sha1_k3), (sha1_f3, sha1_k3), (sha1_f3, sha1_k3), (sha1_f3, sha1_k3), (sha1_f3, sha1_k3),
     (sha1_f3, sha1_k3), (sha1_f3, sha1_k3), (sha1_f3, sha1_k3), (sha1_f3, sha1_k3), (sha1_f3, sha1_k3),
     (sha1_f2, sha1_k4), (sha1_f2, sha1_k4), (sha1_f2, sha1_k4), (sha1_f2, sha1_k4), (sha1_f2, sha1_k4),
     (sha1_f2, sha1_k4), (sha1_f2, sha1_k4), (sha1_f2, sha1_k4), (sha1_f2, sha1_k4), (sha1_f2, sha1_k4),
     (sha1_f2, sha1_k4), (sha1_f2, sha1_k4), (sha1_f2, sha1_k4), (sha1_f2, sha1_k4), (sha1_f2, sha1_k4),
     (sha1_f2, sha1_k4), (sha1_f2, sha1_k4), (sha1_f2, sha1_k4), (sha1_f2, sha1_k4), (sha1_f2, sha1_k4)]"
  by (simp add: sha1_K_def sha1_fips_fun sha1_k1_def sha1_k2_def sha1_k3_def sha1_k4_def numeral_eq_Suc)

lemma sha1_Transform_window:
  "sha1_Transform (s0, s1, s2, s3, s4) chunk =
     (case window_rounds sha1_round sha1_next (s0, s1, s2, s3, s4)
        [ReadBE32 (drop 0 chunk), ReadBE32 (drop 4 chunk), ReadBE32 (drop 8 chunk), ReadBE32 (drop 12 chunk),
         ReadBE32 (drop 16 chunk), ReadBE32 (drop 20 chunk), ReadBE32 (drop 24 chunk), ReadBE32 (drop 28 chunk),
         ReadBE32 (drop 32 chunk), ReadBE32 (drop 36 chunk), ReadBE32 (drop 40 chunk), ReadBE32 (drop 44 chunk),
         ReadBE32 (drop 48 chunk), ReadBE32 (drop 52 chunk), ReadBE32 (drop 56 chunk), ReadBE32 (drop 60 chunk)] sha1_K of
      (a, b, c, d, e) \<Rightarrow> (s0 + a, s1 + b, s2 + c, s3 + d, s4 + e))"
  unfolding sha1_Transform_def sha1_K_eq prod.case
  apply (rule let_eqI case_prod_eqI)+
  apply (simp (no_asm_simp) only: window_step sha1_next_eq window_rounds.simps(1) sha1_round_eq prod.case)
  done

lemma sha1_Transform_compress: "sha1_Transform s chunk = sha1_compress s chunk"
proof -
  obtain s0 s1 s2 s3 s4 where s: "s = (s0, s1, s2, s3, s4)" using prod_cases5 by blast
  have w: "[ReadBE32 (drop 0 chunk), ReadBE32 (drop 4 chunk), ReadBE32 (drop 8 chunk), ReadBE32 (drop 12 chunk),
         ReadBE32 (drop 16 chunk), ReadBE32 (drop 20 chunk), ReadBE32 (drop 24 chunk), ReadBE32 (drop 28 chunk),
         ReadBE32 (drop 32 chunk), ReadBE32 (drop 36 chunk), ReadBE32 (drop 40 chunk), ReadBE32 (drop 44 chunk),
         ReadBE32 (drop 48 chunk), ReadBE32 (drop 52 chunk), ReadBE32 (drop 56 chunk), ReadBE32 (drop 60 chunk)] = sha1_words chunk"
    by (simp add: sha1_words_def upt_rec)
  have l: "length (sha1_words chunk) = 16" by (simp add: sha1_words_def)
  show ?thesis
    unfolding s sha1_Transform_window w window_rounds_fips[OF l] by (simp add: sha1_compress_def sha1_fips_fun)
qed

section \<open>The hasher\<close>

definition CSHA1_new :: "bytes \<Rightarrow> sha1_state hasher" where
  "CSHA1_new buf = hasher_new sha1_Initialize buf"

definition CSHA1_Write :: "sha1_state hasher \<Rightarrow> bytes \<Rightarrow> sha1_state hasher" where
  "CSHA1_Write = hasher_Write 64 sha1_Transform"

definition CSHA1_Reset :: "sha1_state hasher \<Rightarrow> sha1_state hasher" where
  "CSHA1_Reset = hasher_Reset sha1_Initialize"

definition CSHA1_Finalize :: "sha1_state hasher \<Rightarrow> bytes" where
  "CSHA1_Finalize h =
     (let sizedesc = WriteBE64 (push_bit 3 (hs_bytes h)) in
      sha1_output (hs_s (hasher_finish 64 sha1_Transform 119 sizedesc h)))"

interpretation sha1: block_hash 64 sha1_Transform
proof unfold_locales
  fix d :: bytes and s
  assume "64 \<le> length d"
  have "sha1_words (take 64 d) = sha1_words d" by (simp add: sha1_words_def drop_take Read_take)
  then show "sha1_Transform s (take 64 d) = sha1_Transform s d"
    by (simp add: sha1_Transform_compress sha1_compress_def)
qed simp_all

text \<open>From any hasher that has absorbed \<open>d\<close>, \<open>Finalize\<close> gives the hash of \<open>d\<close>.\<close>

lemma CSHA1_Finalize_absorbed:
  assumes "sha1.absorbed sha1_Initialize d h"
  shows "CSHA1_Finalize h = SHA1 d"
proof -
  have b: "hs_bytes h = of_nat (length d)" using assms by (simp add: sha1.absorbed_def)
  have T: "sha1_Transform = sha1_compress" by (simp add: fun_eq_iff sha1_Transform_compress)
  have "hs_s (hasher_finish 64 sha1_Transform 119 sd h) =
      foldl sha1_Transform sha1_Initialize (blocks 64 (d @ md_padding 64 119 (length d) @ sd))" for sd
    using sha1.finish_absorbed[OF assms, of 119 sd] by (simp add: sha1.absorbed_def)
  then show ?thesis
    by (simp add: CSHA1_Finalize_def SHA1_def b push_bit_3_of_nat T Let_def)
qed

lemma CSHA1_new_absorbed: "length buf = 64 \<Longrightarrow> sha1.absorbed sha1_Initialize [] (CSHA1_new buf)"
  unfolding CSHA1_new_def by (rule sha1.absorbed_new)

lemma CSHA1_Reset_absorbed: "sha1.absorbed sha1_Initialize d h \<Longrightarrow> sha1.absorbed sha1_Initialize [] (CSHA1_Reset h)"
  unfolding CSHA1_Reset_def by (rule sha1.absorbed_Reset)

lemma CSHA1_Write_absorbed:
  "sha1.absorbed sha1_Initialize d h \<Longrightarrow> sha1.absorbed sha1_Initialize (d @ x) (CSHA1_Write h x)"
  unfolding CSHA1_Write_def by (rule sha1.Write_absorbed)

lemma CSHA1_foldl_absorbed:
  "sha1.absorbed sha1_Initialize d h \<Longrightarrow> sha1.absorbed sha1_Initialize (d @ concat ds) (foldl CSHA1_Write h ds)"
  unfolding CSHA1_Write_def by (rule sha1.foldl_Write_absorbed)

lemma length_SHA1 [simp]: "length (SHA1 d) = 20"
  by (simp add: SHA1_def sha1_output_def split: prod.split)

end
