(* ===== verification/RIPEMD160.thy ===== *)
theory RIPEMD160
  imports Rounds
begin

text \<open>
  RIPEMD-160, \<open>src/src/crypto/ripemd160.cpp\<close>: the two interleaved lines of eighty
  steps call by call, and as reference the two lines run one after the other with shifted
  working variables, driven by the tables of word order, rotation amounts, Boolean functions
  and constants.
\<close>

type_synonym ripemd160_state = "u32 \<times> u32 \<times> u32 \<times> u32 \<times> u32"

definition ripemd160_f1 :: "u32 \<Rightarrow> u32 \<Rightarrow> u32 \<Rightarrow> u32" where "ripemd160_f1 x y z = x XOR y XOR z"
definition ripemd160_f2 :: "u32 \<Rightarrow> u32 \<Rightarrow> u32 \<Rightarrow> u32" where "ripemd160_f2 x y z = (x AND y) OR (NOT x AND z)"
definition ripemd160_f3 :: "u32 \<Rightarrow> u32 \<Rightarrow> u32 \<Rightarrow> u32" where "ripemd160_f3 x y z = (x OR NOT y) XOR z"
definition ripemd160_f4 :: "u32 \<Rightarrow> u32 \<Rightarrow> u32 \<Rightarrow> u32" where "ripemd160_f4 x y z = (x AND z) OR (y AND NOT z)"
definition ripemd160_f5 :: "u32 \<Rightarrow> u32 \<Rightarrow> u32 \<Rightarrow> u32" where "ripemd160_f5 x y z = x XOR (y OR NOT z)"

definition ripemd160_Initialize :: ripemd160_state where
  "ripemd160_Initialize = (0x67452301, 0xEFCDAB89, 0x98BADCFE, 0x10325476, 0xC3D2E1F0)"

definition ripemd160_rol :: "u32 \<Rightarrow> nat \<Rightarrow> u32" where
  "ripemd160_rol x i = push_bit i x OR drop_bit (32 - i) x"

text \<open>\<open>Round\<close> updates \<open>a\<close> and \<open>c\<close> through references; here it returns both.\<close>

definition ripemd160_Round :: "u32 \<Rightarrow> u32 \<Rightarrow> u32 \<Rightarrow> u32 \<Rightarrow> u32 \<Rightarrow> u32 \<Rightarrow> u32 \<Rightarrow> u32 \<Rightarrow> nat \<Rightarrow> u32 \<times> u32" where
  "ripemd160_Round a b c d e f x k r = (ripemd160_rol (a + f + x + k) r + e, ripemd160_rol c 10)"

definition ripemd160_R11 :: "u32 \<Rightarrow> u32 \<Rightarrow> u32 \<Rightarrow> u32 \<Rightarrow> u32 \<Rightarrow> u32 \<Rightarrow> nat \<Rightarrow> u32 \<times> u32" where
  "ripemd160_R11 a b c d e x r = ripemd160_Round a b c d e (ripemd160_f1 b c d) x 0 r"
definition ripemd160_R21 :: "u32 \<Rightarrow> u32 \<Rightarrow> u32 \<Rightarrow> u32 \<Rightarrow> u32 \<Rightarrow> u32 \<Rightarrow> nat \<Rightarrow> u32 \<times> u32" where
  "ripemd160_R21 a b c d e x r = ripemd160_Round a b c d e (ripemd160_f2 b c d) x 0x5A827999 r"
definition ripemd160_R31 :: "u32 \<Rightarrow> u32 \<Rightarrow> u32 \<Rightarrow> u32 \<Rightarrow> u32 \<Rightarrow> u32 \<Rightarrow> nat \<Rightarrow> u32 \<times> u32" where
  "ripemd160_R31 a b c d e x r = ripemd160_Round a b c d e (ripemd160_f3 b c d) x 0x6ED9EBA1 r"
definition ripemd160_R41 :: "u32 \<Rightarrow> u32 \<Rightarrow> u32 \<Rightarrow> u32 \<Rightarrow> u32 \<Rightarrow> u32 \<Rightarrow> nat \<Rightarrow> u32 \<times> u32" where
  "ripemd160_R41 a b c d e x r = ripemd160_Round a b c d e (ripemd160_f4 b c d) x 0x8F1BBCDC r"
definition ripemd160_R51 :: "u32 \<Rightarrow> u32 \<Rightarrow> u32 \<Rightarrow> u32 \<Rightarrow> u32 \<Rightarrow> u32 \<Rightarrow> nat \<Rightarrow> u32 \<times> u32" where
  "ripemd160_R51 a b c d e x r = ripemd160_Round a b c d e (ripemd160_f5 b c d) x 0xA953FD4E r"
definition ripemd160_R12 :: "u32 \<Rightarrow> u32 \<Rightarrow> u32 \<Rightarrow> u32 \<Rightarrow> u32 \<Rightarrow> u32 \<Rightarrow> nat \<Rightarrow> u32 \<times> u32" where
  "ripemd160_R12 a b c d e x r = ripemd160_Round a b c d e (ripemd160_f5 b c d) x 0x50A28BE6 r"
definition ripemd160_R22 :: "u32 \<Rightarrow> u32 \<Rightarrow> u32 \<Rightarrow> u32 \<Rightarrow> u32 \<Rightarrow> u32 \<Rightarrow> nat \<Rightarrow> u32 \<times> u32" where
  "ripemd160_R22 a b c d e x r = ripemd160_Round a b c d e (ripemd160_f4 b c d) x 0x5C4DD124 r"
definition ripemd160_R32 :: "u32 \<Rightarrow> u32 \<Rightarrow> u32 \<Rightarrow> u32 \<Rightarrow> u32 \<Rightarrow> u32 \<Rightarrow> nat \<Rightarrow> u32 \<times> u32" where
  "ripemd160_R32 a b c d e x r = ripemd160_Round a b c d e (ripemd160_f3 b c d) x 0x6D703EF3 r"
definition ripemd160_R42 :: "u32 \<Rightarrow> u32 \<Rightarrow> u32 \<Rightarrow> u32 \<Rightarrow> u32 \<Rightarrow> u32 \<Rightarrow> nat \<Rightarrow> u32 \<times> u32" where
  "ripemd160_R42 a b c d e x r = ripemd160_Round a b c d e (ripemd160_f2 b c d) x 0x7A6D76E9 r"
definition ripemd160_R52 :: "u32 \<Rightarrow> u32 \<Rightarrow> u32 \<Rightarrow> u32 \<Rightarrow> u32 \<Rightarrow> u32 \<Rightarrow> nat \<Rightarrow> u32 \<times> u32" where
  "ripemd160_R52 a b c d e x r = ripemd160_Round a b c d e (ripemd160_f1 b c d) x 0 r"

definition ripemd160_Transform :: "ripemd160_state \<Rightarrow> bytes \<Rightarrow> ripemd160_state" where
  "ripemd160_Transform s chunk =
     (case s of (s0, s1, s2, s3, s4) \<Rightarrow>
      let a1 = s0; b1 = s1; c1 = s2; d1 = s3; e1 = s4;
          a2 = a1; b2 = b1; c2 = c1; d2 = d1; e2 = e1;
          w0 = ReadLE32 (drop 0 chunk);
          w1 = ReadLE32 (drop 4 chunk);
          w2 = ReadLE32 (drop 8 chunk);
          w3 = ReadLE32 (drop 12 chunk);
          w4 = ReadLE32 (drop 16 chunk);
          w5 = ReadLE32 (drop 20 chunk);
          w6 = ReadLE32 (drop 24 chunk);
          w7 = ReadLE32 (drop 28 chunk);
          w8 = ReadLE32 (drop 32 chunk);
          w9 = ReadLE32 (drop 36 chunk);
          w10 = ReadLE32 (drop 40 chunk);
          w11 = ReadLE32 (drop 44 chunk);
          w12 = ReadLE32 (drop 48 chunk);
          w13 = ReadLE32 (drop 52 chunk);
          w14 = ReadLE32 (drop 56 chunk);
          w15 = ReadLE32 (drop 60 chunk);
          (a1, c1) = ripemd160_R11 a1 b1 c1 d1 e1 w0 11;
          (a2, c2) = ripemd160_R12 a2 b2 c2 d2 e2 w5 8;
          (e1, b1) = ripemd160_R11 e1 a1 b1 c1 d1 w1 14;
          (e2, b2) = ripemd160_R12 e2 a2 b2 c2 d2 w14 9;
          (d1, a1) = ripemd160_R11 d1 e1 a1 b1 c1 w2 15;
          (d2, a2) = ripemd160_R12 d2 e2 a2 b2 c2 w7 9;
          (c1, e1) = ripemd160_R11 c1 d1 e1 a1 b1 w3 12;
          (c2, e2) = ripemd160_R12 c2 d2 e2 a2 b2 w0 11;
          (b1, d1) = ripemd160_R11 b1 c1 d1 e1 a1 w4 5;
          (b2, d2) = ripemd160_R12 b2 c2 d2 e2 a2 w9 13;
          (a1, c1) = ripemd160_R11 a1 b1 c1 d1 e1 w5 8;
          (a2, c2) = ripemd160_R12 a2 b2 c2 d2 e2 w2 15;
          (e1, b1) = ripemd160_R11 e1 a1 b1 c1 d1 w6 7;
          (e2, b2) = ripemd160_R12 e2 a2 b2 c2 d2 w11 15;
          (d1, a1) = ripemd160_R11 d1 e1 a1 b1 c1 w7 9;
          (d2, a2) = ripemd160_R12 d2 e2 a2 b2 c2 w4 5;
          (c1, e1) = ripemd160_R11 c1 d1 e1 a1 b1 w8 11;
          (c2, e2) = ripemd160_R12 c2 d2 e2 a2 b2 w13 7;
          (b1, d1) = ripemd160_R11 b1 c1 d1 e1 a1 w9 13;
          (b2, d2) = ripemd160_R12 b2 c2 d2 e2 a2 w6 7;
          (a1, c1) = ripemd160_R11 a1 b1 c1 d1 e1 w10 14;
          (a2, c2) = ripemd160_R12 a2 b2 c2 d2 e2 w15 8;
          (e1, b1) = ripemd160_R11 e1 a1 b1 c1 d1 w11 15;
          (e2, b2) = ripemd160_R12 e2 a2 b2 c2 d2 w8 11;
          (d1, a1) = ripemd160_R11 d1 e1 a1 b1 c1 w12 6;
          (d2, a2) = ripemd160_R12 d2 e2 a2 b2 c2 w1 14;
          (c1, e1) = ripemd160_R11 c1 d1 e1 a1 b1 w13 7;
          (c2, e2) = ripemd160_R12 c2 d2 e2 a2 b2 w10 14;
          (b1, d1) = ripemd160_R11 b1 c1 d1 e1 a1 w14 9;
          (b2, d2) = ripemd160_R12 b2 c2 d2 e2 a2 w3 12;
          (a1, c1) = ripemd160_R11 a1 b1 c1 d1 e1 w15 8;
          (a2, c2) = ripemd160_R12 a2 b2 c2 d2 e2 w12 6;
          (e1, b1) = ripemd160_R21 e1 a1 b1 c1 d1 w7 7;
          (e2, b2) = ripemd160_R22 e2 a2 b2 c2 d2 w6 9;
          (d1, a1) = ripemd160_R21 d1 e1 a1 b1 c1 w4 6;
          (d2, a2) = ripemd160_R22 d2 e2 a2 b2 c2 w11 13;
          (c1, e1) = ripemd160_R21 c1 d1 e1 a1 b1 w13 8;
          (c2, e2) = ripemd160_R22 c2 d2 e2 a2 b2 w3 15;
          (b1, d1) = ripemd160_R21 b1 c1 d1 e1 a1 w1 13;
          (b2, d2) = ripemd160_R22 b2 c2 d2 e2 a2 w7 7;
          (a1, c1) = ripemd160_R21 a1 b1 c1 d1 e1 w10 11;
          (a2, c2) = ripemd160_R22 a2 b2 c2 d2 e2 w0 12;
          (e1, b1) = ripemd160_R21 e1 a1 b1 c1 d1 w6 9;
          (e2, b2) = ripemd160_R22 e2 a2 b2 c2 d2 w13 8;
          (d1, a1) = ripemd160_R21 d1 e1 a1 b1 c1 w15 7;
          (d2, a2) = ripemd160_R22 d2 e2 a2 b2 c2 w5 9;
          (c1, e1) = ripemd160_R21 c1 d1 e1 a1 b1 w3 15;
          (c2, e2) = ripemd160_R22 c2 d2 e2 a2 b2 w10 11;
          (b1, d1) = ripemd160_R21 b1 c1 d1 e1 a1 w12 7;
          (b2, d2) = ripemd160_R22 b2 c2 d2 e2 a2 w14 7;
          (a1, c1) = ripemd160_R21 a1 b1 c1 d1 e1 w0 12;
          (a2, c2) = ripemd160_R22 a2 b2 c2 d2 e2 w15 7;
          (e1, b1) = ripemd160_R21 e1 a1 b1 c1 d1 w9 15;
          (e2, b2) = ripemd160_R22 e2 a2 b2 c2 d2 w8 12;
          (d1, a1) = ripemd160_R21 d1 e1 a1 b1 c1 w5 9;
          (d2, a2) = ripemd160_R22 d2 e2 a2 b2 c2 w12 7;
          (c1, e1) = ripemd160_R21 c1 d1 e1 a1 b1 w2 11;
          (c2, e2) = ripemd160_R22 c2 d2 e2 a2 b2 w4 6;
          (b1, d1) = ripemd160_R21 b1 c1 d1 e1 a1 w14 7;
          (b2, d2) = ripemd160_R22 b2 c2 d2 e2 a2 w9 15;
          (a1, c1) = ripemd160_R21 a1 b1 c1 d1 e1 w11 13;
          (a2, c2) = ripemd160_R22 a2 b2 c2 d2 e2 w1 13;
          (e1, b1) = ripemd160_R21 e1 a1 b1 c1 d1 w8 12;
          (e2, b2) = ripemd160_R22 e2 a2 b2 c2 d2 w2 11;
          (d1, a1) = ripemd160_R31 d1 e1 a1 b1 c1 w3 11;
          (d2, a2) = ripemd160_R32 d2 e2 a2 b2 c2 w15 9;
          (c1, e1) = ripemd160_R31 c1 d1 e1 a1 b1 w10 13;
          (c2, e2) = ripemd160_R32 c2 d2 e2 a2 b2 w5 7;
          (b1, d1) = ripemd160_R31 b1 c1 d1 e1 a1 w14 6;
          (b2, d2) = ripemd160_R32 b2 c2 d2 e2 a2 w1 15;
          (a1, c1) = ripemd160_R31 a1 b1 c1 d1 e1 w4 7;
          (a2, c2) = ripemd160_R32 a2 b2 c2 d2 e2 w3 11;
          (e1, b1) = ripemd160_R31 e1 a1 b1 c1 d1 w9 14;
          (e2, b2) = ripemd160_R32 e2 a2 b2 c2 d2 w7 8;
          (d1, a1) = ripemd160_R31 d1 e1 a1 b1 c1 w15 9;
          (d2, a2) = ripemd160_R32 d2 e2 a2 b2 c2 w14 6;
          (c1, e1) = ripemd160_R31 c1 d1 e1 a1 b1 w8 13;
          (c2, e2) = ripemd160_R32 c2 d2 e2 a2 b2 w6 6;
          (b1, d1) = ripemd160_R31 b1 c1 d1 e1 a1 w1 15;
          (b2, d2) = ripemd160_R32 b2 c2 d2 e2 a2 w9 14;
          (a1, c1) = ripemd160_R31 a1 b1 c1 d1 e1 w2 14;
          (a2, c2) = ripemd160_R32 a2 b2 c2 d2 e2 w11 12;
          (e1, b1) = ripemd160_R31 e1 a1 b1 c1 d1 w7 8;
          (e2, b2) = ripemd160_R32 e2 a2 b2 c2 d2 w8 13;
          (d1, a1) = ripemd160_R31 d1 e1 a1 b1 c1 w0 13;
          (d2, a2) = ripemd160_R32 d2 e2 a2 b2 c2 w12 5;
          (c1, e1) = ripemd160_R31 c1 d1 e1 a1 b1 w6 6;
          (c2, e2) = ripemd160_R32 c2 d2 e2 a2 b2 w2 14;
          (b1, d1) = ripemd160_R31 b1 c1 d1 e1 a1 w13 5;
          (b2, d2) = ripemd160_R32 b2 c2 d2 e2 a2 w10 13;
          (a1, c1) = ripemd160_R31 a1 b1 c1 d1 e1 w11 12;
          (a2, c2) = ripemd160_R32 a2 b2 c2 d2 e2 w0 13;
          (e1, b1) = ripemd160_R31 e1 a1 b1 c1 d1 w5 7;
          (e2, b2) = ripemd160_R32 e2 a2 b2 c2 d2 w4 7;
          (d1, a1) = ripemd160_R31 d1 e1 a1 b1 c1 w12 5;
          (d2, a2) = ripemd160_R32 d2 e2 a2 b2 c2 w13 5;
          (c1, e1) = ripemd160_R41 c1 d1 e1 a1 b1 w1 11;
          (c2, e2) = ripemd160_R42 c2 d2 e2 a2 b2 w8 15;
          (b1, d1) = ripemd160_R41 b1 c1 d1 e1 a1 w9 12;
          (b2, d2) = ripemd160_R42 b2 c2 d2 e2 a2 w6 5;
          (a1, c1) = ripemd160_R41 a1 b1 c1 d1 e1 w11 14;
          (a2, c2) = ripemd160_R42 a2 b2 c2 d2 e2 w4 8;
          (e1, b1) = ripemd160_R41 e1 a1 b1 c1 d1 w10 15;
          (e2, b2) = ripemd160_R42 e2 a2 b2 c2 d2 w1 11;
          (d1, a1) = ripemd160_R41 d1 e1 a1 b1 c1 w0 14;
          (d2, a2) = ripemd160_R42 d2 e2 a2 b2 c2 w3 14;
          (c1, e1) = ripemd160_R41 c1 d1 e1 a1 b1 w8 15;
          (c2, e2) = ripemd160_R42 c2 d2 e2 a2 b2 w11 14;
          (b1, d1) = ripemd160_R41 b1 c1 d1 e1 a1 w12 9;
          (b2, d2) = ripemd160_R42 b2 c2 d2 e2 a2 w15 6;
          (a1, c1) = ripemd160_R41 a1 b1 c1 d1 e1 w4 8;
          (a2, c2) = ripemd160_R42 a2 b2 c2 d2 e2 w0 14;
          (e1, b1) = ripemd160_R41 e1 a1 b1 c1 d1 w13 9;
          (e2, b2) = ripemd160_R42 e2 a2 b2 c2 d2 w5 6;
          (d1, a1) = ripemd160_R41 d1 e1 a1 b1 c1 w3 14;
          (d2, a2) = ripemd160_R42 d2 e2 a2 b2 c2 w12 9;
          (c1, e1) = ripemd160_R41 c1 d1 e1 a1 b1 w7 5;
          (c2, e2) = ripemd160_R42 c2 d2 e2 a2 b2 w2 12;
          (b1, d1) = ripemd160_R41 b1 c1 d1 e1 a1 w15 6;
          (b2, d2) = ripemd160_R42 b2 c2 d2 e2 a2 w13 9;
          (a1, c1) = ripemd160_R41 a1 b1 c1 d1 e1 w14 8;
          (a2, c2) = ripemd160_R42 a2 b2 c2 d2 e2 w9 12;
          (e1, b1) = ripemd160_R41 e1 a1 b1 c1 d1 w5 6;
          (e2, b2) = ripemd160_R42 e2 a2 b2 c2 d2 w7 5;
          (d1, a1) = ripemd160_R41 d1 e1 a1 b1 c1 w6 5;
          (d2, a2) = ripemd160_R42 d2 e2 a2 b2 c2 w10 15;
          (c1, e1) = ripemd160_R41 c1 d1 e1 a1 b1 w2 12;
          (c2, e2) = ripemd160_R42 c2 d2 e2 a2 b2 w14 8;
          (b1, d1) = ripemd160_R51 b1 c1 d1 e1 a1 w4 9;
          (b2, d2) = ripemd160_R52 b2 c2 d2 e2 a2 w12 8;
          (a1, c1) = ripemd160_R51 a1 b1 c1 d1 e1 w0 15;
          (a2, c2) = ripemd160_R52 a2 b2 c2 d2 e2 w15 5;
          (e1, b1) = ripemd160_R51 e1 a1 b1 c1 d1 w5 5;
          (e2, b2) = ripemd160_R52 e2 a2 b2 c2 d2 w10 12;
          (d1, a1) = ripemd160_R51 d1 e1 a1 b1 c1 w9 11;
          (d2, a2) = ripemd160_R52 d2 e2 a2 b2 c2 w4 9;
          (c1, e1) = ripemd160_R51 c1 d1 e1 a1 b1 w7 6;
          (c2, e2) = ripemd160_R52 c2 d2 e2 a2 b2 w1 12;
          (b1, d1) = ripemd160_R51 b1 c1 d1 e1 a1 w12 8;
          (b2, d2) = ripemd160_R52 b2 c2 d2 e2 a2 w5 5;
          (a1, c1) = ripemd160_R51 a1 b1 c1 d1 e1 w2 13;
          (a2, c2) = ripemd160_R52 a2 b2 c2 d2 e2 w8 14;
          (e1, b1) = ripemd160_R51 e1 a1 b1 c1 d1 w10 12;
          (e2, b2) = ripemd160_R52 e2 a2 b2 c2 d2 w7 6;
          (d1, a1) = ripemd160_R51 d1 e1 a1 b1 c1 w14 5;
          (d2, a2) = ripemd160_R52 d2 e2 a2 b2 c2 w6 8;
          (c1, e1) = ripemd160_R51 c1 d1 e1 a1 b1 w1 12;
          (c2, e2) = ripemd160_R52 c2 d2 e2 a2 b2 w2 13;
          (b1, d1) = ripemd160_R51 b1 c1 d1 e1 a1 w3 13;
          (b2, d2) = ripemd160_R52 b2 c2 d2 e2 a2 w13 6;
          (a1, c1) = ripemd160_R51 a1 b1 c1 d1 e1 w8 14;
          (a2, c2) = ripemd160_R52 a2 b2 c2 d2 e2 w14 5;
          (e1, b1) = ripemd160_R51 e1 a1 b1 c1 d1 w11 11;
          (e2, b2) = ripemd160_R52 e2 a2 b2 c2 d2 w0 15;
          (d1, a1) = ripemd160_R51 d1 e1 a1 b1 c1 w6 8;
          (d2, a2) = ripemd160_R52 d2 e2 a2 b2 c2 w3 13;
          (c1, e1) = ripemd160_R51 c1 d1 e1 a1 b1 w15 5;
          (c2, e2) = ripemd160_R52 c2 d2 e2 a2 b2 w9 11;
          (b1, d1) = ripemd160_R51 b1 c1 d1 e1 a1 w13 6;
          (b2, d2) = ripemd160_R52 b2 c2 d2 e2 a2 w11 11
      in (s1 + c1 + d2, s2 + d1 + e2, s3 + e1 + a2, s4 + a1 + b2, s0 + b1 + c2))"

section \<open>The reference\<close>

type_synonym ripemd160_param = "(u32 \<Rightarrow> u32 \<Rightarrow> u32 \<Rightarrow> u32) \<times> u32 \<times> nat \<times> nat"

definition ripemd160_step :: "u32 list \<Rightarrow> ripemd160_state \<Rightarrow> ripemd160_param \<Rightarrow> ripemd160_state" where
  "ripemd160_step X st p =
     (case st of (A, B, C, D, E) \<Rightarrow> case p of (f, K, r, s) \<Rightarrow>
      let T = word_rotl s (A + f B C D + X ! r + K) + E in (E, T, B, word_rotl 10 C, D))"

definition ripemd160_r1 :: "nat list" where
  "ripemd160_r1 =
    [0, 1, 2, 3, 4, 5, 6, 7, 8, 9, 10, 11, 12, 13, 14, 15,
     7, 4, 13, 1, 10, 6, 15, 3, 12, 0, 9, 5, 2, 14, 11, 8,
     3, 10, 14, 4, 9, 15, 8, 1, 2, 7, 0, 6, 13, 11, 5, 12,
     1, 9, 11, 10, 0, 8, 12, 4, 13, 3, 7, 15, 14, 5, 6, 2,
     4, 0, 5, 9, 7, 12, 2, 10, 14, 1, 3, 8, 11, 6, 15, 13]"

definition ripemd160_r2 :: "nat list" where
  "ripemd160_r2 =
    [5, 14, 7, 0, 9, 2, 11, 4, 13, 6, 15, 8, 1, 10, 3, 12,
     6, 11, 3, 7, 0, 13, 5, 10, 14, 15, 8, 12, 4, 9, 1, 2,
     15, 5, 1, 3, 7, 14, 6, 9, 11, 8, 12, 2, 10, 0, 4, 13,
     8, 6, 4, 1, 3, 11, 15, 0, 5, 12, 2, 13, 9, 7, 10, 14,
     12, 15, 10, 4, 1, 5, 8, 7, 6, 2, 13, 14, 0, 3, 9, 11]"

definition ripemd160_s1 :: "nat list" where
  "ripemd160_s1 =
    [11, 14, 15, 12, 5, 8, 7, 9, 11, 13, 14, 15, 6, 7, 9, 8,
     7, 6, 8, 13, 11, 9, 7, 15, 7, 12, 15, 9, 11, 7, 13, 12,
     11, 13, 6, 7, 14, 9, 13, 15, 14, 8, 13, 6, 5, 12, 7, 5,
     11, 12, 14, 15, 14, 15, 9, 8, 9, 14, 5, 6, 8, 6, 5, 12,
     9, 15, 5, 11, 6, 8, 13, 12, 5, 12, 13, 14, 11, 8, 5, 6]"

definition ripemd160_s2 :: "nat list" where
  "ripemd160_s2 =
    [8, 9, 9, 11, 13, 15, 15, 5, 7, 7, 8, 11, 14, 14, 12, 6,
     9, 13, 15, 7, 12, 8, 9, 11, 7, 7, 12, 7, 6, 15, 13, 11,
     9, 7, 15, 11, 8, 6, 6, 14, 12, 13, 5, 14, 13, 13, 7, 5,
     15, 5, 8, 11, 14, 14, 6, 14, 6, 9, 12, 9, 12, 5, 15, 8,
     8, 5, 12, 9, 12, 5, 14, 6, 8, 13, 6, 5, 15, 13, 11, 11]"

definition ripemd160_fk1 :: "((u32 \<Rightarrow> u32 \<Rightarrow> u32 \<Rightarrow> u32) \<times> u32) list" where
  "ripemd160_fk1 =
     replicate 16 (ripemd160_f1, 0) @
     replicate 16 (ripemd160_f2, 0x5A827999) @
     replicate 16 (ripemd160_f3, 0x6ED9EBA1) @
     replicate 16 (ripemd160_f4, 0x8F1BBCDC) @
     replicate 16 (ripemd160_f5, 0xA953FD4E)"

definition ripemd160_fk2 :: "((u32 \<Rightarrow> u32 \<Rightarrow> u32 \<Rightarrow> u32) \<times> u32) list" where
  "ripemd160_fk2 =
     replicate 16 (ripemd160_f5, 0x50A28BE6) @
     replicate 16 (ripemd160_f4, 0x5C4DD124) @
     replicate 16 (ripemd160_f3, 0x6D703EF3) @
     replicate 16 (ripemd160_f2, 0x7A6D76E9) @
     replicate 16 (ripemd160_f1, 0)"

definition ripemd160_line1 :: "ripemd160_param list" where
  "ripemd160_line1 = map (\<lambda>((f, k), r, s). (f, k, r, s)) (zip ripemd160_fk1 (zip ripemd160_r1 ripemd160_s1))"

definition ripemd160_line2 :: "ripemd160_param list" where
  "ripemd160_line2 = map (\<lambda>((f, k), r, s). (f, k, r, s)) (zip ripemd160_fk2 (zip ripemd160_r2 ripemd160_s2))"

definition ripemd160_words :: "bytes \<Rightarrow> u32 list" where
  "ripemd160_words b = map (\<lambda>i. ReadLE32 (drop (4 * i) b)) [0..<16]"

definition ripemd160_compress :: "ripemd160_state \<Rightarrow> bytes \<Rightarrow> ripemd160_state" where
  "ripemd160_compress H b =
     (case H of (h0, h1, h2, h3, h4) \<Rightarrow>
      case foldl (ripemd160_step (ripemd160_words b)) H ripemd160_line1 of (A, B, C, D, E) \<Rightarrow>
      case foldl (ripemd160_step (ripemd160_words b)) H ripemd160_line2 of (A', B', C', D', E') \<Rightarrow>
        (h1 + C + D', h2 + D + E', h3 + E + A', h4 + A + B', h0 + B + C'))"

definition ripemd160_output :: "ripemd160_state \<Rightarrow> bytes" where
  "ripemd160_output st =
     (case st of (s0, s1, s2, s3, s4) \<Rightarrow>
      WriteLE32 s0 @ WriteLE32 s1 @ WriteLE32 s2 @ WriteLE32 s3 @ WriteLE32 s4)"

definition RIPEMD160 :: "bytes \<Rightarrow> bytes" where
  "RIPEMD160 d = ripemd160_output (foldl ripemd160_compress ripemd160_Initialize
     (blocks 64 (d @ md_padding 64 119 (length d) @ WriteLE64 (of_nat (8 * length d)))))"

text \<open>One step in terms of the source's \<open>Round\<close>, for any of its ten instances.\<close>

lemma ripemd160_rol_rotl: "0 < i \<Longrightarrow> i < 32 \<Longrightarrow> ripemd160_rol x i = word_rotl i x"
  unfolding ripemd160_rol_def by (rule rotl_shifts) simp_all

lemma ripemd160_step_R11:
  "0 < r \<Longrightarrow> r < 32 \<Longrightarrow> ripemd160_step X (a, b, c, d, e) (ripemd160_f1, 0, j, r) =
     (case ripemd160_R11 a b c d e (X ! j) r of (a', c') \<Rightarrow> (e, a', b, c', d))"
  by (simp add: ripemd160_step_def ripemd160_R11_def ripemd160_Round_def ripemd160_rol_rotl Let_def)

lemma ripemd160_step_R21:
  "0 < r \<Longrightarrow> r < 32 \<Longrightarrow> ripemd160_step X (a, b, c, d, e) (ripemd160_f2, 0x5A827999, j, r) =
     (case ripemd160_R21 a b c d e (X ! j) r of (a', c') \<Rightarrow> (e, a', b, c', d))"
  by (simp add: ripemd160_step_def ripemd160_R21_def ripemd160_Round_def ripemd160_rol_rotl Let_def)

lemma ripemd160_step_R31:
  "0 < r \<Longrightarrow> r < 32 \<Longrightarrow> ripemd160_step X (a, b, c, d, e) (ripemd160_f3, 0x6ED9EBA1, j, r) =
     (case ripemd160_R31 a b c d e (X ! j) r of (a', c') \<Rightarrow> (e, a', b, c', d))"
  by (simp add: ripemd160_step_def ripemd160_R31_def ripemd160_Round_def ripemd160_rol_rotl Let_def)

lemma ripemd160_step_R41:
  "0 < r \<Longrightarrow> r < 32 \<Longrightarrow> ripemd160_step X (a, b, c, d, e) (ripemd160_f4, 0x8F1BBCDC, j, r) =
     (case ripemd160_R41 a b c d e (X ! j) r of (a', c') \<Rightarrow> (e, a', b, c', d))"
  by (simp add: ripemd160_step_def ripemd160_R41_def ripemd160_Round_def ripemd160_rol_rotl Let_def)

lemma ripemd160_step_R51:
  "0 < r \<Longrightarrow> r < 32 \<Longrightarrow> ripemd160_step X (a, b, c, d, e) (ripemd160_f5, 0xA953FD4E, j, r) =
     (case ripemd160_R51 a b c d e (X ! j) r of (a', c') \<Rightarrow> (e, a', b, c', d))"
  by (simp add: ripemd160_step_def ripemd160_R51_def ripemd160_Round_def ripemd160_rol_rotl Let_def)

lemma ripemd160_step_R12:
  "0 < r \<Longrightarrow> r < 32 \<Longrightarrow> ripemd160_step X (a, b, c, d, e) (ripemd160_f5, 0x50A28BE6, j, r) =
     (case ripemd160_R12 a b c d e (X ! j) r of (a', c') \<Rightarrow> (e, a', b, c', d))"
  by (simp add: ripemd160_step_def ripemd160_R12_def ripemd160_Round_def ripemd160_rol_rotl Let_def)

lemma ripemd160_step_R22:
  "0 < r \<Longrightarrow> r < 32 \<Longrightarrow> ripemd160_step X (a, b, c, d, e) (ripemd160_f4, 0x5C4DD124, j, r) =
     (case ripemd160_R22 a b c d e (X ! j) r of (a', c') \<Rightarrow> (e, a', b, c', d))"
  by (simp add: ripemd160_step_def ripemd160_R22_def ripemd160_Round_def ripemd160_rol_rotl Let_def)

lemma ripemd160_step_R32:
  "0 < r \<Longrightarrow> r < 32 \<Longrightarrow> ripemd160_step X (a, b, c, d, e) (ripemd160_f3, 0x6D703EF3, j, r) =
     (case ripemd160_R32 a b c d e (X ! j) r of (a', c') \<Rightarrow> (e, a', b, c', d))"
  by (simp add: ripemd160_step_def ripemd160_R32_def ripemd160_Round_def ripemd160_rol_rotl Let_def)

lemma ripemd160_step_R42:
  "0 < r \<Longrightarrow> r < 32 \<Longrightarrow> ripemd160_step X (a, b, c, d, e) (ripemd160_f2, 0x7A6D76E9, j, r) =
     (case ripemd160_R42 a b c d e (X ! j) r of (a', c') \<Rightarrow> (e, a', b, c', d))"
  by (simp add: ripemd160_step_def ripemd160_R42_def ripemd160_Round_def ripemd160_rol_rotl Let_def)

lemma ripemd160_R52_R11: "ripemd160_R52 = ripemd160_R11"
  by (simp add: fun_eq_iff ripemd160_R52_def ripemd160_R11_def)

lemma ripemd160_line1_eq:
  "ripemd160_line1 =
    [(ripemd160_f1, 0, 0, 11), (ripemd160_f1, 0, 1, 14), (ripemd160_f1, 0, 2, 15), (ripemd160_f1, 0, 3, 12),
     (ripemd160_f1, 0, 4, 5), (ripemd160_f1, 0, 5, 8), (ripemd160_f1, 0, 6, 7), (ripemd160_f1, 0, 7, 9),
     (ripemd160_f1, 0, 8, 11), (ripemd160_f1, 0, 9, 13), (ripemd160_f1, 0, 10, 14), (ripemd160_f1, 0, 11, 15),
     (ripemd160_f1, 0, 12, 6), (ripemd160_f1, 0, 13, 7), (ripemd160_f1, 0, 14, 9), (ripemd160_f1, 0, 15, 8),
     (ripemd160_f2, 0x5A827999, 7, 7), (ripemd160_f2, 0x5A827999, 4, 6), (ripemd160_f2, 0x5A827999, 13, 8), (ripemd160_f2, 0x5A827999, 1, 13),
     (ripemd160_f2, 0x5A827999, 10, 11), (ripemd160_f2, 0x5A827999, 6, 9), (ripemd160_f2, 0x5A827999, 15, 7), (ripemd160_f2, 0x5A827999, 3, 15),
     (ripemd160_f2, 0x5A827999, 12, 7), (ripemd160_f2, 0x5A827999, 0, 12), (ripemd160_f2, 0x5A827999, 9, 15), (ripemd160_f2, 0x5A827999, 5, 9),
     (ripemd160_f2, 0x5A827999, 2, 11), (ripemd160_f2, 0x5A827999, 14, 7), (ripemd160_f2, 0x5A827999, 11, 13), (ripemd160_f2, 0x5A827999, 8, 12),
     (ripemd160_f3, 0x6ED9EBA1, 3, 11), (ripemd160_f3, 0x6ED9EBA1, 10, 13), (ripemd160_f3, 0x6ED9EBA1, 14, 6), (ripemd160_f3, 0x6ED9EBA1, 4, 7),
     (ripemd160_f3, 0x6ED9EBA1, 9, 14), (ripemd160_f3, 0x6ED9EBA1, 15, 9), (ripemd160_f3, 0x6ED9EBA1, 8, 13), (ripemd160_f3, 0x6ED9EBA1, 1, 15),
     (ripemd160_f3, 0x6ED9EBA1, 2, 14), (ripemd160_f3, 0x6ED9EBA1, 7, 8), (ripemd160_f3, 0x6ED9EBA1, 0, 13), (ripemd160_f3, 0x6ED9EBA1, 6, 6),
     (ripemd160_f3, 0x6ED9EBA1, 13, 5), (ripemd160_f3, 0x6ED9EBA1, 11, 12), (ripemd160_f3, 0x6ED9EBA1, 5, 7), (ripemd160_f3, 0x6ED9EBA1, 12, 5),
     (ripemd160_f4, 0x8F1BBCDC, 1, 11), (ripemd160_f4, 0x8F1BBCDC, 9, 12), (ripemd160_f4, 0x8F1BBCDC, 11, 14), (ripemd160_f4, 0x8F1BBCDC, 10, 15),
     (ripemd160_f4, 0x8F1BBCDC, 0, 14), (ripemd160_f4, 0x8F1BBCDC, 8, 15), (ripemd160_f4, 0x8F1BBCDC, 12, 9), (ripemd160_f4, 0x8F1BBCDC, 4, 8),
     (ripemd160_f4, 0x8F1BBCDC, 13, 9), (ripemd160_f4, 0x8F1BBCDC, 3, 14), (ripemd160_f4, 0x8F1BBCDC, 7, 5), (ripemd160_f4, 0x8F1BBCDC, 15, 6),
     (ripemd160_f4, 0x8F1BBCDC, 14, 8), (ripemd160_f4, 0x8F1BBCDC, 5, 6), (ripemd160_f4, 0x8F1BBCDC, 6, 5), (ripemd160_f4, 0x8F1BBCDC, 2, 12),
     (ripemd160_f5, 0xA953FD4E, 4, 9), (ripemd160_f5, 0xA953FD4E, 0, 15), (ripemd160_f5, 0xA953FD4E, 5, 5), (ripemd160_f5, 0xA953FD4E, 9, 11),
     (ripemd160_f5, 0xA953FD4E, 7, 6), (ripemd160_f5, 0xA953FD4E, 12, 8), (ripemd160_f5, 0xA953FD4E, 2, 13), (ripemd160_f5, 0xA953FD4E, 10, 12),
     (ripemd160_f5, 0xA953FD4E, 14, 5), (ripemd160_f5, 0xA953FD4E, 1, 12), (ripemd160_f5, 0xA953FD4E, 3, 13), (ripemd160_f5, 0xA953FD4E, 8, 14),
     (ripemd160_f5, 0xA953FD4E, 11, 11), (ripemd160_f5, 0xA953FD4E, 6, 8), (ripemd160_f5, 0xA953FD4E, 15, 5), (ripemd160_f5, 0xA953FD4E, 13, 6)]"
  by (simp add: ripemd160_line1_def ripemd160_fk1_def ripemd160_r1_def ripemd160_s1_def numeral_eq_Suc)

lemma ripemd160_line2_eq:
  "ripemd160_line2 =
    [(ripemd160_f5, 0x50A28BE6, 5, 8), (ripemd160_f5, 0x50A28BE6, 14, 9), (ripemd160_f5, 0x50A28BE6, 7, 9), (ripemd160_f5, 0x50A28BE6, 0, 11),
     (ripemd160_f5, 0x50A28BE6, 9, 13), (ripemd160_f5, 0x50A28BE6, 2, 15), (ripemd160_f5, 0x50A28BE6, 11, 15), (ripemd160_f5, 0x50A28BE6, 4, 5),
     (ripemd160_f5, 0x50A28BE6, 13, 7), (ripemd160_f5, 0x50A28BE6, 6, 7), (ripemd160_f5, 0x50A28BE6, 15, 8), (ripemd160_f5, 0x50A28BE6, 8, 11),
     (ripemd160_f5, 0x50A28BE6, 1, 14), (ripemd160_f5, 0x50A28BE6, 10, 14), (ripemd160_f5, 0x50A28BE6, 3, 12), (ripemd160_f5, 0x50A28BE6, 12, 6),
     (ripemd160_f4, 0x5C4DD124, 6, 9), (ripemd160_f4, 0x5C4DD124, 11, 13), (ripemd160_f4, 0x5C4DD124, 3, 15), (ripemd160_f4, 0x5C4DD124, 7, 7),
     (ripemd160_f4, 0x5C4DD124, 0, 12), (ripemd160_f4, 0x5C4DD124, 13, 8), (ripemd160_f4, 0x5C4DD124, 5, 9), (ripemd160_f4, 0x5C4DD124, 10, 11),
     (ripemd160_f4, 0x5C4DD124, 14, 7), (ripemd160_f4, 0x5C4DD124, 15, 7), (ripemd160_f4, 0x5C4DD124, 8, 12), (ripemd160_f4, 0x5C4DD124, 12, 7),
     (ripemd160_f4, 0x5C4DD124, 4, 6), (ripemd160_f4, 0x5C4DD124, 9, 15), (ripemd160_f4, 0x5C4DD124, 1, 13), (ripemd160_f4, 0x5C4DD124, 2, 11),
     (ripemd160_f3, 0x6D703EF3, 15, 9), (ripemd160_f3, 0x6D703EF3, 5, 7), (ripemd160_f3, 0x6D703EF3, 1, 15), (ripemd160_f3, 0x6D703EF3, 3, 11),
     (ripemd160_f3, 0x6D703EF3, 7, 8), (ripemd160_f3, 0x6D703EF3, 14, 6), (ripemd160_f3, 0x6D703EF3, 6, 6), (ripemd160_f3, 0x6D703EF3, 9, 14),
     (ripemd160_f3, 0x6D703EF3, 11, 12), (ripemd160_f3, 0x6D703EF3, 8, 13), (ripemd160_f3, 0x6D703EF3, 12, 5), (ripemd160_f3, 0x6D703EF3, 2, 14),
     (ripemd160_f3, 0x6D703EF3, 10, 13), (ripemd160_f3, 0x6D703EF3, 0, 13), (ripemd160_f3, 0x6D703EF3, 4, 7), (ripemd160_f3, 0x6D703EF3, 13, 5),
     (ripemd160_f2, 0x7A6D76E9, 8, 15), (ripemd160_f2, 0x7A6D76E9, 6, 5), (ripemd160_f2, 0x7A6D76E9, 4, 8), (ripemd160_f2, 0x7A6D76E9, 1, 11),
     (ripemd160_f2, 0x7A6D76E9, 3, 14), (ripemd160_f2, 0x7A6D76E9, 11, 14), (ripemd160_f2, 0x7A6D76E9, 15, 6), (ripemd160_f2, 0x7A6D76E9, 0, 14),
     (ripemd160_f2, 0x7A6D76E9, 5, 6), (ripemd160_f2, 0x7A6D76E9, 12, 9), (ripemd160_f2, 0x7A6D76E9, 2, 12), (ripemd160_f2, 0x7A6D76E9, 13, 9),
     (ripemd160_f2, 0x7A6D76E9, 9, 12), (ripemd160_f2, 0x7A6D76E9, 7, 5), (ripemd160_f2, 0x7A6D76E9, 10, 15), (ripemd160_f2, 0x7A6D76E9, 14, 8),
     (ripemd160_f1, 0, 12, 8), (ripemd160_f1, 0, 15, 5), (ripemd160_f1, 0, 10, 12), (ripemd160_f1, 0, 4, 9),
     (ripemd160_f1, 0, 1, 12), (ripemd160_f1, 0, 5, 5), (ripemd160_f1, 0, 8, 14), (ripemd160_f1, 0, 7, 6),
     (ripemd160_f1, 0, 6, 8), (ripemd160_f1, 0, 2, 13), (ripemd160_f1, 0, 13, 6), (ripemd160_f1, 0, 14, 5),
     (ripemd160_f1, 0, 0, 15), (ripemd160_f1, 0, 3, 13), (ripemd160_f1, 0, 9, 11), (ripemd160_f1, 0, 11, 11)]"
  by (simp add: ripemd160_line2_def ripemd160_fk2_def ripemd160_r2_def ripemd160_s2_def numeral_eq_Suc)

lemma ripemd160_nth:
  fixes w0 :: u32
  shows "[w0, w1, w2, w3, w4, w5, w6, w7, w8, w9, w10, w11, w12, w13, w14, w15] ! 0 = w0" "[w0, w1, w2, w3, w4, w5, w6, w7, w8, w9, w10, w11, w12, w13, w14, w15] ! 1 = w1" "[w0, w1, w2, w3, w4, w5, w6, w7, w8, w9, w10, w11, w12, w13, w14, w15] ! 2 = w2" "[w0, w1, w2, w3, w4, w5, w6, w7, w8, w9, w10, w11, w12, w13, w14, w15] ! 3 = w3" "[w0, w1, w2, w3, w4, w5, w6, w7, w8, w9, w10, w11, w12, w13, w14, w15] ! 4 = w4" "[w0, w1, w2, w3, w4, w5, w6, w7, w8, w9, w10, w11, w12, w13, w14, w15] ! 5 = w5" "[w0, w1, w2, w3, w4, w5, w6, w7, w8, w9, w10, w11, w12, w13, w14, w15] ! 6 = w6" "[w0, w1, w2, w3, w4, w5, w6, w7, w8, w9, w10, w11, w12, w13, w14, w15] ! 7 = w7" "[w0, w1, w2, w3, w4, w5, w6, w7, w8, w9, w10, w11, w12, w13, w14, w15] ! 8 = w8" "[w0, w1, w2, w3, w4, w5, w6, w7, w8, w9, w10, w11, w12, w13, w14, w15] ! 9 = w9" "[w0, w1, w2, w3, w4, w5, w6, w7, w8, w9, w10, w11, w12, w13, w14, w15] ! 10 = w10" "[w0, w1, w2, w3, w4, w5, w6, w7, w8, w9, w10, w11, w12, w13, w14, w15] ! 11 = w11" "[w0, w1, w2, w3, w4, w5, w6, w7, w8, w9, w10, w11, w12, w13, w14, w15] ! 12 = w12" "[w0, w1, w2, w3, w4, w5, w6, w7, w8, w9, w10, w11, w12, w13, w14, w15] ! 13 = w13" "[w0, w1, w2, w3, w4, w5, w6, w7, w8, w9, w10, w11, w12, w13, w14, w15] ! 14 = w14" "[w0, w1, w2, w3, w4, w5, w6, w7, w8, w9, w10, w11, w12, w13, w14, w15] ! 15 = w15"
  by simp_all

lemma ripemd160_Transform_lines:
  "ripemd160_Transform (s0, s1, s2, s3, s4) chunk =
     (case foldl (ripemd160_step [ReadLE32 (drop 0 chunk), ReadLE32 (drop 4 chunk), ReadLE32 (drop 8 chunk), ReadLE32 (drop 12 chunk),
         ReadLE32 (drop 16 chunk), ReadLE32 (drop 20 chunk), ReadLE32 (drop 24 chunk), ReadLE32 (drop 28 chunk),
         ReadLE32 (drop 32 chunk), ReadLE32 (drop 36 chunk), ReadLE32 (drop 40 chunk), ReadLE32 (drop 44 chunk),
         ReadLE32 (drop 48 chunk), ReadLE32 (drop 52 chunk), ReadLE32 (drop 56 chunk), ReadLE32 (drop 60 chunk)]) (s0, s1, s2, s3, s4) ripemd160_line1 of (A, B, C, D, E) \<Rightarrow>
      case foldl (ripemd160_step [ReadLE32 (drop 0 chunk), ReadLE32 (drop 4 chunk), ReadLE32 (drop 8 chunk), ReadLE32 (drop 12 chunk),
         ReadLE32 (drop 16 chunk), ReadLE32 (drop 20 chunk), ReadLE32 (drop 24 chunk), ReadLE32 (drop 28 chunk),
         ReadLE32 (drop 32 chunk), ReadLE32 (drop 36 chunk), ReadLE32 (drop 40 chunk), ReadLE32 (drop 44 chunk),
         ReadLE32 (drop 48 chunk), ReadLE32 (drop 52 chunk), ReadLE32 (drop 56 chunk), ReadLE32 (drop 60 chunk)]) (s0, s1, s2, s3, s4) ripemd160_line2 of (A', B', C', D', E') \<Rightarrow>
        (s1 + C + D', s2 + D + E', s3 + E + A', s4 + A + B', s0 + B + C'))"
  unfolding ripemd160_Transform_def ripemd160_R52_R11 ripemd160_line1_eq ripemd160_line2_eq prod.case
  apply (rule let_valueI case_prod_eqI)+
  apply (simp (no_asm_simp) only: foldl.simps ripemd160_step_R11 ripemd160_step_R21 ripemd160_step_R31 ripemd160_step_R41
      ripemd160_step_R51 ripemd160_step_R12 ripemd160_step_R22 ripemd160_step_R32 ripemd160_step_R42
      ripemd160_nth prod.case zero_less_numeral rel_simps num.simps)
  done

lemma ripemd160_Transform_compress: "ripemd160_Transform s chunk = ripemd160_compress s chunk"
proof -
  obtain s0 s1 s2 s3 s4 where s: "s = (s0, s1, s2, s3, s4)" using prod_cases5 by blast
  have w: "[ReadLE32 (drop 0 chunk), ReadLE32 (drop 4 chunk), ReadLE32 (drop 8 chunk), ReadLE32 (drop 12 chunk),
         ReadLE32 (drop 16 chunk), ReadLE32 (drop 20 chunk), ReadLE32 (drop 24 chunk), ReadLE32 (drop 28 chunk),
         ReadLE32 (drop 32 chunk), ReadLE32 (drop 36 chunk), ReadLE32 (drop 40 chunk), ReadLE32 (drop 44 chunk),
         ReadLE32 (drop 48 chunk), ReadLE32 (drop 52 chunk), ReadLE32 (drop 56 chunk), ReadLE32 (drop 60 chunk)] = ripemd160_words chunk"
    by (simp add: ripemd160_words_def upt_rec)
  show ?thesis unfolding s ripemd160_Transform_lines w by (simp add: ripemd160_compress_def)
qed

section \<open>The hasher\<close>

definition CRIPEMD160_new :: "bytes \<Rightarrow> ripemd160_state hasher" where
  "CRIPEMD160_new buf = hasher_new ripemd160_Initialize buf"

definition CRIPEMD160_Write :: "ripemd160_state hasher \<Rightarrow> bytes \<Rightarrow> ripemd160_state hasher" where
  "CRIPEMD160_Write = hasher_Write 64 ripemd160_Transform"

definition CRIPEMD160_Reset :: "ripemd160_state hasher \<Rightarrow> ripemd160_state hasher" where
  "CRIPEMD160_Reset = hasher_Reset ripemd160_Initialize"

definition CRIPEMD160_Finalize :: "ripemd160_state hasher \<Rightarrow> bytes" where
  "CRIPEMD160_Finalize h =
     (let sizedesc = WriteLE64 (push_bit 3 (hs_bytes h)) in
      ripemd160_output (hs_s (hasher_finish 64 ripemd160_Transform 119 sizedesc h)))"

interpretation ripemd160: block_hash 64 ripemd160_Transform
proof unfold_locales
  fix d :: bytes and s
  assume "64 \<le> length d"
  have "ripemd160_words (take 64 d) = ripemd160_words d" by (simp add: ripemd160_words_def drop_take Read_take)
  then show "ripemd160_Transform s (take 64 d) = ripemd160_Transform s d"
    by (simp add: ripemd160_Transform_compress ripemd160_compress_def)
qed simp_all

text \<open>From any hasher that has absorbed \<open>d\<close>, \<open>Finalize\<close> gives the hash of \<open>d\<close>.\<close>

lemma CRIPEMD160_Finalize_absorbed:
  assumes "ripemd160.absorbed ripemd160_Initialize d h"
  shows "CRIPEMD160_Finalize h = RIPEMD160 d"
proof -
  have b: "hs_bytes h = of_nat (length d)" using assms by (simp add: ripemd160.absorbed_def)
  have T: "ripemd160_Transform = ripemd160_compress" by (simp add: fun_eq_iff ripemd160_Transform_compress)
  have "hs_s (hasher_finish 64 ripemd160_Transform 119 sd h) =
      foldl ripemd160_Transform ripemd160_Initialize (blocks 64 (d @ md_padding 64 119 (length d) @ sd))" for sd
    using ripemd160.finish_absorbed[OF assms, of 119 sd] by (simp add: ripemd160.absorbed_def)
  then show ?thesis
    by (simp add: CRIPEMD160_Finalize_def RIPEMD160_def b push_bit_3_of_nat T Let_def)
qed

lemma CRIPEMD160_new_absorbed: "length buf = 64 \<Longrightarrow> ripemd160.absorbed ripemd160_Initialize [] (CRIPEMD160_new buf)"
  unfolding CRIPEMD160_new_def by (rule ripemd160.absorbed_new)

lemma CRIPEMD160_Reset_absorbed: "ripemd160.absorbed ripemd160_Initialize d h \<Longrightarrow> ripemd160.absorbed ripemd160_Initialize [] (CRIPEMD160_Reset h)"
  unfolding CRIPEMD160_Reset_def by (rule ripemd160.absorbed_Reset)

lemma CRIPEMD160_Write_absorbed:
  "ripemd160.absorbed ripemd160_Initialize d h \<Longrightarrow> ripemd160.absorbed ripemd160_Initialize (d @ x) (CRIPEMD160_Write h x)"
  unfolding CRIPEMD160_Write_def by (rule ripemd160.Write_absorbed)

lemma CRIPEMD160_foldl_absorbed:
  "ripemd160.absorbed ripemd160_Initialize d h \<Longrightarrow> ripemd160.absorbed ripemd160_Initialize (d @ concat ds) (foldl CRIPEMD160_Write h ds)"
  unfolding CRIPEMD160_Write_def by (rule ripemd160.foldl_Write_absorbed)

lemma length_RIPEMD160 [simp]: "length (RIPEMD160 d) = 20"
  by (simp add: RIPEMD160_def ripemd160_output_def split: prod.split)

end
