(* ===== verification/Hash.thy ===== *)
theory Hash
  imports SHA2 SHA1 RIPEMD160
begin

text \<open>
  Hash functions built from the block hashers: HMAC (\<open>src/src/crypto/hmac_sha256.cpp\<close>,
  \<open>hmac_sha512.cpp\<close>), the deterministic generator of RFC 6979
  (\<open>rfc6979_hmac_sha256.cpp\<close>), and \<open>src/src/hash.h\<close>, \<open>hash.cpp\<close>: the double
  and composed hashes, the hashing stream, MurmurHash3, BIP32Hash, SipHash and the Quark chain.
  Every hasher object is created over the same uninitialised memory \<open>mem\<close>; the results
  are shown not to depend on it.
\<close>

section \<open>HMAC\<close>

record CHMAC_SHA256 =
  outer256 :: "sha256_state hasher"
  inner256 :: "sha256_state hasher"

definition CHMAC_SHA256_new :: "bytes \<Rightarrow> bytes \<Rightarrow> CHMAC_SHA256" where
  "CHMAC_SHA256_new mem key =
     (let rkey = (if length key \<le> 64 then key @ replicate (64 - length key) 0
                  else CSHA256_Finalize (CSHA256_Write (CSHA256_new mem) key) @ replicate 32 0);
          rkey = map (\<lambda>b. b XOR 0x5c) rkey;
          outer = CSHA256_Write (CSHA256_new mem) rkey;
          rkey = map (\<lambda>b. b XOR (0x5c XOR 0x36)) rkey;
          inner = CSHA256_Write (CSHA256_new mem) rkey
      in \<lparr>outer256 = outer, inner256 = inner\<rparr>)"

definition CHMAC_SHA256_Write :: "CHMAC_SHA256 \<Rightarrow> bytes \<Rightarrow> CHMAC_SHA256" where
  "CHMAC_SHA256_Write h data = h\<lparr>inner256 := CSHA256_Write (inner256 h) data\<rparr>"

definition CHMAC_SHA256_Finalize :: "CHMAC_SHA256 \<Rightarrow> bytes" where
  "CHMAC_SHA256_Finalize h =
     (let temp = CSHA256_Finalize (inner256 h) in CSHA256_Finalize (CSHA256_Write (outer256 h) temp))"

record CHMAC_SHA512 =
  outer512 :: "sha512_state hasher"
  inner512 :: "sha512_state hasher"

definition CHMAC_SHA512_new :: "bytes \<Rightarrow> bytes \<Rightarrow> CHMAC_SHA512" where
  "CHMAC_SHA512_new mem key =
     (let rkey = (if length key \<le> 128 then key @ replicate (128 - length key) 0
                  else CSHA512_Finalize (CSHA512_Write (CSHA512_new mem) key) @ replicate 64 0);
          rkey = map (\<lambda>b. b XOR 0x5c) rkey;
          outer = CSHA512_Write (CSHA512_new mem) rkey;
          rkey = map (\<lambda>b. b XOR (0x5c XOR 0x36)) rkey;
          inner = CSHA512_Write (CSHA512_new mem) rkey
      in \<lparr>outer512 = outer, inner512 = inner\<rparr>)"

definition CHMAC_SHA512_Write :: "CHMAC_SHA512 \<Rightarrow> bytes \<Rightarrow> CHMAC_SHA512" where
  "CHMAC_SHA512_Write h data = h\<lparr>inner512 := CSHA512_Write (inner512 h) data\<rparr>"

definition CHMAC_SHA512_Finalize :: "CHMAC_SHA512 \<Rightarrow> bytes" where
  "CHMAC_SHA512_Finalize h =
     (let temp = CSHA512_Finalize (inner512 h) in CSHA512_Finalize (CSHA512_Write (outer512 h) temp))"

section \<open>The RFC 6979 generator\<close>

record RFC6979_HMAC_SHA256 =
  rfc_V :: bytes
  rfc_K :: bytes
  rfc_retry :: bool

definition rfc6979_hmac :: "bytes \<Rightarrow> bytes \<Rightarrow> bytes list \<Rightarrow> bytes" where
  "rfc6979_hmac mem K parts = CHMAC_SHA256_Finalize (foldl CHMAC_SHA256_Write (CHMAC_SHA256_new mem K) parts)"

definition RFC6979_new :: "bytes \<Rightarrow> bytes \<Rightarrow> bytes \<Rightarrow> RFC6979_HMAC_SHA256" where
  "RFC6979_new mem key msg =
     (let V = replicate 32 0x01; K = replicate 32 0x00;
          K = rfc6979_hmac mem K [V, [0x00], key, msg];
          V = rfc6979_hmac mem K [V];
          K = rfc6979_hmac mem K [V, [0x01], key, msg];
          V = rfc6979_hmac mem K [V]
      in \<lparr>rfc_V = V, rfc_K = K, rfc_retry = False\<rparr>)"

function RFC6979_loop :: "bytes \<Rightarrow> bytes \<Rightarrow> bytes \<Rightarrow> nat \<Rightarrow> bytes \<Rightarrow> bytes \<times> bytes" where
  "RFC6979_loop mem K V outputlen output =
     (if 0 < outputlen then
        let V = rfc6979_hmac mem K [V]; len = min outputlen 32 in
        RFC6979_loop mem K V (outputlen - len) (output @ take len V)
      else (V, output))"
  by pat_completeness auto
termination
  by (relation "measure (\<lambda>(mem, K, V, n, out). n)") auto

declare RFC6979_loop.simps [simp del]

definition RFC6979_Generate :: "bytes \<Rightarrow> RFC6979_HMAC_SHA256 \<Rightarrow> nat \<Rightarrow> bytes \<times> RFC6979_HMAC_SHA256" where
  "RFC6979_Generate mem g outputlen =
     (let K = (if rfc_retry g then rfc6979_hmac mem (rfc_K g) [rfc_V g, [0x00]] else rfc_K g);
          V = (if rfc_retry g then rfc6979_hmac mem K [rfc_V g] else rfc_V g);
          (V', output) = RFC6979_loop mem K V outputlen []
      in (output, \<lparr>rfc_V = V', rfc_K = K, rfc_retry = True\<rparr>))"

section \<open>Composed hashes\<close>

text \<open>\<open>CHash256\<close>, \<open>CHash512\<close> and \<open>CHash160\<close> hold one SHA hasher; the object is reset and reused for the second pass.\<close>

definition CSHA256_finished :: "sha256_state hasher \<Rightarrow> sha256_state hasher" where
  "CSHA256_finished h = hasher_finish 64 sha256_Transform 119 (WriteBE64 (push_bit 3 (hs_bytes h))) h"

definition CSHA512_finished :: "sha512_state hasher \<Rightarrow> sha512_state hasher" where
  "CSHA512_finished h =
     hasher_finish 128 sha512_Transform 239 (replicate 8 0 @ WriteBE64 (push_bit 3 (hs_bytes h))) h"

definition CHash256_Finalize :: "sha256_state hasher \<Rightarrow> bytes" where
  "CHash256_Finalize sha =
     (let buf = CSHA256_Finalize sha in
      CSHA256_Finalize (CSHA256_Write (CSHA256_Reset (CSHA256_finished sha)) buf))"

definition CHash512_Finalize :: "sha512_state hasher \<Rightarrow> bytes" where
  "CHash512_Finalize sha =
     (let buf = CSHA512_Finalize sha in
      CSHA512_Finalize (CSHA512_Write (CSHA512_Reset (CSHA512_finished sha)) buf))"

definition CHash160_Finalize :: "bytes \<Rightarrow> sha256_state hasher \<Rightarrow> bytes" where
  "CHash160_Finalize mem sha =
     (let buf = CSHA256_Finalize sha in CRIPEMD160_Finalize (CRIPEMD160_Write (CRIPEMD160_new mem) buf))"

definition Hash :: "bytes \<Rightarrow> bytes list \<Rightarrow> u256" where
  "Hash mem ranges = le_word (CHash256_Finalize (foldl CSHA256_Write (CSHA256_new mem) ranges))"

definition Hash512 :: "bytes \<Rightarrow> bytes list \<Rightarrow> 512 word" where
  "Hash512 mem ranges = le_word (CHash512_Finalize (foldl CSHA512_Write (CSHA512_new mem) ranges))"

definition Hash160 :: "bytes \<Rightarrow> bytes \<Rightarrow> u160" where
  "Hash160 mem vch = le_word (CHash160_Finalize mem (CSHA256_Write (CSHA256_new mem) vch))"

text \<open>The stream that hashes what is serialized into it.\<close>

definition CHashWriter_write :: "sha256_state hasher \<Rightarrow> bytes \<Rightarrow> sha256_state hasher" where
  "CHashWriter_write ctx pch = CSHA256_Write ctx pch"

definition CHashWriter_GetHash :: "sha256_state hasher \<Rightarrow> u256" where
  "CHashWriter_GetHash ctx = le_word (CHash256_Finalize ctx)"

definition SerializeHash :: "bytes \<Rightarrow> ('a \<Rightarrow> bytes) \<Rightarrow> 'a \<Rightarrow> u256" where
  "SerializeHash mem ser obj = CHashWriter_GetHash (CHashWriter_write (CSHA256_new mem) (ser obj))"

definition BIP32Hash :: "bytes \<Rightarrow> u256 \<Rightarrow> u32 \<Rightarrow> byte \<Rightarrow> bytes \<Rightarrow> bytes" where
  "BIP32Hash mem chainCode nChild header data =
     (let num = [ucast (drop_bit 24 nChild AND 0xFF), ucast (drop_bit 16 nChild AND 0xFF),
                 ucast (drop_bit 8 nChild AND 0xFF), ucast (drop_bit 0 nChild AND 0xFF)]
      in CHMAC_SHA512_Finalize (CHMAC_SHA512_Write (CHMAC_SHA512_Write (CHMAC_SHA512_Write
           (CHMAC_SHA512_new mem (le_bytes 32 chainCode)) [header]) data) num))"

section \<open>MurmurHash3\<close>

definition ROTL32 :: "u32 \<Rightarrow> nat \<Rightarrow> u32" where
  "ROTL32 x r = push_bit r x OR drop_bit (32 - r) x"

fun MurmurHash3_body :: "nat \<Rightarrow> bytes \<Rightarrow> u32 \<Rightarrow> u32" where
  "MurmurHash3_body 0 blks h1 = h1"
| "MurmurHash3_body (Suc i) blks h1 =
     (let k1 = ReadLE32 blks;
          k1 = k1 * 0xcc9e2d51;
          k1 = ROTL32 k1 15;
          k1 = k1 * 0x1b873593;
          h1 = h1 XOR k1;
          h1 = ROTL32 h1 13;
          h1 = h1 * 5 + 0xe6546b64
      in MurmurHash3_body i (drop 4 blks) h1)"

definition MurmurHash3_tail :: "bytes \<Rightarrow> u32 \<Rightarrow> u32" where
  "MurmurHash3_tail tail h1 =
     (let mix = (\<lambda>k1. let k1 = k1 XOR ucast (tail ! 0); k1 = k1 * 0xcc9e2d51; k1 = ROTL32 k1 15;
                         k1 = k1 * 0x1b873593 in h1 XOR k1)
      in if length tail = 3 then mix ((0 XOR push_bit 16 (ucast (tail ! 2))) XOR push_bit 8 (ucast (tail ! 1)))
         else if length tail = 2 then mix (0 XOR push_bit 8 (ucast (tail ! 1)))
         else if length tail = 1 then mix 0
         else h1)"

definition MurmurHash3 :: "u32 \<Rightarrow> bytes \<Rightarrow> u32" where
  "MurmurHash3 nHashSeed vDataToHash =
     (let nblocks = length vDataToHash div 4;
          h1 = (if 0 < length vDataToHash
                then MurmurHash3_tail (drop (nblocks * 4) vDataToHash) (MurmurHash3_body nblocks vDataToHash nHashSeed)
                else nHashSeed);
          h1 = h1 XOR of_nat (length vDataToHash);
          h1 = h1 XOR drop_bit 16 h1;
          h1 = h1 * 0x85ebca6b;
          h1 = h1 XOR drop_bit 13 h1;
          h1 = h1 * 0xc2b2ae35;
          h1 = h1 XOR drop_bit 16 h1
      in h1)"

section \<open>SipHash\<close>

type_synonym sip_state = "u64 \<times> u64 \<times> u64 \<times> u64"

definition ROTL :: "u64 \<Rightarrow> nat \<Rightarrow> u64" where
  "ROTL x b = push_bit b x OR drop_bit (64 - b) x"

definition SIPROUND :: "sip_state \<Rightarrow> sip_state" where
  "SIPROUND v =
     (case v of (v0, v1, v2, v3) \<Rightarrow>
      let v0 = v0 + v1; v1 = ROTL v1 13; v1 = v1 XOR v0;
          v0 = ROTL v0 32;
          v2 = v2 + v3; v3 = ROTL v3 16; v3 = v3 XOR v2;
          v0 = v0 + v3; v3 = ROTL v3 21; v3 = v3 XOR v0;
          v2 = v2 + v1; v1 = ROTL v1 17; v1 = v1 XOR v2;
          v2 = ROTL v2 32
      in (v0, v1, v2, v3))"

record CSipHasher =
  sip_v :: sip_state
  sip_tmp :: u64
  sip_count :: int

definition CSipHasher_new :: "u64 \<Rightarrow> u64 \<Rightarrow> CSipHasher" where
  "CSipHasher_new k0 k1 =
     \<lparr>sip_v = (0x736f6d6570736575 XOR k0, 0x646f72616e646f6d XOR k1, 0x6c7967656e657261 XOR k0, 0x7465646279746573 XOR k1),
      sip_tmp = 0, sip_count = 0\<rparr>"

definition sip_absorb :: "sip_state \<Rightarrow> u64 \<Rightarrow> sip_state" where
  "sip_absorb v d =
     (case v of (v0, v1, v2, v3) \<Rightarrow>
      case SIPROUND (SIPROUND (v0, v1, v2, v3 XOR d)) of (v0, v1, v2, v3) \<Rightarrow> (v0 XOR d, v1, v2, v3))"

definition CSipHasher_Write64 :: "CSipHasher \<Rightarrow> u64 \<Rightarrow> CSipHasher option" where
  "CSipHasher_Write64 h data =
     (if sip_count h mod 8 = 0 then Some (h\<lparr>sip_v := sip_absorb (sip_v h) data, sip_count := sip_count h + 8\<rparr>) else None)"

fun CSipHasher_loop :: "bytes \<Rightarrow> sip_state \<Rightarrow> u64 \<Rightarrow> int \<Rightarrow> sip_state \<times> u64 \<times> int" where
  "CSipHasher_loop [] v t c = (v, t, c)"
| "CSipHasher_loop (b # data) v t c =
     (let t = t OR push_bit (8 * nat (c mod 8)) (ucast b); c = c + 1 in
      if c AND 7 = 0 then CSipHasher_loop data (sip_absorb v t) 0 c else CSipHasher_loop data v t c)"

definition CSipHasher_Write :: "CSipHasher \<Rightarrow> bytes \<Rightarrow> CSipHasher" where
  "CSipHasher_Write h data =
     (case CSipHasher_loop data (sip_v h) (sip_tmp h) (sip_count h) of
        (v, t, c) \<Rightarrow> \<lparr>sip_v = v, sip_tmp = t, sip_count = c\<rparr>)"

definition sip_final :: "sip_state \<Rightarrow> u64" where
  "sip_final v =
     (case v of (v0, v1, v2, v3) \<Rightarrow>
      case SIPROUND (SIPROUND (SIPROUND (SIPROUND (v0, v1, v2 XOR 0xFF, v3)))) of
        (v0, v1, v2, v3) \<Rightarrow> v0 XOR v1 XOR v2 XOR v3)"

definition CSipHasher_Finalize :: "CSipHasher \<Rightarrow> u64" where
  "CSipHasher_Finalize h =
     (let t = sip_tmp h OR push_bit 56 (word_of_int (sip_count h)) in sip_final (sip_absorb (sip_v h) t))"

definition GetUint64 :: "u256 \<Rightarrow> nat \<Rightarrow> u64" where
  "GetUint64 val pos = le_word (take 8 (drop (8 * pos) (le_bytes 32 val)))"

definition SipHashUint256 :: "u64 \<Rightarrow> u64 \<Rightarrow> u256 \<Rightarrow> u64" where
  "SipHashUint256 k0 k1 val =
     (let d = GetUint64 val 0;
          v0 = 0x736f6d6570736575 XOR k0;
          v1 = 0x646f72616e646f6d XOR k1;
          v2 = 0x6c7967656e657261 XOR k0;
          v3 = 0x7465646279746573 XOR k1 XOR d;
          (v0, v1, v2, v3) = SIPROUND (v0, v1, v2, v3);
          (v0, v1, v2, v3) = SIPROUND (v0, v1, v2, v3);
          v0 = v0 XOR d;
          d = GetUint64 val 1;
          v3 = v3 XOR d;
          (v0, v1, v2, v3) = SIPROUND (v0, v1, v2, v3);
          (v0, v1, v2, v3) = SIPROUND (v0, v1, v2, v3);
          v0 = v0 XOR d;
          d = GetUint64 val 2;
          v3 = v3 XOR d;
          (v0, v1, v2, v3) = SIPROUND (v0, v1, v2, v3);
          (v0, v1, v2, v3) = SIPROUND (v0, v1, v2, v3);
          v0 = v0 XOR d;
          d = GetUint64 val 3;
          v3 = v3 XOR d;
          (v0, v1, v2, v3) = SIPROUND (v0, v1, v2, v3);
          (v0, v1, v2, v3) = SIPROUND (v0, v1, v2, v3);
          v0 = v0 XOR d;
          v3 = v3 XOR push_bit 59 4;
          (v0, v1, v2, v3) = SIPROUND (v0, v1, v2, v3);
          (v0, v1, v2, v3) = SIPROUND (v0, v1, v2, v3);
          v0 = v0 XOR push_bit 59 4;
          v2 = v2 XOR 0xFF;
          (v0, v1, v2, v3) = SIPROUND (v0, v1, v2, v3);
          (v0, v1, v2, v3) = SIPROUND (v0, v1, v2, v3);
          (v0, v1, v2, v3) = SIPROUND (v0, v1, v2, v3);
          (v0, v1, v2, v3) = SIPROUND (v0, v1, v2, v3)
      in v0 XOR v1 XOR v2 XOR v3)"

definition SipHashUint256Extra :: "u64 \<Rightarrow> u64 \<Rightarrow> u256 \<Rightarrow> u32 \<Rightarrow> u64" where
  "SipHashUint256Extra k0 k1 val extra =
     (let d = GetUint64 val 0;
          v0 = 0x736f6d6570736575 XOR k0;
          v1 = 0x646f72616e646f6d XOR k1;
          v2 = 0x6c7967656e657261 XOR k0;
          v3 = 0x7465646279746573 XOR k1 XOR d;
          (v0, v1, v2, v3) = SIPROUND (v0, v1, v2, v3);
          (v0, v1, v2, v3) = SIPROUND (v0, v1, v2, v3);
          v0 = v0 XOR d;
          d = GetUint64 val 1;
          v3 = v3 XOR d;
          (v0, v1, v2, v3) = SIPROUND (v0, v1, v2, v3);
          (v0, v1, v2, v3) = SIPROUND (v0, v1, v2, v3);
          v0 = v0 XOR d;
          d = GetUint64 val 2;
          v3 = v3 XOR d;
          (v0, v1, v2, v3) = SIPROUND (v0, v1, v2, v3);
          (v0, v1, v2, v3) = SIPROUND (v0, v1, v2, v3);
          v0 = v0 XOR d;
          d = GetUint64 val 3;
          v3 = v3 XOR d;
          (v0, v1, v2, v3) = SIPROUND (v0, v1, v2, v3);
          (v0, v1, v2, v3) = SIPROUND (v0, v1, v2, v3);
          v0 = v0 XOR d;
          d = push_bit 56 36 OR ucast extra;
          v3 = v3 XOR d;
          (v0, v1, v2, v3) = SIPROUND (v0, v1, v2, v3);
          (v0, v1, v2, v3) = SIPROUND (v0, v1, v2, v3);
          v0 = v0 XOR d;
          v2 = v2 XOR 0xFF;
          (v0, v1, v2, v3) = SIPROUND (v0, v1, v2, v3);
          (v0, v1, v2, v3) = SIPROUND (v0, v1, v2, v3);
          (v0, v1, v2, v3) = SIPROUND (v0, v1, v2, v3);
          (v0, v1, v2, v3) = SIPROUND (v0, v1, v2, v3)
      in v0 XOR v1 XOR v2 XOR v3)"

section \<open>The Quark chain\<close>

text \<open>
  The six 512-bit hashes of the chain (\<open>sph_blake512\<close> and so on) are parameters; what is
  modelled is how \<open>HashQuark\<close> chooses among them.
\<close>

record quark_hashes =
  blake512 :: "bytes \<Rightarrow> 512 word"
  bmw512 :: "bytes \<Rightarrow> 512 word"
  groestl512 :: "bytes \<Rightarrow> 512 word"
  jh512 :: "bytes \<Rightarrow> 512 word"
  keccak512 :: "bytes \<Rightarrow> 512 word"
  skein512 :: "bytes \<Rightarrow> 512 word"

definition trim256 :: "512 word \<Rightarrow> u256" where
  "trim256 a = ucast a"

definition HashQuark :: "quark_hashes \<Rightarrow> bytes \<Rightarrow> u256" where
  "HashQuark q data =
     (let mask = 8; b = le_bytes 64;
          hash0 = blake512 q data;
          hash1 = bmw512 q (b hash0);
          hash2 = (if hash1 AND mask \<noteq> 0 then groestl512 q (b hash1) else skein512 q (b hash1));
          hash3 = groestl512 q (b hash2);
          hash4 = jh512 q (b hash3);
          hash5 = (if hash4 AND mask \<noteq> 0 then blake512 q (b hash4) else bmw512 q (b hash4));
          hash6 = keccak512 q (b hash5);
          hash7 = skein512 q (b hash6);
          hash8 = (if hash7 AND mask \<noteq> 0 then keccak512 q (b hash7) else jh512 q (b hash7))
      in trim256 hash8)"

section \<open>Streaming hashers\<close>

text \<open>What the clients of a hasher rely on: it remembers the bytes written so far, and finalizing hashes them.\<close>

locale stream_hash =
  fixes has :: "bytes \<Rightarrow> 'h \<Rightarrow> bool" and wr :: "'h \<Rightarrow> bytes \<Rightarrow> 'h" and fin :: "'h \<Rightarrow> bytes"
    and H :: "bytes \<Rightarrow> bytes"
  assumes write_law: "has d h \<Longrightarrow> has (d @ x) (wr h x)"
    and finalize_law: "has d h \<Longrightarrow> fin h = H d"
begin

lemma foldl_write_has: "has d h \<Longrightarrow> has (d @ concat ds) (foldl wr h ds)"
proof (induction ds arbitrary: d h)
  case (Cons x ds)
  from Cons.IH[OF write_law[OF Cons.prems, of x]] show ?case by simp
qed simp

lemma foldl_write: "has [] h \<Longrightarrow> fin (foldl wr h ds) = H (concat ds)"
  using finalize_law[OF foldl_write_has] by fastforce

lemma write_once: "has [] h \<Longrightarrow> fin (wr h d) = H d"
  using foldl_write[of h "[d]"] by simp

lemma nested:
  assumes "has [] h1" and "has [] h2"
  shows "fin (wr (wr h1 a) (fin (foldl wr (wr h2 b) ms))) = H (a @ H (b @ concat ms))"
  using foldl_write[OF assms(2), of "b # ms"] foldl_write[OF assms(1), of "[a, H (b @ concat ms)]"] by simp

end

interpretation sha256s: stream_hash "sha256.absorbed sha256_Initialize" CSHA256_Write CSHA256_Finalize SHA256
  by unfold_locales (auto intro: CSHA256_Write_absorbed CSHA256_Finalize_absorbed)

interpretation sha512s: stream_hash "sha512.absorbed sha512_Initialize" CSHA512_Write CSHA512_Finalize SHA512
  by unfold_locales (auto intro: CSHA512_Write_absorbed CSHA512_Finalize_absorbed)

interpretation sha1s: stream_hash "sha1.absorbed sha1_Initialize" CSHA1_Write CSHA1_Finalize SHA1
  by unfold_locales (auto intro: CSHA1_Write_absorbed CSHA1_Finalize_absorbed)

interpretation ripemd160s: stream_hash "ripemd160.absorbed ripemd160_Initialize" CRIPEMD160_Write CRIPEMD160_Finalize RIPEMD160
  by unfold_locales (auto intro: CRIPEMD160_Write_absorbed CRIPEMD160_Finalize_absorbed)

subsection \<open>HMAC\<close>

definition hmac :: "(bytes \<Rightarrow> bytes) \<Rightarrow> nat \<Rightarrow> bytes \<Rightarrow> bytes \<Rightarrow> bytes" where
  "hmac H B key text =
     (let k = (if B < length key then H key else key); k0 = k @ replicate (B - length k) 0
      in H (map (\<lambda>b. b XOR 0x5c) k0 @ H (map (\<lambda>b. b XOR 0x36) k0 @ text)))"

lemma CHMAC_SHA256_hmac:
  assumes "length mem = 64"
  shows "CHMAC_SHA256_Finalize (foldl CHMAC_SHA256_Write (CHMAC_SHA256_new mem key) ms) = hmac SHA256 64 key (concat ms)"
proof -
  note new = CSHA256_new_absorbed[OF assms]
  have fold: "outer256 (foldl CHMAC_SHA256_Write h ms) = outer256 h \<and>
      inner256 (foldl CHMAC_SHA256_Write h ms) = foldl CSHA256_Write (inner256 h) ms" for h ms
    by (induction ms arbitrary: h) (simp_all add: CHMAC_SHA256_Write_def)
  show ?thesis
    using sha256s.nested[OF new new] sha256s.write_once[OF new]
    by (auto simp: CHMAC_SHA256_Finalize_def fold CHMAC_SHA256_new_def hmac_def Let_def xor.assoc o_def simp flip: not_less)
qed

lemma CHMAC_SHA512_hmac:
  assumes "length mem = 128"
  shows "CHMAC_SHA512_Finalize (foldl CHMAC_SHA512_Write (CHMAC_SHA512_new mem key) ms) = hmac SHA512 128 key (concat ms)"
proof -
  note new = CSHA512_new_absorbed[OF assms]
  have fold: "outer512 (foldl CHMAC_SHA512_Write h ms) = outer512 h \<and>
      inner512 (foldl CHMAC_SHA512_Write h ms) = foldl CSHA512_Write (inner512 h) ms" for h ms
    by (induction ms arbitrary: h) (simp_all add: CHMAC_SHA512_Write_def)
  show ?thesis
    using sha512s.nested[OF new new] sha512s.write_once[OF new]
    by (auto simp: CHMAC_SHA512_Finalize_def fold CHMAC_SHA512_new_def hmac_def Let_def xor.assoc o_def simp flip: not_less)
qed

subsection \<open>Composed hashes\<close>

lemma CSHA256_finished_Reset:
  assumes "sha256.absorbed sha256_Initialize d h"
  shows "sha256.absorbed sha256_Initialize [] (CSHA256_Reset (CSHA256_finished h))"
  unfolding CSHA256_finished_def
  by (rule CSHA256_Reset_absorbed[OF sha256.finish_absorbed[OF assms]]) simp

lemma CSHA512_finished_Reset:
  assumes "sha512.absorbed sha512_Initialize d h"
  shows "sha512.absorbed sha512_Initialize [] (CSHA512_Reset (CSHA512_finished h))"
  unfolding CSHA512_finished_def
  by (rule CSHA512_Reset_absorbed[OF sha512.finish_absorbed[OF assms]]) simp

lemma CHash256_Finalize_absorbed:
  assumes "sha256.absorbed sha256_Initialize d h"
  shows "CHash256_Finalize h = SHA256 (SHA256 d)"
  using sha256s.write_once[OF CSHA256_finished_Reset[OF assms]] CSHA256_Finalize_absorbed[OF assms]
  by (simp add: CHash256_Finalize_def Let_def)

lemma Hash_SHA256: "length mem = 64 \<Longrightarrow> Hash mem ranges = le_word (SHA256 (SHA256 (concat ranges)))"
  using CHash256_Finalize_absorbed[OF CSHA256_foldl_absorbed[OF CSHA256_new_absorbed]] by (simp add: Hash_def)

lemma Hash512_SHA512: "length mem = 128 \<Longrightarrow> Hash512 mem ranges = le_word (SHA512 (SHA512 (concat ranges)))"
  using sha512s.write_once[OF CSHA512_finished_Reset[OF CSHA512_foldl_absorbed[OF CSHA512_new_absorbed]]]
    sha512s.foldl_write[OF CSHA512_new_absorbed]
  by (simp add: Hash512_def CHash512_Finalize_def Let_def)

lemma Hash160_RIPEMD160: "length mem = 64 \<Longrightarrow> Hash160 mem vch = le_word (RIPEMD160 (SHA256 vch))"
  using ripemd160s.write_once[OF CRIPEMD160_new_absorbed] sha256s.write_once[OF CSHA256_new_absorbed]
  by (simp add: Hash160_def CHash160_Finalize_def Let_def)

lemma SerializeHash_Hash: "length mem = 64 \<Longrightarrow> SerializeHash mem ser obj = Hash mem [ser obj]"
  by (simp add: SerializeHash_def CHashWriter_GetHash_def CHashWriter_write_def Hash_def)

lemma length_hmac: "(\<And>d. length (H d) = n) \<Longrightarrow> length (hmac H B key text) = n"
  by (simp add: hmac_def Let_def)

lemma rfc6979_hmac_eq: "length mem = 64 \<Longrightarrow> rfc6979_hmac mem K parts = hmac SHA256 64 K (concat parts)"
  by (simp add: rfc6979_hmac_def CHMAC_SHA256_hmac)

lemma RFC6979_loop_length:
  "length mem = 64 \<Longrightarrow> length (snd (RFC6979_loop mem K V n out)) = length out + n"
proof (induction mem K V n out rule: RFC6979_loop.induct)
  case (1 mem K V n out)
  have "length (rfc6979_hmac mem K [V]) = 32" using 1 by (simp add: rfc6979_hmac_eq length_hmac)
  with 1 show ?case by (subst RFC6979_loop.simps) (auto simp: Let_def)
qed

text \<open>Asking for fewer bytes gives a prefix of what asking for more gives.\<close>

lemma RFC6979_loop_prefix:
  "length mem = 64 \<Longrightarrow> n \<le> m \<Longrightarrow>
     take (length out + n) (snd (RFC6979_loop mem K V m out)) = snd (RFC6979_loop mem K V n out)"
proof (induction mem K V n out arbitrary: m rule: RFC6979_loop.induct)
  case (1 mem K V n out)
  let ?V = "rfc6979_hmac mem K [V]"
  have l: "length ?V = 32" using 1(2) by (simp add: rfc6979_hmac_eq length_hmac)
  have keep: "\<exists>zs. snd (RFC6979_loop mem K V' k o') = o' @ zs" for V' k o'
  proof (induction mem K V' k o' rule: RFC6979_loop.induct)
    case (1 mem K V' k o')
    then show ?case by (subst RFC6979_loop.simps) (auto simp: Let_def)
  qed
  show ?case
  proof (cases "32 < n")
    case True
    with 1(3) have "snd (RFC6979_loop mem K V m out) = snd (RFC6979_loop mem K ?V (m - 32) (out @ ?V))"
      "snd (RFC6979_loop mem K V n out) = snd (RFC6979_loop mem K ?V (n - 32) (out @ ?V))"
      using l by (simp_all add: RFC6979_loop.simps[of mem K V] Let_def)
    with 1(1)[OF _ refl refl, of "m - 32"] True 1(2,3) l show ?thesis by simp
  next
    case False
    show ?thesis
    proof (cases "n = 0")
      case True
      with keep[of V m out] show ?thesis by (auto simp: RFC6979_loop.simps[of mem K V 0])
    next
      case n: False
      have a: "snd (RFC6979_loop mem K V n out) = out @ take n ?V"
        using n False by (simp add: RFC6979_loop.simps[of mem K V n] RFC6979_loop.simps[of mem K ?V 0] Let_def)
      have "snd (RFC6979_loop mem K V m out) = snd (RFC6979_loop mem K ?V (m - min m 32) (out @ take (min m 32) ?V))"
        using n 1(3) by (simp add: RFC6979_loop.simps[of mem K V m] Let_def)
      with keep[of ?V "m - min m 32" "out @ take (min m 32) ?V"] obtain zs where
        "snd (RFC6979_loop mem K V m out) = out @ take (min m 32) ?V @ zs" by auto
      with a False 1(3) l show ?thesis by simp
    qed
  qed
qed

subsection \<open>SipHash\<close>

lemma CSipHasher_loop_append:
  "CSipHasher_loop (a @ b) v t c = (case CSipHasher_loop a v t c of (v, t, c) \<Rightarrow> CSipHasher_loop b v t c)"
  by (induction a v t c rule: CSipHasher_loop.induct) (simp_all add: Let_def)

lemma CSipHasher_Write_append: "CSipHasher_Write h (a @ b) = CSipHasher_Write (CSipHasher_Write h a) b"
  by (simp add: CSipHasher_Write_def CSipHasher_loop_append split: prod.split)

lemma sip_and_7: "c AND 7 = c mod 8" for c :: int
  using take_bit_eq_mask[of 3 c] by (simp add: take_bit_eq_mod mask_eq_exp_minus_1)

text \<open>Eight bytes written to an aligned hasher are absorbed as one little-endian word.\<close>

lemma CSipHasher_loop_word:
  assumes "length bs = 8" and "c mod 8 = 0"
  shows "CSipHasher_loop (bs @ data) v 0 c = CSipHasher_loop data (sip_absorb v (le_word bs)) 0 (c + 8)"
proof -
  obtain b0 b1 b2 b3 b4 b5 b6 b7 where bs: "bs = [b0, b1, b2, b3, b4, b5, b6, b7]"
    using assms(1) by (auto simp: numeral_eq_Suc length_Suc_conv)
  have m: "(c + 1) mod 8 = 1" "(c + 1 + 1) mod 8 = 2" "(c + 1 + 1 + 1) mod 8 = 3" "(c + 1 + 1 + 1 + 1) mod 8 = 4"
    "(c + 1 + 1 + 1 + 1 + 1) mod 8 = 5" "(c + 1 + 1 + 1 + 1 + 1 + 1) mod 8 = 6" "(c + 1 + 1 + 1 + 1 + 1 + 1 + 1) mod 8 = 7"
    "(c + 1 + 1 + 1 + 1 + 1 + 1 + 1 + 1) mod 8 = 0"
    using assms(2) by presburger+
  have c: "c + 1 + 1 + 1 + 1 + 1 + 1 + 1 + 1 = c + 8" by simp
  have w: "0 OR push_bit (8 * nat 0) (ucast b0) OR push_bit (8 * nat 1) (ucast b1) OR push_bit (8 * nat 2) (ucast b2) OR
      push_bit (8 * nat 3) (ucast b3) OR push_bit (8 * nat 4) (ucast b4) OR push_bit (8 * nat 5) (ucast b5) OR
      push_bit (8 * nat 6) (ucast b6) OR push_bit (8 * nat 7) (ucast b7) = (le_word bs :: u64)"
    by (simp add: bs push_bit_or push_bit_push_bit or.assoc)
  show ?thesis
    unfolding bs append.simps CSipHasher_loop.simps Let_def sip_and_7 m assms(2) if_False if_True or.assoc w[unfolded bs] c
    by (simp add: assms(2))
qed

lemma split_32:
  assumes "length (xs :: bytes) = 32"
  shows "take 8 (drop (8 * 0) xs) @ take 8 (drop (8 * 1) xs) @ take 8 (drop (8 * 2) xs) @ take 8 (drop (8 * 3) xs) = xs"
proof -
  have "take 8 (drop 24 xs) = drop 24 xs" using assms by simp
  moreover have "take 8 (drop 16 xs) @ drop 24 xs = drop 16 xs" using append_take_drop_id[of 8 "drop 16 xs"] by simp
  moreover have "take 8 (drop 8 xs) @ drop 16 xs = drop 8 xs" using append_take_drop_id[of 8 "drop 8 xs"] by simp
  ultimately show ?thesis by simp
qed

lemma CSipHasher_Write_uint256:
  "CSipHasher_Write (CSipHasher_new k0 k1) (le_bytes 32 val @ data) =
     (case CSipHasher_loop data (sip_absorb (sip_absorb (sip_absorb (sip_absorb (sip_v (CSipHasher_new k0 k1))
         (GetUint64 val 0)) (GetUint64 val 1)) (GetUint64 val 2)) (GetUint64 val 3)) 0 32 of
      (v, t, c) \<Rightarrow> \<lparr>sip_v = v, sip_tmp = t, sip_count = c\<rparr>)"
  unfolding CSipHasher_Write_def GetUint64_def
  by (subst split_32[of "le_bytes 32 val", symmetric])
    (simp_all add: CSipHasher_new_def CSipHasher_loop_word)

lemma SipHashUint256_absorb:
  "SipHashUint256 k0 k1 val = sip_final (sip_absorb (sip_absorb (sip_absorb (sip_absorb (sip_absorb (sip_v (CSipHasher_new k0 k1))
     (GetUint64 val 0)) (GetUint64 val 1)) (GetUint64 val 2)) (GetUint64 val 3)) (push_bit 59 4))"
  unfolding SipHashUint256_def
  apply (rule let_valueI case_prod_eqI)+
  apply (simp (no_asm_simp) only: sip_final_def sip_absorb_def CSipHasher_new_def CSipHasher.simps prod.case xor.assoc)
  done

lemma SipHashUint256Extra_absorb:
  "SipHashUint256Extra k0 k1 val extra = sip_final (sip_absorb (sip_absorb (sip_absorb (sip_absorb (sip_absorb (sip_v (CSipHasher_new k0 k1))
     (GetUint64 val 0)) (GetUint64 val 1)) (GetUint64 val 2)) (GetUint64 val 3)) (push_bit 56 36 OR ucast extra))"
  unfolding SipHashUint256Extra_def
  apply (rule let_valueI case_prod_eqI)+
  apply (simp (no_asm_simp) only: sip_final_def sip_absorb_def CSipHasher_new_def CSipHasher.simps prod.case xor.assoc)
  done

lemma CSipHasher_loop_extra:
  "CSipHasher_loop (le_bytes 4 (extra :: u32)) v 0 32 = (v, ucast extra, 36)"
proof -
  obtain b0 b1 b2 b3 where b: "le_bytes 4 extra = [b0, b1, b2, b3]"
    by (simp add: numeral_eq_Suc)
  have "le_word (le_bytes 4 extra) = extra" by (rule le_word_le_bytes_id) simp
  then have e: "extra = ucast b0 OR push_bit 8 (ucast b1) OR push_bit 16 (ucast b2) OR push_bit 24 (ucast b3)"
    by (simp add: b push_bit_or push_bit_push_bit or.assoc)
  have "ucast extra = (ucast b0 OR push_bit 8 (ucast b1) OR push_bit 16 (ucast b2) OR push_bit 24 (ucast b3) :: u64)"
    unfolding e by (rule bit_word_eqI) (auto simp: bit_simps dest: bit_imp_le_length)
  then show ?thesis by (simp add: b Let_def or.assoc)
qed

section \<open>Properties of the hash functions\<close>

text \<open>C30: The unrolled compression functions compute the published algorithms: for every state and block, the
  64 permuted SHA-256 rounds, the 80 SHA-512 rounds, the 80 SHA-1 rounds and the two interleaved
  lines of 80 RIPEMD-160 steps give what the standards define with shifted working variables
  and an indexed message schedule.\<close>

theorem transforms_match_standards:
  "sha256_Transform s256 b = sha256_compress s256 b \<and> sha512_Transform s512 b = sha512_compress s512 b \<and>
   sha1_Transform s1 b = sha1_compress s1 b \<and> ripemd160_Transform s160 b = ripemd160_compress s160 b"
  by (simp add: sha256_Transform_compress sha512_Transform_compress sha1_Transform_compress ripemd160_Transform_compress)

text \<open>C31: A hasher fed in any pieces returns the standard hash of their concatenation, whatever its
  uninitialised buffer held: the block buffering, the byte count and the padding of the four hasher
  classes lose nothing and add nothing.\<close>

theorem hashers_stream:
  assumes "length mem = 64" and "length mem2 = 128"
  shows "CSHA256_Finalize (foldl CSHA256_Write (CSHA256_new mem) ds) = SHA256 (concat ds) \<and>
    CSHA1_Finalize (foldl CSHA1_Write (CSHA1_new mem) ds) = SHA1 (concat ds) \<and>
    CRIPEMD160_Finalize (foldl CRIPEMD160_Write (CRIPEMD160_new mem) ds) = RIPEMD160 (concat ds) \<and>
    CSHA512_Finalize (foldl CSHA512_Write (CSHA512_new mem2) ds) = SHA512 (concat ds)"
  by (intro conjI sha256s.foldl_write sha1s.foldl_write ripemd160s.foldl_write sha512s.foldl_write
      CSHA256_new_absorbed CSHA1_new_absorbed CRIPEMD160_new_absorbed CSHA512_new_absorbed assms)

theorem hashers_stream_witness:
  "CSHA256_Finalize (foldl CSHA256_Write (CSHA256_new (replicate 64 7)) [[0x61], [], [0x62, 0x63]]) = SHA256 [0x61, 0x62, 0x63]"
  using hashers_stream[of "replicate 64 7" "replicate 128 7" "[[0x61], [], [0x62, 0x63]]"] by simp

text \<open>C32: The HMAC objects, written in any pieces, compute the construction of RFC 2104 over SHA-256 and SHA-512, keys
  longer than a block included; and the composed hashes of \<open>hash.h\<close> are double SHA-256, double
  SHA-512 and RIPEMD-160 of SHA-256 of the concatenated input.\<close>

theorem composed_hashes:
  assumes "length mem = 64" and "length mem2 = 128"
  shows "CHMAC_SHA256_Finalize (foldl CHMAC_SHA256_Write (CHMAC_SHA256_new mem key) ms) = hmac SHA256 64 key (concat ms) \<and>
    CHMAC_SHA512_Finalize (foldl CHMAC_SHA512_Write (CHMAC_SHA512_new mem2 key) ms) = hmac SHA512 128 key (concat ms) \<and>
    Hash mem ms = le_word (SHA256 (SHA256 (concat ms))) \<and> Hash512 mem2 ms = le_word (SHA512 (SHA512 (concat ms))) \<and>
    Hash160 mem key = le_word (RIPEMD160 (SHA256 key))"
  using assms by (simp add: CHMAC_SHA256_hmac CHMAC_SHA512_hmac Hash_SHA256 Hash512_SHA512 Hash160_RIPEMD160)

theorem composed_hashes_witness:
  "Hash (replicate 64 7) [[1], [2]] = le_word (SHA256 (SHA256 [1, 2]))"
  using composed_hashes[of "replicate 64 7" "replicate 128 7" "[]" "[[1], [2]]"] by simp

text \<open>The specialised SipHash routines for a 256-bit value, without and with a 32-bit suffix, return what the
  general hasher returns on the value's bytes, and the general hasher may be fed in any pieces.\<close>

theorem siphash_specialised:
  "SipHashUint256 k0 k1 val = CSipHasher_Finalize (CSipHasher_Write (CSipHasher_new k0 k1) (le_bytes 32 val)) \<and>
   SipHashUint256Extra k0 k1 val extra =
     CSipHasher_Finalize (CSipHasher_Write (CSipHasher_Write (CSipHasher_new k0 k1) (le_bytes 32 val)) (le_bytes 4 extra)) \<and>
   foldl CSipHasher_Write h ds = CSipHasher_Write h (concat ds)"
proof (intro conjI)
  show "SipHashUint256 k0 k1 val = CSipHasher_Finalize (CSipHasher_Write (CSipHasher_new k0 k1) (le_bytes 32 val))"
    using CSipHasher_Write_uint256[of k0 k1 val "[]"] by (simp add: SipHashUint256_absorb CSipHasher_Finalize_def)
  show "SipHashUint256Extra k0 k1 val extra =
      CSipHasher_Finalize (CSipHasher_Write (CSipHasher_Write (CSipHasher_new k0 k1) (le_bytes 32 val)) (le_bytes 4 extra))"
    unfolding CSipHasher_Write_append[symmetric] CSipHasher_Write_uint256 CSipHasher_loop_extra
    by (simp add: SipHashUint256Extra_absorb CSipHasher_Finalize_def or.commute)
  have "CSipHasher_Write g [] = g" for g by (simp add: CSipHasher_Write_def)
  then show "foldl CSipHasher_Write h ds = CSipHasher_Write h (concat ds)"
    by (induction ds arbitrary: h) (simp_all add: CSipHasher_Write_append)
qed

end
