(* ===== verification/Interpreter.thy ===== *)
theory Interpreter
  imports Compressor Hash "HOL-Library.Sublist"
begin

text \<open>
  The script interpreter, \<open>src/src/script/interpreter.cpp\<close>: encoding checks, the opcodes,
  the evaluation loop, and \<open>VerifyScript\<close>.  The stack, the alternative stack and the
  condition stack are lists whose head is the top (\<open>stacktop(-1)\<close>).  A step ends in a new state, in
  a script error, or in a C++ exception that \<open>EvalScript\<close> catches.  The signature
  checker is a record of its virtual methods; \<open>CheckSig\<close> may throw.  The low-S test of
  libsecp256k1 is a parameter.
\<close>

unbundle bit_operations_syntax

section \<open>Errors and flags\<close>

datatype ScriptError =
    SCRIPT_ERR_OK | SCRIPT_ERR_UNKNOWN_ERROR | SCRIPT_ERR_EVAL_FALSE | SCRIPT_ERR_OP_RETURN
  | SCRIPT_ERR_SCRIPT_SIZE | SCRIPT_ERR_PUSH_SIZE | SCRIPT_ERR_OP_COUNT | SCRIPT_ERR_STACK_SIZE
  | SCRIPT_ERR_SIG_COUNT | SCRIPT_ERR_PUBKEY_COUNT
  | SCRIPT_ERR_VERIFY | SCRIPT_ERR_EQUALVERIFY | SCRIPT_ERR_CHECKCOLDSTAKEVERIFY
  | SCRIPT_ERR_CHECKMULTISIGVERIFY | SCRIPT_ERR_CHECKSIGVERIFY | SCRIPT_ERR_NUMEQUALVERIFY
  | SCRIPT_ERR_BAD_OPCODE | SCRIPT_ERR_DISABLED_OPCODE | SCRIPT_ERR_INVALID_STACK_OPERATION
  | SCRIPT_ERR_INVALID_ALTSTACK_OPERATION | SCRIPT_ERR_UNBALANCED_CONDITIONAL
  | SCRIPT_ERR_NEGATIVE_LOCKTIME | SCRIPT_ERR_UNSATISFIED_LOCKTIME
  | SCRIPT_ERR_SIG_HASHTYPE | SCRIPT_ERR_SIG_DER | SCRIPT_ERR_MINIMALDATA | SCRIPT_ERR_SIG_PUSHONLY
  | SCRIPT_ERR_SIG_HIGH_S | SCRIPT_ERR_SIG_NULLDUMMY | SCRIPT_ERR_PUBKEYTYPE
  | SCRIPT_ERR_DISCOURAGE_UPGRADABLE_NOPS | SCRIPT_ERR_ERROR_COUNT

datatype script_exn =
    OutOfRange \<comment> \<open>\<open>stack.at()\<close> out of range, or \<open>popstack() : stack empty\<close>\<close>
  | NumExn scriptnum_error
  | CheckerExn \<comment> \<open>thrown by the signature checker\<close>

datatype script_fail = Fail ScriptError | Throw script_exn

type_synonym 'a ev = "script_fail + 'a"

definition ebind :: "'a ev \<Rightarrow> ('a \<Rightarrow> 'b ev) \<Rightarrow> 'b ev" where
  "ebind x f = (case x of Inl e \<Rightarrow> Inl e | Inr a \<Rightarrow> f a)"

definition SCRIPT_VERIFY_P2SH :: u32 where "SCRIPT_VERIFY_P2SH = push_bit 0 1"
definition SCRIPT_VERIFY_STRICTENC :: u32 where "SCRIPT_VERIFY_STRICTENC = push_bit 1 1"
definition SCRIPT_VERIFY_DERSIG :: u32 where "SCRIPT_VERIFY_DERSIG = push_bit 2 1"
definition SCRIPT_VERIFY_LOW_S :: u32 where "SCRIPT_VERIFY_LOW_S = push_bit 3 1"
definition SCRIPT_VERIFY_NULLDUMMY :: u32 where "SCRIPT_VERIFY_NULLDUMMY = push_bit 4 1"
definition SCRIPT_VERIFY_SIGPUSHONLY :: u32 where "SCRIPT_VERIFY_SIGPUSHONLY = push_bit 5 1"
definition SCRIPT_VERIFY_MINIMALDATA :: u32 where "SCRIPT_VERIFY_MINIMALDATA = push_bit 6 1"
definition SCRIPT_VERIFY_DISCOURAGE_UPGRADABLE_NOPS :: u32 where
  "SCRIPT_VERIFY_DISCOURAGE_UPGRADABLE_NOPS = push_bit 7 1"
definition SCRIPT_VERIFY_CLEANSTACK :: u32 where "SCRIPT_VERIFY_CLEANSTACK = push_bit 8 1"
definition SCRIPT_VERIFY_CHECKLOCKTIMEVERIFY :: u32 where "SCRIPT_VERIFY_CHECKLOCKTIMEVERIFY = push_bit 9 1"

definition SIGHASH_ALL :: byte where "SIGHASH_ALL = 1"
definition SIGHASH_NONE :: byte where "SIGHASH_NONE = 2"
definition SIGHASH_SINGLE :: byte where "SIGHASH_SINGLE = 3"
definition SIGHASH_ANYONECANPAY :: byte where "SIGHASH_ANYONECANPAY = 0x80"

record BaseSignatureChecker =
  CheckSig_c :: "valtype \<Rightarrow> valtype \<Rightarrow> CScript \<Rightarrow> SigVersion \<Rightarrow> bool option"
  CheckLockTime_c :: "int \<Rightarrow> bool"
  CheckColdStake_c :: "CScript \<Rightarrow> bool"

definition base_checker :: BaseSignatureChecker where
  "base_checker = \<lparr>CheckSig_c = \<lambda>sig key code v. Some False, CheckLockTime_c = \<lambda>n. False, CheckColdStake_c = \<lambda>s. False\<rparr>"

record script_env =
  se_flags :: u32
  se_checker :: BaseSignatureChecker
  se_sigversion :: SigVersion
  se_CheckLowS :: "bytes \<Rightarrow> bool"
  se_mem :: bytes

abbreviation flag :: "script_env \<Rightarrow> u32 \<Rightarrow> bool" where
  "flag env f \<equiv> se_flags env AND f \<noteq> 0"

section \<open>Encodings\<close>

fun CastToBool :: "valtype \<Rightarrow> bool" where
  "CastToBool [] = False"
| "CastToBool (b # vch) = (if b \<noteq> 0 then \<not> (vch = [] \<and> b = 0x80) else CastToBool vch)"

definition IsCompressedOrUncompressedPubKey :: "valtype \<Rightarrow> bool" where
  "IsCompressedOrUncompressedPubKey vchPubKey =
     (if length vchPubKey < COMPRESSED_PUBLIC_KEY_SIZE then False
      else if vchPubKey ! 0 = 0x04 then length vchPubKey = PUBLIC_KEY_SIZE
      else if vchPubKey ! 0 = 0x02 \<or> vchPubKey ! 0 = 0x03 then length vchPubKey = COMPRESSED_PUBLIC_KEY_SIZE
      else False)"

definition IsValidSignatureEncoding :: "valtype \<Rightarrow> bool" where
  "IsValidSignatureEncoding sig =
     (if length sig < 9 then False
      else if 73 < length sig then False
      else if sig ! 0 \<noteq> 0x30 then False
      else if unat (sig ! 1) \<noteq> length sig - 3 then False
      else let lenR = unat (sig ! 3) in
        if length sig \<le> 5 + lenR then False
        else let lenS = unat (sig ! (5 + lenR)) in
          if lenR + lenS + 7 \<noteq> length sig then False
          else if sig ! 2 \<noteq> 0x02 then False
          else if lenR = 0 then False
          else if sig ! 4 AND 0x80 \<noteq> 0 then False
          else if 1 < lenR \<and> sig ! 4 = 0x00 \<and> sig ! 5 AND 0x80 = 0 then False
          else if sig ! (lenR + 4) \<noteq> 0x02 then False
          else if lenS = 0 then False
          else if sig ! (lenR + 6) AND 0x80 \<noteq> 0 then False
          else if 1 < lenS \<and> sig ! (lenR + 6) = 0x00 \<and> sig ! (lenR + 7) AND 0x80 = 0 then False
          else True)"

text \<open>The checks below return the error they set, \<open>None\<close> standing for \<open>true\<close>.\<close>

definition IsLowDERSignature :: "script_env \<Rightarrow> valtype \<Rightarrow> ScriptError option" where
  "IsLowDERSignature env vchSig =
     (if \<not> IsValidSignatureEncoding vchSig then Some SCRIPT_ERR_SIG_DER
      else if \<not> se_CheckLowS env (take (length vchSig - 1) vchSig) then Some SCRIPT_ERR_SIG_HIGH_S
      else None)"

definition IsDefinedHashtypeSignature :: "valtype \<Rightarrow> bool" where
  "IsDefinedHashtypeSignature vchSig =
     (if length vchSig = 0 then False
      else let nHashType = vchSig ! (length vchSig - 1) AND NOT SIGHASH_ANYONECANPAY in
        \<not> (nHashType < SIGHASH_ALL \<or> SIGHASH_SINGLE < nHashType))"

definition CheckSignatureEncoding :: "script_env \<Rightarrow> valtype \<Rightarrow> ScriptError option" where
  "CheckSignatureEncoding env vchSig =
     (if length vchSig = 0 then None
      else if flag env (SCRIPT_VERIFY_DERSIG OR SCRIPT_VERIFY_LOW_S OR SCRIPT_VERIFY_STRICTENC) \<and>
              \<not> IsValidSignatureEncoding vchSig then Some SCRIPT_ERR_SIG_DER
      else if flag env SCRIPT_VERIFY_LOW_S \<and> IsLowDERSignature env vchSig \<noteq> None then IsLowDERSignature env vchSig
      else if flag env SCRIPT_VERIFY_STRICTENC \<and> \<not> IsDefinedHashtypeSignature vchSig then Some SCRIPT_ERR_SIG_HASHTYPE
      else None)"

definition CheckPubKeyEncoding :: "script_env \<Rightarrow> valtype \<Rightarrow> ScriptError option" where
  "CheckPubKeyEncoding env vchPubKey =
     (if flag env SCRIPT_VERIFY_STRICTENC \<and> \<not> IsCompressedOrUncompressedPubKey vchPubKey
      then Some SCRIPT_ERR_PUBKEYTYPE else None)"

definition CheckMinimalPush :: "valtype \<Rightarrow> u8 \<Rightarrow> bool" where
  "CheckMinimalPush data opcode =
     (if length data = 0 then opcode = OP_0
      else if length data = 1 \<and> 1 \<le> data ! 0 \<and> data ! 0 \<le> 16 then unat opcode = unat OP_1 + (unat (data ! 0) - 1)
      else if length data = 1 \<and> data ! 0 = 0x81 then opcode = OP_1NEGATE
      else if length data \<le> 75 then unat opcode = length data
      else if length data \<le> 255 then opcode = OP_PUSHDATA1
      else if length data \<le> 65535 then opcode = OP_PUSHDATA2
      else True)"

section \<open>Opcodes\<close>

record eval_state =
  es_stack :: "valtype list"
  es_altstack :: "valtype list"
  es_vfExec :: "bool list"
  es_codehash :: bytes \<comment> \<open>\<open>pbegincodehash\<close>, as the rest of the script\<close>
  es_nOpCount :: int

definition vchFalse :: valtype where "vchFalse = []"
definition vchTrue :: valtype where "vchTrue = [1]"

definition fRequireMinimal :: "script_env \<Rightarrow> bool" where
  "fRequireMinimal env \<longleftrightarrow> flag env SCRIPT_VERIFY_MINIMALDATA"

definition script_num :: "script_env \<Rightarrow> valtype \<Rightarrow> nat \<Rightarrow> int ev" where
  "script_num env vch nMaxNumSize =
     (case CScriptNum vch (fRequireMinimal env) nMaxNumSize of Inl e \<Rightarrow> Inl (Throw (NumExn e)) | Inr n \<Rightarrow> Inr n)"

text \<open>\<open>stacktop(-i)\<close>, which is \<open>stack.at(stack.size() - i)\<close>.\<close>

definition stacktop :: "valtype list \<Rightarrow> int \<Rightarrow> valtype ev" where
  "stacktop stack i = (if 1 \<le> i \<and> i \<le> int (length stack) then Inr (stack ! nat (i - 1)) else Inl (Throw OutOfRange))"

text \<open>An operation on the stack alone; \<open>None\<close> is the \<open>stack.size()\<close> guard that precedes it.\<close>

definition stack_op :: "(valtype list \<Rightarrow> valtype list option) \<Rightarrow> eval_state \<Rightarrow> eval_state ev" where
  "stack_op f st =
     (case f (es_stack st) of
        None \<Rightarrow> Inl (Fail SCRIPT_ERR_INVALID_STACK_OPERATION)
      | Some s \<Rightarrow> Inr (st\<lparr>es_stack := s\<rparr>))"

subsection \<open>Constants and control\<close>

definition op_pushnum :: "u8 \<Rightarrow> eval_state \<Rightarrow> eval_state ev" where
  "op_pushnum opcode st =
     Inr (st\<lparr>es_stack := scriptnum_serialize (int (unat opcode) - (int (unat OP_1) - 1)) # es_stack st\<rparr>)"

definition op_CHECKLOCKTIMEVERIFY :: "script_env \<Rightarrow> eval_state \<Rightarrow> eval_state ev" where
  "op_CHECKLOCKTIMEVERIFY env st =
     (if \<not> flag env SCRIPT_VERIFY_CHECKLOCKTIMEVERIFY then
        (if flag env SCRIPT_VERIFY_DISCOURAGE_UPGRADABLE_NOPS
         then Inl (Fail SCRIPT_ERR_DISCOURAGE_UPGRADABLE_NOPS) else Inr st)
      else case es_stack st of
        [] \<Rightarrow> Inl (Fail SCRIPT_ERR_INVALID_STACK_OPERATION)
      | x # s \<Rightarrow>
          ebind (script_num env x 5) (\<lambda>nLockTime.
            if nLockTime < 0 then Inl (Fail SCRIPT_ERR_NEGATIVE_LOCKTIME)
            else if \<not> CheckLockTime_c (se_checker env) nLockTime then Inl (Fail SCRIPT_ERR_UNSATISFIED_LOCKTIME)
            else Inr st))"

definition op_NOPn :: "script_env \<Rightarrow> eval_state \<Rightarrow> eval_state ev" where
  "op_NOPn env st =
     (if flag env SCRIPT_VERIFY_DISCOURAGE_UPGRADABLE_NOPS then Inl (Fail SCRIPT_ERR_DISCOURAGE_UPGRADABLE_NOPS)
      else Inr st)"

definition op_IF :: "bool \<Rightarrow> u8 \<Rightarrow> eval_state \<Rightarrow> eval_state ev" where
  "op_IF fExec opcode st =
     (if fExec then
        (case es_stack st of
           [] \<Rightarrow> Inl (Fail SCRIPT_ERR_UNBALANCED_CONDITIONAL)
         | vch # s \<Rightarrow>
             let fValue = CastToBool vch; fValue = (if opcode = OP_NOTIF then \<not> fValue else fValue)
             in Inr (st\<lparr>es_stack := s, es_vfExec := fValue # es_vfExec st\<rparr>))
      else Inr (st\<lparr>es_vfExec := False # es_vfExec st\<rparr>))"

definition op_ELSE :: "eval_state \<Rightarrow> eval_state ev" where
  "op_ELSE st =
     (case es_vfExec st of
        [] \<Rightarrow> Inl (Fail SCRIPT_ERR_UNBALANCED_CONDITIONAL)
      | b # v \<Rightarrow> Inr (st\<lparr>es_vfExec := (\<not> b) # v\<rparr>))"

definition op_ENDIF :: "eval_state \<Rightarrow> eval_state ev" where
  "op_ENDIF st =
     (case es_vfExec st of
        [] \<Rightarrow> Inl (Fail SCRIPT_ERR_UNBALANCED_CONDITIONAL)
      | b # v \<Rightarrow> Inr (st\<lparr>es_vfExec := v\<rparr>))"

definition op_VERIFY :: "eval_state \<Rightarrow> eval_state ev" where
  "op_VERIFY st =
     (case es_stack st of
        [] \<Rightarrow> Inl (Fail SCRIPT_ERR_INVALID_STACK_OPERATION)
      | vch # s \<Rightarrow> if CastToBool vch then Inr (st\<lparr>es_stack := s\<rparr>) else Inl (Fail SCRIPT_ERR_VERIFY))"

subsection \<open>Stack operations\<close>

definition op_TOALTSTACK :: "eval_state \<Rightarrow> eval_state ev" where
  "op_TOALTSTACK st =
     (case es_stack st of
        [] \<Rightarrow> Inl (Fail SCRIPT_ERR_INVALID_STACK_OPERATION)
      | x # s \<Rightarrow> Inr (st\<lparr>es_stack := s, es_altstack := x # es_altstack st\<rparr>))"

definition op_FROMALTSTACK :: "eval_state \<Rightarrow> eval_state ev" where
  "op_FROMALTSTACK st =
     (case es_altstack st of
        [] \<Rightarrow> Inl (Fail SCRIPT_ERR_INVALID_ALTSTACK_OPERATION)
      | x # s \<Rightarrow> Inr (st\<lparr>es_stack := x # es_stack st, es_altstack := s\<rparr>))"

fun op_2DROP :: "valtype list \<Rightarrow> valtype list option" where
  "op_2DROP (x2 # x1 # s) = Some s" | "op_2DROP s = None"
fun op_2DUP :: "valtype list \<Rightarrow> valtype list option" where
  "op_2DUP (x2 # x1 # s) = Some (x2 # x1 # x2 # x1 # s)" | "op_2DUP s = None"
fun op_3DUP :: "valtype list \<Rightarrow> valtype list option" where
  "op_3DUP (x3 # x2 # x1 # s) = Some (x3 # x2 # x1 # x3 # x2 # x1 # s)" | "op_3DUP s = None"
fun op_2OVER :: "valtype list \<Rightarrow> valtype list option" where
  "op_2OVER (x4 # x3 # x2 # x1 # s) = Some (x2 # x1 # x4 # x3 # x2 # x1 # s)" | "op_2OVER s = None"
fun op_2ROT :: "valtype list \<Rightarrow> valtype list option" where
  "op_2ROT (x6 # x5 # x4 # x3 # x2 # x1 # s) = Some (x2 # x1 # x6 # x5 # x4 # x3 # s)" | "op_2ROT s = None"
fun op_2SWAP :: "valtype list \<Rightarrow> valtype list option" where
  "op_2SWAP (x4 # x3 # x2 # x1 # s) = Some (x2 # x1 # x4 # x3 # s)" | "op_2SWAP s = None"
fun op_IFDUP :: "valtype list \<Rightarrow> valtype list option" where
  "op_IFDUP (x # s) = Some (if CastToBool x then x # x # s else x # s)" | "op_IFDUP [] = None"
definition op_DEPTH :: "valtype list \<Rightarrow> valtype list option" where
  "op_DEPTH s = Some (scriptnum_serialize (int (length s)) # s)"
fun op_DROP :: "valtype list \<Rightarrow> valtype list option" where
  "op_DROP (x # s) = Some s" | "op_DROP [] = None"
fun op_DUP :: "valtype list \<Rightarrow> valtype list option" where
  "op_DUP (x # s) = Some (x # x # s)" | "op_DUP [] = None"
fun op_NIP :: "valtype list \<Rightarrow> valtype list option" where
  "op_NIP (x2 # x1 # s) = Some (x2 # s)" | "op_NIP s = None"
fun op_OVER :: "valtype list \<Rightarrow> valtype list option" where
  "op_OVER (x2 # x1 # s) = Some (x1 # x2 # x1 # s)" | "op_OVER s = None"
fun op_ROT :: "valtype list \<Rightarrow> valtype list option" where
  "op_ROT (x3 # x2 # x1 # s) = Some (x1 # x3 # x2 # s)" | "op_ROT s = None"
fun op_SWAP :: "valtype list \<Rightarrow> valtype list option" where
  "op_SWAP (x2 # x1 # s) = Some (x1 # x2 # s)" | "op_SWAP s = None"
fun op_TUCK :: "valtype list \<Rightarrow> valtype list option" where
  "op_TUCK (x2 # x1 # s) = Some (x2 # x1 # x2 # s)" | "op_TUCK s = None"
fun op_SIZE :: "valtype list \<Rightarrow> valtype list option" where
  "op_SIZE (x # s) = Some (scriptnum_serialize (int (length x)) # x # s)" | "op_SIZE [] = None"

definition op_PICK :: "script_env \<Rightarrow> u8 \<Rightarrow> eval_state \<Rightarrow> eval_state ev" where
  "op_PICK env opcode st =
     (if length (es_stack st) < 2 then Inl (Fail SCRIPT_ERR_INVALID_STACK_OPERATION)
      else ebind (stacktop (es_stack st) 1) (\<lambda>x. ebind (script_num env x nDefaultMaxNumSize) (\<lambda>bn.
        let n = getint bn; s = drop 1 (es_stack st) in
        if n < 0 \<or> int (length s) \<le> n then Inl (Fail SCRIPT_ERR_INVALID_STACK_OPERATION)
        else ebind (stacktop s (n + 1)) (\<lambda>vch.
          let s' = (if opcode = OP_ROLL then take (nat n) s @ drop (nat n + 1) s else s)
          in Inr (st\<lparr>es_stack := vch # s'\<rparr>)))))"

subsection \<open>Comparison and arithmetic\<close>

definition op_EQUAL :: "u8 \<Rightarrow> eval_state \<Rightarrow> eval_state ev" where
  "op_EQUAL opcode st =
     (case es_stack st of
        vch2 # vch1 # s \<Rightarrow>
          let fEqual = (vch1 = vch2) in
          if opcode = OP_EQUALVERIFY then
            (if fEqual then Inr (st\<lparr>es_stack := s\<rparr>) else Inl (Fail SCRIPT_ERR_EQUALVERIFY))
          else Inr (st\<lparr>es_stack := (if fEqual then vchTrue else vchFalse) # s\<rparr>)
      | _ \<Rightarrow> Inl (Fail SCRIPT_ERR_INVALID_STACK_OPERATION))"

text \<open>The operands have at most four bytes, so that no sum leaves \<open>int64_t\<close>.\<close>

definition unary_num :: "u8 \<Rightarrow> int \<Rightarrow> int" where
  "unary_num opcode bn =
     (if opcode = OP_1ADD then bn + 1
      else if opcode = OP_1SUB then bn - 1
      else if opcode = OP_NEGATE then - bn
      else if opcode = OP_ABS then (if bn < 0 then - bn else bn)
      else if opcode = OP_NOT then of_bool (bn = 0)
      else of_bool (bn \<noteq> 0))"

definition op_unary :: "script_env \<Rightarrow> u8 \<Rightarrow> eval_state \<Rightarrow> eval_state ev" where
  "op_unary env opcode st =
     (case es_stack st of
        x # s \<Rightarrow> ebind (script_num env x nDefaultMaxNumSize) (\<lambda>bn.
          Inr (st\<lparr>es_stack := scriptnum_serialize (unary_num opcode bn) # s\<rparr>))
      | _ \<Rightarrow> Inl (Fail SCRIPT_ERR_INVALID_STACK_OPERATION))"

definition binary_num :: "u8 \<Rightarrow> int \<Rightarrow> int \<Rightarrow> int" where
  "binary_num opcode bn1 bn2 =
     (if opcode = OP_ADD then bn1 + bn2
      else if opcode = OP_SUB then bn1 - bn2
      else if opcode = OP_BOOLAND then of_bool (bn1 \<noteq> 0 \<and> bn2 \<noteq> 0)
      else if opcode = OP_BOOLOR then of_bool (bn1 \<noteq> 0 \<or> bn2 \<noteq> 0)
      else if opcode = OP_NUMEQUAL then of_bool (bn1 = bn2)
      else if opcode = OP_NUMEQUALVERIFY then of_bool (bn1 = bn2)
      else if opcode = OP_NUMNOTEQUAL then of_bool (bn1 \<noteq> bn2)
      else if opcode = OP_LESSTHAN then of_bool (bn1 < bn2)
      else if opcode = OP_GREATERTHAN then of_bool (bn1 > bn2)
      else if opcode = OP_LESSTHANOREQUAL then of_bool (bn1 \<le> bn2)
      else if opcode = OP_GREATERTHANOREQUAL then of_bool (bn1 \<ge> bn2)
      else if opcode = OP_MIN then (if bn1 < bn2 then bn1 else bn2)
      else (if bn1 > bn2 then bn1 else bn2))"

definition op_binary :: "script_env \<Rightarrow> u8 \<Rightarrow> eval_state \<Rightarrow> eval_state ev" where
  "op_binary env opcode st =
     (case es_stack st of
        x2 # x1 # s \<Rightarrow>
          ebind (script_num env x1 nDefaultMaxNumSize) (\<lambda>bn1. ebind (script_num env x2 nDefaultMaxNumSize) (\<lambda>bn2.
            let bnv = scriptnum_serialize (binary_num opcode bn1 bn2) in
            if opcode = OP_NUMEQUALVERIFY then
              (if CastToBool bnv then Inr (st\<lparr>es_stack := s\<rparr>) else Inl (Fail SCRIPT_ERR_NUMEQUALVERIFY))
            else Inr (st\<lparr>es_stack := bnv # s\<rparr>)))
      | _ \<Rightarrow> Inl (Fail SCRIPT_ERR_INVALID_STACK_OPERATION))"

definition op_WITHIN :: "script_env \<Rightarrow> eval_state \<Rightarrow> eval_state ev" where
  "op_WITHIN env st =
     (case es_stack st of
        x3 # x2 # x1 # s \<Rightarrow>
          ebind (script_num env x1 nDefaultMaxNumSize) (\<lambda>bn1. ebind (script_num env x2 nDefaultMaxNumSize) (\<lambda>bn2.
          ebind (script_num env x3 nDefaultMaxNumSize) (\<lambda>bn3.
            Inr (st\<lparr>es_stack := (if bn2 \<le> bn1 \<and> bn1 < bn3 then vchTrue else vchFalse) # s\<rparr>))))
      | _ \<Rightarrow> Inl (Fail SCRIPT_ERR_INVALID_STACK_OPERATION))"

subsection \<open>Hashing and signatures\<close>

definition op_HASHES :: "script_env \<Rightarrow> u8 \<Rightarrow> eval_state \<Rightarrow> eval_state ev" where
  "op_HASHES env opcode st =
     (case es_stack st of
        vch # s \<Rightarrow>
          let mem = se_mem env;
              vchHash =
                (if opcode = OP_RIPEMD160 then CRIPEMD160_Finalize (CRIPEMD160_Write (CRIPEMD160_new mem) vch)
                 else if opcode = OP_SHA1 then CSHA1_Finalize (CSHA1_Write (CSHA1_new mem) vch)
                 else if opcode = OP_SHA256 then CSHA256_Finalize (CSHA256_Write (CSHA256_new mem) vch)
                 else if opcode = OP_HASH160 then CHash160_Finalize mem (CSHA256_Write (CSHA256_new mem) vch)
                 else CHash256_Finalize (CSHA256_Write (CSHA256_new mem) vch))
          in Inr (st\<lparr>es_stack := vchHash # s\<rparr>)
      | _ \<Rightarrow> Inl (Fail SCRIPT_ERR_INVALID_STACK_OPERATION))"

text \<open>\<open>!CheckSignatureEncoding(...) || !CheckPubKeyEncoding(...)\<close>, then the call of the checker.\<close>

definition check_sig :: "script_env \<Rightarrow> valtype \<Rightarrow> valtype \<Rightarrow> CScript \<Rightarrow> bool ev" where
  "check_sig env vchSig vchPubKey scriptCode =
     (case CheckSignatureEncoding env vchSig of
        Some e \<Rightarrow> Inl (Fail e)
      | None \<Rightarrow>
          (case CheckPubKeyEncoding env vchPubKey of
             Some e \<Rightarrow> Inl (Fail e)
           | None \<Rightarrow>
               (case CheckSig_c (se_checker env) vchSig vchPubKey scriptCode (se_sigversion env) of
                  None \<Rightarrow> Inl (Throw CheckerExn)
                | Some fSuccess \<Rightarrow> Inr fSuccess)))"

definition op_CHECKSIG :: "script_env \<Rightarrow> u8 \<Rightarrow> eval_state \<Rightarrow> eval_state ev" where
  "op_CHECKSIG env opcode st =
     (case es_stack st of
        vchPubKey # vchSig # s \<Rightarrow>
          let scriptCode = fst (FindAndDelete (es_codehash st) (push_data [] vchSig)) in
          ebind (check_sig env vchSig vchPubKey scriptCode) (\<lambda>fSuccess.
            if opcode = OP_CHECKSIGVERIFY then
              (if fSuccess then Inr (st\<lparr>es_stack := s\<rparr>) else Inl (Fail SCRIPT_ERR_CHECKSIGVERIFY))
            else Inr (st\<lparr>es_stack := (if fSuccess then vchTrue else vchFalse) # s\<rparr>))
      | _ \<Rightarrow> Inl (Fail SCRIPT_ERR_INVALID_STACK_OPERATION))"

fun multisig_code :: "valtype list \<Rightarrow> int \<Rightarrow> nat \<Rightarrow> CScript \<Rightarrow> CScript ev" where
  "multisig_code stack isig 0 scriptCode = Inr scriptCode"
| "multisig_code stack isig (Suc n) scriptCode =
     ebind (stacktop stack isig) (\<lambda>vchSig.
       multisig_code stack (isig + 1) n (fst (FindAndDelete scriptCode (push_data [] vchSig))))"

function multisig_loop ::
    "script_env \<Rightarrow> valtype list \<Rightarrow> CScript \<Rightarrow> bool \<Rightarrow> int \<Rightarrow> int \<Rightarrow> int \<Rightarrow> int \<Rightarrow> bool ev" where
  "multisig_loop env stack scriptCode fSuccess isig nSigsCount ikey nKeysCount =
     (if fSuccess \<and> 0 < nSigsCount then
        (case stacktop stack isig of Inl e \<Rightarrow> Inl e | Inr vchSig \<Rightarrow>
        (case stacktop stack ikey of Inl e \<Rightarrow> Inl e | Inr vchPubKey \<Rightarrow>
        (case check_sig env vchSig vchPubKey scriptCode of Inl e \<Rightarrow> Inl e | Inr fOk \<Rightarrow>
          let isig = (if fOk then isig + 1 else isig);
              nSigsCount = (if fOk then nSigsCount - 1 else nSigsCount);
              ikey = ikey + 1;
              nKeysCount = nKeysCount - 1
          in multisig_loop env stack scriptCode (\<not> nSigsCount > nKeysCount) isig nSigsCount ikey nKeysCount)))
      else Inr fSuccess)"
  by pat_completeness auto
termination
  by (relation "measure (\<lambda>(env, stack, code, fSuccess, isig, ns, ikey, nk).
        if fSuccess \<and> 0 < ns then Suc (nat nk) else 0)") (auto split: if_splits)

declare multisig_loop.simps [simp del]

text \<open>From the removal of the extra argument on; \<open>rest\<close> is the stack without the actual arguments.\<close>

definition multisig_finish :: "script_env \<Rightarrow> u8 \<Rightarrow> bool \<Rightarrow> valtype list \<Rightarrow> eval_state \<Rightarrow> eval_state ev" where
  "multisig_finish env opcode fSuccess rest st =
     (case rest of
        [] \<Rightarrow> Inl (Fail SCRIPT_ERR_INVALID_STACK_OPERATION)
      | dummy # s \<Rightarrow>
          if flag env SCRIPT_VERIFY_NULLDUMMY \<and> length dummy \<noteq> 0 then Inl (Fail SCRIPT_ERR_SIG_NULLDUMMY)
          else if opcode = OP_CHECKMULTISIGVERIFY then
            (if fSuccess then Inr (st\<lparr>es_stack := s\<rparr>) else Inl (Fail SCRIPT_ERR_CHECKMULTISIGVERIFY))
          else Inr (st\<lparr>es_stack := (if fSuccess then vchTrue else vchFalse) # s\<rparr>))"

definition op_CHECKMULTISIG :: "script_env \<Rightarrow> u8 \<Rightarrow> eval_state \<Rightarrow> eval_state ev" where
  "op_CHECKMULTISIG env opcode st =
     (let stack = es_stack st in
      if int (length stack) < 1 then Inl (Fail SCRIPT_ERR_INVALID_STACK_OPERATION)
      else ebind (stacktop stack 1) (\<lambda>x. ebind (script_num env x nDefaultMaxNumSize) (\<lambda>bn.
        let nKeysCount = getint bn in
        if nKeysCount < 0 \<or> nKeysCount > MAX_PUBKEYS_PER_MULTISIG then Inl (Fail SCRIPT_ERR_PUBKEY_COUNT)
        else let nOpCount = es_nOpCount st + nKeysCount in
        if nOpCount > 201 then Inl (Fail SCRIPT_ERR_OP_COUNT)
        else let ikey = 2; i = 2 + nKeysCount in
        if int (length stack) < i then Inl (Fail SCRIPT_ERR_INVALID_STACK_OPERATION)
        else ebind (stacktop stack i) (\<lambda>x. ebind (script_num env x nDefaultMaxNumSize) (\<lambda>bn.
          let nSigsCount = getint bn in
          if nSigsCount < 0 \<or> nSigsCount > nKeysCount then Inl (Fail SCRIPT_ERR_SIG_COUNT)
          else let isig = i + 1; i = i + 1 + nSigsCount in
          if int (length stack) < i then Inl (Fail SCRIPT_ERR_INVALID_STACK_OPERATION)
          else ebind (multisig_code stack isig (nat nSigsCount) (es_codehash st)) (\<lambda>scriptCode.
            ebind (multisig_loop env stack scriptCode True isig nSigsCount ikey nKeysCount) (\<lambda>fSuccess.
              multisig_finish env opcode fSuccess (drop (nat (i - 1)) stack) (st\<lparr>es_nOpCount := nOpCount\<rparr>))))))))"

definition op_CHECKCOLDSTAKEVERIFY :: "script_env \<Rightarrow> CScript \<Rightarrow> eval_state \<Rightarrow> eval_state ev" where
  "op_CHECKCOLDSTAKEVERIFY env script st =
     (if \<not> CheckColdStake_c (se_checker env) script then Inl (Fail SCRIPT_ERR_CHECKCOLDSTAKEVERIFY) else Inr st)"

section \<open>The evaluation loop\<close>

definition numeric_unary :: "u8 list" where
  "numeric_unary = [OP_1ADD, OP_1SUB, OP_NEGATE, OP_ABS, OP_NOT, OP_0NOTEQUAL]"

definition numeric_binary :: "u8 list" where
  "numeric_binary =
     [OP_ADD, OP_SUB, OP_BOOLAND, OP_BOOLOR, OP_NUMEQUAL, OP_NUMEQUALVERIFY, OP_NUMNOTEQUAL, OP_LESSTHAN,
      OP_GREATERTHAN, OP_LESSTHANOREQUAL, OP_GREATERTHANOREQUAL, OP_MIN, OP_MAX]"

definition hash_opcodes :: "u8 list" where
  "hash_opcodes = [OP_RIPEMD160, OP_SHA1, OP_SHA256, OP_HASH160, OP_HASH256]"

definition disabled_opcodes :: "u8 list" where
  "disabled_opcodes =
     [OP_CAT, OP_SUBSTR, OP_LEFT, OP_RIGHT, OP_INVERT, OP_AND, OP_OR, OP_XOR, OP_2MUL, OP_2DIV, OP_MUL,
      OP_DIV, OP_MOD, OP_LSHIFT, OP_RSHIFT]"

definition stack_opcodes :: "(u8 \<times> (valtype list \<Rightarrow> valtype list option)) list" where
  "stack_opcodes =
     [(OP_2DROP, op_2DROP), (OP_2DUP, op_2DUP), (OP_3DUP, op_3DUP), (OP_2OVER, op_2OVER), (OP_2ROT, op_2ROT),
      (OP_2SWAP, op_2SWAP), (OP_IFDUP, op_IFDUP), (OP_DEPTH, op_DEPTH), (OP_DROP, op_DROP), (OP_DUP, op_DUP),
      (OP_NIP, op_NIP), (OP_OVER, op_OVER), (OP_ROT, op_ROT), (OP_SWAP, op_SWAP), (OP_TUCK, op_TUCK),
      (OP_SIZE, op_SIZE)]"

text \<open>
  The \<open>switch\<close>: \<open>pc\<close> is the script after the opcode.
\<close>

definition EvalScript_switch ::
    "script_env \<Rightarrow> CScript \<Rightarrow> bool \<Rightarrow> u8 \<Rightarrow> bytes \<Rightarrow> eval_state \<Rightarrow> eval_state ev" where
  "EvalScript_switch env script fExec opcode pc st =
     (if opcode = OP_1NEGATE \<or> OP_1 \<le> opcode \<and> opcode \<le> OP_16 then op_pushnum opcode st
      else if opcode = OP_NOP then Inr st
      else if opcode = OP_CHECKLOCKTIMEVERIFY then op_CHECKLOCKTIMEVERIFY env st
      else if opcode = OP_NOP1 \<or> OP_NOP3 \<le> opcode \<and> opcode \<le> OP_NOP10 then op_NOPn env st
      else if opcode = OP_IF \<or> opcode = OP_NOTIF then op_IF fExec opcode st
      else if opcode = OP_ELSE then op_ELSE st
      else if opcode = OP_ENDIF then op_ENDIF st
      else if opcode = OP_VERIFY then op_VERIFY st
      else if opcode = OP_RETURN then Inl (Fail SCRIPT_ERR_OP_RETURN)
      else if opcode = OP_TOALTSTACK then op_TOALTSTACK st
      else if opcode = OP_FROMALTSTACK then op_FROMALTSTACK st
      else if opcode = OP_PICK \<or> opcode = OP_ROLL then op_PICK env opcode st
      else if opcode = OP_EQUAL \<or> opcode = OP_EQUALVERIFY then op_EQUAL opcode st
      else if opcode \<in> set numeric_unary then op_unary env opcode st
      else if opcode \<in> set numeric_binary then op_binary env opcode st
      else if opcode = OP_WITHIN then op_WITHIN env st
      else if opcode \<in> set hash_opcodes then op_HASHES env opcode st
      else if opcode = OP_CODESEPARATOR then Inr (st\<lparr>es_codehash := pc\<rparr>)
      else if opcode = OP_CHECKSIG \<or> opcode = OP_CHECKSIGVERIFY then op_CHECKSIG env opcode st
      else if opcode = OP_CHECKMULTISIG \<or> opcode = OP_CHECKMULTISIGVERIFY then op_CHECKMULTISIG env opcode st
      else if opcode = OP_CHECKCOLDSTAKEVERIFY then op_CHECKCOLDSTAKEVERIFY env script st
      else case map_of stack_opcodes opcode of
             Some f \<Rightarrow> stack_op f st
           | None \<Rightarrow> Inl (Fail SCRIPT_ERR_BAD_OPCODE))"

definition EvalScript_exec ::
    "script_env \<Rightarrow> CScript \<Rightarrow> bool \<Rightarrow> u8 \<Rightarrow> valtype \<Rightarrow> bytes \<Rightarrow> eval_state \<Rightarrow> eval_state ev" where
  "EvalScript_exec env script fExec opcode vchPushValue pc st =
     (if fExec \<and> opcode \<le> OP_PUSHDATA4 then
        (if fRequireMinimal env \<and> \<not> CheckMinimalPush vchPushValue opcode then Inl (Fail SCRIPT_ERR_MINIMALDATA)
         else Inr (st\<lparr>es_stack := vchPushValue # es_stack st\<rparr>))
      else if fExec \<or> OP_IF \<le> opcode \<and> opcode \<le> OP_ENDIF then EvalScript_switch env script fExec opcode pc st
      else Inr st)"

definition EvalScript_step ::
    "script_env \<Rightarrow> CScript \<Rightarrow> u8 \<Rightarrow> valtype \<Rightarrow> bytes \<Rightarrow> eval_state \<Rightarrow> eval_state ev" where
  "EvalScript_step env script opcode vchPushValue pc st =
     (let fExec = (False \<notin> set (es_vfExec st)) in
      if MAX_SCRIPT_ELEMENT_SIZE < length vchPushValue then Inl (Fail SCRIPT_ERR_PUSH_SIZE)
      else let nOpCount = (if OP_16 < opcode then es_nOpCount st + 1 else es_nOpCount st) in
      if OP_16 < opcode \<and> nOpCount > 201 then Inl (Fail SCRIPT_ERR_OP_COUNT)
      else if opcode \<in> set disabled_opcodes then Inl (Fail SCRIPT_ERR_DISABLED_OPCODE)
      else ebind (EvalScript_exec env script fExec opcode vchPushValue pc (st\<lparr>es_nOpCount := nOpCount\<rparr>)) (\<lambda>st'.
        if 1000 < length (es_stack st') + length (es_altstack st') then Inl (Fail SCRIPT_ERR_STACK_SIZE)
        else Inr st'))"

function EvalScript_loop :: "script_env \<Rightarrow> CScript \<Rightarrow> bytes \<Rightarrow> eval_state \<Rightarrow> eval_state ev" where
  "EvalScript_loop env script pc st =
     (if pc = [] then Inr st
      else let (fRet, opcode, vchPushValue, pc') = GetOp2 pc in
        if \<not> fRet then Inl (Fail SCRIPT_ERR_BAD_OPCODE)
        else case EvalScript_step env script opcode vchPushValue pc' st of
               Inl e \<Rightarrow> Inl e
             | Inr st' \<Rightarrow> EvalScript_loop env script pc' st')"
  by pat_completeness auto
termination
  by (relation "measure (\<lambda>(env, script, pc, st). length pc)") (auto dest: GetOp2_shrinks')

declare EvalScript_loop.simps [simp del]

definition EvalScript_init :: "valtype list \<Rightarrow> CScript \<Rightarrow> eval_state" where
  "EvalScript_init stack script =
     \<lparr>es_stack = stack, es_altstack = [], es_vfExec = [], es_codehash = script, es_nOpCount = 0\<rparr>"

definition EvalScript :: "script_env \<Rightarrow> valtype list \<Rightarrow> CScript \<Rightarrow> ScriptError + valtype list" where
  "EvalScript env stack script =
     (if MAX_SCRIPT_SIZE < length script then Inl SCRIPT_ERR_SCRIPT_SIZE
      else case EvalScript_loop env script script (EvalScript_init stack script) of
        Inl (Throw x) \<Rightarrow> Inl SCRIPT_ERR_UNKNOWN_ERROR
      | Inl (Fail e) \<Rightarrow> Inl e
      | Inr st \<Rightarrow> if es_vfExec st \<noteq> [] then Inl SCRIPT_ERR_UNBALANCED_CONDITIONAL else Inr (es_stack st))"

section \<open>Verification of an input\<close>

datatype verify_result =
    Verified
  | VerifyError ScriptError
  | VerifyAbort \<comment> \<open>a failed \<open>assert\<close>\<close>

definition eval_true :: "ScriptError + valtype list \<Rightarrow> verify_result" where
  "eval_true r =
     (case r of
        Inl e \<Rightarrow> VerifyError e
      | Inr [] \<Rightarrow> VerifyError SCRIPT_ERR_EVAL_FALSE
      | Inr (vch # s) \<Rightarrow> if \<not> CastToBool vch then VerifyError SCRIPT_ERR_EVAL_FALSE else Verified)"

definition VerifyScript :: "script_env \<Rightarrow> CScript \<Rightarrow> CScript \<Rightarrow> verify_result" where
  "VerifyScript env sigScript pubScript =
     (if flag env SCRIPT_VERIFY_SIGPUSHONLY \<and> \<not> IsPushOnly sigScript then VerifyError SCRIPT_ERR_SIG_PUSHONLY
      else case EvalScript env [] sigScript of
        Inl e \<Rightarrow> VerifyError e
      | Inr stack \<Rightarrow>
          let stackCopy = (if flag env SCRIPT_VERIFY_P2SH then stack else []);
              res = eval_true (EvalScript env stack pubScript) in
          if res \<noteq> Verified then res
          else if flag env SCRIPT_VERIFY_P2SH \<and> IsPayToScriptHash pubScript then
            (if \<not> IsPushOnly sigScript then VerifyError SCRIPT_ERR_SIG_PUSHONLY
             else case stackCopy of
               [] \<Rightarrow> VerifyAbort
             | pubKey2 # stackCopy' \<Rightarrow> eval_true (EvalScript env stackCopy' pubKey2))
          else Verified)"

section \<open>Reachable states and their bounds\<close>

lemma ebind_Inr: "ebind x f = Inr b \<longleftrightarrow> (\<exists>a. x = Inr a \<and> f a = Inr b)"
  by (auto simp: ebind_def split: sum.splits)

lemma ebind_Inl: "ebind x f = Inl e \<longleftrightarrow> x = Inl e \<or> (\<exists>a. x = Inr a \<and> f a = Inl e)"
  by (auto simp: ebind_def split: sum.splits)

lemma ebind_simps [simp]: "ebind (Inr a) f = f a" "ebind (Inl e) f = Inl e"
  by (simp_all add: ebind_def)

lemma hash_lengths [simp]:
  "length (CRIPEMD160_Finalize r) = 20" "length (CSHA1_Finalize s) = 20" "length (CSHA256_Finalize h) = 32"
  "length (CHash160_Finalize mem h) = 20" "length (CHash256_Finalize h) = 32"
  by (simp_all add: CRIPEMD160_Finalize_def ripemd160_output_def CSHA1_Finalize_def sha1_output_def CSHA256_Finalize_def
      CSHA256_FinalizeNoPadding_def sha256_output_def CHash160_Finalize_def CHash256_Finalize_def Let_def split_def)

lemma scriptnum_serialize_length: "length (scriptnum_serialize n) \<le> 9"
proof -
  have 8: "length (serialize_bytes a) \<le> 8" for a :: u64
    using length_serialize_bytes[of a 8] unsigned_less[of a] by simp
  have 9: "length (serialize_bytes a) \<le> 9" "length (serialize_bytes a) - Suc 0 \<le> 8" for a :: u64
    using 8[of a] by simp_all
  show ?thesis by (simp add: scriptnum_serialize_def Let_def 8 9)
qed

text \<open>
  The elements of the stacks are at most 520 bytes long, the operation count is within its limit.
\<close>

definition elems_ok :: "eval_state \<Rightarrow> bool" where
  "elems_ok st \<longleftrightarrow>
     (\<forall>x \<in> set (es_stack st) \<union> set (es_altstack st). length x \<le> MAX_SCRIPT_ELEMENT_SIZE) \<and>
     0 \<le> es_nOpCount st \<and> es_nOpCount st \<le> 201"

lemma short_ok [simp]:
  "length vchTrue \<le> MAX_SCRIPT_ELEMENT_SIZE" "length vchFalse \<le> MAX_SCRIPT_ELEMENT_SIZE"
  "length (scriptnum_serialize n) \<le> MAX_SCRIPT_ELEMENT_SIZE" "20 \<le> MAX_SCRIPT_ELEMENT_SIZE" "32 \<le> MAX_SCRIPT_ELEMENT_SIZE"
  using scriptnum_serialize_length[of n] by (simp_all add: vchTrue_def vchFalse_def MAX_SCRIPT_ELEMENT_SIZE_def)

lemma stack_opcodes_elems:
  "(opcode, f) \<in> set stack_opcodes \<Longrightarrow> f s = Some s' \<Longrightarrow> x \<in> set s' \<Longrightarrow> x \<in> set s \<or> length x \<le> MAX_SCRIPT_ELEMENT_SIZE"
  apply (simp add: stack_opcodes_def)
  apply (elim disjE conjE; hypsubst)
  apply (auto simp: op_DEPTH_def elim!: op_2DROP.elims op_2DUP.elims op_3DUP.elims op_2OVER.elims op_2ROT.elims
      op_2SWAP.elims op_IFDUP.elims op_DROP.elims op_DUP.elims op_NIP.elims op_OVER.elims op_ROT.elims
      op_SWAP.elims op_TUCK.elims op_SIZE.elims split: if_splits)
  done

lemma stack_op_ok:
  assumes "map_of stack_opcodes opcode = Some f" and "stack_op f st = Inr st'" and "elems_ok st"
  shows "elems_ok st'"
  using assms stack_opcodes_elems[OF map_of_SomeD[OF assms(1)]]
  by (fastforce simp: stack_op_def elems_ok_def split: option.splits)

lemma op_control_ok:
  "op_pushnum opcode st = Inr st' \<Longrightarrow> elems_ok st \<Longrightarrow> elems_ok st'"
  "op_CHECKLOCKTIMEVERIFY env st = Inr st' \<Longrightarrow> elems_ok st \<Longrightarrow> elems_ok st'"
  "op_NOPn env st = Inr st' \<Longrightarrow> elems_ok st \<Longrightarrow> elems_ok st'"
  "op_IF fExec opcode st = Inr st' \<Longrightarrow> elems_ok st \<Longrightarrow> elems_ok st'"
  "op_ELSE st = Inr st' \<Longrightarrow> elems_ok st \<Longrightarrow> elems_ok st'"
  "op_ENDIF st = Inr st' \<Longrightarrow> elems_ok st \<Longrightarrow> elems_ok st'"
  "op_VERIFY st = Inr st' \<Longrightarrow> elems_ok st \<Longrightarrow> elems_ok st'"
  "op_TOALTSTACK st = Inr st' \<Longrightarrow> elems_ok st \<Longrightarrow> elems_ok st'"
  "op_FROMALTSTACK st = Inr st' \<Longrightarrow> elems_ok st \<Longrightarrow> elems_ok st'"
  "op_CHECKCOLDSTAKEVERIFY env script st = Inr st' \<Longrightarrow> elems_ok st \<Longrightarrow> elems_ok st'"
  by (auto simp: op_pushnum_def op_CHECKLOCKTIMEVERIFY_def op_NOPn_def op_IF_def op_ELSE_def op_ENDIF_def op_VERIFY_def
      op_TOALTSTACK_def op_FROMALTSTACK_def op_CHECKCOLDSTAKEVERIFY_def elems_ok_def ebind_Inr Let_def
      split: if_splits list.splits)

lemma op_data_ok:
  "op_EQUAL opcode st = Inr st' \<Longrightarrow> elems_ok st \<Longrightarrow> elems_ok st'"
  "op_unary env opcode st = Inr st' \<Longrightarrow> elems_ok st \<Longrightarrow> elems_ok st'"
  "op_binary env opcode st = Inr st' \<Longrightarrow> elems_ok st \<Longrightarrow> elems_ok st'"
  "op_WITHIN env st = Inr st' \<Longrightarrow> elems_ok st \<Longrightarrow> elems_ok st'"
  "op_HASHES env opcode st = Inr st' \<Longrightarrow> elems_ok st \<Longrightarrow> elems_ok st'"
  "op_CHECKSIG env opcode st = Inr st' \<Longrightarrow> elems_ok st \<Longrightarrow> elems_ok st'"
  by (auto simp: op_EQUAL_def op_unary_def op_binary_def op_WITHIN_def op_HASHES_def op_CHECKSIG_def
      elems_ok_def ebind_Inr Let_def
      split: if_splits list.splits)

lemma op_PICK_ok: "op_PICK env opcode st = Inr st' \<Longrightarrow> elems_ok st \<Longrightarrow> elems_ok st'"
  by (auto simp: op_PICK_def ebind_Inr Let_def stacktop_def elems_ok_def in_set_conv_nth[symmetric]
      split: if_splits dest!: in_set_takeD in_set_dropD intro!: nth_mem)

lemma multisig_finish_Inr:
  "multisig_finish env opcode fSuccess rest st = Inr st' \<Longrightarrow>
     \<exists>dummy s b. rest = dummy # s \<and> (st' = st\<lparr>es_stack := s\<rparr> \<or> st' = st\<lparr>es_stack := (if b then vchTrue else vchFalse) # s\<rparr>)"
  by (fastforce simp: multisig_finish_def split: list.split_asm if_split_asm)

lemma multisig_finish_ok:
  assumes "multisig_finish env opcode fSuccess rest st = Inr st'" and "set rest \<subseteq> set (es_stack st)" and "elems_ok st"
  shows "elems_ok st'"
  using multisig_finish_Inr[OF assms(1)] assms(2,3) by (auto 4 4 simp: elems_ok_def dest: subsetD)

lemma op_CHECKMULTISIG_ok: "op_CHECKMULTISIG env opcode st = Inr st' \<Longrightarrow> elems_ok st \<Longrightarrow> elems_ok st'"
  by (auto simp: op_CHECKMULTISIG_def ebind_Inr Let_def split: if_split_asm elim!: multisig_finish_ok)
    (auto simp: elems_ok_def dest: in_set_dropD)

lemmas op_ok = op_control_ok op_data_ok op_PICK_ok op_CHECKMULTISIG_ok

lemma EvalScript_switch_ok:
  assumes "EvalScript_switch env script fExec opcode pc st = Inr st'" and "elems_ok st"
  shows "elems_ok st'"
proof -
  have codehash: "elems_ok (st\<lparr>es_codehash := pc\<rparr>)" using assms(2) by (simp add: elems_ok_def)
  show ?thesis
    using assms codehash unfolding EvalScript_switch_def
    by (simp split: if_split_asm option.split_asm) (blast intro: op_ok stack_op_ok)+
qed

text \<open>
  The script from which signatures are hashed is a suffix of the one evaluated.
\<close>

lemma op_CHECKMULTISIG_codehash: "op_CHECKMULTISIG env opcode st = Inr st' \<Longrightarrow> es_codehash st' = es_codehash st"
  by (auto simp: op_CHECKMULTISIG_def ebind_Inr Let_def split: if_split_asm dest!: multisig_finish_Inr)

lemma op_codehash:
  "op_pushnum opcode st = Inr st' \<Longrightarrow> es_codehash st' = es_codehash st"
  "op_CHECKLOCKTIMEVERIFY env st = Inr st' \<Longrightarrow> es_codehash st' = es_codehash st"
  "op_NOPn env st = Inr st' \<Longrightarrow> es_codehash st' = es_codehash st"
  "op_IF fExec opcode st = Inr st' \<Longrightarrow> es_codehash st' = es_codehash st"
  "op_ELSE st = Inr st' \<Longrightarrow> es_codehash st' = es_codehash st"
  "op_ENDIF st = Inr st' \<Longrightarrow> es_codehash st' = es_codehash st"
  "op_VERIFY st = Inr st' \<Longrightarrow> es_codehash st' = es_codehash st"
  "op_TOALTSTACK st = Inr st' \<Longrightarrow> es_codehash st' = es_codehash st"
  "op_FROMALTSTACK st = Inr st' \<Longrightarrow> es_codehash st' = es_codehash st"
  "op_PICK env opcode st = Inr st' \<Longrightarrow> es_codehash st' = es_codehash st"
  "op_EQUAL opcode st = Inr st' \<Longrightarrow> es_codehash st' = es_codehash st"
  "op_unary env opcode st = Inr st' \<Longrightarrow> es_codehash st' = es_codehash st"
  "op_binary env opcode st = Inr st' \<Longrightarrow> es_codehash st' = es_codehash st"
  "op_WITHIN env st = Inr st' \<Longrightarrow> es_codehash st' = es_codehash st"
  "op_HASHES env opcode st = Inr st' \<Longrightarrow> es_codehash st' = es_codehash st"
  "op_CHECKSIG env opcode st = Inr st' \<Longrightarrow> es_codehash st' = es_codehash st"
  "op_CHECKCOLDSTAKEVERIFY env script st = Inr st' \<Longrightarrow> es_codehash st' = es_codehash st"
  "stack_op f st = Inr st' \<Longrightarrow> es_codehash st' = es_codehash st"
  by (auto simp: op_pushnum_def op_CHECKLOCKTIMEVERIFY_def op_NOPn_def op_IF_def op_ELSE_def op_ENDIF_def op_VERIFY_def
      op_TOALTSTACK_def op_FROMALTSTACK_def op_CHECKCOLDSTAKEVERIFY_def op_PICK_def stack_op_def
      op_EQUAL_def op_unary_def op_binary_def op_WITHIN_def op_HASHES_def op_CHECKSIG_def ebind_Inr Let_def
      split: if_splits list.splits option.splits)

lemma switch_codehash:
  assumes "EvalScript_switch env script fExec opcode pc st = Inr st'"
  shows "es_codehash st' = es_codehash st \<or> es_codehash st' = pc"
  using assms unfolding EvalScript_switch_def
  by (simp split: if_split_asm option.split_asm) (auto dest: op_codehash op_CHECKMULTISIG_codehash)

definition eval_ok :: "CScript \<Rightarrow> bytes \<Rightarrow> eval_state \<Rightarrow> bool" where
  "eval_ok script pc st \<longleftrightarrow>
     elems_ok st \<and> length (es_stack st) + length (es_altstack st) \<le> 1000 \<and>
     suffix pc script \<and> suffix (es_codehash st) script"

lemma EvalScript_step_ok:
  assumes "EvalScript_step env script opcode d pc st = Inr st'" and "elems_ok st"
    and "suffix (es_codehash st) script" and "suffix pc script"
  shows "eval_ok script pc st'"
proof -
  define st1 where "st1 = st\<lparr>es_nOpCount := if OP_16 < opcode then es_nOpCount st + 1 else es_nOpCount st\<rparr>"
  from assms(1) have d: "length d \<le> MAX_SCRIPT_ELEMENT_SIZE" and op: "es_nOpCount st1 \<le> 201 \<or> opcode \<le> OP_16"
    and x: "EvalScript_exec env script (False \<notin> set (es_vfExec st)) opcode d pc st1 = Inr st'"
    and len: "length (es_stack st') + length (es_altstack st') \<le> 1000"
    by (auto simp: EvalScript_step_def st1_def Let_def ebind_Inr split: if_splits)
  have st1: "elems_ok st1" "es_codehash st1 = es_codehash st" using assms(2) op by (auto simp: st1_def elems_ok_def)
  have "elems_ok st' \<and> (es_codehash st' = es_codehash st1 \<or> es_codehash st' = pc)"
    using x st1(1) d EvalScript_switch_ok switch_codehash
    by (simp add: EvalScript_exec_def split: if_split_asm) (auto simp: elems_ok_def)
  with st1 len assms(3,4) show ?thesis by (auto simp: eval_ok_def)
qed

text \<open>The configurations an evaluation passes through, as pairs of the rest of the script and the state.\<close>

inductive eval_reach :: "script_env \<Rightarrow> CScript \<Rightarrow> valtype list \<Rightarrow> bytes \<Rightarrow> eval_state \<Rightarrow> bool"
  for env script stack where
  init: "eval_reach env script stack script (EvalScript_init stack script)"
| step: "eval_reach env script stack pc' st'"
    if "eval_reach env script stack pc st" and "GetOp2 pc = (True, opcode, d, pc')"
      and "EvalScript_step env script opcode d pc' st = Inr st'"

lemma GetOp2_rest_suffix: "GetOp2 pc = (r, opcode, d, pc') \<Longrightarrow> suffix pc' pc"
  by (auto simp: GetOp2_def GetOp2_size_def suffix_ConsI suffix_drop split: list.splits if_splits option.splits
      intro: suffix_order.trans[OF suffix_drop] suffix_ConsI)

lemma eval_reach_ok:
  assumes "eval_reach env script stack pc st"
    and "\<forall>x\<in>set stack. length x \<le> MAX_SCRIPT_ELEMENT_SIZE" and "length stack \<le> 1000"
  shows "eval_ok script pc st"
  using assms(1)
proof induction
  case init
  then show ?case using assms(2,3) by (simp add: eval_ok_def EvalScript_init_def elems_ok_def)
next
  case (step pc st opcode d pc' st')
  then show ?case
    using EvalScript_step_ok[of env script opcode d pc' st st'] GetOp2_rest_suffix[of pc True opcode d pc']
      suffix_order.trans[of pc' pc script]
    by (auto simp: eval_ok_def)
qed

lemma EvalScript_loop_step:
  "GetOp2 pc = (True, opcode, d, pc') \<Longrightarrow> EvalScript_loop env script pc st =
     (case EvalScript_step env script opcode d pc' st of Inl e \<Rightarrow> Inl e | Inr st' \<Rightarrow> EvalScript_loop env script pc' st')"
  by (subst EvalScript_loop.simps) (auto simp: GetOp2_def)

lemma EvalScript_loop_Nil [simp]: "EvalScript_loop env script [] st = Inr st"
  by (simp add: EvalScript_loop.simps)

lemma EvalScript_loop_fail:
  "pc \<noteq> [] \<Longrightarrow> GetOp2 pc = (False, opcode, d, pc') \<Longrightarrow> EvalScript_loop env script pc st = Inl (Fail SCRIPT_ERR_BAD_OPCODE)"
  by (simp add: EvalScript_loop.simps)

lemma EvalScript_loop_reach:
  "EvalScript_loop env script pc st = Inr st' \<Longrightarrow> eval_reach env script stack pc st \<Longrightarrow> eval_reach env script stack [] st'"
proof (induction pc arbitrary: st rule: script_induct)
  case (Step pc opcode d pc')
  then show ?case by (auto simp: EvalScript_loop_step split: sum.splits intro: eval_reach.step)
qed (simp_all add: EvalScript_loop_fail)

section \<open>No stack access is out of range\<close>

lemma script_num_range [simp]: "script_num env x k \<noteq> Inl (Throw OutOfRange)"
  by (simp add: script_num_def split: sum.splits)

lemma check_sig_range [simp]: "check_sig env s k code \<noteq> Inl (Throw OutOfRange)"
  by (simp add: check_sig_def split: option.splits)

lemma stacktop_range [simp]: "stacktop s i = Inl (Throw OutOfRange) \<longleftrightarrow> \<not> (1 \<le> i \<and> i \<le> int (length s))"
  by (simp add: stacktop_def)

lemma stacktop_Inl: "stacktop s i = Inl e \<Longrightarrow> e = Throw OutOfRange"
  by (simp add: stacktop_def split: if_splits)

lemma multisig_code_range:
  "1 \<le> isig \<Longrightarrow> isig + int k \<le> int (length s) + 1 \<Longrightarrow> multisig_code s isig k code \<noteq> Inl e"
  by (induction k arbitrary: isig code) (auto simp: ebind_Inl stacktop_def)

lemma multisig_loop_range:
  "1 \<le> isig \<Longrightarrow> 1 \<le> ikey \<Longrightarrow> isig + ns \<le> int (length s) + 1 \<Longrightarrow> ikey + nk \<le> int (length s) + 1 \<Longrightarrow>
     (ok \<longrightarrow> ns \<le> nk) \<Longrightarrow> multisig_loop env s code ok isig ns ikey nk \<noteq> Inl (Throw OutOfRange)"
proof (induction env s code ok isig ns ikey nk rule: multisig_loop.induct)
  case (1 env s code ok isig ns ikey nk)
  show ?case
  proof (cases "ok \<and> 0 < ns")
    case True
    obtain vs vk where v: "stacktop s isig = Inr vs" "stacktop s ikey = Inr vk"
      using 1(2-6) True by (auto simp: stacktop_def)
    show ?thesis
    proof (cases "check_sig env vs vk code")
      case (Inr r)
      then show ?thesis
        using 1(1)[OF True v Inr refl refl refl refl] 1(2-6) True v
        by (subst multisig_loop.simps) (simp add: Let_def)
    qed (use True v check_sig_range[of env vs vk code] in \<open>subst multisig_loop.simps; auto\<close>)
  qed (subst multisig_loop.simps, auto)
qed

lemma multisig_finish_range [simp]: "multisig_finish env opcode fSuccess rest st \<noteq> Inl (Throw OutOfRange)"
  by (simp add: multisig_finish_def split: list.split)

lemma op_CHECKMULTISIG_range: "op_CHECKMULTISIG env opcode st \<noteq> Inl (Throw OutOfRange)"
  by (auto simp: op_CHECKMULTISIG_def ebind_Inl Let_def multisig_code_range multisig_loop_range Suc_le_eq
      split: if_split_asm)

lemma op_range:
  "op_pushnum opcode st \<noteq> Inl (Throw OutOfRange)"
  "op_CHECKLOCKTIMEVERIFY env st \<noteq> Inl (Throw OutOfRange)"
  "op_NOPn env st \<noteq> Inl (Throw OutOfRange)"
  "op_IF fExec opcode st \<noteq> Inl (Throw OutOfRange)"
  "op_ELSE st \<noteq> Inl (Throw OutOfRange)"
  "op_ENDIF st \<noteq> Inl (Throw OutOfRange)"
  "op_VERIFY st \<noteq> Inl (Throw OutOfRange)"
  "op_TOALTSTACK st \<noteq> Inl (Throw OutOfRange)"
  "op_FROMALTSTACK st \<noteq> Inl (Throw OutOfRange)"
  "op_PICK env opcode st \<noteq> Inl (Throw OutOfRange)"
  "op_EQUAL opcode st \<noteq> Inl (Throw OutOfRange)"
  "op_unary env opcode st \<noteq> Inl (Throw OutOfRange)"
  "op_binary env opcode st \<noteq> Inl (Throw OutOfRange)"
  "op_WITHIN env st \<noteq> Inl (Throw OutOfRange)"
  "op_HASHES env opcode st \<noteq> Inl (Throw OutOfRange)"
  "op_CHECKSIG env opcode st \<noteq> Inl (Throw OutOfRange)"
  "op_CHECKCOLDSTAKEVERIFY env script st \<noteq> Inl (Throw OutOfRange)"
  "stack_op f st \<noteq> Inl (Throw OutOfRange)"
  by (auto simp: op_pushnum_def op_CHECKLOCKTIMEVERIFY_def op_NOPn_def op_IF_def op_ELSE_def op_ENDIF_def op_VERIFY_def
      op_TOALTSTACK_def op_FROMALTSTACK_def op_CHECKCOLDSTAKEVERIFY_def op_PICK_def stack_op_def
      op_EQUAL_def op_unary_def op_binary_def op_WITHIN_def op_HASHES_def op_CHECKSIG_def ebind_Inl Let_def
      split: if_splits list.splits option.splits)

lemma EvalScript_step_range: "EvalScript_step env script opcode d pc st \<noteq> Inl (Throw OutOfRange)"
proof -
  have "EvalScript_switch env script fExec opcode pc st \<noteq> Inl (Throw OutOfRange)" for fExec st
    by (simp add: EvalScript_switch_def op_range op_CHECKMULTISIG_range split: option.split)
  then show ?thesis by (simp add: EvalScript_step_def EvalScript_exec_def ebind_Inl Let_def)
qed

text \<open>C15: Evaluating a script stays within the consensus limits.  In every configuration that \<open>EvalScript\<close> passes
  through, each element of the two stacks has at most 520 bytes, the stacks hold at most 1000 elements together, the
  operation count is between 0 and 201, and both the program position and the start of the code that signatures
  cover are positions of the script.
\<close>

theorem evaluation_limits:
  assumes "eval_reach env script stack pc st"
    and "\<forall>x\<in>set stack. length x \<le> MAX_SCRIPT_ELEMENT_SIZE" and "length stack \<le> 1000"
  shows "(\<forall>x \<in> set (es_stack st) \<union> set (es_altstack st). length x \<le> 520) \<and>
     length (es_stack st) + length (es_altstack st) \<le> 1000 \<and> 0 \<le> es_nOpCount st \<and> es_nOpCount st \<le> 201 \<and>
     suffix pc script \<and> suffix (es_codehash st) script"
  using eval_reach_ok[OF assms] by (auto simp: eval_ok_def elems_ok_def MAX_SCRIPT_ELEMENT_SIZE_def)

definition sample_env :: script_env where
  "sample_env = \<lparr>se_flags = 0x3ff, se_checker = base_checker\<lparr>CheckSig_c := \<lambda>s k c v. Some (hd s = hd k)\<rparr>,
     se_sigversion = SIGVERSION_BASE, se_CheckLowS = \<lambda>s. True, se_mem = replicate 64 0\<rparr>"

lemma sample_run:
  "EvalScript_loop sample_env [OP_1, OP_DUP] [OP_1, OP_DUP] (EvalScript_init [] [OP_1, OP_DUP]) =
     Inr (EvalScript_init [[1], [1]] [OP_1, OP_DUP]\<lparr>es_nOpCount := 1\<rparr>)"
  by code_simp

theorem evaluation_limits_witness:
  "es_nOpCount (EvalScript_init [[1], [1]] [OP_1, OP_DUP]\<lparr>es_nOpCount := 1\<rparr>) \<le> 201"
  using evaluation_limits[OF EvalScript_loop_reach[OF sample_run eval_reach.init]] by simp


section \<open>Multiple signatures\<close>

text \<open>
  \<open>k\<close>-of-\<open>n\<close>: the signatures match, in order, keys among those given.
\<close>

definition multisig_match :: "(valtype \<Rightarrow> valtype \<Rightarrow> bool) \<Rightarrow> valtype list \<Rightarrow> valtype list \<Rightarrow> bool" where
  "multisig_match valid sigs keys \<longleftrightarrow> (\<exists>ks. subseq ks keys \<and> list_all2 valid sigs ks)"

lemma multisig_match_Nil [simp]: "multisig_match valid [] keys"
  by (auto simp: multisig_match_def)

lemma multisig_match_short: "length keys < length sigs \<Longrightarrow> \<not> multisig_match valid sigs keys"
  by (auto simp: multisig_match_def dest: list_all2_lengthD list_emb_length)

text \<open>Taking the first key that fits loses nothing, because every later signature needs a later key.\<close>

lemma multisig_match_Cons:
  "multisig_match valid (s # sigs) (k # keys) \<longleftrightarrow>
     (if valid s k then multisig_match valid sigs keys else multisig_match valid (s # sigs) keys)"
proof -
  have drop1: "multisig_match valid sigs keys" if "multisig_match valid (s # sigs) keys" for keys
    using that subseq_Cons' by (fastforce simp: multisig_match_def list_all2_Cons1)
  have "multisig_match valid (s # sigs) (k # keys) \<longleftrightarrow>
      multisig_match valid (s # sigs) keys \<or> valid s k \<and> multisig_match valid sigs keys"
    by (auto simp: multisig_match_def list_all2_Cons1 elim!: list_emb.cases[of _ _ "k # keys"] intro: list_emb_Cons subseq_Cons2)
  then show ?thesis using drop1 by auto
qed

lemma multisig_loop_match:
  assumes "\<And>s k. s \<in> set sigs \<Longrightarrow> k \<in> set keys \<Longrightarrow> check_sig env s k code = Inr (valid s k)"
    and "\<And>i. i < length sigs \<Longrightarrow> stacktop stack (isig + int i) = Inr (sigs ! i)"
    and "\<And>i. i < length keys \<Longrightarrow> stacktop stack (ikey + int i) = Inr (keys ! i)"
    and "length sigs \<le> length keys"
  shows "multisig_loop env stack code True isig (int (length sigs)) ikey (int (length keys)) =
    Inr (multisig_match valid sigs keys)"
  using assms
proof (induction keys arbitrary: sigs isig ikey)
  case Nil
  then show ?case by (simp add: multisig_loop.simps)
next
  case (Cons k keys)
  show ?case
  proof (cases sigs)
    case Nil
    then show ?thesis by (simp add: multisig_loop.simps)
  next
    case (Cons s ss)
    have top: "stacktop stack isig = Inr s" "stacktop stack ikey = Inr k" "check_sig env s k code = Inr (valid s k)"
      using Cons.prems(2)[of 0] Cons.prems(3)[of 0] Cons.prems(1)[of s k] Cons by simp_all
    have keys': "stacktop stack (ikey + 1 + int i) = Inr (keys ! i)" if "i < length keys" for i
      using Cons.prems(3)[of "Suc i"] that by (simp add: add_ac)
    define sigs' where "sigs' = (if valid s k then ss else sigs)"
    define isig' where "isig' = (if valid s k then isig + 1 else isig)"
    have sigs': "stacktop stack (isig' + int i) = Inr (sigs' ! i)" if "i < length sigs'" for i
      using Cons.prems(2)[of "if valid s k then Suc i else i"] that Cons by (auto simp: sigs'_def isig'_def add_ac split: if_splits)
    have step: "multisig_loop env stack code True isig (int (length sigs)) ikey (int (length (k # keys))) =
        multisig_loop env stack code (length sigs' \<le> length keys) isig' (int (length sigs')) (ikey + 1) (int (length keys))"
    proof -
      have "(1 + int (length ss) \<le> int (length keys)) = (Suc (length ss) \<le> length keys)" by linarith
      then show ?thesis
        by (subst multisig_loop.simps) (simp add: top Cons sigs'_def isig'_def Let_def not_less)
    qed
    have match: "multisig_match valid sigs (k # keys) \<longleftrightarrow> multisig_match valid sigs' keys"
      by (simp add: Cons multisig_match_Cons sigs'_def)
    show ?thesis
    proof (cases "length sigs' \<le> length keys")
      case True
      have "multisig_loop env stack code True isig' (int (length sigs')) (ikey + 1) (int (length keys)) =
          Inr (multisig_match valid sigs' keys)"
        using Cons.prems(1) Cons by (intro Cons.IH sigs' keys' True) (auto simp: sigs'_def split: if_splits)
      then show ?thesis by (simp only: step match True)
    next
      case False
      then show ?thesis
        by (simp only: step match) (simp add: multisig_loop.simps multisig_match_short)
    qed
  qed
qed

lemma script_num_serialize [simp]: "\<bar>n\<bar> < 2 ^ 31 \<Longrightarrow> script_num env (scriptnum_serialize n) nDefaultMaxNumSize = Inr n"
  using CScriptNum_serialize[of 4 n "fRequireMinimal env"] by (simp add: script_num_def nDefaultMaxNumSize_def)

lemma getint_small [simp]: "\<bar>n\<bar> < 2 ^ 31 \<Longrightarrow> getint n = n"
  by (auto simp: getint_def abs_less_iff)

lemma stacktop_nth: "i < length s \<Longrightarrow> j = int i + 1 \<Longrightarrow> stacktop s j = Inr (s ! i)"
  by (simp add: stacktop_def nat_add_distrib)

text \<open>\<open>scriptCode\<close> without the signatures.\<close>

definition delete_sigs :: "CScript \<Rightarrow> valtype list \<Rightarrow> CScript" where
  "delete_sigs code sigs = foldl (\<lambda>c s. fst (FindAndDelete c (push_data [] s))) code sigs"

lemma multisig_code_delete:
  assumes "\<And>i. i < length sigs \<Longrightarrow> stacktop stack (isig + int i) = Inr (sigs ! i)"
  shows "multisig_code stack isig (length sigs) code = Inr (delete_sigs code sigs)"
  using assms
proof (induction sigs arbitrary: isig code)
  case (Cons s sigs)
  have 0: "stacktop stack isig = Inr s" using Cons.prems[of 0] by simp
  have "stacktop stack (isig + 1 + int i) = Inr (sigs ! i)" if "i < length sigs" for i
    using Cons.prems[of "Suc i"] that by (simp add: add_ac)
  then show ?case by (simp add: 0 Cons.IH delete_sigs_def)
qed (simp add: delete_sigs_def)

lemma multisig_stack:
  fixes keys sigs rest :: "valtype list" and a b dummy :: valtype
  defines "stack \<equiv> a # keys @ b # sigs @ dummy # rest"
  shows "i < length keys \<Longrightarrow> stacktop stack (2 + int i) = Inr (keys ! i)"
    and "stacktop stack (2 + int (length keys)) = Inr b"
    and "i < length sigs \<Longrightarrow> stacktop stack (3 + int (length keys) + int i) = Inr (sigs ! i)"
    and "drop (nat (2 + (int (length keys) + int (length sigs)))) stack = dummy # rest"
proof -
  show "i < length keys \<Longrightarrow> stacktop stack (2 + int i) = Inr (keys ! i)"
    by (subst stacktop_nth[of "Suc i"]) (simp_all add: stack_def nth_append)
  show "stacktop stack (2 + int (length keys)) = Inr b"
    by (subst stacktop_nth[of "Suc (length keys)"]) (simp_all add: stack_def nth_append)
  show "i < length sigs \<Longrightarrow> stacktop stack (3 + int (length keys) + int i) = Inr (sigs ! i)"
    by (subst stacktop_nth[of "Suc (Suc (length keys + i))"]) (simp_all add: stack_def nth_append)
  have "nat (2 + (int (length keys) + int (length sigs))) = Suc (length keys + Suc (length sigs))" by simp
  then show "drop (nat (2 + (int (length keys) + int (length sigs)))) stack = dummy # rest"
    by (simp only: stack_def drop_Suc_Cons) (simp add: drop_append)
qed

text \<open>C16: \<open>OP_CHECKMULTISIG\<close> is \<open>k\<close>-of-\<open>n\<close> with order.  On a stack that holds \<open>n\<close> keys and
  \<open>k\<close> signatures, the loop that walks both lists once and gives up early succeeds exactly when there are \<open>k\<close>
  of the keys, in the order given, that verify the signatures one by one.  The signed code is the script since the last
  separator with the signatures removed; one extra element is consumed; every key counts as an operation.  The
  \<open>VERIFY\<close> variant fails where the plain one pushes false.
\<close>

theorem checkmultisig_matches:
  assumes stack: "es_stack st = scriptnum_serialize (int (length keys)) # keys @
      scriptnum_serialize (int (length sigs)) # sigs @ [] # rest"
    and counts: "length sigs \<le> length keys" "length keys \<le> 20" "es_nOpCount st + int (length keys) \<le> 201"
    and checks: "\<forall>s\<in>set sigs. \<forall>k\<in>set keys.
      check_sig env s k (delete_sigs (es_codehash st) sigs) = Inr (valid s k)"
  shows "op_CHECKMULTISIG env OP_CHECKMULTISIG st =
      Inr (st\<lparr>es_stack := (if multisig_match valid sigs keys then vchTrue else vchFalse) # rest,
             es_nOpCount := es_nOpCount st + int (length keys)\<rparr>) \<and>
    op_CHECKMULTISIG env OP_CHECKMULTISIGVERIFY st =
      (if multisig_match valid sigs keys
       then Inr (st\<lparr>es_stack := rest, es_nOpCount := es_nOpCount st + int (length keys)\<rparr>)
       else Inl (Fail SCRIPT_ERR_CHECKMULTISIGVERIFY))"
proof -
  note ms = multisig_stack[where a = "scriptnum_serialize (int (length keys))" and b = "scriptnum_serialize (int (length sigs))"
      and keys = keys and sigs = sigs and dummy = "[]" and rest = rest, folded stack]
  have top: "stacktop (es_stack st) 1 = Inr (scriptnum_serialize (int (length keys)))" by (simp add: stack stacktop_def)
  have len: "int (length (es_stack st)) = 3 + int (length keys) + int (length sigs) + int (length rest)"
    "es_stack st \<noteq> []"
    by (simp_all add: stack)
  have code: "multisig_code (es_stack st) (3 + int (length keys)) (length sigs) (es_codehash st) =
      Inr (delete_sigs (es_codehash st) sigs)"
    by (intro multisig_code_delete ms(3))
  have loop: "multisig_loop env (es_stack st) (delete_sigs (es_codehash st) sigs) True (3 + int (length keys))
      (int (length sigs)) 2 (int (length keys)) = Inr (multisig_match valid sigs keys)"
    using checks counts ms(1,3) by (intro multisig_loop_match) auto
  have "op_CHECKMULTISIG env opcode st =
      multisig_finish env opcode (multisig_match valid sigs keys) ([] # rest)
        (st\<lparr>es_nOpCount := es_nOpCount st + int (length keys)\<rparr>)" for opcode
    using counts len by (simp add: op_CHECKMULTISIG_def MAX_PUBKEYS_PER_MULTISIG_def top ms(2,4) code loop Let_def)
  then show ?thesis by (simp add: multisig_finish_def)
qed

definition sample_multisig :: eval_state where
  "sample_multisig = EvalScript_init ([2] # [[3, 1], [2, 1]] @ [1] # [[2, 9]] @ [] # []) []"

theorem checkmultisig_matches_witness:
  "op_CHECKMULTISIG (sample_env\<lparr>se_flags := 0\<rparr>) OP_CHECKMULTISIG sample_multisig =
     Inr (sample_multisig\<lparr>es_stack := [vchTrue], es_nOpCount := 2\<rparr>)"
proof -
  have num: "scriptnum_serialize 2 = [2]" "scriptnum_serialize 1 = [1]" by code_simp+
  have "multisig_match (\<lambda>s k. hd s = hd k) [[2, 9]] [[3, 1], [2, 1]]" by (simp add: multisig_match_Cons)
  moreover have "\<forall>s\<in>{[2, 9]}. \<forall>k\<in>{[3, 1], [2, 1]}. \<forall>c. check_sig (sample_env\<lparr>se_flags := 0\<rparr>) s k c = Inr (hd s = hd k)"
    by (simp add: check_sig_def sample_env_def CheckSignatureEncoding_def CheckPubKeyEncoding_def)
  ultimately show ?thesis
    using checkmultisig_matches[of sample_multisig "[[3, 1], [2, 1]]" "[[2, 9]]" "[]" "sample_env\<lparr>se_flags := 0\<rparr>"
        "\<lambda>s k. hd s = hd k"]
    by (simp add: sample_multisig_def EvalScript_init_def num)
qed

section \<open>Standard scripts\<close>

subsection \<open>Symbolic evaluation\<close>

lemma GetOp2_direct: "length d \<le> 75 \<Longrightarrow> GetOp2 (of_nat (length d) # d @ pc) = (True, of_nat (length d), d, pc)"
  by (simp add: GetOp2_def GetOp2_size_def word_less_nat_alt word_le_nat_alt unat_of_nat)

lemma GetOp2_op: "OP_PUSHDATA4 < opcode \<Longrightarrow> GetOp2 (opcode # pc) = (True, opcode, [], pc)"
  by (auto simp: GetOp2_def dest: leD)

text \<open>A state outside every conditional, with room for more operations.\<close>

definition plain :: "eval_state \<Rightarrow> bool" where
  "plain st \<longleftrightarrow> es_vfExec st = [] \<and> es_nOpCount st < 201"

lemma loop_push:
  assumes "plain st" and "2 \<le> length d" and "length d \<le> 75"
  shows "EvalScript_loop env script (of_nat (length d) # d @ pc) st =
    (if 1000 \<le> length (es_stack st) + length (es_altstack st) then Inl (Fail SCRIPT_ERR_STACK_SIZE)
     else EvalScript_loop env script pc (st\<lparr>es_stack := d # es_stack st\<rparr>))"
proof -
  have op: "unat (of_nat (length d) :: u8) = length d" using assms(3) by (simp add: unat_of_nat)
  have min: "CheckMinimalPush d (of_nat (length d))"
    using assms(2,3) by (auto simp: CheckMinimalPush_def op)
  have dis: "(of_nat (length d) :: u8) \<notin> set disabled_opcodes"
    using assms(3) by (auto simp: disabled_opcodes_def word_unat_eq_iff op)
  have step: "EvalScript_step env script (of_nat (length d)) d pc st =
      (if 1000 \<le> length (es_stack st) + length (es_altstack st) then Inl (Fail SCRIPT_ERR_STACK_SIZE)
       else Inr (st\<lparr>es_stack := d # es_stack st\<rparr>))"
    using assms min dis
    by (simp add: EvalScript_step_def EvalScript_exec_def plain_def MAX_SCRIPT_ELEMENT_SIZE_def word_less_nat_alt word_le_nat_alt op)
  show ?thesis by (simp add: EvalScript_loop_step[OF GetOp2_direct[OF assms(3)]] step)
qed

lemma loop_op:
  assumes "plain st" and "OP_16 < opcode" and "opcode \<notin> set disabled_opcodes"
    and "EvalScript_switch env script True opcode pc (st\<lparr>es_nOpCount := es_nOpCount st + 1\<rparr>) = r"
  shows "EvalScript_loop env script (opcode # pc) st =
    ebind r (\<lambda>st'. if 1000 < length (es_stack st') + length (es_altstack st') then Inl (Fail SCRIPT_ERR_STACK_SIZE)
      else EvalScript_loop env script pc st')"
proof -
  have op: "OP_PUSHDATA4 < opcode" using assms(2) by (simp add: word_less_nat_alt)
  then have nop: "\<not> opcode \<le> OP_PUSHDATA4" by (simp only: not_le)
  have "EvalScript_step env script opcode [] pc st =
      ebind r (\<lambda>st'. if 1000 < length (es_stack st') + length (es_altstack st') then Inl (Fail SCRIPT_ERR_STACK_SIZE) else Inr st')"
    using assms nop by (simp add: EvalScript_step_def EvalScript_exec_def plain_def Let_def)
  then show ?thesis
    by (simp add: EvalScript_loop_step[OF GetOp2_op[OF op]] ebind_def split: sum.splits)
qed

lemmas switch_sets = disabled_opcodes_def numeric_unary_def numeric_binary_def hash_opcodes_def stack_opcodes_def

lemma switch_ops:
  "EvalScript_switch env script True OP_DUP pc st = stack_op op_DUP st"
  "EvalScript_switch env script True OP_HASH160 pc st = op_HASHES env OP_HASH160 st"
  "EvalScript_switch env script True OP_EQUAL pc st = op_EQUAL OP_EQUAL st"
  "EvalScript_switch env script True OP_EQUALVERIFY pc st = op_EQUAL OP_EQUALVERIFY st"
  "EvalScript_switch env script True OP_CHECKSIG pc st = op_CHECKSIG env OP_CHECKSIG st"
  by (simp_all add: EvalScript_switch_def switch_sets)

lemmas eval_op = loop_op[OF _ _ _ switch_ops(1)] loop_op[OF _ _ _ switch_ops(2)] loop_op[OF _ _ _ switch_ops(3)]
  loop_op[OF _ _ _ switch_ops(4)] loop_op[OF _ _ _ switch_ops(5)]

definition p2sh_script :: "bytes \<Rightarrow> CScript" where
  "p2sh_script h = [OP_HASH160, 0x14] @ h @ [OP_EQUAL]"

definition p2pkh_script :: "bytes \<Rightarrow> CScript" where
  "p2pkh_script h = [OP_DUP, OP_HASH160, 0x14] @ h @ [OP_EQUALVERIFY, OP_CHECKSIG]"

lemma loop_push20:
  assumes "length h = 20" and "plain st"
  shows "EvalScript_loop env script (0x14 # h @ pc) st =
    (if 1000 \<le> length (es_stack st) + length (es_altstack st) then Inl (Fail SCRIPT_ERR_STACK_SIZE)
     else EvalScript_loop env script pc (st\<lparr>es_stack := h # es_stack st\<rparr>))"
  using loop_push[OF assms(2), of h env script pc] assms(1) by simp

lemma OP_HASH160_step:
  "length (se_mem env) = 64 \<Longrightarrow> op_HASHES env OP_HASH160 st =
     (case es_stack st of [] \<Rightarrow> Inl (Fail SCRIPT_ERR_INVALID_STACK_OPERATION)
      | x # s \<Rightarrow> Inr (st\<lparr>es_stack := RIPEMD160 (SHA256 x) # s\<rparr>))"
  by (simp add: op_HASHES_def CHash160_Finalize_def Let_def sha256s.write_once ripemd160s.write_once
      CSHA256_new_absorbed CRIPEMD160_new_absorbed split: list.split)

lemma eval_p2sh:
  assumes "length h = 20" and "length (se_mem env) = 64"
  shows "EvalScript env stack (p2sh_script h) =
    (case stack of [] \<Rightarrow> Inl SCRIPT_ERR_INVALID_STACK_OPERATION
     | x # s \<Rightarrow> if 1000 \<le> length stack then Inl SCRIPT_ERR_STACK_SIZE
         else Inr ((if RIPEMD160 (SHA256 x) = h then vchTrue else vchFalse) # s))"
  using assms
  by (auto simp: EvalScript_def p2sh_script_def EvalScript_init_def eval_op loop_push20 OP_HASH160_step plain_def switch_sets
      op_EQUAL_def MAX_SCRIPT_SIZE_def not_le split: list.splits)

lemma p2sh_shape: "IsPayToScriptHash s \<longleftrightarrow> (\<exists>h. length h = 20 \<and> s = p2sh_script h)"
proof
  assume p: "IsPayToScriptHash s"
  then have len: "length s = 23" and s: "s ! 0 = OP_HASH160" "s ! 1 = 0x14" "s ! 22 = OP_EQUAL"
    by (simp_all add: IsPayToScriptHash_def)
  have "s = p2sh_script (take 20 (drop 2 s))"
  proof (rule nth_equalityI)
    fix i assume "i < length s"
    then consider "i = 0" | "i = 1" | "2 \<le> i" "i < 22" | "i = 22" using len by linarith
    then show "s ! i = p2sh_script (take 20 (drop 2 s)) ! i"
      using s by cases (auto simp: p2sh_script_def len nth_append nth_Cons' less_diff_conv2 intro!: arg_cong[where f = "(!) s"])
  qed (simp add: p2sh_script_def len)
  moreover have "length (take 20 (drop 2 s)) = 20" by (simp add: len)
  ultimately show "\<exists>h. length h = 20 \<and> s = p2sh_script h" by blast
qed (auto simp: IsPayToScriptHash_def p2sh_script_def nth_append)

lemma CastToBool_consts [simp]: "CastToBool vchTrue" "\<not> CastToBool vchFalse"
  by (simp_all add: vchTrue_def vchFalse_def)

lemma eval_true_no_abort: "eval_true r \<noteq> VerifyAbort"
  by (simp add: eval_true_def split: sum.splits list.splits)

lemma eval_true_p2sh:
  assumes "length h = 20" and "length (se_mem env) = 64"
  shows "eval_true (EvalScript env stack (p2sh_script h)) = Verified \<longleftrightarrow>
    (\<exists>x s. stack = x # s \<and> length stack < 1000 \<and> RIPEMD160 (SHA256 x) = h)"
  by (auto simp: eval_p2sh[OF assms] eval_true_def split: list.splits)

text \<open>C17: Paying to a script hash.  For the 23-byte script with hash \<open>h\<close>, when the rule is active, an input is verified
  exactly when its script only pushes data, the last item pushed hashes to \<open>h\<close>, and that item, run as a
  script on the rest of the stack, leaves a true value.  The assertion on the copied stack never fails.
\<close>

theorem p2sh_verification:
  assumes "length h = 20" and "length (se_mem env) = 64" and "flag env SCRIPT_VERIFY_P2SH"
  shows "(VerifyScript env sigScript (p2sh_script h) = Verified \<longleftrightarrow>
      IsPushOnly sigScript \<and>
      (\<exists>redeem s. EvalScript env [] sigScript = Inr (redeem # s) \<and> length (redeem # s) < 1000 \<and>
         RIPEMD160 (SHA256 redeem) = h \<and> eval_true (EvalScript env s redeem) = Verified)) \<and>
    VerifyScript env sigScript spk \<noteq> VerifyAbort"
proof
  have shape: "IsPayToScriptHash (p2sh_script h)" using assms(1) p2sh_shape by blast
  show "VerifyScript env sigScript (p2sh_script h) = Verified \<longleftrightarrow> IsPushOnly sigScript \<and>
      (\<exists>redeem s. EvalScript env [] sigScript = Inr (redeem # s) \<and> length (redeem # s) < 1000 \<and>
         RIPEMD160 (SHA256 redeem) = h \<and> eval_true (EvalScript env s redeem) = Verified)"
  proof (cases "EvalScript env [] sigScript")
    case (Inr stack)
    then show ?thesis
      using assms(3) shape eval_true_p2sh[OF assms(1,2), of stack]
      by (cases stack) (auto simp: VerifyScript_def Let_def)
  qed (simp add: VerifyScript_def)
  have "eval_true (EvalScript env [] (p2sh_script h')) \<noteq> Verified" if "length h' = 20" for h'
    by (simp add: eval_true_p2sh[OF that assms(2)])
  then have "\<not> IsPayToScriptHash spk" if "eval_true (EvalScript env [] spk) = Verified"
    using that p2sh_shape by auto
  then show "VerifyScript env sigScript spk \<noteq> VerifyAbort"
    using assms(3) eval_true_no_abort by (auto simp: VerifyScript_def Let_def split: sum.splits list.splits)
qed

theorem p2sh_verification_witness:
  "VerifyScript sample_env [1, OP_1] (p2sh_script (RIPEMD160 (SHA256 [OP_1]))) = Verified"
proof -
  have "EvalScript sample_env [] [1, OP_1] = Inr [[OP_1]]" "IsPushOnly [1, OP_1]"
    "eval_true (EvalScript sample_env [] [OP_1]) = Verified" "flag sample_env SCRIPT_VERIFY_P2SH"
    by code_simp+
  then show ?thesis
    using p2sh_verification[of "RIPEMD160 (SHA256 [OP_1])" sample_env "[1, OP_1]" "[]"]
    by (simp add: length_RIPEMD160 sample_env_def)
qed

subsection \<open>Pay to public key hash\<close>

text \<open>Where no instruction starts with the first byte of \<open>b\<close>, nothing is deleted.\<close>

lemma FindAndDelete_skip_other: "pc = [] \<or> hd pc \<noteq> c \<Longrightarrow> FindAndDelete_skip (c # b) pc k = (pc, k)"
  by (subst FindAndDelete_skip.simps) (cases pc; auto)

lemma FindAndDelete_loop_other:
  "snd (script_ops pc) \<Longrightarrow> (\<forall>(opcode, d)\<in>set (fst (script_ops pc)). opcode \<noteq> c) \<Longrightarrow>
     snd (snd (FindAndDelete_loop (c # b) pc pc2 result k)) = k"
proof (induction pc arbitrary: pc2 result rule: script_induct)
  case End
  then show ?case by (subst FindAndDelete_loop.simps) (simp add: FindAndDelete_skip_other GetOp2_def)
next
  case (Fail pc opcode d pc')
  then show ?case by (simp add: script_ops_fail)
next
  case (Step pc opcode d pc')
  have "hd pc = opcode" using Step(1,2) by (auto simp: GetOp2_def split: list.splits if_splits option.splits)
  then have "FindAndDelete_skip (c # b) pc k = (pc, k)"
    using Step.prems(2) by (intro FindAndDelete_skip_other) (simp add: script_ops_step[OF Step(2)])
  then show ?case
    using Step by (subst FindAndDelete_loop.simps) (auto simp: script_ops_step Let_def)
qed

lemma FindAndDelete_other:
  assumes "snd (script_ops script)" and "\<forall>(opcode, d)\<in>set (fst (script_ops script)). opcode \<noteq> c"
  shows "FindAndDelete script (c # b) = (script, 0)"
  using FindAndDelete_loop_other[OF assms, of b script "[]" 0]
  by (auto simp: FindAndDelete_def split: prod.splits)

lemma p2pkh_ops:
  assumes "length h = 20"
  shows "script_ops (p2pkh_script h) =
    ([(OP_DUP, []), (OP_HASH160, []), (0x14, h), (OP_EQUALVERIFY, []), (OP_CHECKSIG, [])], True)"
proof -
  have "GetOp2 (0x14 # h @ pc) = (True, 0x14, h, pc)" for pc using GetOp2_direct[of h pc] assms by simp
  then show ?thesis by (simp add: p2pkh_script_def script_ops_step GetOp2_op)
qed

lemma push_data_short: "length d \<le> 75 \<Longrightarrow> push_data s d = s @ of_nat (length d) # d"
  by (simp add: push_data_def)

lemma IsPushOnly_push: "length d \<le> 75 \<Longrightarrow> IsPushOnly (of_nat (length d) # d @ pc) = IsPushOnly pc"
  by (simp add: IsPushOnly_ops script_ops_step[OF GetOp2_direct] word_le_nat_alt unat_of_nat)

lemma eval_push2:
  assumes "2 \<le> length a" "length a \<le> 75" "2 \<le> length b" "length b \<le> 75"
  shows "EvalScript env [] (push_data (push_data [] a) b) = Inr [b, a]"
  using assms by (simp add: EvalScript_def MAX_SCRIPT_SIZE_def push_data_short EvalScript_init_def loop_push plain_def
      loop_push[where pc = "[]", simplified])

lemma p2pkh_not_p2sh: "length h = 20 \<Longrightarrow> \<not> IsPayToScriptHash (p2pkh_script h)"
  by (simp add: IsPayToScriptHash_def p2pkh_script_def)

definition p2pkh_result :: "bool ev \<Rightarrow> verify_result" where
  "p2pkh_result r =
     (case r of
        Inl (Fail e) \<Rightarrow> VerifyError e
      | Inl (Throw x) \<Rightarrow> VerifyError SCRIPT_ERR_UNKNOWN_ERROR
      | Inr True \<Rightarrow> Verified
      | Inr False \<Rightarrow> VerifyError SCRIPT_ERR_EVAL_FALSE)"

lemma eval_p2pkh:
  assumes "length h = 20" and "length (se_mem env) = 64" and "length s \<le> 75" and "length s \<noteq> 20"
  shows "eval_true (EvalScript env [key, s] (p2pkh_script h)) =
    (if RIPEMD160 (SHA256 key) \<noteq> h then VerifyError SCRIPT_ERR_EQUALVERIFY
     else p2pkh_result (check_sig env s key (p2pkh_script h)))"
proof -
  have "(of_nat (length s) :: u8) \<noteq> 0x14"  "(of_nat (length s) :: u8) \<noteq> OP_DUP" "(of_nat (length s) :: u8) \<noteq> OP_HASH160"
    "(of_nat (length s) :: u8) \<noteq> OP_EQUALVERIFY" "(of_nat (length s) :: u8) \<noteq> OP_CHECKSIG"
    using assms(3,4) by (auto simp: word_unat_eq_iff unat_of_nat)
  then have code: "fst (FindAndDelete (p2pkh_script h) (of_nat (length s) # s)) = p2pkh_script h"
    by (subst FindAndDelete_other) (simp_all add: p2pkh_ops[OF assms(1)])
  have "EvalScript_loop env script (p2pkh_script h) (EvalScript_init [key, s] (p2pkh_script h)) =
     (if RIPEMD160 (SHA256 key) \<noteq> h then Inl (Fail SCRIPT_ERR_EQUALVERIFY)
      else ebind (check_sig env s key (p2pkh_script h)) (\<lambda>ok.
        Inr (EvalScript_init [if ok then vchTrue else vchFalse] (p2pkh_script h)\<lparr>es_nOpCount := 4\<rparr>)))" for script
    unfolding p2pkh_script_def using assms(1,2)
    by (auto simp: EvalScript_init_def eval_op loop_push20 OP_HASH160_step plain_def switch_sets
        op_EQUAL_def op_CHECKSIG_def stack_op_def push_data_short[OF assms(3)]
        code[unfolded p2pkh_script_def, simplified] ebind_def split: sum.split)
  then show ?thesis using assms(1)
    by (auto simp: EvalScript_def MAX_SCRIPT_SIZE_def p2pkh_script_def p2pkh_result_def eval_true_def EvalScript_init_def ebind_def
        split: sum.splits script_fail.splits bool.splits)
qed

text \<open>C18: Paying to a public key hash.  With a signature and a key pushed by the input, the outcome is decided by two
  tests: the key must hash to \<open>h\<close>, and the signature must verify under the key, over the output script itself.
  Each way of failing yields its own error.
\<close>

theorem p2pkh_verification:
  assumes "length h = 20" and "length (se_mem env) = 64"
    and "2 \<le> length s" and "length s \<le> 75" and "length s \<noteq> 20" and "2 \<le> length key" and "length key \<le> 75"
  shows "VerifyScript env (push_data (push_data [] s) key) (p2pkh_script h) =
    (if RIPEMD160 (SHA256 key) \<noteq> h then VerifyError SCRIPT_ERR_EQUALVERIFY
     else p2pkh_result (check_sig env s key (p2pkh_script h)))"
proof -
  have "IsPushOnly (push_data (push_data [] s) key)"
    using assms IsPushOnly_push[of key "[]"] by (simp add: push_data_short IsPushOnly_push IsPushOnly_ops[of "[]"])
  then show ?thesis
    by (simp add: VerifyScript_def Let_def eval_push2 assms eval_p2pkh p2pkh_not_p2sh)
qed

theorem p2pkh_verification_witness:
  "VerifyScript (sample_env\<lparr>se_flags := 0\<rparr>) (push_data (push_data [] [2, 1]) [2, 5]) (p2pkh_script (RIPEMD160 (SHA256 [2, 5]))) =
     Verified"
proof -
  have "check_sig (sample_env\<lparr>se_flags := 0\<rparr>) [2, 1] [2, 5] c = Inr True" for c
    by (simp add: check_sig_def sample_env_def CheckSignatureEncoding_def CheckPubKeyEncoding_def)
  then show ?thesis
    using p2pkh_verification[of "RIPEMD160 (SHA256 [2, 5])" "sample_env\<lparr>se_flags := 0\<rparr>" "[2, 1]" "[2, 5]"]
    by (simp add: length_RIPEMD160 p2pkh_result_def) (simp add: sample_env_def)
qed

section \<open>Signature encodings\<close>

text \<open>
  DER, as the reference for \<open>IsValidSignatureEncoding\<close>: a non-negative integer is its big-endian bytes, with a zero
  in front where they are missing or the first has its top bit set.
\<close>

fun uint_bytes :: "nat \<Rightarrow> bytes" where
  "uint_bytes n = (if n = 0 then [] else uint_bytes (n div 256) @ [of_nat (n mod 256)])"

declare uint_bytes.simps [simp del]

definition der_uint :: "nat \<Rightarrow> bytes" where
  "der_uint n = (let bs = uint_bytes n in if bs = [] \<or> hd bs AND 0x80 \<noteq> 0 then 0 # bs else bs)"

definition der_signature :: "nat \<Rightarrow> nat \<Rightarrow> byte \<Rightarrow> bytes" where
  "der_signature r s ht =
     (let R = der_uint r; S = der_uint s
      in [0x30, of_nat (length R + length S + 4), 0x02, of_nat (length R)] @ R @
         [0x02, of_nat (length S)] @ S @ [ht])"

definition be_nat :: "bytes \<Rightarrow> nat" where
  "be_nat bs = foldl (\<lambda>a b. 256 * a + unat b) 0 bs"

lemma be_nat_snoc [simp]: "be_nat [] = 0" "be_nat (bs @ [b]) = 256 * be_nat bs + unat b"
  by (simp_all add: be_nat_def)

lemma be_nat_uint_bytes [simp]: "be_nat (uint_bytes n) = n"
  by (induction n rule: uint_bytes.induct) (subst uint_bytes.simps, simp add: unat_of_nat)

lemma be_nat_zero [simp]: "be_nat (0 # bs) = be_nat bs"
  by (simp add: be_nat_def)

lemma be_nat_pos: "bs \<noteq> [] \<Longrightarrow> hd bs \<noteq> 0 \<Longrightarrow> 0 < be_nat bs"
proof (induction bs rule: rev_induct)
  case (snoc b bs)
  then show ?case by (cases bs) (auto simp: be_nat_def unat_gt_0)
qed simp

lemma uint_bytes_be_nat: "bs = [] \<or> hd bs \<noteq> 0 \<Longrightarrow> uint_bytes (be_nat bs) = bs"
proof (induction bs rule: rev_induct)
  case Nil
  then show ?case by (simp add: uint_bytes.simps)
next
  case (snoc b bs)
  have pos: "0 < be_nat (bs @ [b])" using be_nat_pos[of "bs @ [b]"] snoc.prems by simp
  have "unat b < 256" using unsigned_less[of b] by simp
  then have "be_nat (bs @ [b]) div 256 = be_nat bs" "be_nat (bs @ [b]) mod 256 = unat b" by simp_all
  moreover have "uint_bytes (be_nat bs) = bs" using snoc by (cases bs) auto
  ultimately show ?case using pos by (subst uint_bytes.simps) (simp del: be_nat_snoc)
qed

lemma uint_bytes_hd: "uint_bytes n \<noteq> [] \<Longrightarrow> hd (uint_bytes n) \<noteq> 0"
proof (induction n rule: uint_bytes.induct)
  case (1 n)
  then show ?case
    by (subst uint_bytes.simps, subst (asm) (2) uint_bytes.simps)
      (cases "uint_bytes (n div 256) = []"; auto simp: uint_bytes.simps[of 0] word_unat_eq_iff unat_of_nat
        split: if_splits dest: arg_cong[where f = be_nat])
qed

definition der_int :: "bytes \<Rightarrow> bool" where
  "der_int R \<longleftrightarrow> R \<noteq> [] \<and> R ! 0 AND 0x80 = 0 \<and> \<not> (1 < length R \<and> R ! 0 = 0 \<and> R ! 1 AND 0x80 = 0)"

lemma be_nat_der_uint [simp]: "be_nat (der_uint n) = n"
  by (simp add: der_uint_def Let_def)

lemma der_int_der_uint: "der_int (der_uint n)"
  using uint_bytes_hd[of n] by (cases "uint_bytes n") (auto simp: der_uint_def der_int_def Let_def hd_conv_nth)

lemma der_uint_be_nat: "der_int R \<Longrightarrow> der_uint (be_nat R) = R"
proof (cases R)
  case (Cons b bs)
  assume R: "der_int R"
  show ?thesis
  proof (cases "b = 0")
    case True
    then have "bs = [] \<or> hd bs AND 0x80 \<noteq> 0" using R Cons by (auto simp: der_int_def hd_conv_nth nth_Cons')
    moreover from this have "uint_bytes (be_nat bs) = bs" by (intro uint_bytes_be_nat) auto
    ultimately show ?thesis by (simp add: Cons True der_uint_def Let_def)
  next
    case False
    then have "uint_bytes (be_nat R) = R" by (intro uint_bytes_be_nat) (simp add: Cons)
    then show ?thesis using R by (simp add: der_uint_def Let_def Cons der_int_def)
  qed
qed (simp add: der_int_def)

definition der_shape :: "bytes \<Rightarrow> bytes \<Rightarrow> byte \<Rightarrow> bytes" where
  "der_shape R S ht =
     [0x30, of_nat (length R + length S + 4), 0x02, of_nat (length R)] @ R @ [0x02, of_nat (length S)] @ S @ [ht]"

lemma length_der_shape [simp]: "length (der_shape R S ht) = length R + length S + 7"
  by (simp add: der_shape_def)

lemma nth_der_shape:
  "der_shape R S ht ! 0 = 0x30" "der_shape R S ht ! 1 = of_nat (length R + length S + 4)" "der_shape R S ht ! 2 = 0x02"
  "der_shape R S ht ! 3 = of_nat (length R)" "der_shape R S ht ! (length R + 4) = 0x02"
  "der_shape R S ht ! (5 + length R) = of_nat (length S)"
  "i < length R \<Longrightarrow> der_shape R S ht ! (4 + i) = R ! i"
  "j < length S \<Longrightarrow> der_shape R S ht ! (length R + 6 + j) = S ! j"
  by (simp_all add: der_shape_def nth_append nth_Cons')

lemma byte_of_nat: "k < 256 \<Longrightarrow> unat (of_nat k :: byte) = k"
  by (simp add: unat_of_nat)

lemma der_shape_valid:
  assumes "der_int R" and "der_int S" and "length R + length S + 7 \<le> 73"
  shows "IsValidSignatureEncoding (der_shape R S ht)"
proof -
  have len: "unat (of_nat (length R) :: byte) = length R" "unat (of_nat (length S) :: byte) = length S"
    "unat (of_nat (length R + length S + 4) :: byte) = length R + length S + 4"
    using assms(3) by (intro byte_of_nat; linarith)+
  have pos: "0 < length R" "0 < length S" using assms(1,2) by (auto simp: der_int_def)
  have R: "der_shape R S ht ! 4 = R ! 0" "1 < length R \<Longrightarrow> der_shape R S ht ! 5 = R ! 1"
    and S: "der_shape R S ht ! (length R + 6) = S ! 0" "1 < length S \<Longrightarrow> der_shape R S ht ! (length R + 7) = S ! 1"
    using nth_der_shape(7)[of 0 R S ht] nth_der_shape(7)[of 1 R S ht] nth_der_shape(8)[of 0 S R ht]
      nth_der_shape(8)[of 1 S R ht] pos by (simp_all add: add.commute[of 7])
  have two: "2 \<le> length R + length S" using pos by linarith
  have one: "unat (der_shape R S ht ! 1) = length (der_shape R S ht) - 3" using len by (simp only: nth_der_shape) simp
  show ?thesis
    using assms two R S unfolding IsValidSignatureEncoding_def one Let_def nth_der_shape len
    by (auto simp: der_int_def)
qed

lemma valid_der_shape:
  assumes v: "IsValidSignatureEncoding sig"
  obtains R S ht where "sig = der_shape R S ht" and "der_int R" and "der_int S" and "length sig \<le> 73"
proof -
  define lenR lenS where "lenR = unat (sig ! 3)" and "lenS = unat (sig ! (5 + lenR))"
  note facts = v[unfolded IsValidSignatureEncoding_def, folded lenR_def, unfolded Let_def, folded lenR_def lenS_def]
  have len: "length sig = lenR + lenS + 7" "length sig \<le> 73" "0 < lenR" "0 < lenS"
    and sig: "sig ! 0 = 0x30" "unat (sig ! 1) = length sig - 3" "sig ! 2 = 0x02" "sig ! (lenR + 4) = 0x02"
    and R0: "sig ! 4 AND 0x80 = 0" "\<not> (1 < lenR \<and> sig ! 4 = 0 \<and> sig ! 5 AND 0x80 = 0)"
    and S0: "sig ! (lenR + 6) AND 0x80 = 0" "\<not> (1 < lenS \<and> sig ! (lenR + 6) = 0 \<and> sig ! (lenR + 7) AND 0x80 = 0)"
    using facts by (auto split: if_split_asm)
  define R S where "R = take lenR (drop 4 sig)" and "S = take lenS (drop (6 + lenR) sig)"
  have lRS: "length R = lenR" "length S = lenS" using len by (simp_all add: R_def S_def)
  have bytes: "sig ! 3 = of_nat lenR" "sig ! (5 + lenR) = of_nat lenS" "sig ! 1 = of_nat (lenR + lenS + 4)"
    using sig(2) len(1,2) byte_of_nat[of "lenR + lenS + 4"]
    by (simp_all only: lenR_def[symmetric] lenS_def[symmetric] word_unat_eq_iff) (simp_all add: lenR_def lenS_def)
  have "sig = der_shape R S (sig ! (lenR + lenS + 6))"
  proof (rule nth_equalityI)
    fix i assume "i < length sig"
    then consider "i < 4" | "4 \<le> i" "i < 4 + lenR" | "i = 4 + lenR" | "i = 5 + lenR" | "6 + lenR \<le> i" "i < 6 + lenR + lenS"
      | "i = 6 + lenR + lenS" using len(1) by linarith
    then show "sig ! i = der_shape R S (sig ! (lenR + lenS + 6)) ! i"
    proof cases
      case 1
      then consider "i = 0" | "i = 1" | "i = 2" | "i = 3" by linarith
      then show ?thesis using sig bytes by cases (simp_all only: nth_der_shape lRS)
    next
      case 2
      then have "der_shape R S (sig ! (lenR + lenS + 6)) ! (4 + (i - 4)) = R ! (i - 4)"
        by (intro nth_der_shape(7)) (simp add: lRS less_diff_conv2)
      moreover have "R ! (i - 4) = sig ! i" using 2 len(1) by (simp add: R_def less_diff_conv2)
      ultimately show ?thesis using 2 by simp
    next
      case 3
      then show ?thesis using sig(4) nth_der_shape(5)[of R S] by (simp add: lRS add.commute)
    next
      case 4
      then show ?thesis using bytes(2) nth_der_shape(6)[of R S] by (simp add: lRS)
    next
      case 5
      then have "der_shape R S (sig ! (lenR + lenS + 6)) ! (length R + 6 + (i - 6 - lenR)) = S ! (i - 6 - lenR)"
        by (intro nth_der_shape(8)) (simp add: lRS less_diff_conv2)
      moreover have "S ! (i - 6 - lenR) = sig ! i" using 5 len(1) by (simp add: S_def less_diff_conv2)
      ultimately show ?thesis using 5 by (simp add: lRS)
    next
      case 6
      then show ?thesis by (simp add: der_shape_def nth_append nth_Cons' lRS add_ac)
    qed
  qed (simp add: lRS len(1))
  moreover have "der_int R" "der_int S"
    using R0 S0 len lRS by (auto simp: der_int_def R_def S_def add_ac)
  ultimately show ?thesis using that len(2) by blast
qed

lemma der_signature_shape: "der_signature r s ht = der_shape (der_uint r) (der_uint s) ht"
  by (simp add: der_signature_def der_shape_def Let_def)

lemma der_shape_inject:
  assumes "der_shape R S ht = der_shape R' S' ht'" and "length R + length S \<le> 66"
    and "length R' + length S' \<le> 66"
  shows "R = R' \<and> S = S' \<and> ht = ht'"
proof -
  have "of_nat (length R) = (of_nat (length R') :: byte)" using assms(1) by (simp add: der_shape_def)
  then have R: "length R = length R'" using assms(2,3) by (simp add: word_unat_eq_iff unat_of_nat)
  have "length (der_shape R S ht) = length (der_shape R' S' ht')" using assms(1) by (rule arg_cong)
  then have "length S = length S'" using R by simp
  with R assms(1) show ?thesis by (simp add: der_shape_def)
qed

text \<open>C21: \<open>IsValidSignatureEncoding\<close> accepts exactly the DER encodings.  The positional byte checks hold of a byte string of
  at most 73 bytes if and only if it is the shortest DER encoding of a pair of non-negative integers followed
  by a hash type; and then the integers and the hash type are determined by the string.
\<close>

theorem valid_encoding_is_der:
  "(IsValidSignatureEncoding sig \<longleftrightarrow> length sig \<le> 73 \<and> (\<exists>r s ht. sig = der_signature r s ht)) \<and>
   (length sig \<le> 73 \<and> sig = der_signature r s ht \<and> sig = der_signature r' s' ht' \<longrightarrow> r = r' \<and> s = s' \<and> ht = ht')"
proof (intro conjI iffI impI)
  assume "IsValidSignatureEncoding sig"
  then obtain R S ht where "sig = der_shape R S ht" "der_int R" "der_int S" "length sig \<le> 73"
    by (rule valid_der_shape)
  then show "length sig \<le> 73" and "\<exists>r s ht. sig = der_signature r s ht"
    by (auto simp: der_signature_shape) (metis der_uint_be_nat)
next
  assume "length sig \<le> 73 \<and> (\<exists>r s ht. sig = der_signature r s ht)"
  then show "IsValidSignatureEncoding sig"
    by (auto simp: der_signature_shape intro!: der_shape_valid der_int_der_uint)
next
  assume "length sig \<le> 73 \<and> sig = der_signature r s ht \<and> sig = der_signature r' s' ht'"
  then have "der_uint r = der_uint r' \<and> der_uint s = der_uint s' \<and> ht = ht'"
    by (intro der_shape_inject) (auto simp: der_signature_shape dest: arg_cong[where f = length])
  then show "r = r'" and "s = s'" and "ht = ht'" by (metis be_nat_der_uint)+
qed

theorem valid_encoding_is_der_witness:
  "IsValidSignatureEncoding [0x30, 0x07, 0x02, 0x02, 0x00, 0x80, 0x02, 0x01, 0x07, 0x01]"
proof -
  have "der_signature 128 7 1 = [0x30, 0x07, 0x02, 0x02, 0x00, 0x80, 0x02, 0x01, 0x07, 0x01]" by code_simp
  then have "\<exists>r s ht. [0x30, 0x07, 0x02, 0x02, 0x00, 0x80, 0x02, 0x01, 0x07, 0x01] = der_signature r s ht" by metis
  then show ?thesis
    using conjunct1[OF valid_encoding_is_der[of "[0x30, 0x07, 0x02, 0x02, 0x00, 0x80, 0x02, 0x01, 0x07, 0x01]" 0 0 0 0 0 0]]
    by simp
qed

section \<open>Arithmetic\<close>

lemma script_num_range4: "script_num env x nDefaultMaxNumSize = Inr n \<Longrightarrow> \<bar>n\<bar> < 2 ^ 31"
  using CScriptNum_range[of x "fRequireMinimal env" 4 n]
  by (simp add: script_num_def nDefaultMaxNumSize_def split: sum.splits)

lemma unary_num_range: "\<bar>n\<bar> < 2 ^ 31 \<Longrightarrow> \<bar>unary_num opcode n\<bar> < 2 ^ 32"
  by (auto simp: unary_num_def)

lemma binary_num_range: "\<bar>m\<bar> < 2 ^ 31 \<Longrightarrow> \<bar>n\<bar> < 2 ^ 31 \<Longrightarrow> \<bar>binary_num opcode m n\<bar> < 2 ^ 32"
  by (auto simp: binary_num_def)



section \<open>The clean-stack flag\<close>

definition with_cleanstack :: "script_env \<Rightarrow> script_env" where
  "with_cleanstack env = env\<lparr>se_flags := se_flags env OR SCRIPT_VERIFY_CLEANSTACK\<rparr>"

lemma cleanstack_flags:
  "se_flags (with_cleanstack env) AND SCRIPT_VERIFY_P2SH = se_flags env AND SCRIPT_VERIFY_P2SH"
  "se_flags (with_cleanstack env) AND SCRIPT_VERIFY_STRICTENC = se_flags env AND SCRIPT_VERIFY_STRICTENC"
  "se_flags (with_cleanstack env) AND SCRIPT_VERIFY_LOW_S = se_flags env AND SCRIPT_VERIFY_LOW_S"
  "se_flags (with_cleanstack env) AND SCRIPT_VERIFY_NULLDUMMY = se_flags env AND SCRIPT_VERIFY_NULLDUMMY"
  "se_flags (with_cleanstack env) AND SCRIPT_VERIFY_SIGPUSHONLY = se_flags env AND SCRIPT_VERIFY_SIGPUSHONLY"
  "se_flags (with_cleanstack env) AND SCRIPT_VERIFY_MINIMALDATA = se_flags env AND SCRIPT_VERIFY_MINIMALDATA"
  "se_flags (with_cleanstack env) AND SCRIPT_VERIFY_DISCOURAGE_UPGRADABLE_NOPS =
     se_flags env AND SCRIPT_VERIFY_DISCOURAGE_UPGRADABLE_NOPS"
  "se_flags (with_cleanstack env) AND SCRIPT_VERIFY_CHECKLOCKTIMEVERIFY =
     se_flags env AND SCRIPT_VERIFY_CHECKLOCKTIMEVERIFY"
  "se_flags (with_cleanstack env) AND (SCRIPT_VERIFY_DERSIG OR SCRIPT_VERIFY_LOW_S OR SCRIPT_VERIFY_STRICTENC) =
     se_flags env AND (SCRIPT_VERIFY_DERSIG OR SCRIPT_VERIFY_LOW_S OR SCRIPT_VERIFY_STRICTENC)"
  "se_checker (with_cleanstack env) = se_checker env" "se_sigversion (with_cleanstack env) = se_sigversion env"
  "se_CheckLowS (with_cleanstack env) = se_CheckLowS env" "se_mem (with_cleanstack env) = se_mem env"
  by (simp_all add: with_cleanstack_def bit.conj_disj_distrib2 SCRIPT_VERIFY_P2SH_def SCRIPT_VERIFY_STRICTENC_def
      SCRIPT_VERIFY_LOW_S_def SCRIPT_VERIFY_NULLDUMMY_def SCRIPT_VERIFY_SIGPUSHONLY_def SCRIPT_VERIFY_MINIMALDATA_def
      SCRIPT_VERIFY_DISCOURAGE_UPGRADABLE_NOPS_def SCRIPT_VERIFY_CHECKLOCKTIMEVERIFY_def SCRIPT_VERIFY_CLEANSTACK_def
      SCRIPT_VERIFY_DERSIG_def)

lemma check_sig_cleanstack: "check_sig (with_cleanstack env) = check_sig env"
  by (intro ext) (simp add: check_sig_def CheckSignatureEncoding_def CheckPubKeyEncoding_def IsLowDERSignature_def
      cleanstack_flags)

lemma script_num_cleanstack: "script_num (with_cleanstack env) = script_num env"
  "fRequireMinimal (with_cleanstack env) = fRequireMinimal env"
  by (intro ext | simp add: script_num_def fRequireMinimal_def cleanstack_flags)+

lemma multisig_loop_cleanstack:
  "multisig_loop (with_cleanstack env) stack code ok isig ns ikey nk = multisig_loop env stack code ok isig ns ikey nk"
proof (induction env stack code ok isig ns ikey nk rule: multisig_loop.induct)
  case (1 env stack code ok isig ns ikey nk)
  then show ?case
    by (subst (1 2) multisig_loop.simps) (auto simp: check_sig_cleanstack Let_def split: sum.split)
qed

lemma EvalScript_step_cleanstack: "EvalScript_step (with_cleanstack env) = EvalScript_step env"
proof -
  have "EvalScript_switch (with_cleanstack env) script fExec opcode pc st = EvalScript_switch env script fExec opcode pc st"
    for script fExec opcode pc st
    unfolding EvalScript_switch_def op_CHECKLOCKTIMEVERIFY_def op_NOPn_def op_PICK_def op_unary_def op_binary_def
      op_WITHIN_def op_HASHES_def op_CHECKSIG_def op_CHECKMULTISIG_def multisig_finish_def op_CHECKCOLDSTAKEVERIFY_def
      multisig_loop_cleanstack check_sig_cleanstack script_num_cleanstack cleanstack_flags ..
  then show ?thesis
    by (intro ext) (simp add: EvalScript_step_def EvalScript_exec_def script_num_cleanstack)
qed

lemma EvalScript_cleanstack: "EvalScript (with_cleanstack env) = EvalScript env"
proof -
  have "EvalScript_loop (with_cleanstack env) script pc st = EvalScript_loop env script pc st" for script pc st
    by (induction pc arbitrary: st rule: script_induct)
      (simp_all add: EvalScript_loop_fail EvalScript_loop_step EvalScript_step_cleanstack split: sum.split)
  then show ?thesis by (intro ext) (simp add: EvalScript_def)
qed


end
