(* ===== verification/SigHash.thy ===== *)
theory SigHash
  imports Interpreter
begin

text \<open>
  What a signature covers, and the checker that \<open>VerifyScript\<close> uses for a transaction input:
  the second half of \<open>src/src/script/interpreter.cpp\<close>.  BLAKE2b with a
  personalisation is libsodium's and the verification of an ECDSA signature is libsecp256k1's: both
  are parameters.  Everything written into a hash stream is concatenated, as the streams do.
\<close>

unbundle bit_operations_syntax

section \<open>The transaction as signed before Sapling\<close>

definition NOT_AN_INPUT :: nat where "NOT_AN_INPUT = 2 ^ 32 - 1"

definition fAnyoneCanPay :: "u32 \<Rightarrow> bool" where
  "fAnyoneCanPay nHashType \<longleftrightarrow> nHashType AND ucast SIGHASH_ANYONECANPAY \<noteq> 0"

definition fHashSingle :: "u32 \<Rightarrow> bool" where
  "fHashSingle nHashType \<longleftrightarrow> nHashType AND 0x1f = ucast SIGHASH_SINGLE"

definition fHashNone :: "u32 \<Rightarrow> bool" where
  "fHashNone nHashType \<longleftrightarrow> nHashType AND 0x1f = ucast SIGHASH_NONE"

function code_separators :: "bytes \<Rightarrow> nat \<Rightarrow> nat" where
  "code_separators it nCodeSeparators =
     (let (fRet, opcode, vch, it') = GetOp2 it in
      if fRet then code_separators it' (if opcode = OP_CODESEPARATOR then nCodeSeparators + 1 else nCodeSeparators)
      else nCodeSeparators)"
  by pat_completeness auto
termination
  by (relation "measure (\<lambda>(it, k). length it)") (auto dest: GetOp2_shrinks')

text \<open>
  The second scan; \<open>itBegin\<close> is the start of the piece not yet written.  The position that a failing
  \<open>GetOp\<close> leaves behind ends the last piece.
\<close>

function write_pieces :: "bytes \<Rightarrow> bytes \<Rightarrow> bytes" where
  "write_pieces itBegin it =
     (let (fRet, opcode, vch, it') = GetOp2 it in
      if fRet then
        (if opcode = OP_CODESEPARATOR
         then take (length itBegin - length it' - 1) itBegin @ write_pieces it' it'
         else write_pieces itBegin it')
      else if itBegin \<noteq> [] then take (length itBegin - length it') itBegin else [])"
  by pat_completeness auto
termination
  by (relation "measure (\<lambda>(itBegin, it). length it)") (auto dest: GetOp2_shrinks')

declare code_separators.simps [simp del] write_pieces.simps [simp del]

definition SerializeScriptCode :: "CScript \<Rightarrow> bytes" where
  "SerializeScriptCode scriptCode =
     WriteCompactSize (of_nat (length scriptCode - code_separators scriptCode 0)) @
     write_pieces scriptCode scriptCode"

definition SerializeInput :: "CTransaction \<Rightarrow> CScript \<Rightarrow> nat \<Rightarrow> u32 \<Rightarrow> nat \<Rightarrow> bytes" where
  "SerializeInput txTo scriptCode nIn nHashType nInput =
     (let nInput = (if fAnyoneCanPay nHashType then nIn else nInput) in
      Serialize_COutPoint (prevout (vin txTo ! nInput)) @
      (if nInput \<noteq> nIn then Serialize_blob [] else SerializeScriptCode scriptCode) @
      (if nInput \<noteq> nIn \<and> (fHashSingle nHashType \<or> fHashNone nHashType) then Serialize_int32 0
       else ser_writedata32 (nSequence (vin txTo ! nInput))))"

definition SerializeOutput :: "CTransaction \<Rightarrow> nat \<Rightarrow> u32 \<Rightarrow> nat \<Rightarrow> bytes" where
  "SerializeOutput txTo nIn nHashType nOutput =
     (if fHashSingle nHashType \<and> nOutput \<noteq> nIn then Serialize_CTxOut CTxOut_null
      else Serialize_CTxOut (vout txTo ! nOutput))"

definition SignatureSerialize :: "CTransaction \<Rightarrow> CScript \<Rightarrow> nat \<Rightarrow> u32 \<Rightarrow> bytes" where
  "SignatureSerialize txTo scriptCode nIn nHashType =
     (let nInputs = (if fAnyoneCanPay nHashType then 1 else length (vin txTo));
          nOutputs = (if fHashNone nHashType then 0
                      else if fHashSingle nHashType then nIn + 1 else length (vout txTo))
      in Serialize_int16 (nVersion txTo) @ Serialize_int16 (nType txTo) @
         WriteCompactSize (of_nat nInputs) @
         concat (map (SerializeInput txTo scriptCode nIn nHashType) [0..<nInputs]) @
         WriteCompactSize (of_nat nOutputs) @
         concat (map (SerializeOutput txTo nIn nHashType) [0..<nOutputs]) @
         ser_writedata32 (nLockTime txTo))"

section \<open>Sapling transactions\<close>

type_synonym blake2b = "bytes \<Rightarrow> bytes \<Rightarrow> u256" \<comment> \<open>personalisation, message\<close>

definition ascii :: "string \<Rightarrow> bytes" where
  "ascii s = map of_char s"

definition personal :: "string \<Rightarrow> bytes" where
  "personal s = ascii s @ replicate (16 - length s) 0"

definition Passion_PREVOUTS_HASH_PERSONALIZATION :: bytes where
  "Passion_PREVOUTS_HASH_PERSONALIZATION = personal ''PIVXPrevoutHash''"
definition Passion_SEQUENCE_HASH_PERSONALIZATION :: bytes where
  "Passion_SEQUENCE_HASH_PERSONALIZATION = personal ''PIVXSequencHash''"
definition Passion_OUTPUTS_HASH_PERSONALIZATION :: bytes where
  "Passion_OUTPUTS_HASH_PERSONALIZATION = personal ''PIVXOutputsHash''"
definition Passion_SHIELDED_SPENDS_HASH_PERSONALIZATION :: bytes where
  "Passion_SHIELDED_SPENDS_HASH_PERSONALIZATION = personal ''PIVXSSpendsHash''"
definition Passion_SHIELDED_OUTPUTS_HASH_PERSONALIZATION :: bytes where
  "Passion_SHIELDED_OUTPUTS_HASH_PERSONALIZATION = personal ''PIVXSOutputHash''"

definition GetPrevoutHash :: "blake2b \<Rightarrow> CTransaction \<Rightarrow> u256" where
  "GetPrevoutHash H txTo =
     H Passion_PREVOUTS_HASH_PERSONALIZATION (concat (map (\<lambda>i. Serialize_COutPoint (prevout i)) (vin txTo)))"

definition GetSequenceHash :: "blake2b \<Rightarrow> CTransaction \<Rightarrow> u256" where
  "GetSequenceHash H txTo =
     H Passion_SEQUENCE_HASH_PERSONALIZATION (concat (map (\<lambda>i. ser_writedata32 (nSequence i)) (vin txTo)))"

definition GetOutputsHash :: "blake2b \<Rightarrow> CTransaction \<Rightarrow> u256" where
  "GetOutputsHash H txTo =
     H Passion_OUTPUTS_HASH_PERSONALIZATION (concat (map Serialize_CTxOut (vout txTo)))"

text \<open>The two shielded digests assert that the transaction has Sapling data; they take it as argument.\<close>

definition GetShieldedSpendsHash :: "blake2b \<Rightarrow> SaplingTxData \<Rightarrow> u256" where
  "GetShieldedSpendsHash H d =
     H Passion_SHIELDED_SPENDS_HASH_PERSONALIZATION
       (concat (map (\<lambda>s. Serialize_uint256 (sd_cv s) @ Serialize_uint256 (sd_anchor s) @
          Serialize_uint256 (sd_nullifier s) @ Serialize_uint256 (sd_rk s) @
          Serialize_array ser_writedata8 (sd_zkproof s)) (vShieldedSpend d)))"

definition GetShieldedOutputsHash :: "blake2b \<Rightarrow> SaplingTxData \<Rightarrow> u256" where
  "GetShieldedOutputsHash H d =
     H Passion_SHIELDED_OUTPUTS_HASH_PERSONALIZATION (concat (map Serialize_OutputDescription (vShieldedOutput d)))"

record PrecomputedTransactionData =
  hashPrevouts :: u256
  hashSequence :: u256
  hashOutputs :: u256
  hashShieldedSpends :: u256
  hashShieldedOutputs :: u256

definition precompute :: "blake2b \<Rightarrow> CTransaction \<Rightarrow> PrecomputedTransactionData" where
  "precompute H txTo =
     \<lparr>hashPrevouts = GetPrevoutHash H txTo, hashSequence = GetSequenceHash H txTo,
      hashOutputs = GetOutputsHash H txTo,
      hashShieldedSpends = (case sapData txTo of None \<Rightarrow> 0 | Some d \<Rightarrow> GetShieldedSpendsHash H d),
      hashShieldedOutputs = (case sapData txTo of None \<Rightarrow> 0 | Some d \<Rightarrow> GetShieldedOutputsHash H d)\<rparr>"

section \<open>The hash that is signed\<close>

record sighash_env =
  sh_blake2b :: blake2b
  sh_mem :: bytes

datatype sighash_error =
    WrongSigVersion \<comment> \<open>the \<open>runtime_error\<close>\<close>
  | InputOutOfRange \<comment> \<open>\<open>vin[nIn]\<close> past the end: undefined behaviour\<close>

definition cached :: "PrecomputedTransactionData option \<Rightarrow> (PrecomputedTransactionData \<Rightarrow> u256) \<Rightarrow> u256 \<Rightarrow> u256" where
  "cached cache field h = (case cache of Some c \<Rightarrow> field c | None \<Rightarrow> h)"

definition sapling_personalization :: bytes where
  "sapling_personalization = take 12 (ascii ''PassionSigHash'') @ le_bytes 4 (0 :: u32)"

definition SignatureHash_sapling ::
    "blake2b \<Rightarrow> CScript \<Rightarrow> CTransaction \<Rightarrow> nat \<Rightarrow> u32 \<Rightarrow> CAmount \<Rightarrow> PrecomputedTransactionData option \<Rightarrow> u256" where
  "SignatureHash_sapling H scriptCode txTo nIn nHashType amount cache =
     (let hPrevouts = (if \<not> fAnyoneCanPay nHashType then cached cache hashPrevouts (GetPrevoutHash H txTo) else 0);
          hSequence = (if \<not> fAnyoneCanPay nHashType \<and> \<not> fHashSingle nHashType \<and> \<not> fHashNone nHashType
                       then cached cache hashSequence (GetSequenceHash H txTo) else 0);
          hOutputs = (if \<not> fHashSingle nHashType \<and> \<not> fHashNone nHashType
                      then cached cache hashOutputs (GetOutputsHash H txTo)
                      else if fHashSingle nHashType \<and> nIn < length (vout txTo)
                      then H Passion_OUTPUTS_HASH_PERSONALIZATION (Serialize_CTxOut (vout txTo ! nIn)) else 0);
          sap = (case sapData txTo of
                   None \<Rightarrow> []
                 | Some d \<Rightarrow>
                     let hSpends = (if vShieldedSpend d \<noteq> []
                                    then cached cache hashShieldedSpends (GetShieldedSpendsHash H d) else 0);
                         hOuts = (if vShieldedOutput d \<noteq> []
                                  then cached cache hashShieldedOutputs (GetShieldedOutputsHash H d) else 0);
                         hasSapData = (vShieldedSpend d \<noteq> [] \<or> vShieldedOutput d \<noteq> [])
                     in if hasSapData
                        then Serialize_uint256 hSpends @ Serialize_uint256 hOuts @ Serialize_int64 (valueBalance d)
                        else [])
      in H sapling_personalization
           (Serialize_int16 (nVersion txTo) @ Serialize_int16 (nType txTo) @
            Serialize_uint256 hPrevouts @ Serialize_uint256 hSequence @ Serialize_uint256 hOutputs @ sap @
            (if nIn \<noteq> NOT_AN_INPUT
             then Serialize_COutPoint (prevout (vin txTo ! nIn)) @ Serialize_blob scriptCode @
                  Serialize_int64 amount @ ser_writedata32 (nSequence (vin txTo ! nIn)) else []) @
            (if IsSpecialTx txTo then (case extraPayload txTo of None \<Rightarrow> [] | Some p \<Rightarrow> Serialize_blob p) else []) @
            ser_writedata32 (nLockTime txTo) @ ser_writedata32 nHashType))"

definition SignatureHash ::
    "sighash_env \<Rightarrow> CScript \<Rightarrow> CTransaction \<Rightarrow> nat \<Rightarrow> u32 \<Rightarrow> CAmount \<Rightarrow> SigVersion \<Rightarrow>
       PrecomputedTransactionData option \<Rightarrow> sighash_error + u256" where
  "SignatureHash env scriptCode txTo nIn nHashType amount sigversion cache =
     (if length (vin txTo) \<le> nIn \<and> nIn \<noteq> NOT_AN_INPUT then Inr 1
      else if isSaplingVersion txTo \<and> sigversion \<noteq> SIGVERSION_SAPLING then Inl WrongSigVersion
      else if sigversion = SIGVERSION_SAPLING then
        Inr (SignatureHash_sapling (sh_blake2b env) scriptCode txTo nIn nHashType amount cache)
      else if fHashSingle nHashType \<and> length (vout txTo) \<le> nIn then Inr 1
      else if fAnyoneCanPay nHashType \<and> length (vin txTo) \<le> nIn then Inl InputOutOfRange
      else Inr (CHashWriter_GetHash
             (CHashWriter_write
               (CHashWriter_write (CSHA256_new (sh_mem env)) (SignatureSerialize txTo scriptCode nIn nHashType))
               (ser_writedata32 nHashType))))"

section \<open>The checker of a transaction input\<close>

record TransactionSignatureChecker =
  tc_txTo :: CTransaction
  tc_nIn :: nat
  tc_amount :: CAmount
  tc_precomTxData :: "PrecomputedTransactionData option"

definition CheckSig ::
    "sighash_env \<Rightarrow> (bytes \<Rightarrow> u256 \<Rightarrow> bytes \<Rightarrow> bool) \<Rightarrow> TransactionSignatureChecker \<Rightarrow> valtype \<Rightarrow> valtype \<Rightarrow>
       CScript \<Rightarrow> SigVersion \<Rightarrow> bool option" where
  "CheckSig env pubkey_Verify c vchSigIn vchPubKey scriptCode sigversion =
     (let pubkey = pubkey_Set vchPubKey in
      if \<not> pubkey_IsValid pubkey then Some False
      else if vchSigIn = [] then Some False
      else let nHashType = ucast (last vchSigIn); vchSig = butlast vchSigIn in
        case SignatureHash env scriptCode (tc_txTo c) (tc_nIn c) nHashType (tc_amount c) sigversion (tc_precomTxData c) of
          Inl e \<Rightarrow> None
        | Inr sighash \<Rightarrow> Some (pubkey_Verify pubkey sighash vchSig))"

definition CheckLockTime :: "TransactionSignatureChecker \<Rightarrow> int \<Rightarrow> bool" where
  "CheckLockTime c nLockTimeArg =
     (let txLockTime = uint (nLockTime (tc_txTo c)) in
      if \<not> (txLockTime < LOCKTIME_THRESHOLD \<and> nLockTimeArg < LOCKTIME_THRESHOLD \<or>
             txLockTime \<ge> LOCKTIME_THRESHOLD \<and> nLockTimeArg \<ge> LOCKTIME_THRESHOLD) then False
      else if nLockTimeArg > txLockTime then False
      else if CTxIn_IsFinal (vin (tc_txTo c) ! tc_nIn c) then False
      else True)"

fun ColdStake_loop :: "CScript \<Rightarrow> nat \<Rightarrow> nat \<Rightarrow> CTxOut list \<Rightarrow> CAmount \<Rightarrow> CAmount option" where
  "ColdStake_loop prevoutScript outs i [] outValue = Some outValue"
| "ColdStake_loop prevoutScript outs i (out # rest) outValue =
     (if scriptPubKey out \<noteq> prevoutScript then
        (if i \<noteq> outs - 1 \<or> outs < 3 then None else ColdStake_loop prevoutScript outs (i + 1) rest outValue)
      else ColdStake_loop prevoutScript outs (i + 1) rest (int64_wrap (outValue + nValue out)))"

definition CheckColdStake :: "TransactionSignatureChecker \<Rightarrow> CScript \<Rightarrow> bool" where
  "CheckColdStake c prevoutScript =
     (if \<not> tx_IsCoinStake (tc_txTo c) then False
      else if length (vin (tc_txTo c)) \<noteq> 1 then False
      else let outs = length (vout (tc_txTo c)) in
        case ColdStake_loop prevoutScript outs 1 (drop 1 (vout (tc_txTo c))) 0 of
          None \<Rightarrow> False
        | Some outValue \<Rightarrow> outValue > tc_amount c)"

definition transaction_checker ::
    "sighash_env \<Rightarrow> (bytes \<Rightarrow> u256 \<Rightarrow> bytes \<Rightarrow> bool) \<Rightarrow> TransactionSignatureChecker \<Rightarrow> BaseSignatureChecker" where
  "transaction_checker env pubkey_Verify c =
     \<lparr>CheckSig_c = CheckSig env pubkey_Verify c, CheckLockTime_c = CheckLockTime c,
      CheckColdStake_c = CheckColdStake c\<rparr>"

section \<open>The signed code\<close>

text \<open>The bytes of the instructions other than \<open>OP_CODESEPARATOR\<close>, in order.\<close>

function strip_separators :: "CScript \<Rightarrow> bytes" where
  "strip_separators pc =
     (let (fRet, opcode, d, pc') = GetOp2 pc in
      if \<not> fRet then [] else
      (if opcode = OP_CODESEPARATOR then [] else take (length pc - length pc') pc) @ strip_separators pc')"
  by pat_completeness auto
termination
  by (relation "measure length") (auto dest: GetOp2_shrinks')

declare strip_separators.simps [simp del]

lemma GetOp2_take: "GetOp2 pc = (r, opcode, d, pc') \<Longrightarrow> pc = take (length pc - length pc') pc @ pc'"
  using GetOp2_rest_suffix[of pc r opcode d pc'] by (auto simp: suffix_def)

lemma GetOp2_separator: "GetOp2 pc = (True, OP_CODESEPARATOR, d, pc') \<Longrightarrow> pc = OP_CODESEPARATOR # pc'"
  by (auto simp: GetOp2_def GetOp2_size_def split: list.splits if_splits option.splits)

lemma GetOp2_Nil [simp]: "GetOp2 [] = (False, OP_INVALIDOPCODE, [], [])"
  by (simp add: GetOp2_def)

lemma write_pieces_strip:
  "snd (script_ops pc) \<Longrightarrow> write_pieces (pre @ pc) pc = pre @ strip_separators pc"
proof (induction pc arbitrary: pre rule: script_induct)
  case End
  then show ?case by (simp add: write_pieces.simps strip_separators.simps)
next
  case (Fail pc opcode d pc')
  then show ?case by (simp add: script_ops_fail)
next
  case (Step pc opcode d pc')
  have IH: "write_pieces (pre @ pc') pc' = pre @ strip_separators pc'" for pre
    using Step by (simp add: script_ops_step)
  show ?case
  proof (cases "opcode = OP_CODESEPARATOR")
    case True
    then have "pc = OP_CODESEPARATOR # pc'" using GetOp2_separator Step(2) by blast
    then show ?thesis
      using Step(2) True IH[of "[]"]
      by (simp add: write_pieces.simps[of _ "OP_CODESEPARATOR # pc'"] strip_separators.simps[of "OP_CODESEPARATOR # pc'"])
  next
    case False
    have "pre @ pc = (pre @ take (length pc - length pc') pc) @ pc'" using GetOp2_take[OF Step(2)] by simp
    then show ?thesis
      using Step(2) False IH[of "pre @ take (length pc - length pc') pc"]
      by (simp add: write_pieces.simps[of _ pc] strip_separators.simps[of pc])
  qed
qed

lemma code_separators_op:
  "GetOp2 pc = (False, opcode, d, pc') \<Longrightarrow> code_separators pc k = k"
  "GetOp2 pc = (True, opcode, d, pc') \<Longrightarrow>
     code_separators pc k = code_separators pc' (if opcode = OP_CODESEPARATOR then k + 1 else k)"
  by (subst code_separators.simps, simp)+

lemma strip_separators_op:
  "GetOp2 pc = (False, opcode, d, pc') \<Longrightarrow> strip_separators pc = []"
  "GetOp2 pc = (True, opcode, d, pc') \<Longrightarrow> strip_separators pc =
     (if opcode = OP_CODESEPARATOR then [] else take (length pc - length pc') pc) @ strip_separators pc'"
  by (subst strip_separators.simps, simp)+

lemma code_separators_acc: "code_separators pc k = k + code_separators pc 0"
proof (induction pc arbitrary: k rule: script_induct)
  case (Step pc opcode d pc')
  show ?case
    using Step(3)[of "Suc k"] Step(3)[of "Suc 0"] Step(3)[of k] by (simp add: code_separators_op(2)[OF Step(2)])
qed (simp_all add: code_separators_op(1))

lemma length_strip:
  "snd (script_ops pc) \<Longrightarrow> length (strip_separators pc) + code_separators pc 0 = length pc"
proof (induction pc rule: script_induct)
  case (Step pc opcode d pc')
  have "length pc' < length pc" using Step(2) by (rule GetOp2_shrinks)
  moreover have "opcode = OP_CODESEPARATOR \<Longrightarrow> length pc = Suc (length pc')" using GetOp2_separator[of pc d pc'] Step(2) by auto
  moreover have "length (strip_separators pc') + code_separators pc' 0 = length pc'"
    using Step by (simp add: script_ops_step)
  ultimately show ?case
    using code_separators_acc[of pc' "Suc 0"]
    by (cases "opcode = OP_CODESEPARATOR") (simp_all add: strip_separators_op(2)[OF Step(2)] code_separators_op(2)[OF Step(2)])
qed (simp_all add: strip_separators_op(1) code_separators_op(1) script_ops_fail)

lemma SerializeScriptCode_strip:
  "snd (script_ops code) \<Longrightarrow> SerializeScriptCode code = Serialize_blob (strip_separators code)"
proof -
  assume ok: "snd (script_ops code)"
  have "length code - code_separators code 0 = length (strip_separators code)" using length_strip[OF ok] by linarith
  then show ?thesis
    using write_pieces_strip[OF ok, of "[]"] by (simp add: SerializeScriptCode_def Serialize_blob_def)
qed

section \<open>The transaction that is signed\<close>

text \<open>
  The description of the original client: a copy of the transaction in which the scripts of the inputs are blanked, the
  signed one excepted, and outputs and sequence numbers are dropped as the hash type asks.
\<close>

definition signed_input :: "CScript \<Rightarrow> nat \<Rightarrow> u32 \<Rightarrow> nat \<Rightarrow> CTxIn \<Rightarrow> CTxIn" where
  "signed_input code nIn nHashType i txin =
     (if i = nIn then txin\<lparr>scriptSig := strip_separators code\<rparr>
      else txin\<lparr>scriptSig := [], nSequence := (if fHashSingle nHashType \<or> fHashNone nHashType then 0 else nSequence txin)\<rparr>)"

definition signed_tx :: "CTransaction \<Rightarrow> CScript \<Rightarrow> nat \<Rightarrow> u32 \<Rightarrow> CTransaction" where
  "signed_tx tx code nIn nHashType =
     (let ins = map (\<lambda>i. signed_input code nIn nHashType i (vin tx ! i)) [0..<length (vin tx)];
          outs = (if fHashNone nHashType then []
                  else if fHashSingle nHashType then replicate nIn CTxOut_null @ [vout tx ! nIn]
                  else vout tx)
      in tx\<lparr>vin := (if fAnyoneCanPay nHashType then [ins ! nIn] else ins), vout := outs\<rparr>)"

lemma SerializeInput_signed:
  assumes "snd (script_ops code)"
  shows "SerializeInput tx code nIn nHashType i =
    Serialize_CTxIn (signed_input code nIn nHashType (if fAnyoneCanPay nHashType then nIn else i)
      (vin tx ! (if fAnyoneCanPay nHashType then nIn else i)))"
  by (simp add: SerializeInput_def signed_input_def Serialize_CTxIn_def SerializeScriptCode_strip[OF assms] Let_def
      Serialize_int32_def)

lemma signed_inputs:
  assumes "snd (script_ops code)" and "nIn < length (vin tx)"
  shows "concat (map (SerializeInput tx code nIn nHashType) [0..<if fAnyoneCanPay nHashType then 1 else length (vin tx)]) =
      concat (map Serialize_CTxIn (vin (signed_tx tx code nIn nHashType)))"
    and "length (vin (signed_tx tx code nIn nHashType)) = (if fAnyoneCanPay nHashType then 1 else length (vin tx))"
proof -
  have "map (SerializeInput tx code nIn nHashType) [0..<if fAnyoneCanPay nHashType then 1 else length (vin tx)] =
      map Serialize_CTxIn (vin (signed_tx tx code nIn nHashType))"
    using assms(2) by (intro nth_equalityI) (auto simp: signed_tx_def Let_def SerializeInput_signed[OF assms(1)])
  then show "concat (map (SerializeInput tx code nIn nHashType) [0..<if fAnyoneCanPay nHashType then 1 else length (vin tx)]) =
      concat (map Serialize_CTxIn (vin (signed_tx tx code nIn nHashType)))"
    by (rule arg_cong)
qed (simp add: signed_tx_def Let_def)

lemma signed_outputs:
  assumes "fHashSingle nHashType \<Longrightarrow> nIn < length (vout tx)"
  defines "nOutputs \<equiv> if fHashNone nHashType then 0 else if fHashSingle nHashType then nIn + 1 else length (vout tx)"
  shows "concat (map (SerializeOutput tx nIn nHashType) [0..<nOutputs]) =
      concat (map Serialize_CTxOut (vout (signed_tx tx code nIn nHashType)))"
    and "length (vout (signed_tx tx code nIn nHashType)) = nOutputs"
proof -
  show l: "length (vout (signed_tx tx code nIn nHashType)) = nOutputs" by (simp add: signed_tx_def Let_def nOutputs_def)
  have "map (SerializeOutput tx nIn nHashType) [0..<nOutputs] =
      map Serialize_CTxOut (vout (signed_tx tx code nIn nHashType))"
  proof (rule nth_equalityI)
    fix i assume "i < length (map (SerializeOutput tx nIn nHashType) [0..<nOutputs])"
    then have i: "i < nOutputs" by simp
    then show "map (SerializeOutput tx nIn nHashType) [0..<nOutputs] ! i =
        map Serialize_CTxOut (vout (signed_tx tx code nIn nHashType)) ! i"
      by (simp only: nth_map_upt l nth_map)
        (auto simp: SerializeOutput_def signed_tx_def Let_def nOutputs_def nth_append split: if_splits)
  qed (simp add: l)
  then show "concat (map (SerializeOutput tx nIn nHashType) [0..<nOutputs]) =
      concat (map Serialize_CTxOut (vout (signed_tx tx code nIn nHashType)))"
    by (rule arg_cong)
qed

lemma SignatureSerialize_signed:
  assumes "snd (script_ops code)" and "\<not> isSaplingVersion tx" and "nIn < length (vin tx)"
    and "fHashSingle nHashType \<Longrightarrow> nIn < length (vout tx)"
  shows "SignatureSerialize tx code nIn nHashType = SerializeTransaction (signed_tx tx code nIn nHashType)"
proof -
  have same: "nVersion (signed_tx tx code nIn nHashType) = nVersion tx" "nType (signed_tx tx code nIn nHashType) = nType tx"
    "nLockTime (signed_tx tx code nIn nHashType) = nLockTime tx"
    by (simp_all add: signed_tx_def Let_def)
  then have ver: "\<not> isSaplingVersion (signed_tx tx code nIn nHashType)" using assms(2) by (simp add: isSaplingVersion_def)
  show ?thesis
    by (simp only: SignatureSerialize_def SerializeTransaction_def Serialize_vec_def Let_def if_False ver append_Nil2
        same signed_inputs[OF assms(1,3)] signed_outputs[OF assms(4), where code = code] append_assoc)
qed

section \<open>Properties\<close>


definition sample_sighash_env :: sighash_env where
  "sample_sighash_env = \<lparr>sh_blake2b = \<lambda>p m. of_nat (length m), sh_mem = replicate 64 0\<rparr>"

definition sample_spend :: CTransaction where
  "sample_spend = \<lparr>nVersion = 1, nType = 0, vin = [\<lparr>prevout = \<lparr>op_hash = 7, op_n = 0\<rparr>, scriptSig = [OP_1], nSequence = 0\<rparr>],
     vout = [CTxOut_make 5 [OP_1]], nLockTime = 10, sapData = None, extraPayload = None\<rparr>"


text \<open>C25: Caching is transparent.  With the digests that \<open>PrecomputedTransactionData\<close> computes for the transaction,
  \<open>SignatureHash\<close> returns for every input, hash type and script code the value it returns without a cache.
\<close>

theorem sighash_cache:
  "SignatureHash env code tx nIn nHashType amount sigversion (Some (precompute (sh_blake2b env) tx)) =
   SignatureHash env code tx nIn nHashType amount sigversion None"
proof -
  have "SignatureHash_sapling H code tx nIn nHashType amount (Some (precompute H tx)) =
      SignatureHash_sapling H code tx nIn nHashType amount None" for H
    by (cases "sapData tx") (simp_all add: SignatureHash_sapling_def cached_def precompute_def Let_def)
  then show ?thesis by (simp add: SignatureHash_def)
qed

text \<open>C23: \<open>OP_CHECKLOCKTIMEVERIFY\<close> on a transaction input.  When the rule is active and the top of the stack is a number
  \<open>n\<close> of at most five bytes, the opcode succeeds, without changing anything, exactly when \<open>n\<close> is not
  negative, is of the same kind (height or time) as the lock time of the transaction and not above it, and the
  input is not final.
\<close>

theorem locktime_verify:
  assumes "flag env SCRIPT_VERIFY_CHECKLOCKTIMEVERIFY" and "se_checker env = transaction_checker shenv verify c"
    and "es_stack st = x # s" and "script_num env x 5 = Inr n"
  shows "op_CHECKLOCKTIMEVERIFY env st = Inr st' \<longleftrightarrow>
    st' = st \<and> 0 \<le> n \<and> (n < 500000000 \<longleftrightarrow> nLockTime (tc_txTo c) < 500000000) \<and> n \<le> uint (nLockTime (tc_txTo c)) \<and>
    nSequence (vin (tc_txTo c) ! tc_nIn c) \<noteq> 0xffffffff"
proof -
  have lt: "nLockTime (tc_txTo c) < 500000000 \<longleftrightarrow> uint (nLockTime (tc_txTo c)) < 500000000" by (simp add: word_less_def)
  show ?thesis
    using assms by (auto simp: op_CHECKLOCKTIMEVERIFY_def transaction_checker_def CheckLockTime_def Let_def LOCKTIME_THRESHOLD_def
        CTxIn_IsFinal_def SEQUENCE_FINAL_def lt)
qed

definition sample_checker :: TransactionSignatureChecker where
  "sample_checker = \<lparr>tc_txTo = sample_spend, tc_nIn = 0, tc_amount = 3, tc_precomTxData = None\<rparr>"

definition sample_spend_env :: script_env where
  "sample_spend_env = sample_env\<lparr>se_checker := transaction_checker sample_sighash_env (\<lambda>k h s. True) sample_checker\<rparr>"

theorem locktime_verify_witness:
  "op_CHECKLOCKTIMEVERIFY sample_spend_env (EvalScript_init [[9]] []) = Inr (EvalScript_init [[9]] [])"
proof -
  have "flag sample_spend_env SCRIPT_VERIFY_CHECKLOCKTIMEVERIFY" "script_num sample_spend_env [9] 5 = Inr 9" by code_simp+
  then show ?thesis
    using locktime_verify[of sample_spend_env sample_sighash_env "\<lambda>k h s. True" sample_checker "EvalScript_init [[9]] []" "[9]" "[]" 9]
    by (simp add: sample_spend_env_def EvalScript_init_def) (simp add: sample_checker_def sample_spend_def)
qed

section \<open>Cold staking\<close>

lemma ColdStake_loop_sum:
  assumes "\<forall>out\<in>set rest. 0 \<le> nValue out" and "0 \<le> v" and "v + sum_list (map nValue rest) < 2 ^ 63"
  shows "ColdStake_loop s outs i rest v =
    (if \<forall>j<length rest. scriptPubKey (rest ! j) = s \<or> i + j = outs - 1 \<and> 3 \<le> outs
     then Some (v + sum_list (map nValue (filter (\<lambda>out. scriptPubKey out = s) rest))) else None)"
  using assms
proof (induction rest arbitrary: i v)
  case (Cons out rest)
  have all: "(\<forall>j<length (out # rest). scriptPubKey ((out # rest) ! j) = s \<or> i + j = outs - 1 \<and> 3 \<le> outs) \<longleftrightarrow>
      (scriptPubKey out = s \<or> i = outs - 1 \<and> 3 \<le> outs) \<and>
      (\<forall>j<length rest. scriptPubKey (rest ! j) = s \<or> i + 1 + j = outs - 1 \<and> 3 \<le> outs)"
    by (auto simp: less_Suc_eq_0_disj)
  have nn: "0 \<le> nValue out" "0 \<le> sum_list (map nValue rest)" using Cons.prems(1) by (auto intro!: sum_list_nonneg)
  then have "int64_wrap (v + nValue out) = v + nValue out" using Cons.prems(2,3) by (intro int64_wrap_id) (auto simp: int64_ok_def)
  then show ?case
    using Cons.IH[of "v + nValue out" "i + 1"] Cons.IH[of v "i + 1"] Cons.prems nn unfolding all by auto
qed simp

text \<open>C22: The rule of cold staking.  For a transaction whose output values are not negative and do not overflow in
  sum, \<open>CheckColdStake\<close> holds exactly when it is a coinstake with one input, every output after the first pays the spent
  script, except possibly the last of three or more, and the outputs that pay it return more than the
  amount spent.
\<close>

theorem cold_stake_rule:
  assumes "\<forall>out\<in>set (vout (tc_txTo c)). 0 \<le> nValue out" and "sum_list (map nValue (vout (tc_txTo c))) < 2 ^ 63"
  shows "CheckColdStake c s \<longleftrightarrow>
    tx_IsCoinStake (tc_txTo c) \<and> length (vin (tc_txTo c)) = 1 \<and>
    (\<forall>i. 1 \<le> i \<and> i < length (vout (tc_txTo c)) \<longrightarrow> scriptPubKey (vout (tc_txTo c) ! i) = s \<or>
       i = length (vout (tc_txTo c)) - 1 \<and> 3 \<le> length (vout (tc_txTo c))) \<and>
    tc_amount c < sum_list (map nValue (filter (\<lambda>out. scriptPubKey out = s) (drop 1 (vout (tc_txTo c)))))"
proof (cases "vout (tc_txTo c)")
  case Nil
  then show ?thesis by (auto simp: CheckColdStake_def tx_IsCoinStake_def)
next
  case (Cons out rest)
  have "0 \<le> nValue out" using assms(1) Cons by simp
  then have loop: "ColdStake_loop s outs 1 rest 0 =
      (if \<forall>j<length rest. scriptPubKey (rest ! j) = s \<or> 1 + j = outs - 1 \<and> 3 \<le> outs
       then Some (0 + sum_list (map nValue (filter (\<lambda>out. scriptPubKey out = s) rest))) else None)" for outs
    using assms Cons by (intro ColdStake_loop_sum) auto
  have shift: "(\<forall>i. 1 \<le> i \<and> i < length (out # rest) \<longrightarrow> P i ((out # rest) ! i)) \<longleftrightarrow> (\<forall>j<length rest. P (1 + j) (rest ! j))" for P
    by (auto simp: nth_Cons' gr0_conv_Suc Suc_le_eq)
  show ?thesis
    using shift[of "\<lambda>i out'. scriptPubKey out' = s \<or> i = length (out # rest) - 1 \<and> 3 \<le> length (out # rest)"]
    unfolding CheckColdStake_def Cons loop Let_def using loop[of "length (out # rest)"] by simp
qed

definition sample_coldstake :: TransactionSignatureChecker where
  "sample_coldstake = sample_checker\<lparr>tc_txTo := sample_spend\<lparr>vout := [CTxOut_make 0 [], CTxOut_make 5 [OP_1], CTxOut_make 4 [OP_2]]\<rparr>\<rparr>"

theorem cold_stake_rule_witness: "CheckColdStake sample_coldstake [OP_1] \<and> \<not> CheckColdStake sample_coldstake [OP_2]"
proof -
  have tx: "vout (tc_txTo sample_coldstake) = [CTxOut_make 0 [], CTxOut_make 5 [OP_1], CTxOut_make 4 [OP_2]]"
    "length (vin (tc_txTo sample_coldstake)) = 1" "tc_amount sample_coldstake = 3" "tx_IsCoinStake (tc_txTo sample_coldstake)"
    by code_simp+
  show ?thesis
    using cold_stake_rule[of sample_coldstake "[OP_1]"] cold_stake_rule[of sample_coldstake "[OP_2]"]
    by (auto simp: tx CTxOut_make_def less_Suc_eq numeral_3_eq_3 le_Suc_eq)
qed

end
