(* ===== verification/ArithUint256.thy ===== *)
theory ArithUint256
  imports Passion_Prelude
begin

text \<open>
  The big integers of \<open>src/src/arith_uint256.h\<close> and \<open>arith_uint256.cpp\<close>: \<open>base_uint<BITS>\<close> is an array of
  32-bit limbs, least significant first, and every operator is a loop over them.  The lemmas show, for any
  number of limbs, that the loops compute the operation on the number the limbs stand for, modulo
  \<open>2^BITS\<close>.  The compact format of difficulty targets and the proof-of-work rules of
  \<open>src/src/uint256.cpp\<close> and \<open>src/src/pow.cpp\<close> follow, on 256-bit words.
\<close>

unbundle bit_operations_syntax

section \<open>Limbs\<close>

type_synonym base_uint = "u32 list"

definition uint_of64 :: "nat \<Rightarrow> u64 \<Rightarrow> base_uint" where
  "uint_of64 WIDTH b = ucast b # ucast (drop_bit 32 b) # replicate (WIDTH - 2) 0"

definition uint_not :: "base_uint \<Rightarrow> base_uint" where
  "uint_not pn = map (\<lambda>p. NOT p) pn"

definition uint_is_zero :: "base_uint \<Rightarrow> bool" where
  "uint_is_zero pn \<longleftrightarrow> list_all (\<lambda>p. p = 0) pn"

definition uint_xor :: "base_uint \<Rightarrow> base_uint \<Rightarrow> base_uint" where
  "uint_xor pn b = map2 (XOR) pn b"

definition uint_and :: "base_uint \<Rightarrow> base_uint \<Rightarrow> base_uint" where
  "uint_and pn b = map2 (AND) pn b"

definition uint_or :: "base_uint \<Rightarrow> base_uint \<Rightarrow> base_uint" where
  "uint_or pn b = map2 (OR) pn b"

fun uint_inc :: "base_uint \<Rightarrow> base_uint" where
  "uint_inc [] = []"
| "uint_inc (p # pn) = (if p + 1 = 0 \<and> pn \<noteq> [] then (p + 1) # uint_inc pn else (p + 1) # pn)"

fun uint_dec :: "base_uint \<Rightarrow> base_uint" where
  "uint_dec [] = []"
| "uint_dec (p # pn) = (if p - 1 = - 1 \<and> pn \<noteq> [] then (p - 1) # uint_dec pn else (p - 1) # pn)"

fun uint_add_loop :: "u64 \<Rightarrow> base_uint \<Rightarrow> base_uint \<Rightarrow> base_uint" where
  "uint_add_loop carry (p # pn) (b # bn) =
     (let n = carry + ucast p + ucast b in ucast (n AND 0xffffffff) # uint_add_loop (drop_bit 32 n) pn bn)"
| "uint_add_loop carry pn bn = []"

definition uint_add :: "base_uint \<Rightarrow> base_uint \<Rightarrow> base_uint" where
  "uint_add pn b = uint_add_loop 0 pn b"

definition uint_neg :: "base_uint \<Rightarrow> base_uint" where
  "uint_neg pn = uint_inc (uint_not pn)"

definition uint_sub :: "base_uint \<Rightarrow> base_uint \<Rightarrow> base_uint" where
  "uint_sub pn b = uint_add pn (uint_neg b)"

definition shl_step :: "base_uint \<Rightarrow> nat \<Rightarrow> nat \<Rightarrow> base_uint \<Rightarrow> nat \<Rightarrow> base_uint" where
  "shl_step a k shift pn i =
     (let pn = (if i + k + 1 < length a \<and> shift \<noteq> 0
                then pn[i + k + 1 := pn ! (i + k + 1) OR drop_bit (32 - shift) (a ! i)] else pn)
      in if i + k < length a then pn[i + k := pn ! (i + k) OR push_bit shift (a ! i)] else pn)"

definition uint_shl :: "base_uint \<Rightarrow> nat \<Rightarrow> base_uint" where
  "uint_shl a shift = foldl (shl_step a (shift div 32) (shift mod 32)) (replicate (length a) 0) [0..<length a]"

definition shr_step :: "base_uint \<Rightarrow> nat \<Rightarrow> nat \<Rightarrow> base_uint \<Rightarrow> nat \<Rightarrow> base_uint" where
  "shr_step a k shift pn i =
     (let pn = (if k + 1 \<le> i \<and> shift \<noteq> 0
                then pn[i - k - 1 := pn ! (i - k - 1) OR push_bit (32 - shift) (a ! i)] else pn)
      in if k \<le> i then pn[i - k := pn ! (i - k) OR drop_bit shift (a ! i)] else pn)"

definition uint_shr :: "base_uint \<Rightarrow> nat \<Rightarrow> base_uint" where
  "uint_shr a shift = foldl (shr_step a (shift div 32) (shift mod 32)) (replicate (length a) 0) [0..<length a]"

fun uint_mul32_loop :: "u64 \<Rightarrow> u32 \<Rightarrow> base_uint \<Rightarrow> base_uint" where
  "uint_mul32_loop carry b32 [] = []"
| "uint_mul32_loop carry b32 (p # pn) =
     (let n = carry + ucast b32 * ucast p in ucast (n AND 0xffffffff) # uint_mul32_loop (drop_bit 32 n) b32 pn)"

definition uint_mul32 :: "base_uint \<Rightarrow> u32 \<Rightarrow> base_uint" where
  "uint_mul32 pn b32 = uint_mul32_loop 0 b32 pn"

text \<open>The inner loop of the multiplication; \<open>pn\<close> are the limbs from \<open>j\<close> on.\<close>

fun uint_mul_row :: "u64 \<Rightarrow> u32 \<Rightarrow> base_uint \<Rightarrow> base_uint \<Rightarrow> base_uint" where
  "uint_mul_row carry aj (p # pn) (b # bn) =
     (let n = carry + ucast p + ucast aj * ucast b
      in ucast (n AND 0xffffffff) # uint_mul_row (drop_bit 32 n) aj pn bn)"
| "uint_mul_row carry aj pn bn = []"

definition uint_mul :: "base_uint \<Rightarrow> base_uint \<Rightarrow> base_uint" where
  "uint_mul a b =
     foldl (\<lambda>pn j. take j pn @ uint_mul_row 0 (a ! j) (drop j pn) b) (replicate (length a) 0) [0..<length a]"

fun CompareTo_loop :: "(u32 \<times> u32) list \<Rightarrow> int" where
  "CompareTo_loop [] = 0"
| "CompareTo_loop ((p, b) # rest) = (if p < b then - 1 else if p > b then 1 else CompareTo_loop rest)"

definition CompareTo :: "base_uint \<Rightarrow> base_uint \<Rightarrow> int" where
  "CompareTo pn b = CompareTo_loop (rev (zip pn b))"

definition EqualTo :: "base_uint \<Rightarrow> u64 \<Rightarrow> bool" where
  "EqualTo pn b \<longleftrightarrow> list_all (\<lambda>p. p = 0) (drop 2 pn) \<and> ucast (pn ! 1) = drop_bit 32 b \<and> ucast (pn ! 0) = b AND 0xffffffff"

fun uint_bits_limb :: "u32 \<Rightarrow> nat \<Rightarrow> nat" where
  "uint_bits_limb p 0 = 1"
| "uint_bits_limb p (Suc bits) = (if p AND push_bit (Suc bits) 1 \<noteq> 0 then Suc bits + 1 else uint_bits_limb p bits)"

fun uint_bits_loop :: "base_uint \<Rightarrow> nat \<Rightarrow> nat" where
  "uint_bits_loop pn 0 = 0"
| "uint_bits_loop pn (Suc pos) =
     (if pn ! pos \<noteq> 0 then 32 * pos + uint_bits_limb (pn ! pos) 31 else uint_bits_loop pn pos)"

definition uint_bits :: "base_uint \<Rightarrow> nat" where
  "uint_bits pn = uint_bits_loop pn (length pn)"

datatype uint_error = DivisionByZero | WrongSize

fun uint_div_loop :: "nat \<Rightarrow> base_uint \<Rightarrow> base_uint \<Rightarrow> base_uint \<Rightarrow> base_uint" where
  "uint_div_loop shift num dv pn =
     (let (num, pn) = (if CompareTo num dv \<ge> 0
                       then (uint_sub num dv, pn[shift div 32 := pn ! (shift div 32) OR push_bit (shift mod 32) 1])
                       else (num, pn));
          dv = uint_shr dv 1
      in case shift of 0 \<Rightarrow> pn | Suc shift' \<Rightarrow> uint_div_loop shift' num dv pn)"

definition uint_div :: "base_uint \<Rightarrow> base_uint \<Rightarrow> uint_error + base_uint" where
  "uint_div num dv =
     (let num_bits = uint_bits num; div_bits = uint_bits dv in
      if div_bits = 0 then Inl DivisionByZero
      else if num_bits < div_bits then Inr (replicate (length num) 0)
      else let shift = num_bits - div_bits in
        Inr (uint_div_loop shift num (uint_shl dv shift) (replicate (length num) 0)))"

definition Get64 :: "base_uint \<Rightarrow> nat \<Rightarrow> u64" where
  "Get64 pn k = ucast (pn ! (2 * k)) OR push_bit 32 (ucast (pn ! (2 * k + 1)))"

definition Get32 :: "base_uint \<Rightarrow> nat \<Rightarrow> u32" where
  "Get32 pn k = pn ! (2 * k)"

definition GetLow64 :: "base_uint \<Rightarrow> u64" where
  "GetLow64 pn = ucast (pn ! 0) OR push_bit 32 (ucast (pn ! 1))"

declare uint_div_loop.simps [simp del]

section \<open>The number of an array of limbs\<close>

fun limbs_nat :: "base_uint \<Rightarrow> nat" where
  "limbs_nat [] = 0"
| "limbs_nat (p # pn) = unat p + 2 ^ 32 * limbs_nat pn"

abbreviation limbs_mod :: "base_uint \<Rightarrow> nat" where
  "limbs_mod pn \<equiv> 2 ^ (32 * length pn)"

lemma limbs_nat_less: "limbs_nat pn < limbs_mod pn"
proof (induction pn)
  case (Cons p pn)
  have "unat p < 2 ^ LENGTH(32)" by (rule unsigned_less)
  then have "unat p < 2 ^ 32" by simp
  moreover have "2 ^ 32 * limbs_nat pn + 2 ^ 32 \<le> 2 ^ 32 * limbs_mod pn"
    using Cons.IH by (metis Suc_le_eq mult_Suc_right mult_le_mono2 add.commute)
  ultimately show ?case by (simp add: power_add)
qed simp

lemma limbs_nat_append: "limbs_nat (xs @ ys) = limbs_nat xs + 2 ^ (32 * length xs) * limbs_nat ys"
  by (induction xs) (simp_all add: power_add algebra_simps)

lemma limbs_nat_zero [simp]: "limbs_nat (replicate k 0) = 0"
  by (induction k) simp_all

lemma u32_less: "unat (p :: u32) < 2 ^ 32"
proof -
  have "unat p < 2 ^ LENGTH(32)" by (rule unsigned_less)
  then show ?thesis by simp
qed

lemma u64_less: "unat (p :: u64) < 2 ^ 64"
proof -
  have "unat p < 2 ^ LENGTH(64)" by (rule unsigned_less)
  then show ?thesis by simp
qed

lemma unat_ucast_64 [simp]: "unat (ucast (p :: u32) :: u64) = unat p"
  using u32_less[of p] by (simp add: unsigned_ucast_eq take_bit_nat_eq_self)

text \<open>One step of a carry loop: the low half is stored, the high half carried.\<close>

lemma carry_step:
  fixes n :: u64
  shows "unat (ucast (n AND 0xffffffff) :: u32) = unat n mod 2 ^ 32" and "unat (drop_bit 32 n) = unat n div 2 ^ 32"
proof -
  have "n AND 0xffffffff = take_bit 32 n" by (simp only: take_bit_eq_mask mask_eq_exp_minus_1) simp
  then have "(ucast (n AND 0xffffffff) :: u32) = ucast n" by (simp only:) (rule bit_word_eqI, auto simp: bit_simps)
  then show "unat (ucast (n AND 0xffffffff) :: u32) = unat n mod 2 ^ 32"
    by (simp only: unsigned_ucast_eq take_bit_eq_mod) simp
  show "unat (drop_bit 32 n) = unat n div 2 ^ 32" by (simp add: drop_bit_eq_div unat_div)
qed

lemma carry_mod:
  fixes N R M :: nat
  shows "N mod 2 ^ 32 + 2 ^ 32 * ((N div 2 ^ 32 + R) mod M) = (N + 2 ^ 32 * R) mod (2 ^ 32 * M)"
proof -
  have "(N + 2 ^ 32 * R) div 2 ^ 32 = N div 2 ^ 32 + R" "(N + 2 ^ 32 * R) mod 2 ^ 32 = N mod 2 ^ 32" by simp_all
  then show ?thesis by (simp only: mod_mult2_eq add.commute)
qed

lemma unat_sum3:
  fixes c :: u64 and p b :: u32
  assumes "unat c < 2 ^ 32"
  shows "unat (c + ucast p + ucast b) = unat c + unat p + unat b"
proof -
  have "unat c + unat p + unat b < 2 ^ 64" using assms u32_less[of p] u32_less[of b] by simp
  then show ?thesis by (simp add: unat_word_ariths)
qed

lemma unat_mul_add:
  fixes c :: u64 and p a b :: u32
  assumes "unat c < 2 ^ 32"
  shows "unat (c + ucast p + ucast a * ucast b) = unat c + unat p + unat a * unat b"
proof -
  have a: "unat p \<le> 2 ^ 32 - 1" "unat a \<le> 2 ^ 32 - 1" "unat b \<le> 2 ^ 32 - 1" "unat c \<le> 2 ^ 32 - 1"
    using u32_less[of p] u32_less[of a] u32_less[of b] assms by simp_all
  then have "unat a * unat b \<le> (2 ^ 32 - 1) * (2 ^ 32 - 1)" by (intro mult_le_mono)
  then have "unat c + unat p + unat a * unat b < 2 ^ 64" using a by simp
  then show ?thesis by (simp add: unat_word_ariths)
qed

lemma uint_add_loop_nat:
  assumes "length pn = length bn" and "unat c < 2 ^ 32"
  shows "limbs_nat (uint_add_loop c pn bn) = (unat c + limbs_nat pn + limbs_nat bn) mod limbs_mod pn \<and>
    length (uint_add_loop c pn bn) = length pn"
  using assms
proof (induction c pn bn rule: uint_add_loop.induct)
  case (1 c p pn b bn)
  define n :: u64 where "n = c + ucast p + ucast b"
  have n: "unat n = unat c + unat p + unat b" unfolding n_def using 1(3) by (rule unat_sum3)
  have "unat (drop_bit 32 n) < 2 ^ 32" using u64_less[of n] by (simp add: carry_step less_mult_imp_div_less)
  with 1 have IH: "limbs_nat (uint_add_loop (drop_bit 32 n) pn bn) =
      (unat n div 2 ^ 32 + (limbs_nat pn + limbs_nat bn)) mod limbs_mod pn"
    "length (uint_add_loop (drop_bit 32 n) pn bn) = length pn"
    by (simp_all add: n_def carry_step add.assoc)
  have "limbs_nat (uint_add_loop c (p # pn) (b # bn)) =
      unat n mod 2 ^ 32 + 2 ^ 32 * ((unat n div 2 ^ 32 + (limbs_nat pn + limbs_nat bn)) mod limbs_mod pn)"
    by (simp add: Let_def n_def[symmetric] carry_step(1) IH del: mult_Suc_right)
  also have "\<dots> = (unat n + 2 ^ 32 * (limbs_nat pn + limbs_nat bn)) mod (2 ^ 32 * limbs_mod pn)" by (rule carry_mod)
  also have "\<dots> = (unat c + limbs_nat (p # pn) + limbs_nat (b # bn)) mod limbs_mod (p # pn)"
    by (simp add: n power_add algebra_simps)
  finally show ?case using IH(2) by (simp add: Let_def n_def)
qed simp_all

lemma limbs_add:
  assumes "length a = length b"
  shows "limbs_nat (uint_add a b) = (limbs_nat a + limbs_nat b) mod limbs_mod a" and "length (uint_add a b) = length a"
  using uint_add_loop_nat[of a b 0] assms by (simp_all add: uint_add_def)

lemma uint_mul_row_nat:
  assumes "length pn \<le> length bn" and "unat c < 2 ^ 32"
  shows "limbs_nat (uint_mul_row c a pn bn) = (unat c + limbs_nat pn + unat a * limbs_nat bn) mod limbs_mod pn \<and>
    length (uint_mul_row c a pn bn) = length pn"
  using assms
proof (induction c a pn bn rule: uint_mul_row.induct)
  case (1 c a p pn b bn)
  define n :: u64 where "n = c + ucast p + ucast a * ucast b"
  have n: "unat n = unat c + unat p + unat a * unat b" unfolding n_def using 1(3) by (rule unat_mul_add)
  have "unat (drop_bit 32 n) < 2 ^ 32"
    using u64_less[of n] by (simp add: carry_step less_mult_imp_div_less)
  with 1 have IH: "limbs_nat (uint_mul_row (drop_bit 32 n) a pn bn) =
      (unat n div 2 ^ 32 + (limbs_nat pn + unat a * limbs_nat bn)) mod limbs_mod pn"
    "length (uint_mul_row (drop_bit 32 n) a pn bn) = length pn"
    by (simp_all add: n_def carry_step add.assoc)
  have "limbs_nat (uint_mul_row c a (p # pn) (b # bn)) =
      unat n mod 2 ^ 32 + 2 ^ 32 * ((unat n div 2 ^ 32 + (limbs_nat pn + unat a * limbs_nat bn)) mod limbs_mod pn)"
    by (simp add: Let_def n_def[symmetric] carry_step(1) IH del: mult_Suc_right)
  also have "\<dots> = (unat n + 2 ^ 32 * (limbs_nat pn + unat a * limbs_nat bn)) mod (2 ^ 32 * limbs_mod pn)" by (rule carry_mod)
  also have "\<dots> = (unat c + limbs_nat (p # pn) + unat a * limbs_nat (b # bn)) mod limbs_mod (p # pn)"
    by (simp add: n power_add algebra_simps)
  finally show ?case using IH(2) by (simp add: Let_def n_def)
qed simp_all

lemma uint_mul_fold:
  assumes "length a = length b" and "k \<le> length a"
  defines "pn \<equiv> foldl (\<lambda>pn j. take j pn @ uint_mul_row 0 (a ! j) (drop j pn) b) (replicate (length a) 0) [0..<k]"
  shows "limbs_nat pn = (limbs_nat (take k a) * limbs_nat b) mod limbs_mod a \<and> length pn = length a"
  using assms(2) unfolding pn_def
proof (induction k)
  case (Suc k)
  define q where "q = foldl (\<lambda>pn j. take j pn @ uint_mul_row 0 (a ! j) (drop j pn) b) (replicate (length a) 0) [0..<k]"
  have q: "limbs_nat q = (limbs_nat (take k a) * limbs_nat b) mod limbs_mod a" "length q = length a"
    using Suc unfolding q_def by simp_all
  have k: "k < length a" using Suc.prems by simp
  define hi where "hi = uint_mul_row 0 (a ! k) (drop k q) b"
  have hi: "limbs_nat hi = (limbs_nat (drop k q) + unat (a ! k) * limbs_nat b) mod 2 ^ (32 * (length a - k))"
    "length hi = length a - k"
    using uint_mul_row_nat[of "drop k q" b 0 "a ! k"] assms(1) q(2) by (simp_all add: hi_def)
  have split: "limbs_mod a = 2 ^ (32 * k) * 2 ^ (32 * (length a - k))" using k by (simp flip: power_add distrib_left)
  have qs: "limbs_nat q = limbs_nat (take k q) + 2 ^ (32 * k) * limbs_nat (drop k q)"
    using limbs_nat_append[of "take k q" "drop k q"] k q(2) by simp
  have lt: "limbs_nat (take k q) < 2 ^ (32 * k)" using limbs_nat_less[of "take k q"] k q(2) by simp
  have "limbs_nat (take k q @ hi) = limbs_nat (take k q) + 2 ^ (32 * k) * limbs_nat hi"
    using k q(2) by (simp add: limbs_nat_append)
  also have "\<dots> = (limbs_nat (take k q) + 2 ^ (32 * k) * (limbs_nat (drop k q) + unat (a ! k) * limbs_nat b)) mod limbs_mod a"
    unfolding hi(1) split using lt by (simp add: mod_mult2_eq)
  also have "\<dots> = (limbs_nat q + 2 ^ (32 * k) * unat (a ! k) * limbs_nat b) mod limbs_mod a"
    by (simp add: qs algebra_simps)
  also have "\<dots> = (limbs_nat (take k a) * limbs_nat b + 2 ^ (32 * k) * unat (a ! k) * limbs_nat b) mod limbs_mod a"
    by (simp add: q(1) mod_simps)
  also have "limbs_nat (take k a) * limbs_nat b + 2 ^ (32 * k) * unat (a ! k) * limbs_nat b =
      limbs_nat (take (Suc k) a) * limbs_nat b"
    using k by (simp add: take_Suc_conv_app_nth limbs_nat_append algebra_simps)
  finally show ?case using hi(2) q(2) k by (simp add: hi_def q_def)
qed simp

lemma limbs_mul:
  assumes "length a = length b"
  shows "limbs_nat (uint_mul a b) = (limbs_nat a * limbs_nat b) mod limbs_mod a" and "length (uint_mul a b) = length a"
  using uint_mul_fold[OF assms, of "length a"] by (simp_all add: uint_mul_def)

lemma uint_mul32_loop_nat:
  assumes "unat c < 2 ^ 32"
  shows "limbs_nat (uint_mul32_loop c b pn) = (unat c + unat b * limbs_nat pn) mod limbs_mod pn \<and>
    length (uint_mul32_loop c b pn) = length pn"
  using assms
proof (induction c b pn rule: uint_mul32_loop.induct)
  case (2 c b p pn)
  define n :: u64 where "n = c + ucast b * ucast p"
  have n: "unat n = unat c + unat b * unat p" unfolding n_def using unat_mul_add[OF 2(2), of 0 b p] by simp
  have "unat (drop_bit 32 n) < 2 ^ 32" using u64_less[of n] by (simp add: carry_step less_mult_imp_div_less)
  with 2 have IH: "limbs_nat (uint_mul32_loop (drop_bit 32 n) b pn) =
      (unat n div 2 ^ 32 + unat b * limbs_nat pn) mod limbs_mod pn" "length (uint_mul32_loop (drop_bit 32 n) b pn) = length pn"
    by (simp_all add: n_def carry_step)
  have "limbs_nat (uint_mul32_loop c b (p # pn)) =
      unat n mod 2 ^ 32 + 2 ^ 32 * ((unat n div 2 ^ 32 + unat b * limbs_nat pn) mod limbs_mod pn)"
    by (simp add: Let_def n_def[symmetric] carry_step(1) IH del: mult_Suc_right)
  also have "\<dots> = (unat n + 2 ^ 32 * (unat b * limbs_nat pn)) mod (2 ^ 32 * limbs_mod pn)" by (rule carry_mod)
  also have "\<dots> = (unat c + unat b * limbs_nat (p # pn)) mod limbs_mod (p # pn)" by (simp add: n power_add algebra_simps)
  finally show ?case using IH(2) by (simp add: Let_def n_def)
qed simp

lemma limbs_mul32: "limbs_nat (uint_mul32 pn b) = (limbs_nat pn * unat b) mod limbs_mod pn" "length (uint_mul32 pn b) = length pn"
  using uint_mul32_loop_nat[of 0 b pn] by (simp_all add: uint_mul32_def mult.commute)

lemma unat_minus_one_32: "unat (- 1 :: u32) = 2 ^ 32 - 1"
  by (simp only: unsigned_minus_1_eq_mask mask_eq_exp_minus_1) simp

lemma limbs_not: "limbs_nat (uint_not pn) = limbs_mod pn - 1 - limbs_nat pn"
proof (induction pn)
  case (Cons p pn)
  have "NOT p = - 1 - p" by (simp add: not_eq_complement)
  then have "unat (NOT p) = unat (- 1 :: u32) - unat p" by (simp add: unat_sub)
  then have p: "unat (NOT p) = 2 ^ 32 - 1 - unat p" by (simp add: unat_minus_one_32)
  obtain d where d: "limbs_mod pn = Suc (limbs_nat pn + d)" using limbs_nat_less[of pn] less_iff_Suc_add by auto
  have "limbs_nat (uint_not (p # pn)) = unat (NOT p) + 2 ^ 32 * limbs_nat (uint_not pn)" by (simp add: uint_not_def)
  also have "\<dots> = 2 ^ 32 - 1 - unat p + 2 ^ 32 * d" unfolding p Cons.IH d by simp
  finally have "limbs_nat (uint_not (p # pn)) + limbs_nat (p # pn) + 1 = 2 ^ 32 * limbs_mod pn"
    unfolding d using u32_less[of p] by simp
  then have "limbs_nat (uint_not (p # pn)) + limbs_nat (p # pn) + 1 = limbs_mod (p # pn)" by (simp add: power_add)
  then show ?case by linarith
qed (simp add: uint_not_def)

lemma unat_plus_one: "(p :: u32) + 1 \<noteq> 0 \<Longrightarrow> unat (p + 1) = unat p + 1"
  by (simp add: unatSuc add.commute)

lemma plus_one_zero: "(p :: u32) + 1 = 0 \<Longrightarrow> unat p = 2 ^ 32 - 1"
  by (metis add_eq_0_iff2 unat_minus_one_32)

lemma limbs_inc: "pn \<noteq> [] \<Longrightarrow> limbs_nat (uint_inc pn) = (limbs_nat pn + 1) mod limbs_mod pn \<and> length (uint_inc pn) = length pn"
proof (induction pn rule: uint_inc.induct)
  case (2 p pn)
  show ?case
  proof (cases "p + 1 = 0")
    case True
    then have "limbs_nat (p # pn) + 1 = 2 ^ 32 * (limbs_nat pn + 1)" using plus_one_zero[OF True] by simp
    then have "(limbs_nat (p # pn) + 1) mod limbs_mod (p # pn) = 2 ^ 32 * ((limbs_nat pn + 1) mod limbs_mod pn)"
      by (simp only: mult_mod_right length_Cons mult_Suc_right power_add)
    with True 2 show ?thesis by (cases "pn = []") simp_all
  next
    case False
    have "limbs_nat ((p + 1) # pn) < limbs_mod ((p + 1) # pn)" by (rule limbs_nat_less)
    then have "limbs_nat (p # pn) + 1 < limbs_mod (p # pn)" by (simp add: unat_plus_one[OF False])
    with False show ?thesis by (simp add: unat_plus_one[OF False])
  qed
qed simp

lemma limbs_neg:
  assumes "pn \<noteq> []"
  shows "limbs_nat (uint_neg pn) = (limbs_mod pn - limbs_nat pn) mod limbs_mod pn" and "length (uint_neg pn) = length pn"
proof -
  have l: "length (uint_not pn) = length pn" "uint_not pn \<noteq> []" using assms by (simp_all add: uint_not_def)
  then show "limbs_nat (uint_neg pn) = (limbs_mod pn - limbs_nat pn) mod limbs_mod pn" "length (uint_neg pn) = length pn"
    using limbs_inc[OF l(2)] limbs_nat_less[of pn] by (simp_all add: uint_neg_def limbs_not Suc_diff_Suc)
qed

lemma limbs_sub:
  assumes "length a = length b"
  shows "limbs_nat (uint_sub a b) = (limbs_nat a + (limbs_mod a - limbs_nat b)) mod limbs_mod a"
    and "length (uint_sub a b) = length a"
proof -
  have "limbs_nat (uint_sub a b) = (limbs_nat a + (limbs_mod a - limbs_nat b)) mod limbs_mod a \<and> length (uint_sub a b) = length a"
  proof (cases "b = []")
    case True
    then show ?thesis using assms by (simp add: uint_sub_def uint_neg_def uint_not_def uint_add_def)
  next
    case False
    then show ?thesis using limbs_neg[OF False] limbs_add[of a "uint_neg b"] assms by (simp add: uint_sub_def mod_simps)
  qed
  then show "limbs_nat (uint_sub a b) = (limbs_nat a + (limbs_mod a - limbs_nat b)) mod limbs_mod a"
    "length (uint_sub a b) = length a" by simp_all
qed

lemma limbs_sub_le:
  assumes "length a = length b" and "limbs_nat b \<le> limbs_nat a"
  shows "limbs_nat (uint_sub a b) = limbs_nat a - limbs_nat b"
proof -
  have "limbs_nat a + (limbs_mod a - limbs_nat b) = limbs_mod a + (limbs_nat a - limbs_nat b)"
    using assms limbs_nat_less[of b] by simp
  then show ?thesis unfolding limbs_sub(1)[OF assms(1)] using limbs_nat_less[of a] by (simp only: mod_add_self1) simp
qed

lemma limbs_dec: "pn \<noteq> [] \<Longrightarrow> limbs_nat (uint_dec pn) = (limbs_nat pn + (limbs_mod pn - 1)) mod limbs_mod pn \<and> length (uint_dec pn) = length pn"
proof (induction pn rule: uint_dec.induct)
  case (2 p pn)
  have pos: "0 < limbs_mod pn" by simp
  show ?case
  proof (cases "p = 0")
    case True
    have "limbs_nat (p # pn) + (limbs_mod (p # pn) - 1) = (2 ^ 32 - 1) + 2 ^ 32 * (limbs_nat pn + (limbs_mod pn - 1))"
      using pos by (cases "limbs_mod pn") (simp_all add: True power_add algebra_simps)
    then have "(limbs_nat (p # pn) + (limbs_mod (p # pn) - 1)) mod limbs_mod (p # pn) =
        (2 ^ 32 - 1) + 2 ^ 32 * ((limbs_nat pn + (limbs_mod pn - 1)) mod limbs_mod pn)"
      using carry_mod[of "2 ^ 32 - 1" "limbs_nat pn + (limbs_mod pn - 1)" "limbs_mod pn"]
      by (simp only: length_Cons mult_Suc_right power_add) simp
    with True 2 show ?thesis by (cases "pn = []") (simp_all add: unat_minus_one_32)
  next
    case False
    then have p: "unat (p - 1) = unat p - 1" "1 \<le> unat p" by (simp_all add: unat_minus_one Suc_le_eq unat_gt_0)
    have "p - 1 \<noteq> - 1" using False by simp
    moreover have "limbs_nat (p # pn) + (limbs_mod (p # pn) - 1) = limbs_mod (p # pn) + (unat p - 1 + 2 ^ 32 * limbs_nat pn)"
      using p(2) by simp
    moreover have "unat p - 1 + 2 ^ 32 * limbs_nat pn < limbs_mod (p # pn)" using limbs_nat_less[of "p # pn"] by simp
    ultimately have "(limbs_nat (p # pn) + (limbs_mod (p # pn) - 1)) mod limbs_mod (p # pn) = unat p - 1 + 2 ^ 32 * limbs_nat pn"
      by (simp only: mod_add_self1 mod_less)
    with \<open>p - 1 \<noteq> - 1\<close> show ?thesis by (simp add: p(1))
  qed
qed simp

section \<open>Comparison and bit length\<close>

lemma CompareTo_loop_nat:
  "CompareTo_loop (zip (rev a) (rev b)) = (if limbs_nat a < limbs_nat b then - 1 else if limbs_nat b < limbs_nat a then 1 else 0)"
  if "length a = length b"
  using that
proof (induction a b rule: rev_induct2)
  case (4 x xs y ys)
  then have l: "length xs = length ys" by simp
  have less: "unat x < unat y \<Longrightarrow> limbs_nat (xs @ [x]) < limbs_nat (ys @ [y])" if "length xs = length ys" for xs ys and x y :: u32
  proof -
    assume "unat x < unat y"
    then have "2 ^ (32 * length xs) * unat x + 2 ^ (32 * length xs) \<le> 2 ^ (32 * length xs) * unat y"
      by (metis Suc_le_eq mult_Suc_right mult_le_mono2 add.commute)
    then show "limbs_nat (xs @ [x]) < limbs_nat (ys @ [y])"
      using limbs_nat_less[of xs] that by (simp add: limbs_nat_append)
  qed
  consider "x < y" | "x > y" | "x = y" by (rule linorder_cases)
  then show ?case
  proof cases
    case 1
    then show ?thesis using less[OF l, of x y] by (simp add: word_less_nat_alt)
  next
    case 2
    then show ?thesis using less[OF l[symmetric], of y x] by (simp add: word_less_nat_alt)
  next
    case 3
    then show ?thesis using 4 l by (simp add: limbs_nat_append)
  qed
qed simp_all

lemma limbs_compare:
  "length a = length b \<Longrightarrow>
     CompareTo a b = (if limbs_nat a < limbs_nat b then - 1 else if limbs_nat b < limbs_nat a then 1 else 0)"
  using CompareTo_loop_nat[of a b] by (simp add: CompareTo_def zip_rev)

lemma bit_limbs: "bit (limbs_nat pn) n \<longleftrightarrow> n div 32 < length pn \<and> bit (pn ! (n div 32)) (n mod 32)"
proof (induction pn arbitrary: n)
  case (Cons p pn)
  show ?case
  proof (cases "n < 32")
    case True
    have "(2 :: nat) ^ 32 = 2 ^ n * 2 ^ (32 - n)" using True by (simp flip: power_add)
    then have "limbs_nat (p # pn) div 2 ^ n = unat p div 2 ^ n + 2 ^ (32 - n) * limbs_nat pn"
      by (simp only: limbs_nat.simps mult.assoc) simp
    moreover have "even ((2 :: nat) ^ (32 - n))" using True by simp
    ultimately have "bit (limbs_nat (p # pn)) n = bit (unat p) n" by (simp add: bit_iff_odd)
    then show ?thesis using True by (simp add: bit_unsigned_iff)
  next
    case False
    then obtain m where m: "n = 32 + m" using le_Suc_ex by (metis not_less)
    have "limbs_nat (p # pn) div 2 ^ n = (unat p + 2 ^ 32 * limbs_nat pn) div 2 ^ 32 div 2 ^ m"
      by (simp add: m power_add div_mult2_eq)
    also have "\<dots> = limbs_nat pn div 2 ^ m" using u32_less[of p] by simp
    finally have "bit (limbs_nat (p # pn)) n = bit (limbs_nat pn) m" by (simp add: bit_iff_odd)
    moreover have "n div 32 = Suc (m div 32)" "n mod 32 = m mod 32" using m by simp_all
    ultimately show ?thesis by (simp add: Cons.IH)
  qed
qed simp

lemma bit_limbs_nth: "bit (limbs_nat pn) n \<Longrightarrow> n < 32 * length pn"
  by (auto simp: bit_limbs)

lemma and_bit_mask: "k < 32 \<Longrightarrow> (p :: u32) AND push_bit k 1 \<noteq> 0 \<longleftrightarrow> bit p k"
proof
  assume k: "k < 32" and "p AND push_bit k 1 \<noteq> 0"
  then show "bit p k" using bit_word_eqI[of "p AND push_bit k 1" 0] by (auto simp: bit_simps)
next
  assume "k < 32" and "bit p k"
  then have "bit (p AND push_bit k 1) k" by (simp add: bit_simps)
  then show "p AND push_bit k 1 \<noteq> 0" by auto
qed

lemma uint_bits_limb_nat:
  assumes "p \<noteq> 0" and "unat p < 2 ^ Suc m" and "m < 32"
  shows "0 < uint_bits_limb p m \<and> 2 ^ (uint_bits_limb p m - 1) \<le> unat p \<and> unat p < 2 ^ uint_bits_limb p m"
  using assms(2,3)
proof (induction m)
  case 0
  moreover have "0 < unat p" using assms(1) by (simp add: unat_gt_0)
  ultimately show ?case by simp
next
  case (Suc m)
  have "p AND push_bit (Suc m) 1 \<noteq> 0 \<longleftrightarrow> bit p (Suc m)"
    using Suc.prems(2) by (rule and_bit_mask)
  also have "\<dots> \<longleftrightarrow> bit (unat p) (Suc m)" using Suc.prems(2) by (simp add: bit_unsigned_iff)
  also have "\<dots> \<longleftrightarrow> 2 ^ Suc m \<le> unat p"
  proof -
    have "unat p div 2 ^ Suc m < 2" using Suc.prems(1) by (simp add: less_mult_imp_div_less)
    then have "unat p div 2 ^ Suc m = 0 \<or> unat p div 2 ^ Suc m = 1" by linarith
    moreover have "unat p div 2 ^ Suc m = 0 \<longleftrightarrow> \<not> 2 ^ Suc m \<le> unat p" by (simp add: div_eq_0_iff not_le)
    ultimately show ?thesis by (auto simp: bit_iff_odd)
  qed
  finally show ?case using Suc by (auto simp: not_le)
qed

lemma uint_bits_nat_loop:
  "pos \<le> length pn \<Longrightarrow>
     (if limbs_nat (take pos pn) = 0 then uint_bits_loop pn pos = 0
      else 0 < uint_bits_loop pn pos \<and> 2 ^ (uint_bits_loop pn pos - 1) \<le> limbs_nat (take pos pn) \<and>
        limbs_nat (take pos pn) < 2 ^ uint_bits_loop pn pos)"
proof (induction pos)
  case (Suc pos)
  define lo where "lo = limbs_nat (take pos pn)"
  have lo: "lo < 2 ^ (32 * pos)" using limbs_nat_less[of "take pos pn"] Suc.prems by (simp add: lo_def)
  have v: "limbs_nat (take (Suc pos) pn) = lo + 2 ^ (32 * pos) * unat (pn ! pos)"
    using Suc.prems by (simp add: take_Suc_conv_app_nth limbs_nat_append lo_def)
  show ?case
  proof (cases "pn ! pos = 0")
    case True
    then show ?thesis using Suc v by (auto simp: lo_def split: if_splits)
  next
    case False
    define r where "r = uint_bits_limb (pn ! pos) 31"
    have r: "0 < r" "2 ^ (r - 1) \<le> unat (pn ! pos)" "unat (pn ! pos) < 2 ^ r"
      using uint_bits_limb_nat[OF False, of 31] u32_less[of "pn ! pos"] by (simp_all add: r_def)
    have "2 ^ (32 * pos + r - 1) = (2 :: nat) ^ (32 * pos) * 2 ^ (r - 1)" using r(1) by (simp flip: power_add)
    then have "2 ^ (32 * pos + r - 1) \<le> limbs_nat (take (Suc pos) pn)" unfolding v using r(2) by (simp add: trans_le_add2)
    moreover have "lo + 2 ^ (32 * pos) * unat (pn ! pos) < 2 ^ (32 * pos) * 2 ^ r"
      using lo r(3) by (metis (no_types, lifting) add.commute add_less_mono1 less_le_trans mult_Suc_right mult_le_mono2 Suc_leI)
    moreover have "limbs_nat (take (Suc pos) pn) \<noteq> 0" using False by (simp add: v unat_eq_zero)
    ultimately show ?thesis using False r(1) v by (simp add: r_def[symmetric] power_add)
  qed
qed simp

lemma limbs_bits:
  "uint_bits pn = 0 \<longleftrightarrow> limbs_nat pn = 0"
  "limbs_nat pn < 2 ^ uint_bits pn"
  "limbs_nat pn \<noteq> 0 \<Longrightarrow> 2 ^ (uint_bits pn - 1) \<le> limbs_nat pn"
  using uint_bits_nat_loop[of "length pn" pn] by (auto simp: uint_bits_def split: if_splits)

section \<open>Shifts\<close>

lemma shl_fold:
  assumes "t \<le> length a"
  shows "length (foldl (shl_step a k s) (replicate (length a) 0) [0..<t]) = length a \<and>
    (\<forall>m < length a. foldl (shl_step a k s) (replicate (length a) 0) [0..<t] ! m =
      (if k \<le> m \<and> m - k < t then push_bit s (a ! (m - k)) else 0) OR
      (if k + 1 \<le> m \<and> m - k - 1 < t \<and> s \<noteq> 0 then drop_bit (32 - s) (a ! (m - k - 1)) else 0))"
  using assms
proof (induction t)
  case (Suc t)
  define q where "q = foldl (shl_step a k s) (replicate (length a) 0) [0..<t]"
  have IH: "length q = length a" "\<And>m. m < length a \<Longrightarrow> q ! m =
    (if k \<le> m \<and> m - k < t then push_bit s (a ! (m - k)) else 0) OR
    (if k + 1 \<le> m \<and> m - k - 1 < t \<and> s \<noteq> 0 then drop_bit (32 - s) (a ! (m - k - 1)) else 0)"
    using Suc unfolding q_def by simp_all
  have "shl_step a k s q t ! m =
      (if k \<le> m \<and> m - k < Suc t then push_bit s (a ! (m - k)) else 0) OR
      (if k + 1 \<le> m \<and> m - k - 1 < Suc t \<and> s \<noteq> 0 then drop_bit (32 - s) (a ! (m - k - 1)) else 0)" if m: "m < length a" for m
  proof -
    consider "m = t + k" | "m = t + k + 1" | "m \<noteq> t + k" "m \<noteq> t + k + 1" by blast
    then show ?thesis
    proof cases
      case 3
      then have "k \<le> m \<Longrightarrow> m - k \<noteq> t" "k + 1 \<le> m \<Longrightarrow> m - k - 1 \<noteq> t" by auto
      with 3 m IH show ?thesis by (auto simp: shl_step_def Let_def less_Suc_eq nth_list_update)
    qed (use m IH in \<open>auto simp: shl_step_def Let_def nth_list_update or.commute\<close>)
  qed
  moreover have "length (shl_step a k s q t) = length a" by (simp add: shl_step_def Let_def IH)
  ultimately show ?case by (simp add: q_def)
qed simp

lemma uint_shl_nth:
  "length (uint_shl a sh) = length a"
  "m < length a \<Longrightarrow> uint_shl a sh ! m =
    (if sh div 32 \<le> m then push_bit (sh mod 32) (a ! (m - sh div 32)) else 0) OR
    (if sh div 32 + 1 \<le> m \<and> sh mod 32 \<noteq> 0 then drop_bit (32 - sh mod 32) (a ! (m - sh div 32 - 1)) else 0)"
  using shl_fold[OF order.refl, of a "sh div 32" "sh mod 32"] by (auto simp: uint_shl_def less_imp_diff_less)

lemma shr_fold:
  assumes "t \<le> length a"
  shows "length (foldl (shr_step a k s) (replicate (length a) 0) [0..<t]) = length a \<and>
    (\<forall>m < length a. foldl (shr_step a k s) (replicate (length a) 0) [0..<t] ! m =
      (if m + k < t then drop_bit s (a ! (m + k)) else 0) OR
      (if m + k + 1 < t \<and> s \<noteq> 0 then push_bit (32 - s) (a ! (m + k + 1)) else 0))"
  using assms
proof (induction t)
  case (Suc t)
  define q where "q = foldl (shr_step a k s) (replicate (length a) 0) [0..<t]"
  have IH: "length q = length a" "\<And>m. m < length a \<Longrightarrow> q ! m =
      (if m + k < t then drop_bit s (a ! (m + k)) else 0) OR
      (if m + k + 1 < t \<and> s \<noteq> 0 then push_bit (32 - s) (a ! (m + k + 1)) else 0)"
    using Suc unfolding q_def by simp_all
  have "shr_step a k s q t ! m =
      (if m + k < Suc t then drop_bit s (a ! (m + k)) else 0) OR
      (if m + k + 1 < Suc t \<and> s \<noteq> 0 then push_bit (32 - s) (a ! (m + k + 1)) else 0)" if m: "m < length a" for m
  proof -
    consider "m + k = t" | "m + k + 1 = t" | "m + k \<noteq> t" "m + k + 1 \<noteq> t" by blast
    then show ?thesis
    proof cases
      case 3
      then have "k \<le> t \<Longrightarrow> t - k \<noteq> m" "k + 1 \<le> t \<Longrightarrow> t - k - 1 \<noteq> m" by auto
      with 3 m IH show ?thesis by (auto simp: shr_step_def Let_def less_Suc_eq nth_list_update)
    qed (use m Suc.prems IH in \<open>auto simp: shr_step_def Let_def nth_list_update or.commute\<close>)
  qed
  moreover have "length (shr_step a k s q t) = length a" by (simp add: shr_step_def Let_def IH)
  ultimately show ?case by (simp add: q_def)
qed simp

lemma uint_shr_nth:
  "length (uint_shr a sh) = length a"
  "m < length a \<Longrightarrow> uint_shr a sh ! m =
    (if m + sh div 32 < length a then drop_bit (sh mod 32) (a ! (m + sh div 32)) else 0) OR
    (if m + sh div 32 + 1 < length a \<and> sh mod 32 \<noteq> 0 then push_bit (32 - sh mod 32) (a ! (m + sh div 32 + 1)) else 0)"
  using shr_fold[OF order.refl, of a "sh div 32" "sh mod 32"] by (auto simp: uint_shr_def)

lemma div_mod_32: "x = 32 * q + r \<Longrightarrow> r < 32 \<Longrightarrow> x div 32 = q \<and> x mod 32 = r" for x q r :: nat
  by simp

lemma limbs_shl: "limbs_nat (uint_shl a sh) = (limbs_nat a * 2 ^ sh) mod limbs_mod a"
proof -
  have "bit (limbs_nat (uint_shl a sh)) n \<longleftrightarrow> n < 32 * length a \<and> sh \<le> n \<and> bit (limbs_nat a) (n - sh)" for n
  proof (cases "n < 32 * length a")
    case True
    define m j k s where "m = n div 32" and "j = n mod 32" and "k = sh div 32" and "s = sh mod 32"
    have nm: "n = 32 * m + j" "sh = 32 * k + s" "j < 32" "s < 32" by (simp_all add: m_def j_def k_def s_def)
    have m: "m < length a" using True by (simp add: m_def less_mult_imp_div_less mult.commute)
    have "bit (limbs_nat (uint_shl a sh)) n \<longleftrightarrow> bit (uint_shl a sh ! m) j"
      using m by (simp add: bit_limbs uint_shl_nth(1) m_def j_def)
    also have "\<dots> \<longleftrightarrow> k \<le> m \<and> s \<le> j \<and> bit (a ! (m - k)) (j - s) \<or>
        k + 1 \<le> m \<and> s \<noteq> 0 \<and> bit (a ! (m - k - 1)) (32 - s + j)"
      using nm(3) by (auto simp: uint_shl_nth(2)[OF m] k_def[symmetric] s_def[symmetric] bit_simps)
    also have "\<dots> \<longleftrightarrow> sh \<le> n \<and> bit (limbs_nat a) (n - sh)"
    proof (cases "s \<le> j")
      case True
      have "bit (a ! (m - k - 1)) (32 - s + j) \<longleftrightarrow> False" using True nm by (auto dest: bit_imp_le_length)
      moreover have "sh \<le> n \<longleftrightarrow> k \<le> m" using True nm by auto
      moreover have "(n - sh) div 32 = m - k \<and> (n - sh) mod 32 = j - s" if "k \<le> m"
      proof -
        have "n - sh = 32 * (m - k) + (j - s)" using that True nm by (simp add: diff_mult_distrib2)
        then show ?thesis using nm by simp
      qed
      ultimately show ?thesis using True m by (auto simp: bit_limbs)
    next
      case False
      have "sh \<le> n \<longleftrightarrow> k + 1 \<le> m" using False nm by auto
      moreover have "(n - sh) div 32 = m - k - 1 \<and> (n - sh) mod 32 = 32 - s + j" if "k + 1 \<le> m"
      proof -
        have "n - sh = 32 * (m - k - 1) + (32 - s + j)" using that False nm by (simp add: diff_mult_distrib2)
        then show ?thesis using False nm by (intro div_mod_32) simp_all
      qed
      ultimately show ?thesis using False m by (auto simp: bit_limbs)
    qed
    finally show ?thesis using True by simp
  qed (auto dest: bit_limbs_nth simp: uint_shl_nth(1))
  then have "limbs_nat (uint_shl a sh) = take_bit (32 * length a) (push_bit sh (limbs_nat a))"
    by (intro bit_eqI) (auto simp: bit_simps)
  then show ?thesis by (simp add: take_bit_eq_mod push_bit_eq_mult)
qed

lemma limbs_shr: "limbs_nat (uint_shr a sh) = limbs_nat a div 2 ^ sh"
proof -
  have "bit (limbs_nat (uint_shr a sh)) n \<longleftrightarrow> bit (limbs_nat a) (n + sh)" for n
  proof (cases "n < 32 * length a")
    case True
    define m j k s where "m = n div 32" and "j = n mod 32" and "k = sh div 32" and "s = sh mod 32"
    have nm: "n = 32 * m + j" "sh = 32 * k + s" "j < 32" "s < 32" by (simp_all add: m_def j_def k_def s_def)
    have m: "m < length a" using True by (simp add: m_def less_mult_imp_div_less mult.commute)
    have "bit (limbs_nat (uint_shr a sh)) n \<longleftrightarrow> bit (uint_shr a sh ! m) j"
      using m by (simp add: bit_limbs uint_shr_nth(1) m_def j_def)
    also have "\<dots> \<longleftrightarrow> m + k < length a \<and> bit (a ! (m + k)) (s + j) \<or>
        m + k + 1 < length a \<and> s \<noteq> 0 \<and> 32 - s \<le> j \<and> bit (a ! (m + k + 1)) (j - (32 - s))"
      using nm(3) by (auto simp: uint_shr_nth(2)[OF m] k_def[symmetric] s_def[symmetric] bit_simps)
    also have "\<dots> \<longleftrightarrow> bit (limbs_nat a) (n + sh)"
    proof (cases "s + j < 32")
      case True
      have "n + sh = 32 * (m + k) + (s + j)" using nm by simp
      then have "(n + sh) div 32 = m + k \<and> (n + sh) mod 32 = s + j" using True by (intro div_mod_32)
      moreover have "\<not> 32 - s \<le> j" using True by linarith
      ultimately show ?thesis by (simp add: bit_limbs)
    next
      case False
      have "\<not> bit (a ! (m + k)) (s + j)" using False by (auto dest: bit_imp_le_length)
      moreover have "n + sh = 32 * (m + k + 1) + (j - (32 - s))" using nm False by simp
      then have "(n + sh) div 32 = m + k + 1 \<and> (n + sh) mod 32 = j - (32 - s)" using nm by (intro div_mod_32) simp_all
      ultimately show ?thesis using False nm by (auto simp: bit_limbs)
    qed
    finally show ?thesis .
  qed (auto dest: bit_limbs_nth simp: uint_shr_nth(1))
  then have "limbs_nat (uint_shr a sh) = drop_bit sh (limbs_nat a)"
    by (intro bit_eqI) (simp add: bit_drop_bit_eq add.commute)
  then show ?thesis by (simp add: drop_bit_eq_div)
qed

section \<open>Division\<close>

lemma limbs_set_bit:
  assumes "t < 32 * length pn" and "\<not> bit (limbs_nat pn) t"
  shows "limbs_nat (pn[t div 32 := pn ! (t div 32) OR push_bit (t mod 32) 1]) = limbs_nat pn + 2 ^ t"
proof -
  have i: "t div 32 < length pn" using assms(1) by (simp add: less_mult_imp_div_less mult.commute)
  have "bit (limbs_nat (pn[t div 32 := pn ! (t div 32) OR push_bit (t mod 32) 1])) n \<longleftrightarrow> bit (limbs_nat pn OR push_bit t 1) n" for n
  proof -
    have "n = t \<longleftrightarrow> n div 32 = t div 32 \<and> n mod 32 = t mod 32" by (metis div_mult_mod_eq)
    then show ?thesis using i assms(1) by (auto simp: bit_limbs nth_list_update bit_simps)
  qed
  then have "limbs_nat (pn[t div 32 := pn ! (t div 32) OR push_bit (t mod 32) 1]) = limbs_nat pn OR push_bit t 1"
    by (intro bit_eqI)
  also have "\<dots> = limbs_nat pn + push_bit t 1"
    using assms(2) by (intro disjunctive_add_eq_or [symmetric] bit_eqI) (auto simp: bit_simps)
  finally show ?thesis by (simp add: push_bit_eq_mult)
qed

lemma low_bits_zero: "2 ^ Suc t dvd x \<Longrightarrow> \<not> bit x t" for x :: nat
  by (auto simp: bit_iff_odd elim!: dvdE)

lemma uint_div_loop_nat:
  assumes "length num = W" "length dv = W" "length pn = W" "t < 32 * W"
    and "limbs_nat dv = d * 2 ^ t" and "0 < d" and "limbs_nat num < d * 2 ^ Suc t" and "2 ^ Suc t dvd limbs_nat pn"
    and "limbs_nat pn + 2 ^ Suc t \<le> 2 ^ (32 * W)"
  shows "limbs_nat (uint_div_loop t num dv pn) = limbs_nat pn + limbs_nat num div d \<and> length (uint_div_loop t num dv pn) = W"
  using assms
proof (induction t arbitrary: num dv pn)
  case 0
  have cmp: "CompareTo num dv \<ge> 0 \<longleftrightarrow> d \<le> limbs_nat num" using limbs_compare[of num dv] 0 by simp
  have "limbs_nat num div d = (if d \<le> limbs_nat num then 1 else 0)"
    using 0 by (auto simp: div_nat_eqI)
  moreover have "\<not> bit (limbs_nat pn) 0" using 0(8) by (intro low_bits_zero)
  ultimately show ?case
    using cmp limbs_set_bit[of 0 pn] 0(3,4) by (simp add: uint_div_loop.simps[of 0])
next
  case (Suc t)
  define ge where "ge = (d * 2 ^ Suc t \<le> limbs_nat num)"
  have cmp: "CompareTo num dv \<ge> 0 \<longleftrightarrow> ge" using limbs_compare[of num dv] Suc.prems by (simp add: ge_def)
  define num' where "num' = (if ge then uint_sub num dv else num)"
  define pn' where "pn' = (if ge then pn[Suc t div 32 := pn ! (Suc t div 32) OR push_bit (Suc t mod 32) 1] else pn)"
  have nb: "\<not> bit (limbs_nat pn) (Suc t)" using Suc.prems(8) by (rule low_bits_zero)
  have num': "limbs_nat num' = (if ge then limbs_nat num - d * 2 ^ Suc t else limbs_nat num)" "length num' = W"
    using limbs_sub_le[of num dv] limbs_sub(2)[of num dv] Suc.prems by (auto simp: num'_def ge_def)
  have pn': "limbs_nat pn' = limbs_nat pn + (if ge then 2 ^ Suc t else 0)" "length pn' = W"
    using limbs_set_bit[OF _ nb] Suc.prems(3,4) by (auto simp: pn'_def)
  have dv': "limbs_nat (uint_shr dv 1) = d * 2 ^ t" "length (uint_shr dv 1) = W"
    using Suc.prems(2,5) by (simp_all add: limbs_shr uint_shr_nth(1))
  have "limbs_nat (uint_div_loop t num' (uint_shr dv 1) pn') = limbs_nat pn' + limbs_nat num' div d \<and>
      length (uint_div_loop t num' (uint_shr dv 1) pn') = W"
  proof (rule Suc.IH)
    show "limbs_nat num' < d * 2 ^ Suc t" using Suc.prems(7) by (auto simp: num' ge_def)
    show "2 ^ Suc t dvd limbs_nat pn'" using Suc.prems(8) by (auto simp: pn' intro!: dvd_add dest: power_le_dvd[of 2 "Suc (Suc t)" _ "Suc t"])
    show "limbs_nat pn' + 2 ^ Suc t \<le> 2 ^ (32 * W)" using Suc.prems(9) by (auto simp: pn')
  qed (use Suc.prems num' pn' dv' in simp_all)
  moreover have "limbs_nat pn' + limbs_nat num' div d = limbs_nat pn + limbs_nat num div d"
  proof (cases ge)
    case True
    then obtain r where r: "limbs_nat num = d * 2 ^ Suc t + r" unfolding ge_def using le_Suc_ex by blast
    then show ?thesis using True Suc.prems(6) by (simp add: num' pn' del: power_Suc)
  qed (simp add: num' pn')
  moreover have "uint_div_loop (Suc t) num dv pn = uint_div_loop t num' (uint_shr dv 1) pn'"
    using cmp by (subst uint_div_loop.simps) (simp add: num'_def pn'_def Let_def)
  ultimately show ?case by simp
qed

lemma limbs_div:
  assumes "length a = length b"
  shows "limbs_nat b = 0 \<Longrightarrow> uint_div a b = Inl DivisionByZero"
    and "limbs_nat b \<noteq> 0 \<Longrightarrow> \<exists>q. uint_div a b = Inr q \<and> limbs_nat q = limbs_nat a div limbs_nat b \<and> length q = length a"
proof -
  show "limbs_nat b = 0 \<Longrightarrow> uint_div a b = Inl DivisionByZero"
    by (simp add: uint_div_def Let_def limbs_bits(1))
  assume nz: "limbs_nat b \<noteq> 0"
  show "\<exists>q. uint_div a b = Inr q \<and> limbs_nat q = limbs_nat a div limbs_nat b \<and> length q = length a"
  proof (cases "uint_bits a < uint_bits b")
    case True
    have "limbs_nat a < 2 ^ (uint_bits b - 1)"
      using limbs_bits(2)[of a] power_increasing[of "uint_bits a" "uint_bits b - 1" "2 :: nat"] True by linarith
    then have "limbs_nat a < limbs_nat b" using limbs_bits(3)[OF nz] by linarith
    then show ?thesis using True nz by (simp add: uint_div_def Let_def limbs_bits(1))
  next
    case False
    define t where "t = uint_bits a - uint_bits b"
    have pos: "0 < uint_bits b" using nz limbs_bits(1)[of b] by auto
    then have a: "limbs_nat a \<noteq> 0" using False limbs_bits(1)[of a] by (metis not_less0 not_less_zero not_less_iff_gr_or_eq)
    have ab: "uint_bits a = t + uint_bits b" using False by (simp add: t_def)
    have "limbs_nat a < limbs_mod a" by (rule limbs_nat_less)
    with limbs_bits(3)[OF a] have "(2 :: nat) ^ (uint_bits a - 1) < 2 ^ (32 * length a)" by linarith
    then have bound: "uint_bits a \<le> 32 * length a" by simp
    have "limbs_nat b * 2 ^ t < 2 ^ uint_bits b * 2 ^ t" using limbs_bits(2)[of b] by simp
    also have "\<dots> = 2 ^ uint_bits a" by (simp add: ab power_add)
    also have "\<dots> \<le> limbs_mod a" using bound by simp
    finally have sh: "limbs_nat (uint_shl b t) = limbs_nat b * 2 ^ t" using assms by (simp add: limbs_shl)
    have "limbs_nat a < 2 ^ uint_bits a" by (rule limbs_bits(2))
    also have "\<dots> = 2 ^ (uint_bits b - 1) * 2 ^ Suc t" 
    proof -
      have "uint_bits a = (uint_bits b - 1) + Suc t" using pos by (simp add: ab)
      then show ?thesis by (simp only: power_add)
    qed
    also have "\<dots> \<le> limbs_nat b * 2 ^ Suc t" using limbs_bits(3)[OF nz] by (intro mult_le_mono1)
    finally have lt: "limbs_nat a < limbs_nat b * 2 ^ Suc t" .
    have "Suc t \<le> 32 * length a" using bound ab pos by linarith
    then have pw: "(2 :: nat) ^ Suc t \<le> limbs_mod a" by (intro power_increasing) simp_all
    with \<open>Suc t \<le> 32 * length a\<close> have "limbs_nat (uint_div_loop t a (uint_shl b t) (replicate (length a) 0)) = 0 + limbs_nat a div limbs_nat b \<and>
        length (uint_div_loop t a (uint_shl b t) (replicate (length a) 0)) = length a"
      using uint_div_loop_nat[of a "length a" "uint_shl b t" "replicate (length a) 0" t "limbs_nat b"] sh lt nz assms
      by (simp add: uint_shl_nth(1) del: power_Suc)
    then show ?thesis using False nz by (simp add: uint_div_def Let_def limbs_bits(1) t_def)
  qed
qed

text \<open>C29: The big-integer loops compute with numbers.  For any number of limbs, addition, subtraction, negation, increment,
  decrement, complement, multiplication and left shift of \<open>base_uint\<close> are the operations on the numbers that
  the limbs stand for, modulo \<open>2^BITS\<close>; right shift and division are exact, division by zero throws;
  \<open>CompareTo\<close> orders the numbers and \<open>bits\<close> is their bit length.
\<close>

theorem big_integers_refine_numbers:
  assumes "length a = length b" and "a \<noteq> []"
  shows "limbs_nat (uint_add a b) = (limbs_nat a + limbs_nat b) mod 2 ^ (32 * length a) \<and>
    limbs_nat (uint_sub a b) = (limbs_nat a + (2 ^ (32 * length a) - limbs_nat b)) mod 2 ^ (32 * length a) \<and>
    limbs_nat (uint_neg a) = (2 ^ (32 * length a) - limbs_nat a) mod 2 ^ (32 * length a) \<and>
    limbs_nat (uint_not a) = 2 ^ (32 * length a) - 1 - limbs_nat a \<and>
    limbs_nat (uint_inc a) = (limbs_nat a + 1) mod 2 ^ (32 * length a) \<and>
    limbs_nat (uint_dec a) = (limbs_nat a + (2 ^ (32 * length a) - 1)) mod 2 ^ (32 * length a) \<and>
    limbs_nat (uint_mul a b) = (limbs_nat a * limbs_nat b) mod 2 ^ (32 * length a) \<and>
    limbs_nat (uint_mul32 a w) = (limbs_nat a * unat w) mod 2 ^ (32 * length a) \<and>
    limbs_nat (uint_shl a k) = (limbs_nat a * 2 ^ k) mod 2 ^ (32 * length a) \<and>
    limbs_nat (uint_shr a k) = limbs_nat a div 2 ^ k \<and>
    (case uint_div a b of
       Inl e \<Rightarrow> limbs_nat b = 0 | Inr q \<Rightarrow> limbs_nat b \<noteq> 0 \<and> limbs_nat q = limbs_nat a div limbs_nat b) \<and>
    CompareTo a b = sgn (int (limbs_nat a) - int (limbs_nat b)) \<and>
    (uint_bits a = 0 \<longleftrightarrow> limbs_nat a = 0) \<and> limbs_nat a < 2 ^ uint_bits a \<and> 2 ^ uint_bits a \<le> 2 * limbs_nat a + 1"
proof -
  have dv: "case uint_div a b of Inl e \<Rightarrow> limbs_nat b = 0 | Inr q \<Rightarrow> limbs_nat b \<noteq> 0 \<and> limbs_nat q = limbs_nat a div limbs_nat b"
    using limbs_div[OF assms(1)] by (cases "limbs_nat b = 0") auto
  have bits: "2 ^ uint_bits a \<le> 2 * limbs_nat a + 1"
    using limbs_bits(1,3)[of a] by (cases "uint_bits a") auto
  have cmp: "CompareTo a b = sgn (int (limbs_nat a) - int (limbs_nat b))"
    by (simp add: limbs_compare[OF assms(1)] sgn_if)
  note facts = limbs_add(1)[OF assms(1)] limbs_sub(1)[OF assms(1)] limbs_neg(1)[OF assms(2)] limbs_not
    conjunct1[OF limbs_inc[OF assms(2)]] conjunct1[OF limbs_dec[OF assms(2)]] limbs_mul(1)[OF assms(1)] limbs_mul32(1)
    limbs_shl limbs_shr dv cmp limbs_bits(1,2) bits
  show ?thesis by (intro conjI; rule facts)
qed

theorem big_integers_refine_numbers_witness:
  "limbs_nat (uint_mul [0xffffffff, 1] [2, 0]) = 2 * limbs_nat [0xffffffff, 1]"
  using big_integers_refine_numbers[of "[0xffffffff, 1]" "[2, 0]" 0 0] by simp

section \<open>The compact format\<close>

text \<open>\<open>uint256\<close> is a 256-bit word from here on; its operators are those of \<open>base_uint<256>\<close>.\<close>

definition uint256_bits :: "u256 \<Rightarrow> nat" where
  "uint256_bits w = uint_bits (map (\<lambda>i. ucast (drop_bit (32 * i) w)) [0..<8])"

definition SetCompact :: "u32 \<Rightarrow> u256 \<times> bool \<times> bool" where
  "SetCompact nCompact =
     (let nSize = unat (drop_bit 24 nCompact); nWord0 = nCompact AND 0x007fffff;
          nWord = (if nSize \<le> 3 then drop_bit (8 * (3 - nSize)) nWord0 else nWord0);
          v = (if nSize \<le> 3 then ucast nWord else push_bit (8 * (nSize - 3)) (ucast nWord));
          fNegative = (nWord \<noteq> 0 \<and> nCompact AND 0x00800000 \<noteq> 0);
          fOverflow = (nWord \<noteq> 0 \<and> (34 < nSize \<or> 0xff < nWord \<and> 33 < nSize \<or> 0xffff < nWord \<and> 32 < nSize))
      in (v, fNegative, fOverflow))"

definition GetCompact :: "u256 \<Rightarrow> bool \<Rightarrow> u32" where
  "GetCompact w fNegative =
     (let nSize0 = (uint256_bits w + 7) div 8;
          nCompact0 = (if nSize0 \<le> 3 then ucast (push_bit (8 * (3 - nSize0)) (ucast w :: u64))
                       else ucast (ucast (drop_bit (8 * (nSize0 - 3)) w) :: u64)) :: u32;
          carry = (nCompact0 AND 0x00800000 \<noteq> 0);
          nCompact1 = (if carry then drop_bit 8 nCompact0 else nCompact0);
          nSize = (if carry then nSize0 + 1 else nSize0);
          nCompact = nCompact1 OR push_bit 24 (of_nat nSize)
      in nCompact OR (if fNegative \<and> nCompact AND 0x007fffff \<noteq> 0 then 0x00800000 else 0))"

subsection \<open>The number a compact target stands for\<close>

definition compact_value :: "u32 \<Rightarrow> nat" where
  "compact_value c =
     (let s = unat c div 2 ^ 24; m = unat c mod 2 ^ 23 in if s \<le> 3 then m div 256 ^ (3 - s) else m * 256 ^ (s - 3))"

lemma unat_and_mask: "unat (c AND mask k) = unat c mod 2 ^ k" for c :: "'a::len word"
proof -
  have "unat (take_bit k c) = take_bit k (unat c)" by (rule unsigned_take_bit_eq)
  then show ?thesis by (simp only: take_bit_eq_mask[symmetric] take_bit_eq_mod[of k "unat c"])
qed

lemma unat_drop_bit: "unat (drop_bit k c) = unat c div 2 ^ k" for c :: "'a::len word"
proof -
  have "unat (drop_bit k c) = drop_bit k (unat c)"
    by (rule bit_eqI) (auto simp: bit_unsigned_iff bit_drop_bit_eq dest: bit_imp_le_length)
  then show ?thesis by (simp only: drop_bit_eq_div[of k "unat c"])
qed

lemma compact_fields:
  fixes c :: u32
  shows "unat (drop_bit 24 c) = unat c div 2 ^ 24" and "unat (c AND 0x007fffff) = unat c mod 2 ^ 23"
proof -
  show "unat (drop_bit 24 c) = unat c div 2 ^ 24" by (rule unat_drop_bit)
  have "c AND 0x007fffff = c AND mask 23" by (simp add: mask_eq_exp_minus_1)
  then show "unat (c AND 0x007fffff) = unat c mod 2 ^ 23" by (simp only: unat_and_mask)
qed

lemma u256_less: "unat (w :: u256) < 2 ^ 256"
proof -
  have "unat w < 2 ^ LENGTH(256)" by (rule unsigned_less)
  then show ?thesis by simp
qed

lemma unat_of_nat_256: "n < 2 ^ 256 \<Longrightarrow> unat (of_nat n :: u256) = n"
  by (simp only: unat_of_nat) simp

lemma pow256: "(256 :: nat) ^ k = 2 ^ (8 * k)"
  by (simp add: power_mult)

lemma compact_overflow:
  assumes "3 < s" and "m < 2 ^ 23"
  shows "(2 :: nat) ^ 256 \<le> m * 256 ^ (s - 3) \<longleftrightarrow> m \<noteq> 0 \<and> (34 < s \<or> 0xff < m \<and> 33 < s \<or> 0xffff < m \<and> 32 < s)"
proof -
  have *: "(2 :: nat) ^ 256 = 256 ^ 32" by (simp add: pow256)
  consider "s \<le> 32" | "s = 33" | "s = 34" | "34 < s" by linarith
  then show ?thesis
  proof cases
    case 1
    have "m * 256 ^ (s - 3) \<le> m * 256 ^ 29" using 1 by (intro mult_left_mono power_increasing) simp_all
    also have "\<dots> < 2 ^ 23 * 256 ^ 29" using assms by simp
    also have "\<dots> \<le> (2 :: nat) ^ 256" by (simp add: pow256 flip: power_add)
    finally show ?thesis using 1 by simp
  next
    case 2
    have "(2 :: nat) ^ 256 = 65536 * 256 ^ 30" by (simp add: pow256)
    then show ?thesis using 2 by (simp only: mult_le_cancel2) auto
  next
    case 3
    have "(2 :: nat) ^ 256 = 256 * 256 ^ 31" by (simp add: pow256)
    then show ?thesis using 3 by (simp only: mult_le_cancel2) auto
  next
    case 4
    have "(256 :: nat) ^ 32 \<le> 256 ^ (s - 3)" using 4 by (intro power_increasing) simp_all
    then have "m \<noteq> 0 \<Longrightarrow> (256 :: nat) ^ 32 \<le> m * 256 ^ (s - 3)" by (metis One_nat_def Suc_leI le_trans mult.commute mult_le_mono2 nat_mult_1_right not_gr_zero)
    then show ?thesis using 4 by (cases "m = 0") (simp_all add: *)
  qed
qed

lemma SetCompact_value:
  "SetCompact c = (of_nat (compact_value c),
     (if unat c div 2 ^ 24 \<le> 3 then compact_value c else unat c mod 2 ^ 23) \<noteq> 0 \<and> c AND 0x00800000 \<noteq> 0,
     2 ^ 256 \<le> compact_value c)"
proof -
  define s m where "s = unat c div 2 ^ 24" and "m = unat c mod 2 ^ 23"
  have m: "m < 2 ^ 23" by (simp add: m_def)
  have fields: "unat (drop_bit 24 c) = s" "unat (c AND 0x007fffff) = m"
    by (simp_all add: compact_fields s_def m_def)
  show ?thesis
  proof (cases "s \<le> 3")
    case True
    have w: "unat (drop_bit (8 * (3 - s)) (c AND 0x007fffff)) = m div 256 ^ (3 - s)"
      by (simp only: unat_drop_bit fields pow256)
    have uc: "(ucast (drop_bit (8 * (3 - s)) (c AND 0x007fffff)) :: u256) = of_nat (m div 256 ^ (3 - s))"
      using arg_cong[OF w, of "of_nat :: nat \<Rightarrow> u256"] by (simp only: of_nat_unat)
    have nz: "drop_bit (8 * (3 - s)) (c AND 0x007fffff) = 0 \<longleftrightarrow> m div 256 ^ (3 - s) = 0"
      by (simp only: unat_eq_0[symmetric] w)
    have v: "compact_value c = m div 256 ^ (3 - s)" using True by (simp add: compact_value_def s_def m_def)
    have "compact_value c \<le> m" by (simp add: v)
    moreover have "(2 :: nat) ^ 23 \<le> 2 ^ 256" by (rule power_increasing) simp_all
    ultimately have "compact_value c < 2 ^ 256" using m by linarith
    then show ?thesis
      using True unfolding SetCompact_def Let_def fields(1) s_def[symmetric] m_def[symmetric] v by (simp add: uc nz del: drop_bit_and)
  next
    case False
    have v: "compact_value c = m * 256 ^ (s - 3)" using False by (simp add: compact_value_def s_def m_def)
    have push: "push_bit (8 * (s - 3)) (ucast (c AND 0x007fffff)) = (of_nat (m * 256 ^ (s - 3)) :: u256)"
    proof -
      have "(ucast (c AND 0x007fffff) :: u256) = of_nat m" using arg_cong[OF fields(2), of "of_nat :: nat \<Rightarrow> u256"] by (simp only: of_nat_unat)
      then show ?thesis by (simp add: push_bit_eq_mult pow256)
    qed
    have cmp: "0xff < c AND 0x007fffff \<longleftrightarrow> 0xff < m" "0xffff < c AND 0x007fffff \<longleftrightarrow> 0xffff < m"
      by (simp_all add: word_less_nat_alt fields(2))
    have nz: "c AND 0x007fffff = 0 \<longleftrightarrow> m = 0" by (simp only: unat_eq_0[symmetric] fields)
    show ?thesis
      using False compact_overflow[of s m] m
      unfolding SetCompact_def Let_def fields(1) s_def[symmetric] m_def[symmetric] v by (simp add: push cmp nz del: drop_bit_and push_bit_and)
  qed
qed

subsection \<open>The limbs of a word\<close>

definition u256_limbs :: "u256 \<Rightarrow> base_uint" where
  "u256_limbs w = map (\<lambda>i. ucast (drop_bit (32 * i) w)) [0..<8]"

lemma limbs_nat_u256: "limbs_nat (u256_limbs w) = unat w" and length_u256_limbs [simp]: "length (u256_limbs w) = 8"
proof -
  show "length (u256_limbs w) = 8" by (simp add: u256_limbs_def)
  show "limbs_nat (u256_limbs w) = unat w"
  proof (rule bit_eqI)
    fix n
    show "bit (limbs_nat (u256_limbs w)) n = bit (unat w) n"
    proof (cases "n < 256")
      case True
      then have "n div 32 < 8" by (simp add: div_less_iff_less_mult)
      then show ?thesis using True by (simp add: bit_limbs u256_limbs_def bit_ucast_iff bit_drop_bit_eq bit_unsigned_iff)
    next
      case False
      then have "\<not> n div 32 < 8" by (simp add: div_less_iff_less_mult)
      then show ?thesis using False by (auto simp: bit_limbs u256_limbs_def bit_unsigned_iff dest: bit_imp_le_length)
    qed
  qed
qed

lemma uint256_bits:
  "uint256_bits w = 0 \<longleftrightarrow> w = 0" "unat w < 2 ^ uint256_bits w" "w \<noteq> 0 \<Longrightarrow> 2 ^ (uint256_bits w - 1) \<le> unat w"
  using limbs_bits[of "u256_limbs w"] by (simp_all add: uint256_bits_def limbs_nat_u256 u256_limbs_def[symmetric] unat_eq_0)


subsection \<open>Encoding a target\<close>

text \<open>Mantissa and exponent as numbers: the three most significant bytes of the value, one byte fewer when the
top bit of the mantissa would be read as a sign.\<close>

lemma uint256_bytes:
  assumes "w \<noteq> 0"
  defines "S \<equiv> (uint256_bits w + 7) div 8"
  shows "2 ^ (8 * S - 8) \<le> unat w" "unat w < 2 ^ (8 * S)" "S \<le> 32" "1 \<le> S"
proof -
  have nz: "uint256_bits w \<noteq> 0" using assms uint256_bits(1) by blast
  have S: "8 * S - 8 \<le> uint256_bits w - 1" "uint256_bits w \<le> 8 * S" unfolding S_def using nz by linarith+
  show "2 ^ (8 * S - 8) \<le> unat w"
    using uint256_bits(3)[OF assms(1)] power_increasing[OF S(1), of "2 :: nat"] by linarith
  show "unat w < 2 ^ (8 * S)"
    using uint256_bits(2)[of w] power_increasing[OF S(2), of "2 :: nat"] by linarith
  have "(2 :: nat) ^ (uint256_bits w - 1) < 2 ^ 256" using uint256_bits(3)[OF assms(1)] u256_less[of w] by linarith
  then have "uint256_bits w - 1 < 256" by (rule power_less_imp_less_exp[rotated]) simp
  then show "S \<le> 32" unfolding S_def by linarith
  show "1 \<le> S" unfolding S_def using nz by linarith
qed

definition compact_parts :: "nat \<Rightarrow> nat \<Rightarrow> nat \<times> nat" where
  "compact_parts W S =
     (let C = (if S \<le> 3 then W * 256 ^ (3 - S) else W div 256 ^ (S - 3)) in if 2 ^ 23 \<le> C then (C div 256, S + 1) else (C, S))"

lemma mantissa_bound:
  fixes W S :: nat
  assumes "W < 2 ^ (8 * S)"
  shows "(if S \<le> 3 then W * 256 ^ (3 - S) else W div 256 ^ (S - 3)) < 2 ^ 24"
proof (cases "S \<le> 3")
  case True
  have "W * 256 ^ (3 - S) < 2 ^ (8 * S) * 256 ^ (3 - S)" using assms by simp
  also have "\<dots> = 2 ^ (8 * S + 8 * (3 - S))" by (simp only: pow256 power_add)
  also have "8 * S + 8 * (3 - S) = 24" using True by simp
  finally show ?thesis using True by simp
next
  case False
  have "8 * S = 24 + 8 * (S - 3)" using False by simp
  then have "(2 :: nat) ^ (8 * S) = 2 ^ 24 * 256 ^ (S - 3)" by (metis pow256 power_add)
  then show ?thesis using False assms by (simp add: div_less_iff_less_mult)
qed

lemma compact_join:
  fixes M S :: nat
  assumes "M < 2 ^ 23" and "S < 256" and "c = (of_nat M OR push_bit 24 (of_nat S) :: u32)"
  shows "unat c = M + S * 2 ^ 24"
proof -
  have m: "of_nat M = (take_bit 23 (of_nat M) :: u32)" using assms(1) by (simp add: take_bit_of_nat take_bit_nat_eq_self)
  have "c = of_nat M + push_bit 24 (of_nat S)"
    unfolding assms(3) by (rule disjunctive_add_eq_or[symmetric], rule bit_word_eqI, subst m)
      (auto simp: bit_and_iff bit_push_bit_iff bit_take_bit_iff)
  also have "\<dots> = of_nat (M + S * 2 ^ 24)" by (simp add: push_bit_eq_mult)
  finally have "unat c = (M + S * 2 ^ 24) mod 2 ^ 32" by (simp only: unat_of_nat) simp
  moreover have "M + S * 2 ^ 24 < 2 ^ 32" using assms(1,2) by simp
  ultimately show ?thesis by simp
qed

lemma ucast_ucast_low: "ucast (ucast w :: u64) = (ucast w :: u32)" for w :: u256
  by (rule bit_word_eqI) (simp add: bit_ucast_iff)

lemma ucast_mult_low: "ucast (ucast w * 2 ^ k :: u64) = (ucast w * 2 ^ k :: u32)" for w :: u256
proof -
  have "ucast (push_bit k (ucast w) :: u64) = (push_bit k (ucast w) :: u32)"
    by (rule bit_word_eqI) (auto simp: bit_ucast_iff bit_push_bit_iff)
  then show ?thesis by (simp add: push_bit_eq_mult mult.commute)
qed

lemma GetCompact_nat:
  assumes "w \<noteq> 0"
  defines "P \<equiv> compact_parts (unat w) ((uint256_bits w + 7) div 8)"
  shows "unat (GetCompact w False) = fst P + snd P * 2 ^ 24" "fst P < 2 ^ 23" "snd P \<le> 33"
proof -
  define S C where "S = (uint256_bits w + 7) div 8"
    and "C = (if S \<le> 3 then unat w * 256 ^ (3 - S) else unat w div 256 ^ (S - 3))"
  note S = uint256_bytes[OF assms(1), folded S_def]
  have C: "C < 2 ^ 24" unfolding C_def by (rule mantissa_bound[OF S(2)])
  have P: "P = (if 2 ^ 23 \<le> C then (C div 256, S + 1) else (C, S))"
    by (simp add: P_def compact_parts_def C_def S_def Let_def)
  show "fst P < 2 ^ 23" "snd P \<le> 33" using C S by (auto simp: P)
  define c0 :: u32 where "c0 = (if S \<le> 3 then ucast (push_bit (8 * (3 - S)) (ucast w :: u64))
    else ucast (ucast (drop_bit (8 * (S - 3)) w) :: u64))"
  have c0: "c0 = of_nat C"
  proof (cases "S \<le> 3")
    case True
    have "c0 = of_nat (unat w) * of_nat (256 ^ (3 - S))"
      using True by (simp add: c0_def push_bit_eq_mult pow256 of_nat_unat ucast_mult_low)
    then show ?thesis using True by (simp add: C_def)
  next
    case False
    have "c0 = of_nat (unat (drop_bit (8 * (S - 3)) w))"
      using False by (simp add: c0_def of_nat_unat ucast_ucast_low)
    then show ?thesis using False by (simp add: C_def unat_drop_bit pow256)
  qed
  have uc: "unat c0 = C" using C by (simp add: c0 unat_of_nat)
  have carry: "c0 AND 0x00800000 \<noteq> 0 \<longleftrightarrow> 2 ^ 23 \<le> C"
  proof -
    have "c0 AND 0x00800000 \<noteq> 0 \<longleftrightarrow> bit c0 23" using and_bit_mask[of 23 c0] by (simp add: push_bit_eq_mult)
    also have "\<dots> \<longleftrightarrow> bit C 23" using bit_unsigned_iff[of c0 23, where 'a = nat] by (simp add: uc)
    also have "\<dots> \<longleftrightarrow> odd (C div 2 ^ 23)" by (rule bit_iff_odd)
    also have "\<dots> \<longleftrightarrow> 2 ^ 23 \<le> C"
    proof -
      have "C div 2 ^ 23 < 2" using C by (simp add: div_less_iff_less_mult)
      moreover have "2 ^ 23 \<le> C \<longleftrightarrow> 0 < C div 2 ^ 23" by (simp add: div_greater_zero_iff)
      ultimately show ?thesis by (auto dest!: less_2_cases)
    qed
    finally show ?thesis .
  qed
  have "GetCompact w False = (if 2 ^ 23 \<le> C then drop_bit 8 c0 else c0) OR push_bit 24 (of_nat (snd P))"
    unfolding GetCompact_def Let_def S_def[symmetric] c0_def[symmetric] carry by (simp add: P)
  moreover have "(if 2 ^ 23 \<le> C then drop_bit 8 c0 else c0) = of_nat (fst P)"
    by (rule word_unat_eq_iff[THEN iffD2]) (use C in \<open>simp add: P uc unat_drop_bit unat_of_nat\<close>)
  ultimately show "unat (GetCompact w False) = fst P + snd P * 2 ^ 24"
    using \<open>fst P < 2 ^ 23\<close> \<open>snd P \<le> 33\<close> by (intro compact_join) simp_all
qed


lemma compact_parts_value:
  fixes W S :: nat
  assumes "2 ^ (8 * S - 8) \<le> W" "W < 2 ^ (8 * S)" "1 \<le> S" and P: "compact_parts W S = (M, T)"
  defines "e \<equiv> T - 3"
  shows "(if T \<le> 3 then M div 256 ^ (3 - T) else M * 256 ^ (T - 3)) = W div 256 ^ e * 256 ^ e"
    and "W < 2 ^ 23 * 256 ^ e" and "e = 0 \<or> 2 ^ 15 * 256 ^ e \<le> W"
proof -
  define C where "C = (if S \<le> 3 then W * 256 ^ (3 - S) else W div 256 ^ (S - 3))"
  have MT: "(M, T) = (if 2 ^ 23 \<le> C then (C div 256, S + 1) else (C, S))"
    unfolding P[symmetric] compact_parts_def Let_def C_def ..
  have "((if T \<le> 3 then M div 256 ^ (3 - T) else M * 256 ^ (T - 3)) = W div 256 ^ e * 256 ^ e)
    \<and> W < 2 ^ 23 * 256 ^ e \<and> (e = 0 \<or> 2 ^ 15 * 256 ^ e \<le> W)"
  proof (cases "S \<le> 3")
    case True
    then consider "S = 1" | "S = 2" | "S = 3" using assms(3) by linarith
    then show ?thesis
    proof cases
      case 1
      have "W * 65536 div 256 div 256 = W" by simp
      with 1 show ?thesis using MT assms(1,2) by (simp add: C_def e_def split: if_split_asm)
    next
      case 2
      with 2 show ?thesis using MT assms(1,2) by (simp add: C_def e_def split: if_split_asm)
    next
      case 3
      with 3 show ?thesis using MT assms(1,2) by (simp add: C_def e_def split: if_split_asm)
    qed
  next
    case False
    then obtain k where k: "S = k + 4" by (metis add.commute le_Suc_ex not_less_eq_eq numeral_3_eq_3 eval_nat_numeral(2) semiring_norm(26) semiring_norm(27))
    have lo: "2 ^ 16 * 256 ^ (k + 1) \<le> W" and hi: "W < 2 ^ 24 * 256 ^ (k + 1)"
      using assms(1,2) by (simp_all add: k pow256 power_add)
    have C: "C = W div 256 ^ (k + 1)" using False by (simp add: C_def k)
    have step: "W div (256 * 256 ^ k) div 256 = W div (65536 * 256 ^ k)" by (simp add: div_mult2_eq[symmetric] mult.commute)
    show ?thesis
    proof (cases "2 ^ 23 \<le> C")
      case True
      then have "2 ^ 23 * 256 ^ (k + 1) \<le> W" by (simp add: C less_eq_div_iff_mult_less_eq)
      then show ?thesis using MT True hi by (simp add: e_def k C step)
    next
      case F: False
      then have "W < 2 ^ 23 * 256 ^ (k + 1)" by (simp add: C div_less_iff_less_mult not_le)
      then show ?thesis using MT F lo by (simp add: e_def k C)
    qed
  qed
  then show "(if T \<le> 3 then M div 256 ^ (3 - T) else M * 256 ^ (T - 3)) = W div 256 ^ e * 256 ^ e"
    "W < 2 ^ 23 * 256 ^ e" "e = 0 \<or> 2 ^ 15 * 256 ^ e \<le> W" by simp_all
qed

lemma GetCompact_value:
  obtains e where "compact_value (GetCompact w False) = unat w div 256 ^ e * 256 ^ e" and "unat w < 2 ^ 23 * 256 ^ e"
    and "e = 0 \<or> 2 ^ 15 * 256 ^ e \<le> unat w" and "GetCompact w False AND 0x00800000 = 0"
proof (cases "w = 0")
  case True
  then have "GetCompact w False = 0" using uint256_bits(1)[of w] by (simp add: GetCompact_def Let_def)
  then show thesis using that[of 0] True by (simp add: compact_value_def)
next
  case False
  obtain M T where P: "compact_parts (unat w) ((uint256_bits w + 7) div 8) = (M, T)" by fastforce
  note c = GetCompact_nat[OF False, unfolded P fst_conv snd_conv]
  have f: "unat (GetCompact w False) div 2 ^ 24 = T" "unat (GetCompact w False) mod 2 ^ 23 = M"
  proof -
    have "unat (GetCompact w False) = M + 2 * T * 2 ^ 23" by (simp add: c(1))
    then show "unat (GetCompact w False) div 2 ^ 24 = T" "unat (GetCompact w False) mod 2 ^ 23 = M"
      using c(2) by (simp add: c(1), simp only: mod_mult_self1 mod_less)
  qed
  have "\<not> bit (GetCompact w False) 23"
  proof -
    have "bit (GetCompact w False) 23 \<longleftrightarrow> odd (unat (GetCompact w False) div 2 ^ 23)"
      using bit_unsigned_iff[of "GetCompact w False" 23, where 'a = nat] by (simp add: bit_iff_odd)
    also have "unat (GetCompact w False) div 2 ^ 23 = 2 * T" using c(2) by (simp add: c(1))
    finally show ?thesis by simp
  qed
  then have "GetCompact w False AND 0x00800000 = 0"
    using and_bit_mask[of 23 "GetCompact w False"] by (simp add: push_bit_eq_mult)
  moreover have "compact_value (GetCompact w False) = (if T \<le> 3 then M div 256 ^ (3 - T) else M * 256 ^ (T - 3))"
    unfolding compact_value_def Let_def f ..
  ultimately show thesis
    using compact_parts_value[OF uint256_bytes(1,2,4)[OF False] P] that[of "T - 3"] by metis
qed

lemma compact_value_dvd:
  assumes "e = 0 \<or> 2 ^ 15 * 256 ^ e \<le> compact_value c"
  shows "256 ^ e dvd compact_value c"
proof (cases "e = 0")
  case False
  define s m where "s = unat c div 2 ^ 24" and "m = unat c mod 2 ^ 23"
  have m: "m < 2 ^ 23" by (simp add: m_def)
  have cv: "compact_value c = (if s \<le> 3 then m div 256 ^ (3 - s) else m * 256 ^ (s - 3))"
    by (simp add: compact_value_def s_def m_def)
  have "compact_value c < 2 ^ 23 * 256 ^ (s - 3)"
  proof (cases "s \<le> 3")
    case True
    then have "compact_value c \<le> m" by (simp add: cv)
    then show ?thesis using m True by simp
  qed (use m in \<open>simp add: cv\<close>)
  then have "2 ^ 15 * 256 ^ e < (2 ^ 23 * 256 ^ (s - 3) :: nat)" using assms False by linarith
  then have "(256 :: nat) ^ e < 256 ^ (s - 3 + 1)" by simp
  then have "e \<le> s - 3" using power_less_imp_less_exp[of "256 :: nat" e "s - 3 + 1"] by simp
  moreover then have "\<not> s \<le> 3" using False by simp
  ultimately show ?thesis by (simp add: cv le_imp_power_dvd)
qed simp

lemma SetCompact_GetCompact:
  "\<exists>v. SetCompact (GetCompact w False) = (v, False, False) \<and> v \<le> w \<and> (unat w - unat v) * 2 ^ 15 \<le> unat w"
proof -
  obtain e where e: "compact_value (GetCompact w False) = unat w div 256 ^ e * 256 ^ e"
    "e = 0 \<or> 2 ^ 15 * 256 ^ e \<le> unat w" "GetCompact w False AND 0x00800000 = 0" by (rule GetCompact_value)
  define v where "v = (of_nat (unat w div 256 ^ e * 256 ^ e) :: u256)"
  have le: "unat w div 256 ^ e * 256 ^ e \<le> unat w" by simp
  have v: "unat v = unat w div 256 ^ e * 256 ^ e"
    unfolding v_def by (rule unat_of_nat_256) (use le u256_less[of w] in linarith)
  have "unat w - unat v = unat w mod 256 ^ e" by (simp add: v minus_div_mult_eq_mod)
  moreover have "unat w mod 256 ^ e * 2 ^ 15 \<le> unat w"
  proof (cases "e = 0")
    case False
    have "unat w mod 256 ^ e * 2 ^ 15 \<le> 256 ^ e * 2 ^ 15" by (intro mult_right_mono less_imp_le mod_less_divisor) simp_all
    moreover have "256 ^ e * 2 ^ 15 \<le> unat w" using e(2) False by (simp add: mult.commute)
    ultimately show ?thesis by (rule le_trans)
  qed simp
  ultimately have "(unat w - unat v) * 2 ^ 15 \<le> unat w" by simp
  moreover have "v \<le> w" using le by (simp add: word_le_nat_alt v)
  moreover have "SetCompact (GetCompact w False) = (v, False, False)"
  proof -
    have "\<not> 2 ^ 256 \<le> unat w div 256 ^ e * 256 ^ e" using le u256_less[of w] by linarith
    then show ?thesis unfolding SetCompact_value e v_def by simp
  qed
  ultimately show "\<exists>v. SetCompact (GetCompact w False) = (v, False, False) \<and> v \<le> w \<and> (unat w - unat v) * 2 ^ 15 \<le> unat w"
    by blast
qed

text \<open>C28: the compact encoding of 256-bit targets (`uint256::SetCompact` and `GetCompact`).  Encoding a target
and decoding it again never sets the sign or the overflow flag, and gives the target truncated to fifteen or
more significant bits: never a larger one, and smaller by at most one part in 2^15.  A target that
was itself decoded from a compact word without overflow comes back unchanged, so `nBits` survives a round
trip by value; and the overflow flag is set exactly when the number written does not fit in 256 bits.\<close>

theorem compact_roundtrip:
  "(\<exists>v. SetCompact (GetCompact w False) = (v, False, False) \<and> v \<le> w \<and> (unat w - unat v) * 2 ^ 15 \<le> unat w)
   \<and> (SetCompact c = (t, neg, False) \<longrightarrow> SetCompact (GetCompact t False) = (t, False, False))
   \<and> (snd (snd (SetCompact c)) \<longleftrightarrow> 2 ^ 256 \<le> compact_value c)"
proof (intro conjI impI)
  show "\<exists>v. SetCompact (GetCompact w False) = (v, False, False) \<and> v \<le> w \<and> (unat w - unat v) * 2 ^ 15 \<le> unat w"
    by (rule SetCompact_GetCompact)
next
  assume "SetCompact c = (t, neg, False)"
  then have t: "t = of_nat (compact_value c)" "compact_value c < 2 ^ 256" by (auto simp: SetCompact_value)
  then have ut: "unat t = compact_value c" by (simp only: unat_of_nat_256)
  obtain e where e: "compact_value (GetCompact t False) = unat t div 256 ^ e * 256 ^ e"
    "e = 0 \<or> 2 ^ 15 * 256 ^ e \<le> unat t" "GetCompact t False AND 0x00800000 = 0" by (rule GetCompact_value)
  have "256 ^ e dvd compact_value c" using compact_value_dvd e(2) ut by metis
  then have "compact_value (GetCompact t False) = compact_value c" by (simp add: e(1) ut)
  then show "SetCompact (GetCompact t False) = (t, False, False)" unfolding SetCompact_value using t e(3) by simp
next
  show "snd (snd (SetCompact c)) \<longleftrightarrow> 2 ^ 256 \<le> compact_value c" by (simp add: SetCompact_value)
qed

theorem compact_roundtrip_witness:
  "SetCompact 0x1b0404cb = (0x404cb000000000000000000000000000000000000000000000000, False, False) \<and> SetCompact (GetCompact 0x404cb000000000000000000000000000000000000000000000000 False) = (0x404cb000000000000000000000000000000000000000000000000, False, False)"
proof -
  have "SetCompact 0x1b0404cb = (0x404cb000000000000000000000000000000000000000000000000, False, False)" by (simp add: SetCompact_def Let_def)
  then show ?thesis using compact_roundtrip[of 0 "0x1b0404cb"] by blast
qed

section \<open>Words and limbs\<close>

text \<open>The rest of the development reads a `uint256` as a 256-bit word; every limb routine computes the word
operation of the same name.\<close>

lemma limbs_nat_inject: "length a = length b \<Longrightarrow> limbs_nat a = limbs_nat b \<longleftrightarrow> a = b"
proof (induction a b rule: list_induct2)
  case (Cons x xs y ys)
  have *: "x = y \<and> limbs_nat xs = limbs_nat ys" if eq: "unat x + 2 ^ 32 * limbs_nat xs = unat y + 2 ^ 32 * limbs_nat ys"
  proof -
    have "unat x = unat y" using arg_cong[OF eq, of "\<lambda>n. n mod 2 ^ 32"] u32_less[of x] u32_less[of y] by simp
    moreover then have "x = y" by (simp only: word_unat_eq_iff)
    ultimately show ?thesis using eq by simp
  qed
  show ?case using Cons * by auto
qed simp

lemma u256_limbsI: "limbs_nat pn = unat w \<Longrightarrow> length pn = 8 \<Longrightarrow> pn = u256_limbs w"
  by (metis length_u256_limbs limbs_nat_inject limbs_nat_u256)

lemma u256_word_operations:
  fixes a b :: u256
  shows "uint_add (u256_limbs a) (u256_limbs b) = u256_limbs (a + b)"
    and "uint_mul (u256_limbs a) (u256_limbs b) = u256_limbs (a * b)"
    and "uint_not (u256_limbs a) = u256_limbs (NOT a)"
    and "uint_div (u256_limbs a) (u256_limbs b) = (if b = 0 then Inl DivisionByZero else Inr (u256_limbs (a div b)))"
    and "CompareTo (u256_limbs a) (u256_limbs b) = (if a < b then - 1 else if b < a then 1 else 0)"
proof -
  note limbs = limbs_nat_u256 length_u256_limbs
  have m: "limbs_mod (u256_limbs a) = 2 ^ 256" by simp
  show "uint_add (u256_limbs a) (u256_limbs b) = u256_limbs (a + b)"
    by (rule u256_limbsI) (simp_all add: limbs_add limbs unat_word_ariths)
  show "uint_mul (u256_limbs a) (u256_limbs b) = u256_limbs (a * b)"
    by (rule u256_limbsI) (simp_all add: limbs_mul limbs unat_word_ariths)
  have "NOT a = - 1 - a" by (simp add: not_eq_complement)
  then have "unat (NOT a) = unat (- 1 :: u256) - unat a" by (simp add: unat_sub)
  also have "unat (- 1 :: u256) = 2 ^ 256 - 1" by (simp only: unsigned_minus_1_eq_mask mask_eq_exp_minus_1) simp
  finally show "uint_not (u256_limbs a) = u256_limbs (NOT a)"
    by (intro u256_limbsI) (simp_all add: limbs_not limbs, simp add: uint_not_def)
  show "uint_div (u256_limbs a) (u256_limbs b) = (if b = 0 then Inl DivisionByZero else Inr (u256_limbs (a div b)))"
  proof (cases "b = 0")
    case True
    then show ?thesis by (simp add: limbs_div(1) limbs)
  next
    case False
    then obtain q where "uint_div (u256_limbs a) (u256_limbs b) = Inr q" "limbs_nat q = unat a div unat b" "length q = 8"
      using limbs_div(2)[of "u256_limbs a" "u256_limbs b"] by (auto simp: limbs unat_eq_0)
    then show ?thesis using False u256_limbsI[of q "a div b"] by (simp add: unat_div)
  qed
  show "CompareTo (u256_limbs a) (u256_limbs b) = (if a < b then - 1 else if b < a then 1 else 0)"
    by (simp add: limbs_compare limbs word_less_nat_alt)
qed

end
