(* ===== verification/Chain.thy ===== *)
theory Chain
  imports Transaction ArithUint256 "HOL-Library.Monad_Syntax"
begin

unbundle bit_operations_syntax

text \<open>
  The tree of known blocks and the active chain (`chain.h`, `chain.cpp`).

  `mapBlockIndex` is a map from block hashes to index entries.  An entry is never moved or freed, and it is filed
  under the hash `phashBlock` points to, so a pointer to an entry is modelled by that hash and `NULL` by \<open>None\<close>.
  A result of type \<open>'a option\<close> in the functions that follow pointers is \<open>None\<close> when the C++ code has no defined
  result: a null or dangling pointer is followed, a vector is indexed out of range, or a loop does not end.
  The lemmas show that none of this happens on a tree built by `AddToBlockIndex`.
\<close>

section \<open>Data\<close>

record CBlockFileInfo =
  fi_nBlocks :: u32
  fi_nSize :: u32
  fi_nUndoSize :: u32
  fi_nHeightFirst :: u32
  fi_nHeightLast :: u32
  fi_nTimeFirst :: u64
  fi_nTimeLast :: u64

definition CBlockFileInfo_SetNull :: CBlockFileInfo where
  "CBlockFileInfo_SetNull = \<lparr>fi_nBlocks = 0, fi_nSize = 0, fi_nUndoSize = 0, fi_nHeightFirst = 0, fi_nHeightLast = 0,
     fi_nTimeFirst = 0, fi_nTimeLast = 0\<rparr>"

definition CBlockFileInfo_AddBlock :: "u32 \<Rightarrow> u64 \<Rightarrow> CBlockFileInfo \<Rightarrow> CBlockFileInfo" where
  "CBlockFileInfo_AddBlock nHeightIn nTimeIn f =
     f\<lparr>fi_nHeightFirst := (if fi_nBlocks f = 0 \<or> nHeightIn < fi_nHeightFirst f then nHeightIn else fi_nHeightFirst f),
       fi_nTimeFirst := (if fi_nBlocks f = 0 \<or> nTimeIn < fi_nTimeFirst f then nTimeIn else fi_nTimeFirst f),
       fi_nBlocks := fi_nBlocks f + 1,
       fi_nHeightLast := (if fi_nHeightLast f < nHeightIn then nHeightIn else fi_nHeightLast f),
       fi_nTimeLast := (if fi_nTimeLast f < nTimeIn then nTimeIn else fi_nTimeLast f)\<rparr>"

record CDiskBlockPos =
  dp_nFile :: int
  dp_nPos :: u32

definition CDiskBlockPos_null :: CDiskBlockPos where
  "CDiskBlockPos_null = \<lparr>dp_nFile = - 1, dp_nPos = 0\<rparr>"

definition CDiskBlockPos_IsNull :: "CDiskBlockPos \<Rightarrow> bool" where
  "CDiskBlockPos_IsNull p \<longleftrightarrow> dp_nFile p = - 1"

definition BLOCK_VALID_UNKNOWN :: u32 where "BLOCK_VALID_UNKNOWN = 0"
definition BLOCK_VALID_HEADER :: u32 where "BLOCK_VALID_HEADER = 1"
definition BLOCK_VALID_TREE :: u32 where "BLOCK_VALID_TREE = 2"
definition BLOCK_VALID_TRANSACTIONS :: u32 where "BLOCK_VALID_TRANSACTIONS = 3"
definition BLOCK_VALID_CHAIN :: u32 where "BLOCK_VALID_CHAIN = 4"
definition BLOCK_VALID_SCRIPTS :: u32 where "BLOCK_VALID_SCRIPTS = 5"
definition BLOCK_VALID_MASK :: u32 where
  "BLOCK_VALID_MASK = BLOCK_VALID_HEADER OR BLOCK_VALID_TREE OR BLOCK_VALID_TRANSACTIONS OR BLOCK_VALID_CHAIN OR BLOCK_VALID_SCRIPTS"
definition BLOCK_HAVE_DATA :: u32 where "BLOCK_HAVE_DATA = 8"
definition BLOCK_HAVE_UNDO :: u32 where "BLOCK_HAVE_UNDO = 16"
definition BLOCK_FAILED_VALID :: u32 where "BLOCK_FAILED_VALID = 32"
definition BLOCK_FAILED_CHILD :: u32 where "BLOCK_FAILED_CHILD = 64"
definition BLOCK_FAILED_MASK :: u32 where "BLOCK_FAILED_MASK = BLOCK_FAILED_VALID OR BLOCK_FAILED_CHILD"

definition BLOCK_PROOF_OF_STAKE :: u32 where "BLOCK_PROOF_OF_STAKE = push_bit 0 1"
definition BLOCK_STAKE_ENTROPY :: u32 where "BLOCK_STAKE_ENTROPY = push_bit 1 1"
definition BLOCK_STAKE_MODIFIER :: u32 where "BLOCK_STAKE_MODIFIER = push_bit 2 1"

lemmas block_status_defs = BLOCK_VALID_UNKNOWN_def BLOCK_VALID_HEADER_def BLOCK_VALID_TREE_def BLOCK_VALID_TRANSACTIONS_def
  BLOCK_VALID_CHAIN_def BLOCK_VALID_SCRIPTS_def BLOCK_VALID_MASK_def BLOCK_HAVE_DATA_def BLOCK_HAVE_UNDO_def
  BLOCK_FAILED_VALID_def BLOCK_FAILED_CHILD_def BLOCK_FAILED_MASK_def

record CBlockIndex =
  pprev :: "u256 option"
  pskip :: "u256 option"
  bi_nHeight :: int
  bi_nFile :: int
  bi_nDataPos :: u32
  bi_nUndoPos :: u32
  bi_nChainWork :: u256
  bi_nTx :: u32
  bi_nChainTx :: u32
  bi_nStatus :: u32
  bi_vStakeModifier :: bytes
  bi_nFlags :: u32
  bi_nSaplingValue :: CAmount
  bi_nChainSaplingValue :: "CAmount option"
  bi_nVersion :: int
  bi_hashMerkleRoot :: u256
  bi_hashFinalSaplingRoot :: u256
  bi_nTime :: u32
  bi_nBits :: u32
  bi_nNonce :: u32
  bi_nSequenceId :: u32
  bi_nTimeMax :: u32

type_synonym BlockMap = "u256 \<rightharpoonup> CBlockIndex"
type_synonym CChain = "u256 option list"

definition CBlockIndex_null :: CBlockIndex where
  "CBlockIndex_null = \<lparr>pprev = None, pskip = None, bi_nHeight = 0, bi_nFile = 0, bi_nDataPos = 0, bi_nUndoPos = 0,
     bi_nChainWork = 0, bi_nTx = 0, bi_nChainTx = 0, bi_nStatus = 0, bi_vStakeModifier = [], bi_nFlags = 0,
     bi_nSaplingValue = 0, bi_nChainSaplingValue = None, bi_nVersion = 0, bi_hashMerkleRoot = 0,
     bi_hashFinalSaplingRoot = 0, bi_nTime = 0, bi_nBits = 0, bi_nNonce = 0, bi_nSequenceId = 0, bi_nTimeMax = 0\<rparr>"

definition SetProofOfStake :: "CBlockIndex \<Rightarrow> CBlockIndex" where
  "SetProofOfStake b = b\<lparr>bi_nFlags := bi_nFlags b OR BLOCK_PROOF_OF_STAKE\<rparr>"

definition bi_IsProofOfStake :: "CBlockIndex \<Rightarrow> bool" where
  "bi_IsProofOfStake b \<longleftrightarrow> bi_nFlags b AND BLOCK_PROOF_OF_STAKE \<noteq> 0"

definition GeneratedStakeModifier :: "CBlockIndex \<Rightarrow> bool" where
  "GeneratedStakeModifier b \<longleftrightarrow> bi_nFlags b AND BLOCK_STAKE_MODIFIER \<noteq> 0"

definition CBlockIndex_of_block :: "CBlock \<Rightarrow> CBlockIndex" where
  "CBlockIndex_of_block block =
     (let b = CBlockIndex_null\<lparr>bi_nVersion := hdr_nVersion (header block), bi_hashMerkleRoot := hashMerkleRoot (header block),
        bi_hashFinalSaplingRoot := hashFinalSaplingRoot (header block), bi_nTime := nTime (header block),
        bi_nBits := nBits (header block), bi_nNonce := nNonce (header block)\<rparr>
      in if IsProofOfStake block then SetProofOfStake b else b)"

definition GetBlockPos :: "CBlockIndex \<Rightarrow> CDiskBlockPos" where
  "GetBlockPos b =
     (if bi_nStatus b AND BLOCK_HAVE_DATA \<noteq> 0 then \<lparr>dp_nFile = bi_nFile b, dp_nPos = bi_nDataPos b\<rparr> else CDiskBlockPos_null)"

definition GetUndoPos :: "CBlockIndex \<Rightarrow> CDiskBlockPos" where
  "GetUndoPos b =
     (if bi_nStatus b AND BLOCK_HAVE_UNDO \<noteq> 0 then \<lparr>dp_nFile = bi_nFile b, dp_nPos = bi_nUndoPos b\<rparr> else CDiskBlockPos_null)"

definition bi_GetBlockHeader :: "CBlockIndex \<Rightarrow> CBlockHeader" where
  "bi_GetBlockHeader b =
     CBlockHeader_null\<lparr>hdr_nVersion := bi_nVersion b,
       hashPrevBlock := (case pprev b of Some p \<Rightarrow> p | None \<Rightarrow> hashPrevBlock CBlockHeader_null),
       hashMerkleRoot := bi_hashMerkleRoot b, nTime := bi_nTime b, nBits := bi_nBits b, nNonce := bi_nNonce b,
       hashFinalSaplingRoot := (if 8 \<le> bi_nVersion b then bi_hashFinalSaplingRoot b else hashFinalSaplingRoot CBlockHeader_null)\<rparr>"

definition GetBlockTime :: "CBlockIndex \<Rightarrow> int" where
  "GetBlockTime b = uint (bi_nTime b)"

definition GetBlockTimeMax :: "CBlockIndex \<Rightarrow> int" where
  "GetBlockTimeMax b = uint (bi_nTimeMax b)"

definition bi_IsValid :: "u32 \<Rightarrow> CBlockIndex \<Rightarrow> bool option" where
  "bi_IsValid nUpTo b =
     (if nUpTo AND NOT BLOCK_VALID_MASK \<noteq> 0 then None
      else if bi_nStatus b AND BLOCK_FAILED_MASK \<noteq> 0 then Some False
      else Some (nUpTo \<le> bi_nStatus b AND BLOCK_VALID_MASK))"

definition RaiseValidity :: "u32 \<Rightarrow> CBlockIndex \<Rightarrow> (CBlockIndex \<times> bool) option" where
  "RaiseValidity nUpTo b =
     (if nUpTo AND NOT BLOCK_VALID_MASK \<noteq> 0 then None
      else if bi_nStatus b AND BLOCK_FAILED_MASK \<noteq> 0 then Some (b, False)
      else if bi_nStatus b AND BLOCK_VALID_MASK < nUpTo
      then Some (b\<lparr>bi_nStatus := (bi_nStatus b AND NOT BLOCK_VALID_MASK) OR nUpTo\<rparr>, True)
      else Some (b, False))"

section \<open>Ancestors\<close>

definition InvertLowestOne :: "int \<Rightarrow> int" where
  "InvertLowestOne n = n AND (n - 1)"

definition GetSkipHeight :: "int \<Rightarrow> int" where
  "GetSkipHeight height =
     (if height < 2 then 0
      else if height AND 1 \<noteq> 0 then InvertLowestOne (InvertLowestOne (height - 1)) + 1
      else InvertLowestOne height)"

partial_function (option) GetAncestor_loop :: "BlockMap \<Rightarrow> int \<Rightarrow> u256 option \<Rightarrow> int \<Rightarrow> u256 option option" where
  "GetAncestor_loop m height pindexWalk heightWalk =
     (if height < heightWalk then
        Option.bind pindexWalk (\<lambda>p. Option.bind (m p) (\<lambda>b.
          if GetSkipHeight heightWalk = height \<or>
             (height < GetSkipHeight heightWalk \<and>
              \<not> (GetSkipHeight (heightWalk - 1) < GetSkipHeight heightWalk - 2 \<and> height \<le> GetSkipHeight (heightWalk - 1)))
          then GetAncestor_loop m height (pskip b) (GetSkipHeight heightWalk)
          else GetAncestor_loop m height (pprev b) (heightWalk - 1)))
      else Some pindexWalk)"

definition GetAncestor :: "BlockMap \<Rightarrow> u256 \<Rightarrow> int \<Rightarrow> u256 option option" where
  "GetAncestor m this height =
     Option.bind (m this) (\<lambda>b.
       if bi_nHeight b < height \<or> height < 0 then Some None else GetAncestor_loop m height (Some this) (bi_nHeight b))"

definition BuildSkip :: "BlockMap \<Rightarrow> CBlockIndex \<Rightarrow> CBlockIndex option" where
  "BuildSkip m b =
     (case pprev b of
        None \<Rightarrow> Some b
      | Some p \<Rightarrow> Option.bind (GetAncestor m p (GetSkipHeight (bi_nHeight b))) (\<lambda>s. Some (b\<lparr>pskip := s\<rparr>)))"

partial_function (option) LastCommonAncestor_loop :: "BlockMap \<Rightarrow> u256 option \<Rightarrow> u256 option \<Rightarrow> (u256 option \<times> u256 option) option" where
  "LastCommonAncestor_loop m pa pb =
     (if pa \<noteq> pb then
        (case (pa, pb) of
           (Some a, Some b) \<Rightarrow>
             Option.bind (m a) (\<lambda>ba. Option.bind (m b) (\<lambda>bb. LastCommonAncestor_loop m (pprev ba) (pprev bb)))
         | _ \<Rightarrow> Some (pa, pb))
      else Some (pa, pb))"

definition LastCommonAncestor :: "BlockMap \<Rightarrow> u256 \<Rightarrow> u256 \<Rightarrow> u256 option option" where
  "LastCommonAncestor m pa pb =
     Option.bind (m pa) (\<lambda>ba. Option.bind (m pb) (\<lambda>bb.
     Option.bind (if bi_nHeight bb < bi_nHeight ba then GetAncestor m pa (bi_nHeight bb) else Some (Some pa)) (\<lambda>pa'.
     Option.bind (if \<not> bi_nHeight bb < bi_nHeight ba \<and> bi_nHeight ba < bi_nHeight bb
                  then GetAncestor m pb (bi_nHeight ba) else Some (Some pb)) (\<lambda>pb'.
     Option.bind (LastCommonAncestor_loop m pa' pb') (\<lambda>(x, y). if x = y then Some x else None)))))"

section \<open>The active chain\<close>

definition chain_at :: "CChain \<Rightarrow> int \<Rightarrow> u256 option" where
  "chain_at vChain nHeight = (if nHeight < 0 \<or> int (length vChain) \<le> nHeight then None else vChain ! nat nHeight)"

definition Genesis :: "CChain \<Rightarrow> u256 option" where
  "Genesis vChain = (if 0 < length vChain then vChain ! 0 else None)"

partial_function (option) Tip_loop :: "BlockMap \<Rightarrow> u256 option \<Rightarrow> u256 option option" where
  "Tip_loop m pindex =
     (case pindex of
        None \<Rightarrow> Some None
      | Some p \<Rightarrow> Option.bind (m p) (\<lambda>b. if pprev b \<noteq> None \<and> \<not> bi_IsProofOfStake b then Tip_loop m (pprev b) else Some (Some p)))"

definition Tip :: "CChain \<Rightarrow> u256 option" where
  "Tip vChain = (if length vChain < 1 then None else vChain ! (length vChain - 1))"

definition Tip_PoS :: "BlockMap \<Rightarrow> CChain \<Rightarrow> u256 option option" where
  "Tip_PoS m vChain = (if length vChain < 1 then Some None else Tip_loop m (vChain ! (length vChain - 1)))"

definition Contains :: "BlockMap \<Rightarrow> CChain \<Rightarrow> u256 \<Rightarrow> bool option" where
  "Contains m vChain pindex = Option.bind (m pindex) (\<lambda>b. Some (chain_at vChain (bi_nHeight b) = Some pindex))"

definition Next :: "BlockMap \<Rightarrow> CChain \<Rightarrow> u256 \<Rightarrow> u256 option option" where
  "Next m vChain pindex =
     Option.bind (Contains m vChain pindex) (\<lambda>c. Option.bind (m pindex) (\<lambda>b.
       Some (if c then chain_at vChain (bi_nHeight b + 1) else None)))"

definition Height :: "CChain \<Rightarrow> int" where
  "Height vChain = int (length vChain) - 1"

definition vec_resize :: "nat \<Rightarrow> 'a option list \<Rightarrow> 'a option list" where
  "vec_resize n xs = take n xs @ replicate (n - length xs) None"

partial_function (option) SetTip_loop :: "BlockMap \<Rightarrow> u256 option \<Rightarrow> CChain \<Rightarrow> CChain option" where
  "SetTip_loop m pindex vChain =
     (case pindex of
        None \<Rightarrow> Some vChain
      | Some p \<Rightarrow> Option.bind (m p) (\<lambda>b.
          if bi_nHeight b < 0 \<or> int (length vChain) \<le> bi_nHeight b then None
          else if vChain ! nat (bi_nHeight b) \<noteq> Some p
          then SetTip_loop m (pprev b) (vChain[nat (bi_nHeight b) := Some p])
          else Some vChain))"

definition SetTip :: "BlockMap \<Rightarrow> u256 option \<Rightarrow> CChain \<Rightarrow> CChain option" where
  "SetTip m pindex vChain =
     (case pindex of
        None \<Rightarrow> Some []
      | Some p \<Rightarrow> Option.bind (m p) (\<lambda>b.
          if bi_nHeight b < - 1 then None else SetTip_loop m (Some p) (vec_resize (nat (bi_nHeight b + 1)) vChain)))"

partial_function (option) GetLocator_loop :: "BlockMap \<Rightarrow> CChain \<Rightarrow> u256 option \<Rightarrow> int \<Rightarrow> u256 list \<Rightarrow> u256 list option" where
  "GetLocator_loop m vChain pindex nStep vHave =
     (case pindex of
        None \<Rightarrow> Some vHave
      | Some p \<Rightarrow> Option.bind (m p) (\<lambda>b.
          if bi_nHeight b = 0 then Some (vHave @ [p])
          else Option.bind (Contains m vChain p) (\<lambda>c.
            Option.bind (if c then Some (chain_at vChain (max (bi_nHeight b - nStep) 0))
                         else GetAncestor m p (max (bi_nHeight b - nStep) 0)) (\<lambda>q.
              GetLocator_loop m vChain q (if 10 < length (vHave @ [p]) then nStep * 2 else nStep) (vHave @ [p])))))"

definition GetLocator :: "BlockMap \<Rightarrow> CChain \<Rightarrow> u256 option \<Rightarrow> u256 list option" where
  "GetLocator m vChain pindex = GetLocator_loop m vChain (if pindex = None then Tip vChain else pindex) 1 []"

partial_function (option) FindFork_loop :: "BlockMap \<Rightarrow> CChain \<Rightarrow> u256 option \<Rightarrow> u256 option option" where
  "FindFork_loop m vChain pindex =
     (case pindex of
        None \<Rightarrow> Some None
      | Some p \<Rightarrow> Option.bind (Contains m vChain p) (\<lambda>c.
          if \<not> c then Option.bind (m p) (\<lambda>b. FindFork_loop m vChain (pprev b)) else Some (Some p)))"

definition FindFork :: "BlockMap \<Rightarrow> CChain \<Rightarrow> u256 option \<Rightarrow> u256 option option" where
  "FindFork m vChain pindex =
     (case pindex of
        None \<Rightarrow> Some None
      | Some p \<Rightarrow> Option.bind (m p) (\<lambda>b.
          Option.bind (if Height vChain < bi_nHeight b then GetAncestor m p (Height vChain) else Some (Some p))
            (FindFork_loop m vChain)))"

function lower_bound_loop :: "(nat \<Rightarrow> bool option) \<Rightarrow> nat \<Rightarrow> nat \<Rightarrow> nat option" where
  "lower_bound_loop cmp first count =
     (if count = 0 then Some first
      else Option.bind (cmp (first + count div 2)) (\<lambda>lt.
        if lt then lower_bound_loop cmp (first + count div 2 + 1) (count - (count div 2 + 1))
        else lower_bound_loop cmp first (count div 2)))"
  by auto
termination by (relation "measure (\<lambda>(_, _, c). c)") auto

definition FindEarliestAtLeast :: "BlockMap \<Rightarrow> CChain \<Rightarrow> int \<Rightarrow> u256 option option" where
  "FindEarliestAtLeast m vChain t =
     Option.bind (lower_bound_loop (\<lambda>i. Option.bind (vChain ! i) (\<lambda>p. Option.bind (m p) (\<lambda>b. Some (GetBlockTimeMax b < t)))) 0 (length vChain))
       (\<lambda>lower. Some (if lower = length vChain then None else vChain ! lower))"

section \<open>Median time\<close>

fun median_times :: "BlockMap \<Rightarrow> nat \<Rightarrow> u256 option \<Rightarrow> int list option" where
  "median_times m 0 pindex = Some []"
| "median_times m (Suc i) None = Some []"
| "median_times m (Suc i) (Some p) =
     Option.bind (m p) (\<lambda>b. Option.bind (median_times m i (pprev b)) (\<lambda>ts. Some (ts @ [GetBlockTime b])))"

definition nMedianTimeSpan :: nat where "nMedianTimeSpan = 11"

definition GetMedianTimePast :: "BlockMap \<Rightarrow> u256 \<Rightarrow> int option" where
  "GetMedianTimePast m this = Option.bind (median_times m nMedianTimeSpan (Some this)) (\<lambda>ts. Some (sort ts ! (length ts div 2)))"

section \<open>Block trees\<close>

text \<open>The reference for ancestors: follow the parent pointer \<open>n\<close> times.\<close>

definition parent_of :: "BlockMap \<Rightarrow> u256 \<Rightarrow> u256 option" where
  "parent_of m h = Option.bind (m h) pprev"

primrec parent_n :: "BlockMap \<Rightarrow> nat \<Rightarrow> u256 \<Rightarrow> u256 option" where
  "parent_n m 0 h = Some h"
| "parent_n m (Suc n) h = Option.bind (parent_of m h) (parent_n m n)"

definition height_of :: "BlockMap \<Rightarrow> u256 \<Rightarrow> int" where
  "height_of m h = bi_nHeight (the (m h))"

definition ancestor_at :: "BlockMap \<Rightarrow> u256 \<Rightarrow> int \<Rightarrow> u256 option" where
  "ancestor_at m h k = (if height_of m h < k \<or> k < 0 then None else parent_n m (nat (height_of m h - k)) h)"

lemma InvertLowestOne_less:
  "0 < n \<Longrightarrow> InvertLowestOne n < n" "0 \<le> n \<Longrightarrow> 0 \<le> InvertLowestOne n" "0 \<le> n \<Longrightarrow> InvertLowestOne n \<le> n"
proof -
  show "0 < n \<Longrightarrow> InvertLowestOne n < n" using AND_upper2[of "n - 1" n] by (simp add: InvertLowestOne_def)
  show "0 \<le> n \<Longrightarrow> 0 \<le> InvertLowestOne n" by (simp add: InvertLowestOne_def)
  show "0 \<le> n \<Longrightarrow> InvertLowestOne n \<le> n" using AND_upper1[of n "n - 1"] by (simp add: InvertLowestOne_def)
qed

lemma GetSkipHeight_less: "0 < h \<Longrightarrow> GetSkipHeight h < h" and GetSkipHeight_nonneg: "0 \<le> GetSkipHeight h"
proof -
  note i = InvertLowestOne_less
  show "0 \<le> GetSkipHeight h" using i(2)[of "h - 1"] i(2)[of h] i(2)[of "InvertLowestOne (h - 1)"] by (auto simp: GetSkipHeight_def)
  show "0 < h \<Longrightarrow> GetSkipHeight h < h"
    using i(1)[of "h - 1"] i(1)[of h] i(3)[of "InvertLowestOne (h - 1)"] i(2)[of "h - 1"] by (auto simp: GetSkipHeight_def)
qed

lemma parent_n_add: "parent_n m (i + j) h = Option.bind (parent_n m i h) (parent_n m j)"
  by (induction i arbitrary: h) (auto split: bind_split)

locale block_tree =
  fixes m :: BlockMap
  assumes height_nonneg: "m h = Some b \<Longrightarrow> 0 \<le> bi_nHeight b"
    and root_height: "m h = Some b \<Longrightarrow> pprev b = None \<Longrightarrow> bi_nHeight b = 0"
    and parent_height: "m h = Some b \<Longrightarrow> pprev b = Some p \<Longrightarrow> \<exists>pb. m p = Some pb \<and> bi_nHeight b = bi_nHeight pb + 1"
    and skip_ancestor: "m h = Some b \<Longrightarrow> pprev b = Some p \<Longrightarrow> pskip b = ancestor_at m p (GetSkipHeight (bi_nHeight b))"
begin

lemma parent_n_height:
  "m h = Some b \<Longrightarrow> int n \<le> bi_nHeight b \<Longrightarrow>
     \<exists>q bq. parent_n m n h = Some q \<and> m q = Some bq \<and> bi_nHeight bq = bi_nHeight b - int n"
proof (induction n arbitrary: h b)
  case (Suc n)
  then obtain p where p: "pprev b = Some p" using root_height[OF Suc.prems(1)] by (cases "pprev b") auto
  from parent_height[OF Suc.prems(1) p] obtain pb where pb: "m p = Some pb" "bi_nHeight b = bi_nHeight pb + 1" by blast
  then have "int n \<le> bi_nHeight pb" using Suc.prems by simp
  from Suc.IH[OF pb(1) this] show ?case using Suc.prems p pb by (auto simp: parent_of_def)
qed simp

lemma ancestor_at_ex:
  assumes "m h = Some b" and "0 \<le> k" "k \<le> bi_nHeight b"
  shows "\<exists>q bq. ancestor_at m h k = Some q \<and> m q = Some bq \<and> bi_nHeight bq = k"
  using parent_n_height[OF assms(1), of "nat (bi_nHeight b - k)"] assms by (auto simp: ancestor_at_def height_of_def)

lemma ancestor_at_parent:
  assumes "m h = Some b" "pprev b = Some p" "0 \<le> k" "k < bi_nHeight b"
  shows "ancestor_at m h k = ancestor_at m p k"
proof -
  obtain pb where pb: "m p = Some pb" "bi_nHeight b = bi_nHeight pb + 1" using parent_height[OF assms(1,2)] by blast
  have "nat (bi_nHeight b - k) = Suc (nat (bi_nHeight pb - k))" using assms pb by simp
  then show ?thesis using assms pb by (simp add: ancestor_at_def height_of_def parent_of_def)
qed

lemma ancestor_at_trans:
  assumes "m h = Some b" "ancestor_at m h j = Some q" "0 \<le> k" "k \<le> j"
  shows "ancestor_at m h k = ancestor_at m q k"
proof -
  have j: "0 \<le> j" "j \<le> bi_nHeight b" using assms by (auto simp: ancestor_at_def height_of_def split: if_splits)
  obtain bq where q: "m q = Some bq" "bi_nHeight bq = j" using ancestor_at_ex[OF assms(1) j] assms(2) by auto
  have "nat (bi_nHeight b - k) = nat (bi_nHeight b - j) + nat (j - k)" using j assms by simp
  then show ?thesis using assms j q by (simp add: ancestor_at_def height_of_def parent_n_add)
qed

lemma GetAncestor_loop_ancestor:
  "m p = Some b \<Longrightarrow> 0 \<le> k \<Longrightarrow> k \<le> bi_nHeight b \<Longrightarrow> GetAncestor_loop m k (Some p) (bi_nHeight b) = Some (ancestor_at m p k)"
proof (induction "nat (bi_nHeight b)" arbitrary: p b rule: less_induct)
  case less
  show ?case
  proof (cases "k < bi_nHeight b")
    case False
    then show ?thesis using less.prems by (subst GetAncestor_loop.simps) (simp add: ancestor_at_def height_of_def)
  next
    case True
    define s where "s = GetSkipHeight (bi_nHeight b)"
    from True less.prems obtain q where q: "pprev b = Some q" using root_height[OF less.prems(1)] by (cases "pprev b") auto
    from parent_height[OF less.prems(1) q] obtain bq where bq: "m q = Some bq" "bi_nHeight b = bi_nHeight bq + 1" by blast
    have s: "0 \<le> s" "s < bi_nHeight b" using GetSkipHeight_less[of "bi_nHeight b"] GetSkipHeight_nonneg True less.prems by (auto simp: s_def)
    have up: "ancestor_at m p k = ancestor_at m q k" by (rule ancestor_at_parent[OF less.prems(1) q]) (use True less.prems in auto)
    have walk: "GetAncestor_loop m k (Some q) (bi_nHeight b - 1) = Some (ancestor_at m p k)"
      using less.hyps[OF _ bq(1)] less.prems True bq up height_nonneg[OF bq(1)] by simp
    have jump: "GetAncestor_loop m k (pskip b) s = Some (ancestor_at m p k)" if "k \<le> s"
    proof -
      obtain r br where r: "ancestor_at m q s = Some r" "m r = Some br" "bi_nHeight br = s"
        using ancestor_at_ex[OF bq(1) s(1)] s bq by auto
      have "pskip b = Some r" using skip_ancestor[OF less.prems(1) q] r by (simp add: s_def)
      moreover have "GetAncestor_loop m k (Some r) (bi_nHeight br) = Some (ancestor_at m r k)"
        using less.hyps[OF _ r(2)] less.prems that r s by simp
      moreover have "ancestor_at m q k = ancestor_at m r k" by (rule ancestor_at_trans[OF bq(1) r(1) less.prems(2) that])
      ultimately show ?thesis using r up by simp
    qed
    show ?thesis
      using True less.prems walk jump by (subst GetAncestor_loop.simps) (auto simp: q s_def)
  qed
qed

lemma GetAncestor_ancestor: "m p = Some b \<Longrightarrow> GetAncestor m p k = Some (ancestor_at m p k)"
  using GetAncestor_loop_ancestor[of p b k] by (auto simp: GetAncestor_def ancestor_at_def height_of_def)

end

section \<open>The active chain as the path to its tip\<close>

definition root_path :: "BlockMap \<Rightarrow> u256 \<Rightarrow> CChain" where
  "root_path m t = map (\<lambda>i. ancestor_at m t (int i)) [0..<nat (height_of m t + 1)]"

definition active_chain :: "BlockMap \<Rightarrow> CChain \<Rightarrow> bool" where
  "active_chain m vChain \<longleftrightarrow> vChain = [] \<or> (\<exists>t. m t \<noteq> None \<and> vChain = root_path m t)"

definition common_at :: "BlockMap \<Rightarrow> u256 \<Rightarrow> u256 \<Rightarrow> int \<Rightarrow> bool" where
  "common_at m a b k \<longleftrightarrow> ancestor_at m a k \<noteq> None \<and> ancestor_at m a k = ancestor_at m b k"

definition is_fork :: "BlockMap \<Rightarrow> u256 \<Rightarrow> u256 \<Rightarrow> u256 option \<Rightarrow> bool" where
  "is_fork m a b r \<longleftrightarrow>
     (case r of
        None \<Rightarrow> \<forall>k. \<not> common_at m a b k
      | Some q \<Rightarrow> \<exists>k. ancestor_at m a k = Some q \<and> ancestor_at m b k = Some q \<and> (\<forall>j. k < j \<longrightarrow> \<not> common_at m a b j))"

context block_tree
begin

lemma ancestor_self: "m h = Some b \<Longrightarrow> ancestor_at m h (bi_nHeight b) = Some h"
  using height_nonneg[of h b] by (simp add: ancestor_at_def height_of_def)

lemma ancestor_at_SomeD:
  assumes "m h = Some b" "ancestor_at m h k = Some q"
  shows "0 \<le> k" "k \<le> bi_nHeight b" "\<exists>bq. m q = Some bq \<and> bi_nHeight bq = k"
proof -
  show k: "0 \<le> k" "k \<le> bi_nHeight b" using assms by (auto simp: ancestor_at_def height_of_def split: if_splits)
  show "\<exists>bq. m q = Some bq \<and> bi_nHeight bq = k" using ancestor_at_ex[OF assms(1) k] assms(2) by auto
qed

lemma root_no_parent: "m h = Some b \<Longrightarrow> bi_nHeight b = 0 \<Longrightarrow> pprev b = None"
  using parent_height[of h b] height_nonneg by (cases "pprev b") fastforce+

lemma parent_ex:
  assumes "m h = Some b" "bi_nHeight b \<noteq> 0"
  obtains p pb where "pprev b = Some p" "m p = Some pb" "bi_nHeight b = bi_nHeight pb + 1"
  using assms root_height[OF assms(1)] parent_height[OF assms(1)] by (cases "pprev b") auto

lemma length_root_path: "m t = Some b \<Longrightarrow> length (root_path m t) = nat (bi_nHeight b + 1)"
  by (simp add: root_path_def height_of_def)

lemma root_path_nth: "m t = Some b \<Longrightarrow> int i \<le> bi_nHeight b \<Longrightarrow> root_path m t ! i = ancestor_at m t (int i)"
  by (simp add: root_path_def height_of_def zless_nat_eq_int_zless del: upt_Suc)

lemma chain_at_root_path: "m t = Some b \<Longrightarrow> chain_at (root_path m t) k = ancestor_at m t k"
proof (cases "0 \<le> k \<and> k \<le> bi_nHeight b")
  case True
  assume "m t = Some b"
  then show ?thesis using True by (simp add: chain_at_def length_root_path root_path_nth)
next
  case False
  assume "m t = Some b"
  then show ?thesis using False by (auto simp: chain_at_def length_root_path ancestor_at_def height_of_def)
qed

lemma SetTip_loop_path:
  assumes "m q = Some bq" and "bi_nHeight bq < int (length v)"
    and "\<And>i. i < length v \<Longrightarrow> bi_nHeight bq < int i \<Longrightarrow> v ! i = W (int i)"
    and "\<And>k. 0 \<le> k \<Longrightarrow> k \<le> bi_nHeight bq \<Longrightarrow> ancestor_at m q k = W k"
    and "\<And>i r. int i \<le> bi_nHeight bq \<Longrightarrow> v ! i = Some r \<Longrightarrow> \<forall>k\<le>i. v ! k = ancestor_at m r (int k)"
  shows "SetTip_loop m (Some q) v = Some (map (\<lambda>i. W (int i)) [0..<length v])"
  using assms
proof (induction "nat (bi_nHeight bq)" arbitrary: q bq v rule: less_induct)
  case less
  define j where "j = nat (bi_nHeight bq)"
  have j: "int j = bi_nHeight bq" "j < length v" using height_nonneg[OF less.prems(1)] less.prems(2) by (auto simp: j_def)
  have qj: "W (int j) = Some q" using less.prems(4)[of "int j"] ancestor_self[OF less.prems(1)] j by simp
  show ?case
  proof (cases "v ! j = Some q")
    case True
    have "v ! i = W (int i)" if "i < length v" for i
    proof (cases "i \<le> j")
      case le: True
      then show ?thesis using less.prems(5)[of j q] True less.prems(4)[of "int i"] j by auto
    next
      case False
      then show ?thesis using less.prems(3)[OF that] j by simp
    qed
    then have "v = map (\<lambda>i. W (int i)) [0..<length v]" by (intro nth_equalityI) simp_all
    then show ?thesis using True j less.prems(1,2) height_nonneg[OF less.prems(1)]
      by (subst SetTip_loop.simps) (simp add: j_def[symmetric])
  next
    case False
    define v' where "v' = v[j := Some q]"
    have step: "SetTip_loop m (Some q) v = SetTip_loop m (pprev bq) v'"
      using False j less.prems(1,2) height_nonneg[OF less.prems(1)]
      by (subst SetTip_loop.simps) (simp add: j_def[symmetric] v'_def)
    have above: "v' ! i = W (int i)" if "i < length v" "j \<le> i" for i
      using that less.prems(3)[of i] j qj by (cases "i = j") (auto simp: v'_def)
    show ?thesis
    proof (cases "bi_nHeight bq = 0")
      case True
      then have "v' = map (\<lambda>i. W (int i)) [0..<length v]" using above j by (intro nth_equalityI) (simp_all add: v'_def)
      then show ?thesis using step root_no_parent[OF less.prems(1) True] by (simp add: SetTip_loop.simps)
    next
      case nz: False
      obtain p pb where p: "pprev bq = Some p" "m p = Some pb" "bi_nHeight bq = bi_nHeight pb + 1"
        by (rule parent_ex[OF less.prems(1) nz])
      have pj: "Suc (nat (bi_nHeight pb)) = j" using p j height_nonneg[OF p(2)] by simp
      have "SetTip_loop m (Some p) v' = Some (map (\<lambda>i. W (int i)) [0..<length v'])"
      proof (rule less.hyps[OF _ p(2)])
        show "nat (bi_nHeight pb) < nat (bi_nHeight bq)" using p height_nonneg[OF p(2)] by simp
        show "bi_nHeight pb < int (length v')" using p less.prems(2) by (simp add: v'_def)
        show "v' ! i = W (int i)" if "i < length v'" "bi_nHeight pb < int i" for i
          using above[of i] that p j by (simp add: v'_def)
        show "ancestor_at m p k = W k" if "0 \<le> k" "k \<le> bi_nHeight pb" for k
          using less.prems(4)[of k] ancestor_at_parent[OF less.prems(1) p(1), of k] that p by simp
        show "\<forall>k\<le>i. v' ! k = ancestor_at m r (int k)" if "int i \<le> bi_nHeight pb" "v' ! i = Some r" for i r
          using less.prems(5)[of i r] that p j by (auto simp: v'_def)
      qed
      then show ?thesis using step p(1) by (simp add: v'_def)
    qed
  qed
qed

lemma SetTip_path:
  assumes "m p = Some b" and "active_chain m vChain"
  shows "SetTip m (Some p) vChain = Some (root_path m p)"
proof -
  define v where "v = vec_resize (nat (bi_nHeight b + 1)) vChain"
  have len: "length v = nat (bi_nHeight b + 1)" by (simp add: v_def vec_resize_def)
  have old: "\<forall>k\<le>i. v ! k = ancestor_at m r (int k)" if "int i \<le> bi_nHeight b" "v ! i = Some r" for i r
  proof -
    have i: "i < length v" using that len height_nonneg[OF assms(1)] by simp
    then have c: "i < length vChain" "vChain ! i = Some r"
      using that by (auto simp: v_def vec_resize_def nth_append split: if_splits)
    then obtain t bt where t: "m t = Some bt" "vChain = root_path m t" using assms(2) by (auto simp: active_chain_def)
    have it: "int i \<le> bi_nHeight bt" using c t by (simp add: length_root_path)
    have "ancestor_at m t (int i) = Some r" using c t it by (simp add: root_path_nth)
    then have "ancestor_at m t (int k) = ancestor_at m r (int k)" if "k \<le> i" for k
      using ancestor_at_trans[OF t(1)] that by simp
    moreover have "v ! k = ancestor_at m t (int k)" if "k \<le> i" for k
      using that c i it t len by (simp add: v_def vec_resize_def nth_append root_path_nth)
    ultimately show ?thesis by simp
  qed
  have "SetTip_loop m (Some p) v = Some (map (\<lambda>i. ancestor_at m p (int i)) [0..<length v])"
    by (rule SetTip_loop_path[OF assms(1)]) (use len height_nonneg[OF assms(1)] old in auto)
  then show ?thesis using assms(1) height_nonneg[OF assms(1)] len
    by (simp add: SetTip_def v_def[symmetric] root_path_def height_of_def)
qed

lemma Contains_path:
  assumes "m t = Some bt" "m q = Some bq"
  shows "Contains m (root_path m t) q = Some (ancestor_at m t (bi_nHeight bq) = Some q)"
  using assms by (simp add: Contains_def chain_at_root_path)

lemma common_below:
  assumes "m a = Some ba" "m b = Some bb" "common_at m a b k" "0 \<le> j" "j \<le> k"
  shows "common_at m a b j"
proof -
  obtain q where q: "ancestor_at m a k = Some q" "ancestor_at m b k = Some q" using assms(3) by (metis common_at_def option.collapse)
  have "ancestor_at m a j = ancestor_at m q j" "ancestor_at m b j = ancestor_at m q j"
    using ancestor_at_trans q assms by blast+
  moreover have "ancestor_at m a j \<noteq> None" using ancestor_at_ex[OF assms(1) assms(4)] ancestor_at_SomeD(2)[OF assms(1) q(1)] assms(5) by force
  ultimately show ?thesis by (simp add: common_at_def)
qed

lemma is_fork_cut:
  assumes "m a = Some ba" "m b = Some bb" "ancestor_at m a j = Some a'" "bi_nHeight bb \<le> j" "is_fork m a' b r"
  shows "is_fork m a b r"
proof -
  have same: "ancestor_at m a k = ancestor_at m a' k" if "0 \<le> k" "k \<le> j" for k
    using ancestor_at_trans[OF assms(1,3)] that by simp
  have high: "ancestor_at m b k = None" if "k < 0 \<or> j < k" for k using that assms(2,4) by (auto simp: ancestor_at_def height_of_def)
  have c: "common_at m a b k = common_at m a' b k" for k
    using same[of k] high[of k] by (cases "0 \<le> k \<and> k \<le> j") (auto simp: common_at_def)
  have "ancestor_at m a k = Some q" if "ancestor_at m a' k = Some q" "ancestor_at m b k = Some q" for k q
    using same[of k] high[of k] that by (cases "0 \<le> k \<and> k \<le> j") auto
  then show ?thesis using assms(5) by (force simp: is_fork_def c split: option.splits)
qed

lemma is_fork_sym: "is_fork m a b r \<longleftrightarrow> is_fork m b a r"
proof -
  have "common_at m a b k = common_at m b a k" for k unfolding common_at_def by metis
  then show ?thesis by (force simp: is_fork_def split: option.splits)
qed

lemma is_fork_self: "m a = Some ba \<Longrightarrow> is_fork m a a (Some a)"
  using ancestor_self[of a ba] by (auto simp: is_fork_def common_at_def ancestor_at_def height_of_def intro!: exI[of _ "bi_nHeight ba"])

lemma is_fork_parents:
  assumes "m a = Some ba" "m b = Some bb" "bi_nHeight ba \<le> bi_nHeight bb" "ancestor_at m b (bi_nHeight ba) \<noteq> Some a"
    "pprev ba = Some pa" "is_fork m pa b r"
  shows "is_fork m a b r"
proof -
  have c: "ancestor_at m a k = ancestor_at m pa k" if "k \<noteq> bi_nHeight ba" for k
  proof (cases "0 \<le> k \<and> k < bi_nHeight ba")
    case True
    then show ?thesis using ancestor_at_parent[OF assms(1,5)] by simp
  next
    case False
    then show ?thesis using that parent_height[OF assms(1,5)] assms(1) by (auto simp: ancestor_at_def height_of_def)
  qed
  have n: "\<not> common_at m a b (bi_nHeight ba)" using assms(4) ancestor_self[OF assms(1)] by (auto simp: common_at_def)
  have pn: "ancestor_at m pa (bi_nHeight ba) = None"
    using parent_height[OF assms(1,5)] by (auto simp: ancestor_at_def height_of_def)
  have cc: "common_at m a b k = common_at m pa b k" for k
    using c[of k] n pn by (cases "k = bi_nHeight ba") (auto simp: common_at_def)
  have "ancestor_at m a k = Some q" if "ancestor_at m pa k = Some q" for k q
    using c[of k] pn that by (cases "k = bi_nHeight ba") auto
  then show ?thesis using assms(6) by (force simp: is_fork_def cc split: option.splits)
qed

lemma is_fork_root:
  assumes "m a = Some ba" "bi_nHeight ba = 0" "m b = Some bb" "ancestor_at m b 0 \<noteq> Some a"
  shows "is_fork m a b None"
  using assms ancestor_self[OF assms(1)] by (auto simp: is_fork_def common_at_def ancestor_at_def height_of_def split: if_splits)

lemma LastCommonAncestor_loop_fork:
  "m a = Some ba \<Longrightarrow> m b = Some bb \<Longrightarrow> bi_nHeight ba = bi_nHeight bb \<Longrightarrow>
     \<exists>r. LastCommonAncestor_loop m (Some a) (Some b) = Some (r, r) \<and> is_fork m a b r"
proof (induction "nat (bi_nHeight ba)" arbitrary: a b ba bb rule: less_induct)
  case less
  show ?case
  proof (cases "a = b")
    case True
    then show ?thesis using is_fork_self[OF less.prems(1)] by (subst LastCommonAncestor_loop.simps) auto
  next
    case ne: False
    have na: "ancestor_at m b (bi_nHeight ba) \<noteq> Some a" using ancestor_self[OF less.prems(2)] less.prems(3) ne by simp
    show ?thesis
    proof (cases "bi_nHeight ba = 0")
      case True
      then have "pprev ba = None" "pprev bb = None" using root_no_parent less.prems by auto
      then have "LastCommonAncestor_loop m (Some a) (Some b) = Some (None, None)"
        using ne less.prems by (simp add: LastCommonAncestor_loop.simps)
      then show ?thesis using is_fork_root[OF less.prems(1) True less.prems(2)] na True by simp
    next
      case False
      obtain pa pba where pa: "pprev ba = Some pa" "m pa = Some pba" "bi_nHeight ba = bi_nHeight pba + 1"
        by (rule parent_ex[OF less.prems(1) False])
      have "bi_nHeight bb \<noteq> 0" using False less.prems(3) by simp
      then obtain pb pbb where pb: "pprev bb = Some pb" "m pb = Some pbb" "bi_nHeight bb = bi_nHeight pbb + 1"
        using parent_ex[OF less.prems(2)] by metis
      obtain r where r: "LastCommonAncestor_loop m (Some pa) (Some pb) = Some (r, r)" "is_fork m pa pb r"
        using less.hyps[OF _ pa(2) pb(2)] pa pb less.prems(3) height_nonneg[OF pa(2)] by auto
      have "is_fork m pb a r"
      proof -
        have "ancestor_at m b (bi_nHeight pbb) = Some pb"
          using ancestor_at_parent[OF less.prems(2) pb(1)] ancestor_self[OF pb(2)] pb height_nonneg[OF pb(2)] by simp
        moreover have "is_fork m pb pa r" using r(2) is_fork_sym by blast
        ultimately show ?thesis
          using is_fork_cut[OF less.prems(1) pb(2), of "bi_nHeight pba" pa r] ancestor_at_parent[OF less.prems(1) pa(1)]
            ancestor_self[OF pa(2)] pa pb less.prems(3) height_nonneg[OF pa(2)] is_fork_sym by auto
      qed
      then have "is_fork m a pb r" using is_fork_sym by blast
      then have "is_fork m b a r"
        using is_fork_parents[OF less.prems(2,1), of pb r] ancestor_self[OF less.prems(1)] less.prems(3) ne pb(1) is_fork_sym by auto
      then have "is_fork m a b r" using is_fork_sym by blast
      then show ?thesis using r(1) ne pa(1) pb(1) less.prems by (subst LastCommonAncestor_loop.simps) simp
    qed
  qed
qed

lemma LastCommonAncestor_fork:
  assumes "m a = Some ba" "m b = Some bb"
  shows "\<exists>r. LastCommonAncestor m a b = Some r \<and> is_fork m a b r"
proof -
  consider "bi_nHeight bb < bi_nHeight ba" | "bi_nHeight ba < bi_nHeight bb" | "bi_nHeight ba = bi_nHeight bb" by linarith
  then show ?thesis
  proof cases
    case 1
    obtain a' ba' where a': "ancestor_at m a (bi_nHeight bb) = Some a'" "m a' = Some ba'" "bi_nHeight ba' = bi_nHeight bb"
      using ancestor_at_ex[OF assms(1) height_nonneg[OF assms(2)]] 1 by auto
    obtain r where "LastCommonAncestor_loop m (Some a') (Some b) = Some (r, r)" "is_fork m a' b r"
      using LastCommonAncestor_loop_fork[OF a'(2) assms(2) a'(3)] by blast
    then show ?thesis using 1 is_fork_cut[OF assms a'(1)] assms a'(1) by (auto simp: LastCommonAncestor_def GetAncestor_ancestor)
  next
    case 2
    obtain b' bb' where b': "ancestor_at m b (bi_nHeight ba) = Some b'" "m b' = Some bb'" "bi_nHeight bb' = bi_nHeight ba"
      using ancestor_at_ex[OF assms(2) height_nonneg[OF assms(1)]] 2 by auto
    obtain r where r: "LastCommonAncestor_loop m (Some a) (Some b') = Some (r, r)" "is_fork m a b' r"
      using LastCommonAncestor_loop_fork[OF assms(1) b'(2) b'(3)[symmetric]] by blast
    then have "is_fork m b' a r" using is_fork_sym by blast
    then have "is_fork m b a r" using is_fork_cut[OF assms(2,1) b'(1)] by simp
    then have "is_fork m a b r" using is_fork_sym by blast
    then show ?thesis using 2 r(1) assms b'(1) by (auto simp: LastCommonAncestor_def GetAncestor_ancestor)
  next
    case 3
    then show ?thesis using LastCommonAncestor_loop_fork[OF assms 3] assms by (auto simp: LastCommonAncestor_def)
  qed
qed

lemma FindFork_loop_fork:
  "m q = Some bq \<Longrightarrow> m t = Some bt \<Longrightarrow> bi_nHeight bq \<le> bi_nHeight bt \<Longrightarrow>
     \<exists>r. FindFork_loop m (root_path m t) (Some q) = Some r \<and> is_fork m q t r"
proof (induction "nat (bi_nHeight bq)" arbitrary: q bq rule: less_induct)
  case less
  show ?case
  proof (cases "ancestor_at m t (bi_nHeight bq) = Some q")
    case True
    have "is_fork m q t (Some q)"
      using True ancestor_self[OF less.prems(1)] less.prems(1)
      by (auto simp: is_fork_def common_at_def ancestor_at_def height_of_def intro!: exI[of _ "bi_nHeight bq"])
    then show ?thesis using True less.prems by (subst FindFork_loop.simps) (simp add: Contains_path)
  next
    case ne: False
    show ?thesis
    proof (cases "bi_nHeight bq = 0")
      case True
      then have "is_fork m q t None" using is_fork_root[OF less.prems(1) _ less.prems(2)] ne by simp
      moreover have "FindFork_loop m (root_path m t) (Some q) = Some None"
        using ne less.prems root_no_parent[OF less.prems(1) True] by (simp add: FindFork_loop.simps Contains_path)
      ultimately show ?thesis by blast
    next
      case False
      obtain p pb where p: "pprev bq = Some p" "m p = Some pb" "bi_nHeight bq = bi_nHeight pb + 1"
        by (rule parent_ex[OF less.prems(1) False])
      obtain r where "FindFork_loop m (root_path m t) (Some p) = Some r" "is_fork m p t r"
        using less.hyps[OF _ p(2)] p less.prems height_nonneg[OF p(2)] by auto
      then show ?thesis
        using ne p(1) less.prems is_fork_parents[OF less.prems ne p(1)] by (subst FindFork_loop.simps) (simp add: Contains_path)
    qed
  qed
qed

lemma FindFork_fork:
  assumes "m p = Some b" "m t = Some bt"
  shows "\<exists>r. FindFork m (root_path m t) (Some p) = Some r \<and> is_fork m p t r"
proof -
  have h: "Height (root_path m t) = bi_nHeight bt"
    using assms height_nonneg[OF assms(2)] by (simp add: Height_def length_root_path)
  show ?thesis
  proof (cases "bi_nHeight bt < bi_nHeight b")
    case True
    obtain q bq where q: "ancestor_at m p (bi_nHeight bt) = Some q" "m q = Some bq" "bi_nHeight bq = bi_nHeight bt"
      using ancestor_at_ex[OF assms(1) height_nonneg[OF assms(2)]] True by auto
    obtain r where "FindFork_loop m (root_path m t) (Some q) = Some r" "is_fork m q t r"
      using FindFork_loop_fork[OF q(2) assms(2)] q by auto
    then show ?thesis using True q(1) is_fork_cut[OF assms q(1)] assms h by (auto simp: FindFork_def GetAncestor_ancestor)
  next
    case False
    then show ?thesis using FindFork_loop_fork[OF assms] assms h by (auto simp: FindFork_def)
  qed
qed

end

section \<open>Locators\<close>

text \<open>The heights a locator lists: ten single steps back, then steps that double.\<close>

function locator_heights :: "nat \<Rightarrow> nat \<Rightarrow> nat \<Rightarrow> nat list" where
  "locator_heights h s n =
     (if h = 0 \<or> s = 0 then [h] else h # locator_heights (h - s) (if 10 < Suc n then s * 2 else s) (Suc n))"
  by auto
termination by (relation "measure (\<lambda>(h, _, _). h)") auto

declare locator_heights.simps [simp del] lower_bound_loop.simps [simp del]

lemma locator_heights_bounds:
  "0 < s \<Longrightarrow> hd (locator_heights h s n) = h \<and> last (locator_heights h s n) = 0 \<and> sorted_wrt (>) (locator_heights h s n)
     \<and> set (locator_heights h s n) \<subseteq> {..h}"
proof (induction h s n rule: locator_heights.induct)
  case (1 h s n)
  show ?case
  proof (cases "h = 0")
    case True
    then show ?thesis by (simp add: locator_heights.simps)
  next
    case False
    define rest where "rest = locator_heights (h - s) (if 10 < Suc n then s * 2 else s) (Suc n)"
    have "rest \<noteq> []" unfolding rest_def by (subst locator_heights.simps) simp
    moreover have "locator_heights h s n = h # rest" using False 1(2) by (subst locator_heights.simps) (simp add: rest_def)
    moreover have "last rest = 0 \<and> sorted_wrt (>) rest \<and> set rest \<subseteq> {..h - s}"
      using 1(1) False 1(2) by (auto simp: rest_def)
    ultimately show ?thesis using False 1(2) by auto
  qed
qed

lemma locator_heights_length_fast:
  "0 < s \<Longrightarrow> 10 \<le> n \<Longrightarrow> h < s * 2 ^ j \<Longrightarrow> length (locator_heights h s n) \<le> j + 2"
proof (induction j arbitrary: h s n)
  case 0
  then have "locator_heights (h - s) s' n' = [0]" for s' n' by (simp add: locator_heights.simps)
  then show ?case by (subst locator_heights.simps) simp
next
  case (Suc j)
  have "h - s < s * 2 * 2 ^ j" using Suc.prems by (simp add: mult.commute mult.left_commute)
  then have "length (locator_heights (h - s) (s * 2) (Suc n)) \<le> j + 2" using Suc.IH[of "s * 2" "Suc n" "h - s"] Suc.prems by simp
  then show ?case using Suc.prems by (subst locator_heights.simps) simp
qed

lemma locator_heights_length_slow:
  "n \<le> 10 \<Longrightarrow> h < 2 ^ j \<Longrightarrow> length (locator_heights h 1 n) \<le> (10 - n) + j + 2"
proof (induction "10 - n" arbitrary: n h)
  case 0
  then show ?case using locator_heights_length_fast[of 1 n h j] by simp
next
  case (Suc k)
  have "k = 10 - Suc n" "Suc n \<le> 10" "h - 1 < 2 ^ j" using Suc.hyps(2) Suc.prems by auto
  then have "length (locator_heights (h - 1) 1 (Suc n)) \<le> (10 - Suc n) + j + 2" by (rule Suc.hyps(1))
  moreover have "n < 10" using Suc.hyps(2) by simp
  ultimately show ?case by (subst locator_heights.simps) auto
qed

context block_tree
begin

lemma GetLocator_loop_heights:
  assumes "vChain = [] \<or> m t = Some bt \<and> vChain = root_path m t"
  shows "m p = Some b \<Longrightarrow> 0 < s \<Longrightarrow>
    GetLocator_loop m vChain (Some p) (int s) vHave =
      Some (vHave @ map (\<lambda>k. the (ancestor_at m p (int k))) (locator_heights (nat (bi_nHeight b)) s (length vHave)))"
proof (induction "nat (bi_nHeight b)" arbitrary: p b s vHave rule: less_induct)
  case less
  define h where "h = nat (bi_nHeight b)"
  have h: "int h = bi_nHeight b" using height_nonneg[OF less.prems(1)] by (simp add: h_def)
  have self: "ancestor_at m p (int h) = Some p" using ancestor_self[OF less.prems(1)] h by simp
  show ?case
  proof (cases "h = 0")
    case True
    then show ?thesis using less.prems h self by (simp add: GetLocator_loop.simps locator_heights.simps)
  next
    case False
    define s' where "s' = (if 10 < Suc (length vHave) then s * 2 else s)"
    have k: "max (bi_nHeight b - int s) 0 = int (h - s)" using h by auto
    obtain q bq where q: "ancestor_at m p (int (h - s)) = Some q" "m q = Some bq" "bi_nHeight bq = int (h - s)"
      using ancestor_at_ex[OF less.prems(1), of "int (h - s)"] h[symmetric] by auto
    obtain c where c: "Contains m vChain p = Some c" using less.prems(1) by (simp add: Contains_def)
    have next_block: "(if c then Some (chain_at vChain (int (h - s))) else GetAncestor m p (int (h - s))) = Some (Some q)"
    proof (cases c)
      case True
      then have "vChain \<noteq> []" using c less.prems(1) by (auto simp: Contains_def chain_at_def split: if_splits)
      then have t: "m t = Some bt" "vChain = root_path m t" using assms by auto
      then have "ancestor_at m t (int h) = Some p" using True c less.prems(1) h by (simp add: Contains_path)
      then have "ancestor_at m t (int (h - s)) = Some q" using ancestor_at_trans[OF t(1)] q(1) by simp
      then show ?thesis using True t by (simp add: chain_at_root_path)
    next
      case False
      then show ?thesis using GetAncestor_ancestor[OF less.prems(1)] q(1) by simp
    qed
    have "GetLocator_loop m vChain (Some q) (int s') (vHave @ [p]) =
      Some ((vHave @ [p]) @ map (\<lambda>k. the (ancestor_at m q (int k))) (locator_heights (nat (bi_nHeight bq)) s' (length (vHave @ [p]))))"
      using less.prems(2) False h q by (intro less.hyps) (auto simp: s'_def h_def[symmetric])
    moreover have "map (\<lambda>k. the (ancestor_at m q (int k))) (locator_heights (h - s) s' (Suc (length vHave)))
      = map (\<lambda>k. the (ancestor_at m p (int k))) (locator_heights (h - s) s' (Suc (length vHave)))"
    proof (rule map_cong[OF refl])
      fix k assume "k \<in> set (locator_heights (h - s) s' (Suc (length vHave)))"
      moreover have "0 < s'" using less.prems(2) by (simp add: s'_def)
      ultimately have "k \<le> h - s" using locator_heights_bounds[of s' "h - s" "Suc (length vHave)"] by blast
      then show "the (ancestor_at m q (int k)) = the (ancestor_at m p (int k))" using ancestor_at_trans[OF less.prems(1) q(1)] by simp
    qed
    moreover have "locator_heights h s (length vHave) = h # locator_heights (h - s) s' (Suc (length vHave))"
      using False less.prems(2) by (subst locator_heights.simps) (simp add: s'_def)
    moreover have "GetLocator_loop m vChain (Some p) (int s) vHave = GetLocator_loop m vChain (Some q) (int s') (vHave @ [p])"
      using less.prems(1) h False c next_block k by (subst GetLocator_loop.simps) (auto simp: s'_def split: if_splits)
    ultimately show ?thesis using q self by (simp add: h_def[symmetric])
  qed
qed

lemma GetLocator_heights:
  assumes "active_chain m vChain" "m p = Some b"
  shows "GetLocator m vChain (Some p) = Some (map (\<lambda>k. the (ancestor_at m p (int k))) (locator_heights (nat (bi_nHeight b)) 1 0))"
proof -
  obtain t bt where "vChain = [] \<or> m t = Some bt \<and> vChain = root_path m t" using assms(1) by (auto simp: active_chain_def)
  from GetLocator_loop_heights[OF this assms(2), of 1 "[]"] show ?thesis by (simp add: GetLocator_def)
qed

end

section \<open>The earliest block of a given time\<close>

lemma lower_bound_loop_least:
  assumes "\<And>i. i < first + count \<Longrightarrow> cmp i = Some (P i)"
    and "\<And>i j. i \<le> j \<Longrightarrow> j < first + count \<Longrightarrow> P j \<Longrightarrow> P i"
  shows "\<exists>r. lower_bound_loop cmp first count = Some r \<and> first \<le> r \<and> r \<le> first + count \<and> (\<forall>i. first \<le> i \<and> i < r \<longrightarrow> P i) \<and> (r < first + count \<longrightarrow> \<not> P r)"
  using assms
proof (induction cmp first count rule: lower_bound_loop.induct)
  case (1 cmp first count)
  show ?case
  proof (cases "count = 0")
    case True
    then show ?thesis by (auto simp: lower_bound_loop.simps)
  next
    case False
    define i where "i = first + count div 2"
    have i: "i < first + count" using False by (simp add: i_def)
    have c: "cmp i = Some (P i)" using 1(3) i by simp
    show ?thesis
    proof (cases "P i")
      case True
      have e: "i + 1 + (count - (count div 2 + 1)) = first + count" using False by (simp add: i_def)
      have "\<exists>r. lower_bound_loop cmp (i + 1) (count - (count div 2 + 1)) = Some r \<and> i + 1 \<le> r \<and> r \<le> first + count
        \<and> (\<forall>j. i + 1 \<le> j \<and> j < r \<longrightarrow> P j) \<and> (r < first + count \<longrightarrow> \<not> P r)"
        using 1(1)[of True] False c True 1(3,4) unfolding e i_def[symmetric] by simp
      then obtain r where r: "lower_bound_loop cmp (i + 1) (count - (count div 2 + 1)) = Some r" "i + 1 \<le> r" "r \<le> first + count"
        "\<forall>j. i + 1 \<le> j \<and> j < r \<longrightarrow> P j" "r < first + count \<longrightarrow> \<not> P r" by blast
      have "P j" if "first \<le> j" "j < r" for j using 1(4)[of j i] r(4) True i that by (cases "j \<le> i") auto
      moreover have "lower_bound_loop cmp first count = Some r" using False c True r(1) by (subst lower_bound_loop.simps) (simp add: i_def)
      ultimately show ?thesis using r i by (intro exI[of _ r]) (auto simp: i_def)
    next
      case F: False
      have "\<exists>r. lower_bound_loop cmp first (count div 2) = Some r \<and> first \<le> r \<and> r \<le> i
        \<and> (\<forall>j. first \<le> j \<and> j < r \<longrightarrow> P j) \<and> (r < i \<longrightarrow> \<not> P r)"
        using 1(2)[of False] False c F 1(3,4) unfolding i_def[symmetric] by (simp add: i_def)
      then obtain r where "lower_bound_loop cmp first (count div 2) = Some r" "first \<le> r" "r \<le> i"
        "\<forall>j. first \<le> j \<and> j < r \<longrightarrow> P j" "r < i \<longrightarrow> \<not> P r" by blast
      moreover from this have "lower_bound_loop cmp first count = Some r" using False c F by (subst lower_bound_loop.simps) (simp add: i_def)
      ultimately show ?thesis using i F by (intro exI[of _ r]) (auto simp: le_less)
    qed
  qed
qed

locale timed_tree = block_tree +
  assumes time_root: "m h = Some b \<Longrightarrow> pprev b = None \<Longrightarrow> bi_nTimeMax b = bi_nTime b"
    and time_parent: "m h = Some b \<Longrightarrow> pprev b = Some p \<Longrightarrow> m p = Some pb \<Longrightarrow> bi_nTimeMax b = max (bi_nTimeMax pb) (bi_nTime b)"
begin

lemma path_parent:
  assumes "m t = Some bt" "ancestor_at m t (k + 1) = Some q" "m q = Some bq" "0 \<le> k"
  shows "\<exists>p pb. pprev bq = Some p \<and> m p = Some pb \<and> ancestor_at m t k = Some p"
proof -
  have h: "bi_nHeight bq = k + 1" using ancestor_at_SomeD(3)[OF assms(1,2)] assms(3) by auto
  then obtain p pb where p: "pprev bq = Some p" "m p = Some pb" "bi_nHeight bq = bi_nHeight pb + 1"
    using parent_ex[OF assms(3)] assms(4) by (metis add_nonneg_eq_0_iff zero_le_one zero_neq_one)
  have "ancestor_at m t k = ancestor_at m q k" using ancestor_at_trans[OF assms(1,2)] assms(4) by simp
  also have "\<dots> = ancestor_at m p k" using ancestor_at_parent[OF assms(3) p(1)] assms(4) h by simp
  also have "\<dots> = Some p" using ancestor_self[OF p(2)] p(3) h by simp
  finally show ?thesis using p by blast
qed

lemma time_max_prefix:
  "m t = Some bt \<Longrightarrow> ancestor_at m t (int k) = Some q \<Longrightarrow> m q = Some bq \<Longrightarrow>
     x \<le> bi_nTimeMax bq \<longleftrightarrow> (\<exists>j\<le>k. \<exists>r br. ancestor_at m t (int j) = Some r \<and> m r = Some br \<and> x \<le> bi_nTime br)"
proof (induction k arbitrary: q bq)
  case 0
  then have "bi_nHeight bq = 0" using ancestor_at_SomeD(3)[OF 0(1,2)] by auto
  then show ?case using 0 time_root[OF 0(3)] root_no_parent[OF 0(3)] by auto
next
  case (Suc k)
  obtain p pb where p: "pprev bq = Some p" "m p = Some pb" "ancestor_at m t (int k) = Some p"
    using path_parent[OF Suc.prems(1) _ Suc.prems(3), of "int k"] Suc.prems(2) by (auto simp: add.commute)
  have "x \<le> bi_nTimeMax bq \<longleftrightarrow> x \<le> bi_nTimeMax pb \<or> x \<le> bi_nTime bq" using time_parent[OF Suc.prems(3) p(1,2)] by (simp add: le_max_iff_disj)
  then show ?case using Suc.IH[OF Suc.prems(1) p(3,2)] Suc.prems by (auto simp: le_Suc_eq)
qed

lemma FindEarliestAtLeast_first:
  assumes "m t = Some bt" "0 \<le> x" "x < 2 ^ 32"
  shows "\<exists>r. FindEarliestAtLeast m (root_path m t) x = Some r \<and>
    (case r of
       None \<Rightarrow> \<forall>k q bq. ancestor_at m t k = Some q \<and> m q = Some bq \<longrightarrow> GetBlockTime bq < x
     | Some q \<Rightarrow> \<exists>k bq. ancestor_at m t k = Some q \<and> m q = Some bq \<and> x \<le> GetBlockTime bq \<and>
         (\<forall>j r br. j < k \<and> ancestor_at m t j = Some r \<and> m r = Some br \<longrightarrow> GetBlockTime br < x))"
proof -
  define n where "n = nat (bi_nHeight bt + 1)"
  define blk where "blk = (\<lambda>i. the (m (the (ancestor_at m t (int i)))))"
  define P where "P = (\<lambda>i. GetBlockTimeMax (blk i) < x)"
  have anc: "\<exists>q. ancestor_at m t (int i) = Some q \<and> m q = Some (blk i)" if "i < n" for i
    using ancestor_at_ex[OF assms(1), of "int i"] that by (force simp: n_def blk_def)
  have range: "\<exists>i<n. k = int i" if "ancestor_at m t k = Some q" for k q
    using ancestor_at_SomeD(1,2)[OF assms(1) that] by (intro exI[of _ "nat k"]) (auto simp: n_def)
  have max_iff: "\<not> P i \<longleftrightarrow> (\<exists>j\<le>i. x \<le> GetBlockTime (blk j))" if i: "i < n" for i
  proof -
    have x: "x \<le> uint w \<longleftrightarrow> word_of_int x \<le> w" for w :: u32 using assms(2,3) by (simp add: word_le_def uint_word_of_int)
    obtain q where q: "ancestor_at m t (int i) = Some q" "m q = Some (blk i)" using anc[OF i] by blast
    have "\<not> P i \<longleftrightarrow> (word_of_int x :: u32) \<le> bi_nTimeMax (blk i)" by (simp add: P_def GetBlockTimeMax_def not_less x)
    also have "\<dots> \<longleftrightarrow> (\<exists>j\<le>i. (word_of_int x :: u32) \<le> bi_nTime (blk j))"
      unfolding time_max_prefix[OF assms(1) q] using anc i by (auto simp: blk_def intro: le_less_trans) (metis anc le_less_trans option.sel)+
    finally show ?thesis by (simp add: GetBlockTime_def x)
  qed
  have cmp: "Option.bind (root_path m t ! i) (\<lambda>p. Option.bind (m p) (\<lambda>b. Some (GetBlockTimeMax b < x))) = Some (P i)" if "i < 0 + n" for i
    using anc[of i] that root_path_nth[OF assms(1), of i] by (auto simp: n_def P_def)
  have mono: "P i" if ij: "i \<le> j" "j < 0 + n" "P j" for i j
  proof (rule ccontr)
    assume "\<not> P i"
    then obtain l where "l \<le> i" "x \<le> GetBlockTime (blk l)" using max_iff[of i] ij by auto
    then have "\<not> P j" using max_iff[of j] ij by auto
    then show False using ij by simp
  qed
  obtain r where r: "lower_bound_loop (\<lambda>i. Option.bind (root_path m t ! i) (\<lambda>p. Option.bind (m p) (\<lambda>b. Some (GetBlockTimeMax b < x)))) 0 n = Some r"
    "r \<le> n" "\<forall>i<r. P i" "r < n \<longrightarrow> \<not> P r" 
    using lower_bound_loop_least[of 0 n "(\<lambda>i. Option.bind (root_path m t ! i) (\<lambda>p. Option.bind (m p) (\<lambda>b. Some (GetBlockTimeMax b < x))))" P] cmp mono by auto
  have early: "GetBlockTime (blk i) < x" if "i < r" for i using max_iff[of i] r(2,3) that by (metis less_le_trans not_less order_refl)
  have early': "GetBlockTime bq < x" if a: "k < int r" "ancestor_at m t k = Some q" "m q = Some bq" for k q bq
  proof -
    obtain i where i: "i < n" "k = int i" using range[OF a(2)] by blast
    then have "bq = blk i" using a by (simp add: blk_def)
    then show ?thesis using early[of i] a i by simp
  qed
  show ?thesis
  proof (cases "r = n")
    case True
    then have "FindEarliestAtLeast m (root_path m t) x = Some None"
      using r(1) by (simp add: FindEarliestAtLeast_def length_root_path[OF assms(1)] n_def[symmetric])
    moreover have "GetBlockTime bq < x" if "ancestor_at m t k = Some q" "m q = Some bq" for k q bq
      using early'[OF _ that] range[OF that(1)] True by auto
    ultimately show ?thesis by (intro exI[of _ None]) auto
  next
    case False
    then have rn: "r < n" using r(2) by simp
    obtain q where q: "ancestor_at m t (int r) = Some q" "m q = Some (blk r)" using anc[OF rn] by blast
    have "FindEarliestAtLeast m (root_path m t) x = Some (Some q)"
      using r(1) False q root_path_nth[OF assms(1), of r] rn by (simp add: FindEarliestAtLeast_def length_root_path[OF assms(1)] n_def[symmetric]) (simp add: n_def)
    moreover have "x \<le> GetBlockTime (blk r)" using max_iff[OF rn] r(4) rn early by (metis le_neq_implies_less not_less)
    ultimately show ?thesis using q early' by (intro exI[of _ "Some q"]) auto
  qed
qed

end

section \<open>A straight chain\<close>

text \<open>The chain whose block at height \<open>h\<close> has the hash \<open>h\<close>, a block every minute: an example of a tree.\<close>

definition linear_block :: "u256 \<Rightarrow> CBlockIndex" where
  "linear_block h = CBlockIndex_null\<lparr>pprev := (if h = 0 then None else Some (h - 1)),
     pskip := (if h = 0 then None else Some (word_of_int (GetSkipHeight (uint h)))), bi_nHeight := uint h,
     bi_nBits := 0x1e0fffff, bi_nTime := 60 * ucast h, bi_nTimeMax := 60 * ucast h\<rparr>"

definition linear_chain :: "nat \<Rightarrow> BlockMap" where
  "linear_chain n h = (if unat h \<le> n then Some (linear_block h) else None)"

lemma linear_block_simps [simp]:
  "pprev (linear_block h) = (if h = 0 then None else Some (h - 1))" "bi_nHeight (linear_block h) = uint h"
  "pskip (linear_block h) = (if h = 0 then None else Some (word_of_int (GetSkipHeight (uint h))))"
  "bi_nBits (linear_block h) = 0x1e0fffff"
  "bi_nTime (linear_block h) = 60 * ucast h" "bi_nTimeMax (linear_block h) = 60 * ucast h"
  by (simp_all add: linear_block_def)

lemma linear_chain_Some: "unat h \<le> n \<Longrightarrow> linear_chain n h = Some (linear_block h)"
  by (simp add: linear_chain_def)

lemma unat_pred: "h \<noteq> 0 \<Longrightarrow> unat (h - 1) = unat h - 1" "h \<noteq> 0 \<Longrightarrow> uint (h - 1) = uint h - 1" for h :: u256
proof -
  assume "h \<noteq> 0"
  then have "1 \<le> h" by (metis word_gt_0 word_less_1 not_le)
  then show u: "unat (h - 1) = unat h - 1" by (simp add: unat_sub)
  have "1 \<le> unat h" using \<open>1 \<le> h\<close> by (simp add: word_le_nat_alt)
  then show "uint (h - 1) = uint h - 1" using u by (simp only: uint_nat of_nat_diff of_nat_1)
qed

lemma linear_parent_n: "unat h \<le> n \<Longrightarrow> k \<le> unat h \<Longrightarrow> parent_n (linear_chain n) k h = Some (h - of_nat k)"
proof (induction k arbitrary: h)
  case (Suc k)
  then have h: "h \<noteq> 0" by auto
  then show ?case using Suc.IH[of "h - 1"] Suc.prems by (simp add: parent_of_def linear_chain_def unat_pred algebra_simps)
qed simp

lemma linear_ancestor:
  assumes "unat h \<le> n" "0 \<le> k" "k \<le> uint h"
  shows "ancestor_at (linear_chain n) h k = Some (word_of_int k)"
proof -
  have "nat (uint h - k) \<le> unat h" using assms by (simp add: nat_le_iff)
  then have "parent_n (linear_chain n) (nat (uint h - k)) h = Some (h - of_nat (nat (uint h - k)))" using linear_parent_n assms by blast
  also have "h - of_nat (nat (uint h - k)) = word_of_int k" using assms by (simp add: of_nat_nat)
  finally show ?thesis using assms by (simp add: ancestor_at_def height_of_def linear_chain_Some)
qed

lemma linear_chain_tree: "block_tree (linear_chain n)"
proof
  fix h b assume "linear_chain n h = Some b"
  then have b: "b = linear_block h" "unat h \<le> n" by (auto simp: linear_chain_def split: if_splits)
  show "0 \<le> bi_nHeight b" by (simp add: b)
  show "pprev b = None \<Longrightarrow> bi_nHeight b = 0" by (auto simp: b split: if_splits)
  fix p assume p: "pprev b = Some p"
  then have h: "h \<noteq> 0" "p = h - 1" by (auto simp: b split: if_splits)
  then show "\<exists>pb. linear_chain n p = Some pb \<and> bi_nHeight b = bi_nHeight pb + 1"
    using b by (simp add: linear_chain_Some unat_pred)
  have "uint h \<noteq> 0" using h(1) by (simp add: uint_0_iff)
  then have "0 < uint h" using uint_ge_0[of h] by linarith
  then have "GetSkipHeight (uint h) < uint h" by (rule GetSkipHeight_less)
  then show "pskip b = ancestor_at (linear_chain n) p (GetSkipHeight (bi_nHeight b))"
    using b h linear_ancestor[of p n "GetSkipHeight (uint h)"] GetSkipHeight_nonneg[of "uint h"] by (simp add: unat_pred)
qed

lemma linear_chain_timed:
  assumes "n < 2 ^ 20"
  shows "timed_tree (linear_chain n)"
proof (intro timed_tree.intro linear_chain_tree timed_tree_axioms.intro)
  fix h b assume "linear_chain n h = Some b"
  then have b: "b = linear_block h" "unat h \<le> n" by (auto simp: linear_chain_def split: if_splits)
  show "pprev b = None \<Longrightarrow> bi_nTimeMax b = bi_nTime b" by (simp add: b)
  fix p pb assume p: "pprev b = Some p" "linear_chain n p = Some pb"
  then have h: "h \<noteq> 0" "p = h - 1" "pb = linear_block p" using b by (auto simp: linear_chain_def split: if_splits)
  have t: "unat (60 * ucast w :: u32) = 60 * unat w" if "unat w < 2 ^ 20" for w :: u256
  proof -
    have "unat (ucast w :: u32) = unat w" using that by (intro unat_ucast_small) simp
    then show ?thesis using that by (simp add: unat_word_ariths)
  qed
  have "(60 * ucast p :: u32) \<le> 60 * ucast h"
    using t[of p] t[of h] h b(2) assms unat_pred(1)[OF h(1)] by (simp add: word_le_nat_alt)
  then show "bi_nTimeMax b = max (bi_nTimeMax pb) (bi_nTime b)" by (simp add: b h max_def)
qed

lemma locator_heights_first: "i + n < 12 \<Longrightarrow> i < length (locator_heights h 1 n) \<Longrightarrow> locator_heights h 1 n ! i = h - i"
proof (induction i arbitrary: h n)
  case 0
  then show ?case by (subst locator_heights.simps) simp
next
  case (Suc i)
  have h: "h \<noteq> 0"
  proof
    assume "h = 0"
    then have "locator_heights h 1 n = [0]" by (subst locator_heights.simps) simp
    then show False using Suc.prems(2) by simp
  qed
  show ?case
  proof (cases "n \<le> 9")
    case True
    then have "locator_heights h 1 n = h # locator_heights (h - 1) 1 (Suc n)" using h by (subst locator_heights.simps) simp
    then show ?thesis using Suc.IH[of "Suc n" "h - 1"] Suc.prems by simp
  next
    case False
    then have "i = 0" "n = 10" using Suc.prems(1) by auto
    then have "locator_heights h 1 n = h # locator_heights (h - 1) 2 (Suc n)" using h by (subst locator_heights.simps) simp
    moreover have "hd (locator_heights (h - 1) 2 (Suc n)) = h - 1" "locator_heights (h - 1) 2 (Suc n) \<noteq> []"
      by (subst locator_heights.simps, simp)+
    ultimately show ?thesis using \<open>i = 0\<close> by (simp add: hd_conv_nth)
  qed
qed

context block_tree
begin

lemma parent_n_beyond: "m h = Some b \<Longrightarrow> bi_nHeight b < int n \<Longrightarrow> parent_n m n h = None"
proof (induction n arbitrary: h b)
  case 0
  then show ?case using height_nonneg[of h b] by simp
next
  case (Suc n)
  show ?case
  proof (cases "pprev b")
    case (Some p)
    obtain pb where "m p = Some pb" "bi_nHeight b = bi_nHeight pb + 1" using parent_height[OF Suc.prems(1) Some] by blast
    then show ?thesis using Suc Some by (simp add: parent_of_def)
  qed (use Suc.prems in \<open>simp add: parent_of_def\<close>)
qed

lemma ancestor_iff_parent_n:
  assumes "m t = Some bt" "m q = Some bq"
  shows "ancestor_at m t (bi_nHeight bq) = Some q \<longleftrightarrow> (\<exists>n. parent_n m n t = Some q)"
proof
  assume "ancestor_at m t (bi_nHeight bq) = Some q"
  then show "\<exists>n. parent_n m n t = Some q" by (auto simp: ancestor_at_def split: if_splits)
next
  assume "\<exists>n. parent_n m n t = Some q"
  then obtain n where n: "parent_n m n t = Some q" by blast
  then have le: "int n \<le> bi_nHeight bt" using parent_n_beyond[OF assms(1), of n] by force
  then have "bi_nHeight bq = bi_nHeight bt - int n" using parent_n_height[OF assms(1) le] n assms(2) by auto
  then show "ancestor_at m t (bi_nHeight bq) = Some q" using n le assms(1) by (simp add: ancestor_at_def height_of_def)
qed

lemma Tip_root_path: "m t = Some b \<Longrightarrow> Tip (root_path m t) = Some t"
  using height_nonneg[of t b] ancestor_self[of t b] root_path_nth[of t b "nat (bi_nHeight b)"]
  by (simp add: Tip_def length_root_path nat_add_distrib)

lemma Height_root_path: "m t = Some b \<Longrightarrow> Height (root_path m t) = bi_nHeight b"
  using height_nonneg[of t b] by (simp add: Height_def length_root_path)

end

section \<open>The tree and the active chain\<close>

text \<open>C9: `CBlockIndex::GetAncestor`.  On a block tree the skip-list search always returns, never follows a null or
dangling pointer, and finds the same block as following the parent pointers one by one: the ancestor of the
asked height, or `NULL` when the height is negative or above the block.\<close>

theorem GetAncestor_parent_walk:
  assumes "block_tree m" and "m p = Some b"
  shows "GetAncestor m p k = Some (if k < 0 \<or> bi_nHeight b < k then None else parent_n m (nat (bi_nHeight b - k)) p) \<and>
    (0 \<le> k \<and> k \<le> bi_nHeight b \<longrightarrow> (\<exists>q bq. GetAncestor m p k = Some (Some q) \<and> m q = Some bq \<and> bi_nHeight bq = k))"
  using block_tree.GetAncestor_ancestor[OF assms, of k] block_tree.ancestor_at_ex[OF assms, of k] assms(2)
  by (auto simp: ancestor_at_def height_of_def)

theorem GetAncestor_parent_walk_witness:
  "GetAncestor (linear_chain 9) 9 2 = Some (parent_n (linear_chain 9) 7 9) \<and> linear_chain 9 9 = Some (linear_block 9)"
  using GetAncestor_parent_walk[OF linear_chain_tree[of 9], of 9 "linear_block 9" 2] by (simp add: linear_chain_Some)

text \<open>C10: `CChain`.  Whatever chain was active before, `SetTip` to a known block returns and leaves exactly the path
from the genesis block to that block, indexed by height; it stops at the first entry it shares with the old chain.
On such a chain `Contains` holds of the ancestors of the tip and of nothing else, and `FindFork` returns the highest
block a branch shares with the chain, or `NULL` when there is none.\<close>

theorem active_chain_operations:
  assumes "block_tree m" and "active_chain m old" and "m tip = Some bt" and "m q = Some bq"
  shows "SetTip m (Some tip) old = Some (root_path m tip) \<and> active_chain m (root_path m tip) \<and>
    Tip (root_path m tip) = Some tip \<and> Height (root_path m tip) = bi_nHeight bt \<and>
    (\<forall>k. chain_at (root_path m tip) k = ancestor_at m tip k) \<and>
    Contains m (root_path m tip) q = Some (\<exists>n. parent_n m n tip = Some q) \<and>
    (\<exists>r. FindFork m (root_path m tip) (Some q) = Some r \<and> is_fork m q tip r)"
proof (intro conjI allI)
  note t = assms(1) and q = assms(4) and tip = assms(3)
  show "SetTip m (Some tip) old = Some (root_path m tip)" by (rule block_tree.SetTip_path[OF t tip assms(2)])
  show "active_chain m (root_path m tip)" using tip by (auto simp: active_chain_def)
  show "Tip (root_path m tip) = Some tip" by (rule block_tree.Tip_root_path[OF t tip])
  show "Height (root_path m tip) = bi_nHeight bt" by (rule block_tree.Height_root_path[OF t tip])
  show "chain_at (root_path m tip) k = ancestor_at m tip k" for k by (rule block_tree.chain_at_root_path[OF t tip])
  show "Contains m (root_path m tip) q = Some (\<exists>n. parent_n m n tip = Some q)"
    by (simp only: block_tree.Contains_path[OF t tip q] block_tree.ancestor_iff_parent_n[OF t tip q])
  show "\<exists>r. FindFork m (root_path m tip) (Some q) = Some r \<and> is_fork m q tip r" by (rule block_tree.FindFork_fork[OF t q tip])
qed

theorem active_chain_operations_witness:
  "SetTip (linear_chain 5) (Some 4) (root_path (linear_chain 5) 5) = Some (root_path (linear_chain 5) 4) \<and>
   active_chain (linear_chain 5) (root_path (linear_chain 5) 5)"
proof -
  have a: "active_chain (linear_chain 5) (root_path (linear_chain 5) 5)"
    by (auto simp: active_chain_def linear_chain_Some intro!: exI[of _ 5])
  then show ?thesis
    using active_chain_operations[OF linear_chain_tree a, of 4 "linear_block 4" 4 "linear_block 4"] by (simp add: linear_chain_Some)
qed

text \<open>C11: `LastCommonAncestor`.  For any two blocks of a tree the search ends, its assertion holds, and the result is
the highest block both descend from, or `NULL` when they have no ancestor in common.\<close>

theorem last_common_ancestor:
  assumes "block_tree m" and "m a \<noteq> None" and "m b \<noteq> None"
  shows "\<exists>r. LastCommonAncestor m a b = Some r \<and> is_fork m a b r"
  using block_tree.LastCommonAncestor_fork[OF assms(1)] assms(2,3) by blast

theorem last_common_ancestor_witness:
  "\<exists>r. LastCommonAncestor (linear_chain 5) 5 3 = Some r \<and> is_fork (linear_chain 5) 5 3 r"
  using last_common_ancestor[OF linear_chain_tree[of 5], of 5 3] by (simp add: linear_chain_Some)

text \<open>C39: `CChain::GetLocator`.  Starting from a block of the tree, on or off the active chain, the locator is built
without an error; it starts with the block itself, ends with the root of its branch, lists ancestors of strictly
decreasing height, the first twelve one block apart, and has at most \<open>j + 12\<close> entries for a height below \<open>2 ^ j\<close>.\<close>

theorem locator_shape:
  assumes "block_tree m" and "active_chain m vChain" and "m p = Some b" and "bi_nHeight b < 2 ^ j"
  shows "\<exists>hs. GetLocator m vChain (Some p) = Some (map (\<lambda>k. the (ancestor_at m p (int k))) hs) \<and>
    hd hs = nat (bi_nHeight b) \<and> last hs = 0 \<and> sorted_wrt (>) hs \<and> length hs \<le> j + 12 \<and>
    (\<forall>i < 12. i < length hs \<longrightarrow> hs ! i = nat (bi_nHeight b) - i)"
proof (intro exI conjI allI impI)
  let ?hs = "locator_heights (nat (bi_nHeight b)) 1 0"
  have h: "nat (bi_nHeight b) < 2 ^ j" using assms(4) block_tree.height_nonneg[OF assms(1,3)] by (simp add: nat_less_iff)
  show "GetLocator m vChain (Some p) = Some (map (\<lambda>k. the (ancestor_at m p (int k))) ?hs)"
    by (rule block_tree.GetLocator_heights[OF assms(1-3)])
  show "hd ?hs = nat (bi_nHeight b)" "last ?hs = 0" "sorted_wrt (>) ?hs" using locator_heights_bounds[of 1] by auto
  show "length ?hs \<le> j + 12" using locator_heights_length_slow[of 0 "nat (bi_nHeight b)" j] h by simp
  show "?hs ! i = nat (bi_nHeight b) - i" if "i < 12" "i < length ?hs" for i
    using locator_heights_first[of i 0 "nat (bi_nHeight b)"] that by simp
qed

theorem locator_shape_witness:
  "\<exists>hs. GetLocator (linear_chain 40) [] (Some 40) = Some (map (\<lambda>k. the (ancestor_at (linear_chain 40) 40 (int k))) hs) \<and>
     hd hs = 40 \<and> length hs \<le> 18"
proof -
  have "active_chain (linear_chain 40) []" by (simp add: active_chain_def)
  from locator_shape[OF linear_chain_tree this, of 40 "linear_block 40" 6] show ?thesis
    by (auto simp: linear_chain_Some)
qed

text \<open>C38: `CChain::FindEarliestAtLeast`.  The binary search over the running maximum of the block times finds the first
block of the active chain whose own time is at least the given one, or `NULL` when every block is earlier.\<close>

theorem earliest_block:
  assumes "timed_tree m" and "m tip \<noteq> None" and "0 \<le> t" and "t < 2 ^ 32"
  shows "\<exists>r. FindEarliestAtLeast m (root_path m tip) t = Some r \<and>
    (case r of
       None \<Rightarrow> \<forall>k q bq. ancestor_at m tip k = Some q \<and> m q = Some bq \<longrightarrow> GetBlockTime bq < t
     | Some q \<Rightarrow> \<exists>k bq. ancestor_at m tip k = Some q \<and> m q = Some bq \<and> t \<le> GetBlockTime bq \<and>
         (\<forall>j r br. j < k \<and> ancestor_at m tip j = Some r \<and> m r = Some br \<longrightarrow> GetBlockTime br < t))"
  using timed_tree.FindEarliestAtLeast_first[OF assms(1)] assms(2-4) by blast

theorem earliest_block_witness:
  "\<exists>r. FindEarliestAtLeast (linear_chain 5) (root_path (linear_chain 5) 5) 100 = Some r"
  using earliest_block[OF linear_chain_timed[of 5], of 5 100] by (auto simp: linear_chain_Some)

end
