(* ===== verification/Consensus.thy ===== *)
theory Consensus
  imports Passion_Prelude
begin

unbundle bit_operations_syntax

text \<open>
  Consensus parameters, network upgrades and the network-adjusted clock (`consensus/params.h`,
  `consensus/upgrades.cpp`, the consensus part of `chainparams.cpp`, `timedata.h`, `timedata.cpp`).

  A failed `assert` is the result \<open>None\<close>.  The heights of `vUpgrades` are a function of the upgrade index.
\<close>

section \<open>Parameters\<close>

datatype UpgradeIndex = BASE_NETWORK | UPGRADE_POS | UPGRADE_V5_0 | UPGRADE_V6_0 | UPGRADE_TESTDUMMY

definition upgrade_indices :: "UpgradeIndex list" where
  "upgrade_indices = [BASE_NETWORK, UPGRADE_POS, UPGRADE_V5_0, UPGRADE_V6_0, UPGRADE_TESTDUMMY]"

definition ALWAYS_ACTIVE :: int where "ALWAYS_ACTIVE = 0"
definition NO_ACTIVATION_HEIGHT :: int where "NO_ACTIVATION_HEIGHT = - 1"

definition COIN :: CAmount where "COIN = 100000000"
definition CENT :: CAmount where "CENT = 1000000"

record consensus_params =
  powLimit :: u256
  posLimitV1 :: u256
  posLimitV2 :: u256
  nBudgetCycleBlocks :: int
  nBudgetFeeConfirmations :: int
  nCoinbaseMaturity :: int
  nFutureTimeDriftPoW :: int
  nFutureTimeDriftPoS :: int
  nMaxMoneyOut :: CAmount
  nStakeMinAge :: int
  nStakeMinDepth :: int
  nTargetTimespan :: int
  nTargetTimespanV2 :: int
  nTargetSpacing :: int
  nTimeSlotLength :: int
  nMinStakeValue :: "CAmount option"  \<comment> \<open>\<open>None\<close>: never assigned\<close>
  nActivationHeight :: "UpgradeIndex \<Rightarrow> int"

definition CMainParams :: consensus_params where
  "CMainParams =
     \<lparr>powLimit = drop_bit 20 (NOT 0), posLimitV1 = drop_bit 24 (NOT 0), posLimitV2 = drop_bit 20 (NOT 0),
      nBudgetCycleBlocks = 43200, nBudgetFeeConfirmations = 6, nCoinbaseMaturity = 6, nFutureTimeDriftPoW = 7200,
      nFutureTimeDriftPoS = 180, nMaxMoneyOut = 100000000 * COIN, nStakeMinAge = 60, nStakeMinDepth = 6,
      nTargetTimespan = 40 * 60, nTargetTimespanV2 = 30 * 60, nTargetSpacing = 1 * 60, nTimeSlotLength = 15,
      nMinStakeValue = Some (300 * COIN),
      nActivationHeight = (\<lambda>u. case u of BASE_NETWORK \<Rightarrow> ALWAYS_ACTIVE | UPGRADE_TESTDUMMY \<Rightarrow> NO_ACTIVATION_HEIGHT
        | UPGRADE_POS \<Rightarrow> 1000 | UPGRADE_V5_0 \<Rightarrow> 1 | UPGRADE_V6_0 \<Rightarrow> NO_ACTIVATION_HEIGHT)\<rparr>"

definition CTestNetParams :: consensus_params where
  "CTestNetParams =
     \<lparr>powLimit = drop_bit 20 (NOT 0), posLimitV1 = drop_bit 24 (NOT 0), posLimitV2 = drop_bit 20 (NOT 0),
      nBudgetCycleBlocks = 144, nBudgetFeeConfirmations = 3, nCoinbaseMaturity = 15, nFutureTimeDriftPoW = 7200,
      nFutureTimeDriftPoS = 180, nMaxMoneyOut = 100000000 * COIN, nStakeMinAge = 60 * 60, nStakeMinDepth = 100,
      nTargetTimespan = 40 * 60, nTargetTimespanV2 = 30 * 60, nTargetSpacing = 1 * 60, nTimeSlotLength = 15,
      nMinStakeValue = None,
      nActivationHeight = (\<lambda>u. case u of BASE_NETWORK \<Rightarrow> ALWAYS_ACTIVE | UPGRADE_TESTDUMMY \<Rightarrow> NO_ACTIVATION_HEIGHT
        | UPGRADE_POS \<Rightarrow> 201 | UPGRADE_V5_0 \<Rightarrow> 201 | UPGRADE_V6_0 \<Rightarrow> NO_ACTIVATION_HEIGHT)\<rparr>"

datatype UpgradeState = UPGRADE_DISABLED | UPGRADE_PENDING | UPGRADE_ACTIVE

definition NetworkUpgradeState :: "int \<Rightarrow> consensus_params \<Rightarrow> UpgradeIndex \<Rightarrow> UpgradeState option" where
  "NetworkUpgradeState nHeight params idx =
     (if nHeight < 0 then None
      else if nActivationHeight params idx = NO_ACTIVATION_HEIGHT then Some UPGRADE_DISABLED
      else if nActivationHeight params idx \<le> nHeight then Some UPGRADE_ACTIVE
      else Some UPGRADE_PENDING)"

definition NetworkUpgradeActive :: "int \<Rightarrow> consensus_params \<Rightarrow> UpgradeIndex \<Rightarrow> bool option" where
  "NetworkUpgradeActive nHeight params idx =
     map_option (\<lambda>st. st = UPGRADE_ACTIVE) (NetworkUpgradeState nHeight params idx)"

fun CurrentEpoch_loop :: "int \<Rightarrow> consensus_params \<Rightarrow> UpgradeIndex list \<Rightarrow> UpgradeIndex option" where
  "CurrentEpoch_loop nHeight params [] = Some BASE_NETWORK"
| "CurrentEpoch_loop nHeight params (idx # rest) =
     (case NetworkUpgradeActive nHeight params idx of
        None \<Rightarrow> None
      | Some True \<Rightarrow> Some idx
      | Some False \<Rightarrow> CurrentEpoch_loop nHeight params rest)"

definition CurrentEpoch :: "int \<Rightarrow> consensus_params \<Rightarrow> UpgradeIndex option" where
  "CurrentEpoch nHeight params = CurrentEpoch_loop nHeight params (rev (tl upgrade_indices))"

definition IsActivationHeight :: "int \<Rightarrow> consensus_params \<Rightarrow> UpgradeIndex \<Rightarrow> bool" where
  "IsActivationHeight nHeight params idx \<longleftrightarrow>
     idx \<noteq> BASE_NETWORK \<and> 0 \<le> nHeight \<and> nHeight = nActivationHeight params idx"

definition IsActivationHeightForAnyUpgrade :: "int \<Rightarrow> consensus_params \<Rightarrow> bool" where
  "IsActivationHeightForAnyUpgrade nHeight params \<longleftrightarrow>
     \<not> nHeight < 0 \<and> list_ex (\<lambda>idx. nHeight = nActivationHeight params idx) (tl upgrade_indices)"

definition NextEpoch :: "int \<Rightarrow> consensus_params \<Rightarrow> UpgradeIndex option" where
  "NextEpoch nHeight params =
     (if nHeight < 0 then None
      else List.find (\<lambda>idx. NetworkUpgradeState nHeight params idx = Some UPGRADE_PENDING) (tl upgrade_indices))"

definition NextActivationHeight :: "int \<Rightarrow> consensus_params \<Rightarrow> int option" where
  "NextActivationHeight nHeight params = map_option (nActivationHeight params) (NextEpoch nHeight params)"

definition TargetTimespan :: "consensus_params \<Rightarrow> bool \<Rightarrow> int" where
  "TargetTimespan c fV2 = (if fV2 then nTargetTimespanV2 c else nTargetTimespan c)"

definition ProofOfStakeLimit :: "consensus_params \<Rightarrow> bool \<Rightarrow> u256" where
  "ProofOfStakeLimit c fV2 = (if fV2 then posLimitV2 c else posLimitV1 c)"

definition consensus_MoneyRange :: "consensus_params \<Rightarrow> CAmount \<Rightarrow> bool" where
  "consensus_MoneyRange c nValue \<longleftrightarrow> 0 \<le> nValue \<and> nValue \<le> nMaxMoneyOut c"

definition Params_NetworkUpgradeActive :: "consensus_params \<Rightarrow> int \<Rightarrow> UpgradeIndex \<Rightarrow> bool" where
  "Params_NetworkUpgradeActive c nHeight idx \<longleftrightarrow>
     \<not> nHeight < 0 \<and> NetworkUpgradeState nHeight c idx = Some UPGRADE_ACTIVE"

definition IsTimeProtocolV2 :: "consensus_params \<Rightarrow> int \<Rightarrow> bool" where
  "IsTimeProtocolV2 c nHeight = Params_NetworkUpgradeActive c nHeight UPGRADE_POS"

definition FutureBlockTimeDrift :: "consensus_params \<Rightarrow> int \<Rightarrow> int" where
  "FutureBlockTimeDrift c nHeight = nTimeSlotLength c - 1"

definition IsValidBlockTimeStamp :: "consensus_params \<Rightarrow> int \<Rightarrow> int \<Rightarrow> bool" where
  "IsValidBlockTimeStamp c t nHeight \<longleftrightarrow>
     (if \<not> IsTimeProtocolV2 c nHeight then True else t mod nTimeSlotLength c = 0)"

definition HasStakeMinAgeOrDepth :: "consensus_params \<Rightarrow> int \<Rightarrow> u32 \<Rightarrow> int \<Rightarrow> u32 \<Rightarrow> bool" where
  "HasStakeMinAgeOrDepth c contextHeight contextTime utxoFromBlockHeight utxoFromBlockTime \<longleftrightarrow>
     nStakeMinDepth c \<le> contextHeight - utxoFromBlockHeight"

section \<open>The adjusted clock\<close>

record CMedianFilter =
  vValues :: "int list"
  vSorted :: "int list"
  nSizeMax :: nat

definition CMedianFilter_new :: "nat \<Rightarrow> int \<Rightarrow> CMedianFilter" where
  "CMedianFilter_new n v = \<lparr>vValues = [v], vSorted = [v], nSizeMax = n\<rparr>"

definition CMedianFilter_input :: "int \<Rightarrow> CMedianFilter \<Rightarrow> CMedianFilter" where
  "CMedianFilter_input v f =
     (let vs = (if length (vValues f) = nSizeMax f then tl (vValues f) else vValues f) @ [v]
      in f\<lparr>vValues := vs, vSorted := sort vs\<rparr>)"

definition cdiv2 :: "int \<Rightarrow> int" where
  "cdiv2 x = (if x < 0 then - (- x div 2) else x div 2)"

definition CMedianFilter_median :: "CMedianFilter \<Rightarrow> int option" where
  "CMedianFilter_median f =
     (let n = length (vSorted f) in
      if n = 0 then None
      else if odd n then Some (vSorted f ! (n div 2))
      else Some (cdiv2 (int64_wrap (vSorted f ! (n div 2 - 1) + vSorted f ! (n div 2)))))"

record 'ip time_data =
  setKnown :: "'ip list"
  vTimeOffsets :: CMedianFilter
  nTimeOffset :: int

definition BITCOIN_TIMEDATA_MAX_SAMPLES :: nat where "BITCOIN_TIMEDATA_MAX_SAMPLES = 200"

definition time_data_init :: "'ip time_data" where
  "time_data_init = \<lparr>setKnown = [], vTimeOffsets = CMedianFilter_new BITCOIN_TIMEDATA_MAX_SAMPLES 0, nTimeOffset = 0\<rparr>"

text \<open>The `assert` in `median` cannot fail here: a sample has just been put in.\<close>

definition AddTimeData :: "bool \<Rightarrow> 'ip \<Rightarrow> int \<Rightarrow> int \<Rightarrow> 'ip time_data \<Rightarrow> 'ip time_data" where
  "AddTimeData fRegTest ip nOffsetSample nOffsetLimit s =
     (if length (setKnown s) = BITCOIN_TIMEDATA_MAX_SAMPLES then s
      else if \<not> fRegTest \<and> ip \<in> set (setKnown s) then s
      else
        let s1 = (if fRegTest then s else s\<lparr>setKnown := ip # setKnown s\<rparr>);
            f = CMedianFilter_input nOffsetSample (vTimeOffsets s1);
            s2 = s1\<lparr>vTimeOffsets := f\<rparr>
        in if 5 \<le> length (vValues f) \<and> length (vValues f) mod 2 = 1 then
             (case CMedianFilter_median f of
                None \<Rightarrow> s2
              | Some nMedian \<Rightarrow>
                  s2\<lparr>nTimeOffset := (if \<bar>nMedian\<bar> < nOffsetLimit then nMedian else (if 0 < nMedian then 1 else - 1) * nOffsetLimit)\<rparr>)
           else s2)"

definition GetTimeSlot :: "consensus_params \<Rightarrow> int \<Rightarrow> int" where
  "GetTimeSlot c t = (if 0 \<le> t then t div nTimeSlotLength c else - (- t div nTimeSlotLength c)) * nTimeSlotLength c"

section \<open>Upgrades in order\<close>

text \<open>The order the declaration of `UpgradeIndex` asks for: an upgrade with a larger index activates no earlier.\<close>

definition upgrades_ordered :: "consensus_params \<Rightarrow> bool" where
  "upgrades_ordered c \<longleftrightarrow> sorted (filter (\<lambda>h. h \<noteq> NO_ACTIVATION_HEIGHT) (map (nActivationHeight c) upgrade_indices))"

lemma NextActivationHeight_least:
  assumes "upgrades_ordered c" and "0 \<le> h" and "NextActivationHeight h c = Some n"
  shows "h < n \<and> IsActivationHeightForAnyUpgrade n c \<and> (\<forall>k. h < k \<and> k < n \<longrightarrow> \<not> IsActivationHeightForAnyUpgrade k c)"
  using assms
  by (auto simp: upgrades_ordered_def upgrade_indices_def NextActivationHeight_def NextEpoch_def NetworkUpgradeState_def
      IsActivationHeightForAnyUpgrade_def NO_ACTIVATION_HEIGHT_def split: if_splits)

lemma CMainParams_not_ordered:
  "\<not> upgrades_ordered CMainParams \<and> NextActivationHeight 0 CMainParams = Some 1000 \<and> IsActivationHeightForAnyUpgrade 1 CMainParams"
  by (simp add: upgrades_ordered_def upgrade_indices_def NextActivationHeight_def NextEpoch_def NetworkUpgradeState_def
      IsActivationHeightForAnyUpgrade_def NO_ACTIVATION_HEIGHT_def ALWAYS_ACTIVE_def CMainParams_def)

lemma CTestNetParams_ordered: "upgrades_ordered CTestNetParams"
  by (simp add: upgrades_ordered_def upgrade_indices_def NO_ACTIVATION_HEIGHT_def ALWAYS_ACTIVE_def CTestNetParams_def)

section \<open>The clock offset is bounded\<close>

definition time_data_ok :: "int \<Rightarrow> 'ip time_data \<Rightarrow> bool" where
  "time_data_ok limit s \<longleftrightarrow>
     \<bar>nTimeOffset s\<bar> \<le> limit \<and> distinct (setKnown s) \<and> length (setKnown s) \<le> BITCOIN_TIMEDATA_MAX_SAMPLES \<and>
     nSizeMax (vTimeOffsets s) = BITCOIN_TIMEDATA_MAX_SAMPLES \<and>
     0 < length (vValues (vTimeOffsets s)) \<and> length (vValues (vTimeOffsets s)) \<le> BITCOIN_TIMEDATA_MAX_SAMPLES \<and>
     vSorted (vTimeOffsets s) = sort (vValues (vTimeOffsets s))"

lemma time_data_init_ok: "0 \<le> limit \<Longrightarrow> time_data_ok limit time_data_init"
  by (simp add: time_data_ok_def time_data_init_def CMedianFilter_new_def BITCOIN_TIMEDATA_MAX_SAMPLES_def)

lemma AddTimeData_ok: "0 \<le> limit \<Longrightarrow> time_data_ok limit s \<Longrightarrow> time_data_ok limit (AddTimeData r ip v limit s)"
  by (auto simp: time_data_ok_def AddTimeData_def CMedianFilter_input_def Let_def BITCOIN_TIMEDATA_MAX_SAMPLES_def split: option.splits)

end
