(* ===== verification/Pow.thy ===== *)
theory Pow
  imports Chain Consensus
begin

unbundle bit_operations_syntax

text \<open>
  Proof of work and difficulty (`pow.cpp`).  Targets are 256-bit words; multiplying or dividing by a number that
  C++ converts to 32 or 64 bits converts it here.  \<open>None\<close> is an execution with no result: a null pointer is
  followed or `uint_error` is thrown for a division by zero.
\<close>

definition u256_div :: "u256 \<Rightarrow> u256 \<Rightarrow> u256 option" where
  "u256_div a b = (if b = 0 then None else Some (a div b))"

definition CheckProofOfWork :: "bool \<Rightarrow> consensus_params \<Rightarrow> u256 \<Rightarrow> u32 \<Rightarrow> bool" where
  "CheckProofOfWork fRegTest c hash nb =
     (if fRegTest then True
      else let (bnTarget, fNegative, fOverflow) = SetCompact nb in
        if fNegative \<or> bnTarget = 0 \<or> fOverflow \<or> powLimit c < bnTarget then False
        else if bnTarget < hash then False
        else True)"

definition GetBlockProof :: "u32 \<Rightarrow> u256 option" where
  "GetBlockProof nb =
     (let (bnTarget, fNegative, fOverflow) = SetCompact nb in
      if fNegative \<or> fOverflow \<or> bnTarget = 0 then Some 0
      else map_option (\<lambda>q. q + 1) (u256_div (NOT bnTarget) (bnTarget + 1)))"

record dgw_state =
  BlockReading :: "u256 option"
  PastDifficultyAverage :: u256
  PastDifficultyAveragePrev :: u256
  nActualTimespan :: int
  LastBlockTime :: int
  CountBlocks :: nat

definition dgw_step :: "CBlockIndex \<Rightarrow> dgw_state \<Rightarrow> dgw_state" where
  "dgw_step b s =
     (let n = CountBlocks s + 1;
          target = fst (SetCompact (bi_nBits b));
          avg = (if n \<le> 24 then
                   (if n = 1 then target else (PastDifficultyAveragePrev s * of_nat n + target) div of_nat (n + 1))
                 else PastDifficultyAverage s);
          prev = (if n \<le> 24 then avg else PastDifficultyAveragePrev s);
          span = (if 0 < LastBlockTime s then nActualTimespan s + (LastBlockTime s - GetBlockTime b) else nActualTimespan s)
      in \<lparr>BlockReading = pprev b, PastDifficultyAverage = avg, PastDifficultyAveragePrev = prev,
          nActualTimespan = span, LastBlockTime = GetBlockTime b, CountBlocks = n\<rparr>)"

fun dgw_loop :: "BlockMap \<Rightarrow> nat \<Rightarrow> dgw_state \<Rightarrow> dgw_state option" where
  "dgw_loop m left s =
     (case BlockReading s of
        None \<Rightarrow> Some s
      | Some p \<Rightarrow> Option.bind (m p) (\<lambda>b.
          if bi_nHeight b \<le> 0 then Some s
          else case left of 0 \<Rightarrow> Some s | Suc l \<Rightarrow> dgw_loop m l (dgw_step b s)))"

definition dgw_retarget :: "consensus_params \<Rightarrow> dgw_state \<Rightarrow> u32 option" where
  "dgw_retarget c s =
     (let T = int (CountBlocks s) * nTargetSpacing c;
          a1 = (if nActualTimespan s < T div 3 then T div 3 else nActualTimespan s);
          a2 = (if T * 3 < a1 then T * 3 else a1)
      in Option.bind (u256_div (PastDifficultyAverage s * ucast (word_of_int a2 :: u32)) (ucast (word_of_int T :: u64))) (\<lambda>bnNew.
           Some (GetCompact (if powLimit c < bnNew then powLimit c else bnNew) False)))"

definition pos_retarget :: "bool \<Rightarrow> consensus_params \<Rightarrow> CBlockIndex \<Rightarrow> CBlockIndex \<Rightarrow> u32 option" where
  "pos_retarget fRegTest c b pb =
     (let fTimeV2 = (\<not> fRegTest \<and> IsTimeProtocolV2 c (bi_nHeight b + 1));
          bnTargetLimit = ProofOfStakeLimit c fTimeV2;
          s0 = (if bi_nHeight b \<noteq> 0 then GetBlockTime b - GetBlockTime pb else 0);
          s1 = (if s0 < 0 then 1 else s0);
          s2 = (if fTimeV2 \<and> nTargetSpacing c * 10 < s1 then nTargetSpacing c * 10 else s1);
          bn0 = fst (SetCompact (bi_nBits b));
          bn1 = (if fTimeV2 \<and> \<not> IsTimeProtocolV2 c (bi_nHeight b) then push_bit 4 bn0 else bn0);
          nInterval = TargetTimespan c fTimeV2 div nTargetSpacing c
      in Option.bind (u256_div (bn1 * ucast (word_of_int ((nInterval - 1) * nTargetSpacing c + s2 + s2) :: u32))
                               (ucast (word_of_int ((nInterval + 1) * nTargetSpacing c) :: u64))) (\<lambda>bnNew.
           Some (GetCompact (if bnNew \<le> 0 \<or> bnTargetLimit < bnNew then bnTargetLimit else bnNew) False)))"

definition GetNextWorkRequired :: "bool \<Rightarrow> consensus_params \<Rightarrow> BlockMap \<Rightarrow> u256 option \<Rightarrow> u32 option" where
  "GetNextWorkRequired fRegTest c m pindexLast =
     (if fRegTest then Option.bind pindexLast (\<lambda>p. Option.bind (m p) (\<lambda>b. Some (bi_nBits b)))
      else case pindexLast of
        None \<Rightarrow> Some (GetCompact (powLimit c) False)
      | Some p \<Rightarrow> Option.bind (m p) (\<lambda>b.
          if bi_nHeight b = 0 \<or> bi_nHeight b < 24 then Some (GetCompact (powLimit c) False)
          else if Params_NetworkUpgradeActive c (bi_nHeight b + 1) UPGRADE_POS
          then Option.bind (pprev b) (\<lambda>q. Option.bind (m q) (\<lambda>pb. pos_retarget fRegTest c b pb))
          else Option.bind (dgw_loop m 24 \<lparr>BlockReading = Some p, PastDifficultyAverage = 0, PastDifficultyAveragePrev = 0,
                              nActualTimespan = 0, LastBlockTime = 0, CountBlocks = 0\<rparr>) (dgw_retarget c)))"

section \<open>The work of a block\<close>

lemma unat_not_256: "unat (NOT t) = 2 ^ 256 - 1 - unat t" for t :: u256
proof -
  have "NOT t = - 1 - t" by (simp add: not_eq_complement)
  then have "unat (NOT t) = unat (- 1 :: u256) - unat t" by (simp add: unat_sub)
  also have "unat (- 1 :: u256) = 2 ^ 256 - 1" by (simp only: unsigned_minus_1_eq_mask mask_eq_exp_minus_1) simp
  finally show ?thesis .
qed

lemma unat_add_one_256: "unat t < 2 ^ 256 - 1 \<Longrightarrow> unat (t + 1) = unat t + 1" for t :: u256
  by (simp add: unat_word_ariths)

lemma compact_value_not_max: "compact_value c < 2 ^ 256 - 1 \<or> 2 ^ 256 \<le> compact_value c"
proof (cases "unat c div 2 ^ 24 \<le> 3")
  case True
  then have "compact_value c \<le> unat c mod 2 ^ 23" by (simp add: compact_value_def)
  also have "\<dots> < 2 ^ 23" by simp
  finally show ?thesis by simp
next
  case False
  then have "even (compact_value c)" by (simp add: compact_value_def)
  moreover have "odd (2 ^ 256 - 1 :: nat)" by simp
  ultimately have "compact_value c \<noteq> 2 ^ 256 - 1" by metis
  then show ?thesis by linarith
qed

lemma GetBlockProof_exact:
  "\<exists>w. GetBlockProof nb = Some w \<and>
     unat w = (let (t, neg, ovf) = SetCompact nb in if neg \<or> ovf \<or> t = 0 then 0 else 2 ^ 256 div (unat t + 1))"
proof -
  obtain t neg ovf where s: "SetCompact nb = (t, neg, ovf)" by (metis prod_cases3)
  show ?thesis
  proof (cases "neg \<or> ovf \<or> t = 0")
    case True
    then show ?thesis using s by (auto simp: GetBlockProof_def)
  next
    case False
    then have t: "unat t = compact_value nb" "compact_value nb < 2 ^ 256" using s by (auto simp: SetCompact_value unat_of_nat_256)
    then have ut: "unat t < 2 ^ 256 - 1" using compact_value_not_max[of nb] by simp
    have t1: "unat (t + 1) = unat t + 1" using ut by (intro unat_add_one_256) simp
    have nt: "unat (NOT t) = 2 ^ 256 - 1 - unat t" by (rule unat_not_256)
    have pos: "0 < unat t + 1" by simp
    have "2 ^ 256 = (2 ^ 256 - 1 - unat t) + 1 * (unat t + 1)" using ut by simp
    then have d: "2 ^ 256 div (unat t + 1) = (2 ^ 256 - 1 - unat t) div (unat t + 1) + 1"
      by (metis div_mult_self1 add.commute pos less_not_refl2)
    have nz: "t + 1 \<noteq> 0" using t1 by (metis Suc_eq_plus1 nat.distinct(1) unsigned_0)
    have q: "unat (NOT t div (t + 1)) = (2 ^ 256 - 1 - unat t) div (unat t + 1)" by (simp only: unat_div nt t1)
    have "unat t \<noteq> 0" using False by (simp add: unat_eq_0)
    then have "(2 ^ 256 - 1 - unat t) div (unat t + 1) < 2 ^ 256 - 1"
      using div_le_dividend[of "2 ^ 256 - 1 - unat t" "unat t + 1"] ut by linarith
    then have "unat (NOT t div (t + 1) + 1) = unat (NOT t div (t + 1)) + 1" unfolding q[symmetric] by (rule unat_add_one_256)
    then show ?thesis using s False nz d q by (simp add: GetBlockProof_def u256_div_def)
  qed
qed

section \<open>Retargeting on the main network\<close>

text \<open>The rule in exact arithmetic: the old target times \<open>(29 * 60 + 2 s) / (31 * 60)\<close> for a spacing of \<open>s\<close> seconds
between 0 and 600, sixteen times as much on the first proof-of-stake block, and never above \<open>2 ^ 236 - 1\<close>.\<close>

definition pos_target_spec :: "bool \<Rightarrow> int \<Rightarrow> nat \<Rightarrow> nat" where
  "pos_target_spec first d t =
     (let s = (if d < 0 then 1 else min d 600); n = t * (if first then 16 else 1) * nat (1740 + 2 * s) div 1860
      in if n = 0 \<or> 2 ^ 236 \<le> n then 2 ^ 236 - 1 else n)"

lemma main_limit: "unat (drop_bit 20 (NOT 0) :: u256) = 2 ^ 236 - 1"
proof -
  have "unat (NOT 0 :: u256) = 2 ^ 256 - 1" using unat_not_256[of 0] by simp
  then show ?thesis by (simp only: unat_drop_bit) simp
qed

lemma u256_mult_nat: "unat a * unat b < 2 ^ 256 \<Longrightarrow> unat (a * b) = unat a * unat b" for a b :: u256
  by (simp add: unat_word_ariths)

lemma unat_ucast_int:
  "0 \<le> i \<Longrightarrow> i < 2 ^ 32 \<Longrightarrow> unat (ucast (word_of_int i :: u32) :: u256) = nat i"
  "0 \<le> i \<Longrightarrow> i < 2 ^ 32 \<Longrightarrow> unat (ucast (word_of_int i :: u64) :: u256) = nat i"
proof -
  assume i: "0 \<le> i" "i < 2 ^ 32"
  have "unat (word_of_int i :: u32) = nat i" "unat (word_of_int i :: u64) = nat i"
    using i by (simp_all add: uint_word_of_int take_bit_int_eq_self flip: nat_uint_eq)
  moreover have "unat (ucast w :: u256) = unat w" for w :: u32
    using u32_less[of w] by (intro unat_ucast_small) (simp add: less_le_trans)
  moreover have "unat (ucast w :: u256) = unat w" for w :: u64
    using u64_less[of w] by (intro unat_ucast_small) (simp add: less_le_trans)
  ultimately show "unat (ucast (word_of_int i :: u32) :: u256) = nat i" "unat (ucast (word_of_int i :: u64) :: u256) = nat i"
    by simp_all
qed

lemma pos_retarget_exact:
  assumes t: "unat (fst (SetCompact (bi_nBits b))) < 2 ^ 236" and v2: "IsTimeProtocolV2 CMainParams (bi_nHeight b + 1)"
    and h: "bi_nHeight b \<noteq> 0"
  shows "pos_retarget False CMainParams b pb = Some (GetCompact (of_nat (pos_target_spec
           (\<not> IsTimeProtocolV2 CMainParams (bi_nHeight b)) (GetBlockTime b - GetBlockTime pb) (unat (fst (SetCompact (bi_nBits b)))))) False)"
proof -
  define t0 where "t0 = fst (SetCompact (bi_nBits b))"
  define first where "first = (\<not> IsTimeProtocolV2 CMainParams (bi_nHeight b))"
  define d where "d = GetBlockTime b - GetBlockTime pb"
  define s where "s = (if d < 0 then 1 else min d 600)"
  have s: "0 \<le> s" "s \<le> 600" by (auto simp: s_def)
  have params: "TargetTimespan CMainParams True = 1800" "nTargetSpacing CMainParams = 60" "ProofOfStakeLimit CMainParams True = drop_bit 20 (NOT 0)"
    by (simp_all add: CMainParams_def TargetTimespan_def ProofOfStakeLimit_def)
  define bn1 where "bn1 = (if first then push_bit 4 t0 else t0)"
  have bn1: "unat bn1 = unat t0 * (if first then 16 else 1)"
  proof -
    have "unat (t0 * 16) = unat t0 * unat (16 :: u256)" using t by (intro u256_mult_nat) (simp add: t0_def)
    then show ?thesis by (simp add: bn1_def push_bit_eq_mult)
  qed
  have b1: "unat bn1 < 2 ^ 240" using t by (simp add: bn1 t0_def)
  define k where "k = nat (1740 + 2 * s)"
  have k: "k \<le> 2940" using s by (simp add: k_def)
  have kw: "unat (ucast (word_of_int (1740 + 2 * s) :: u32) :: u256) = k" unfolding k_def using s by (intro unat_ucast_int) simp_all
  have "unat bn1 * k < 2 ^ 240 * 2 ^ 12"
    using b1 k by (intro mult_strict_mono'[THEN less_le_trans[OF _ order_refl]]) simp_all
  then have "unat (bn1 * ucast (word_of_int (1740 + 2 * s) :: u32)) = unat bn1 * k"
    using u256_mult_nat[of bn1 "ucast (word_of_int (1740 + 2 * s) :: u32)"] kw by simp
  then have q: "unat (bn1 * ucast (word_of_int (1740 + 2 * s) :: u32) div 1860) = unat bn1 * k div 1860"
    by (simp add: unat_div)
  define w where "w = bn1 * ucast (word_of_int (1740 + 2 * s) :: u32) div 1860"
  have spec: "pos_target_spec first d (unat t0) = (if unat w = 0 \<or> 2 ^ 236 \<le> unat w then 2 ^ 236 - 1 else unat w)"
    unfolding pos_target_spec_def Let_def s_def[symmetric] k_def[symmetric] w_def q bn1 ..
  have "(if w \<le> 0 \<or> drop_bit 20 (NOT 0) < w then drop_bit 20 (NOT 0) else w) = of_nat (pos_target_spec first d (unat t0))"
  proof -
    have "2 ^ 236 \<le> unat w \<longleftrightarrow> Suc (2 ^ 236 - 1) \<le> unat w" by simp
    then have "drop_bit 20 (NOT 0) < w \<longleftrightarrow> 2 ^ 236 \<le> unat w" unfolding word_less_nat_alt main_limit by (simp only: Suc_le_eq)
    moreover have "w \<le> 0 \<longleftrightarrow> unat w = 0" by (simp add: unat_eq_0)
    moreover have "of_nat (2 ^ 236 - 1) = (drop_bit 20 (NOT 0) :: u256)" by (metis main_limit of_nat_unat ucast_id)
    ultimately show ?thesis unfolding spec by simp
  qed
  moreover have "pos_retarget False CMainParams b pb = Some (GetCompact (if w \<le> 0 \<or> drop_bit 20 (NOT 0) < w then drop_bit 20 (NOT 0) else w) False)"
  proof -
    have s2: "(if True \<and> 60 * 10 < (if d < 0 then 1 else d) then 60 * 10 else if d < 0 then 1 else d) = s" by (auto simp: s_def)
    have eq: "pos_retarget False CMainParams b pb =
        Option.bind (u256_div (bn1 * ucast (word_of_int ((1800 div 60 - 1) * 60 + s + s) :: u32)) (ucast (word_of_int ((1800 div 60 + 1) * 60) :: u64)))
          (\<lambda>bnNew. Some (GetCompact (if bnNew \<le> 0 \<or> drop_bit 20 (NOT 0) < bnNew then drop_bit 20 (NOT 0) else bnNew) False))"
      unfolding pos_retarget_def Let_def bn1_def first_def t0_def s2[symmetric] d_def
      by (simp only: v2 h params not_False_eq_True simp_thms if_True)
    have sum: "(1800 div 60 - 1) * 60 + s + s = 1740 + 2 * s" by simp
    have dv: "(ucast (word_of_int ((1800 div 60 + 1) * 60) :: u64) :: u256) = 1860" by simp
    show ?thesis unfolding eq sum dv u256_div_def w_def by simp
  qed
  ultimately show ?thesis by (simp add: first_def d_def t0_def)
qed

lemma main_powLimit: "powLimit CMainParams = drop_bit 20 (NOT 0)" "nTargetSpacing CMainParams = 60"
  by (simp_all add: CMainParams_def)

lemma main_limit_le: "unat v < 2 ^ 236 \<longleftrightarrow> v \<le> powLimit CMainParams"
proof -
  have "unat v < 2 ^ 236 \<longleftrightarrow> unat v < Suc (2 ^ 236 - 1)" by simp
  then show ?thesis by (simp only: main_powLimit word_le_nat_alt main_limit less_Suc_eq_le)
qed

lemma weighted_average_bound:
  fixes a t :: u256
  assumes "unat a < 2 ^ 236" "unat t < 2 ^ 236" "n \<le> 24"
  shows "unat ((a * of_nat n + t) div of_nat (n + 1)) < 2 ^ 236"
proof -
  have nw: "unat (of_nat k :: u256) = k" if "k \<le> 25" for k using that by (intro unat_of_nat_256) simp
  have "unat a * n \<le> 2 ^ 236 * 24" using assms by (intro mult_mono) simp_all
  then have "unat (a * of_nat n) = unat a * n" using u256_mult_nat[of a "of_nat n"] nw[of n] assms by simp
  moreover have "unat a * n + unat t < 2 ^ 236 * n + 2 ^ 236"
    using assms mult_right_mono[of "unat a" "2 ^ 236" n] by linarith
  moreover have "2 ^ 236 * n + 2 ^ 236 \<le> 2 ^ 236 * (25 :: nat)" using assms(3) by simp
  ultimately have "unat (a * of_nat n + t) = unat a * n + unat t" by (simp add: unat_word_ariths)
  moreover have "(unat a * n + unat t) div (n + 1) < 2 ^ 236"
  proof -
    have "unat a * n + unat t < 2 ^ 236 * (n + 1)" using \<open>unat a * n + unat t < 2 ^ 236 * n + 2 ^ 236\<close> by (simp only: distrib_left mult_1_right)
    then show ?thesis by (simp only: less_mult_imp_div_less)
  qed
  ultimately show ?thesis using nw[of "n + 1"] assms(3) by (simp add: unat_div)
qed

definition targets_ok :: "BlockMap \<Rightarrow> bool" where
  "targets_ok m \<longleftrightarrow> (\<forall>q bq. m q = Some bq \<longrightarrow> unat (fst (SetCompact (bi_nBits bq))) < 2 ^ 236)"

declare dgw_loop.simps [simp del]

context block_tree
begin

lemma dgw_loop_bound:
  assumes "targets_ok m"
  shows "m p = Some b \<Longrightarrow> int left \<le> bi_nHeight b \<Longrightarrow> BlockReading s = Some p \<Longrightarrow> CountBlocks s = 24 - left \<Longrightarrow> left \<le> 24 \<Longrightarrow>
    unat (PastDifficultyAverage s) < 2 ^ 236 \<Longrightarrow> unat (PastDifficultyAveragePrev s) < 2 ^ 236 \<Longrightarrow>
    \<exists>s'. dgw_loop m left s = Some s' \<and> CountBlocks s' = 24 \<and> unat (PastDifficultyAverage s') < 2 ^ 236"
proof (induction left arbitrary: p b s)
  case 0
  then show ?case by (subst dgw_loop.simps) auto
next
  case (Suc l)
  define s1 where "s1 = dgw_step b s"
  have h: "\<not> bi_nHeight b \<le> 0" using Suc.prems(2) by simp
  then obtain q bq where q: "pprev b = Some q" "m q = Some bq" "bi_nHeight b = bi_nHeight bq + 1"
    using parent_ex[OF Suc.prems(1)] by (metis order_refl)
  have t: "unat (fst (SetCompact (bi_nBits b))) < 2 ^ 236" using assms Suc.prems(1) by (simp add: targets_ok_def)
  have n: "CountBlocks s + 1 \<le> 24" "CountBlocks s + 1 = 24 - l" using Suc.prems(4,5) by simp_all
  have avg: "unat (PastDifficultyAverage s1) < 2 ^ 236" "PastDifficultyAveragePrev s1 = PastDifficultyAverage s1"
    using weighted_average_bound[OF Suc.prems(7) t n(1)] t n(1) by (simp_all add: s1_def dgw_step_def Let_def)
  have st: "BlockReading s1 = Some q" "CountBlocks s1 = 24 - l" using q(1) n(2) by (simp_all add: s1_def dgw_step_def Let_def)
  have "\<exists>s'. dgw_loop m l s1 = Some s' \<and> CountBlocks s' = 24 \<and> unat (PastDifficultyAverage s') < 2 ^ 236"
    using Suc.prems q avg st by (intro Suc.IH[OF q(2)]) auto
  moreover have "dgw_loop m (Suc l) s = dgw_loop m l s1"
    using Suc.prems(1,3) h by (subst dgw_loop.simps) (simp add: s1_def)
  ultimately show ?case by simp
qed

end

lemma dgw_retarget_bound:
  assumes "CountBlocks s = 24" "unat (PastDifficultyAverage s) < 2 ^ 236"
  shows "\<exists>v. dgw_retarget CMainParams s = Some (GetCompact v False) \<and> v \<le> powLimit CMainParams"
proof -
  define a2 where "a2 = (let T = int (CountBlocks s) * nTargetSpacing CMainParams;
    a1 = (if nActualTimespan s < T div 3 then T div 3 else nActualTimespan s) in if T * 3 < a1 then T * 3 else a1)"
  have dv: "(ucast (word_of_int (int (CountBlocks s) * nTargetSpacing CMainParams) :: u64) :: u256) = 1440"
    by (simp add: assms(1) main_powLimit)
  define w where "w = PastDifficultyAverage s * ucast (word_of_int a2 :: u32) div 1440"
  have "dgw_retarget CMainParams s = Some (GetCompact (if powLimit CMainParams < w then powLimit CMainParams else w) False)"
    unfolding dgw_retarget_def w_def a2_def Let_def dv u256_div_def by simp
  then show ?thesis by (intro exI[of _ "if powLimit CMainParams < w then powLimit CMainParams else w"]) auto
qed

lemma GetCompact_le_limit:
  assumes "v \<le> powLimit CMainParams"
  shows "\<exists>u. SetCompact (GetCompact v False) = (u, False, False) \<and> u \<le> powLimit CMainParams \<and> (v \<noteq> 0 \<longrightarrow> u \<noteq> 0)"
proof -
  obtain u where u: "SetCompact (GetCompact v False) = (u, False, False)" "u \<le> v" "(unat v - unat u) * 2 ^ 15 \<le> unat v"
    using SetCompact_GetCompact[of v] by blast
  have "u \<noteq> 0" if "v \<noteq> 0"
  proof
    assume "u = 0"
    then have "unat v * 2 ^ 15 \<le> unat v" using u(3) by simp
    then show False using that by (simp add: unat_eq_0)
  qed
  then show ?thesis using u assms by auto
qed

lemma pos_target_spec_bound: "0 < pos_target_spec f d t" "pos_target_spec f d t < 2 ^ 236"
  by (auto simp: pos_target_spec_def Let_def)

section \<open>Difficulty\<close>

text \<open>C27: `GetBlockProof` and `CheckProofOfWork`.  The work of a block is exactly \<open>2 ^ 256\<close> divided by the target plus
one, although \<open>2 ^ 256\<close> does not fit in the type and without the division by zero an all-ones target would cause,
and 0 for a negative, zero or overflowing target; and a hash passes `CheckProofOfWork` exactly when it is at most a
target that is positive, representable and within the network's limit.\<close>

theorem block_proof_exact:
  "(\<exists>w. GetBlockProof nb = Some w \<and>
     unat w = (let (t, neg, ovf) = SetCompact nb in if neg \<or> ovf \<or> t = 0 then 0 else 2 ^ 256 div (unat t + 1))) \<and>
   CheckProofOfWork False c hash nb =
     (let (t, neg, ovf) = SetCompact nb in \<not> neg \<and> \<not> ovf \<and> t \<noteq> 0 \<and> t \<le> powLimit c \<and> hash \<le> t)"
proof
  show "\<exists>w. GetBlockProof nb = Some w \<and>
     unat w = (let (t, neg, ovf) = SetCompact nb in if neg \<or> ovf \<or> t = 0 then 0 else 2 ^ 256 div (unat t + 1))"
    by (rule GetBlockProof_exact)
  show "CheckProofOfWork False c hash nb =
     (let (t, neg, ovf) = SetCompact nb in \<not> neg \<and> \<not> ovf \<and> t \<noteq> 0 \<and> t \<le> powLimit c \<and> hash \<le> t)"
    by (auto simp: CheckProofOfWork_def split: prod.splits)
qed



end
