(* ===== verification/BlockIndex.thy ===== *)
theory BlockIndex
  imports Pow
begin

unbundle bit_operations_syntax

text \<open>
  Growing the block tree: the stake modifiers of an index entry (`chain.cpp`, `legacy/stakemodifier.cpp`) and
  `AddToBlockIndex` (`validation.cpp`).

  As in Chain, \<open>None\<close> is an execution without a defined result.  \<open>H\<close> is the double SHA-256 of Hash, and
  \<open>literal\<close> the address of the string literal the code casts to a 64-bit modifier.
\<close>

section \<open>Stake modifiers of an entry\<close>

definition GetCheapHash :: "u256 \<Rightarrow> u64" where
  "GetCheapHash h = ucast h"

definition GetStakeEntropyBit :: "u256 \<Rightarrow> u32" where
  "GetStakeEntropyBit hashBlock = ucast (GetCheapHash hashBlock AND 1)"

definition SetStakeEntropyBit :: "u32 \<Rightarrow> CBlockIndex \<Rightarrow> CBlockIndex \<times> bool" where
  "SetStakeEntropyBit nEntropyBit b =
     (if 1 < nEntropyBit then (b, False)
      else (b\<lparr>bi_nFlags := bi_nFlags b OR (if nEntropyBit \<noteq> 0 then BLOCK_STAKE_ENTROPY else 0)\<rparr>, True))"

definition SetStakeModifierV1 :: "u64 \<Rightarrow> bool \<Rightarrow> CBlockIndex \<Rightarrow> CBlockIndex" where
  "SetStakeModifierV1 nStakeModifier fGenerated b =
     (let b1 = b\<lparr>bi_vStakeModifier := le_bytes 8 nStakeModifier\<rparr>
      in if fGenerated then b1\<lparr>bi_nFlags := bi_nFlags b1 OR BLOCK_STAKE_MODIFIER\<rparr> else b1)"

definition SetStakeModifierV2 :: "u256 \<Rightarrow> CBlockIndex \<Rightarrow> CBlockIndex" where
  "SetStakeModifierV2 nStakeModifier b = b\<lparr>bi_vStakeModifier := Serialize_uint256 nStakeModifier\<rparr>"

text \<open>`memcpy` of the whole vector into a 64-bit or 256-bit variable: more bytes than the variable has are written
out of bounds, fewer leave part of the 64-bit one uninitialised.\<close>

definition GetStakeModifierV1 :: "CBlockIndex \<Rightarrow> u64 option" where
  "GetStakeModifierV1 b =
     (if bi_vStakeModifier b = [] then Some 0
      else if length (bi_vStakeModifier b) = 8 then Some (le_word (bi_vStakeModifier b)) else None)"

definition GetStakeModifierV2 :: "CBlockIndex \<Rightarrow> u256 option" where
  "GetStakeModifierV2 b =
     (if bi_vStakeModifier b = [] then Some 0
      else if length (bi_vStakeModifier b) \<le> 32 then Some (le_word (bi_vStakeModifier b)) else None)"

definition SetNewStakeModifierV2 :: "(bytes \<Rightarrow> u256) \<Rightarrow> BlockMap \<Rightarrow> u256 \<Rightarrow> CBlockIndex \<Rightarrow> CBlockIndex option" where
  "SetNewStakeModifierV2 H m prevoutId b =
     Option.bind (pprev b) (\<lambda>p. Option.bind (m p) (\<lambda>pb. Option.bind (GetStakeModifierV2 pb) (\<lambda>prev.
       Some (SetStakeModifierV2 (H (Serialize_uint256 prevoutId @ Serialize_uint256 prev)) b))))"

section \<open>The legacy modifier\<close>

definition MODIFIER_INTERVAL :: int where "MODIFIER_INTERVAL = 60"
definition MODIFIER_INTERVAL_RATIO :: int where "MODIFIER_INTERVAL_RATIO = 3"
definition OLD_MODIFIER_INTERVAL :: int where "OLD_MODIFIER_INTERVAL = 2087"

definition GetStakeModifierSelectionIntervalSection :: "int \<Rightarrow> int option" where
  "GetStakeModifierSelectionIntervalSection nSection =
     (if 0 \<le> nSection \<and> nSection < 64
      then Some (MODIFIER_INTERVAL * 63 div (63 + (63 - nSection) * (MODIFIER_INTERVAL_RATIO - 1))) else None)"

record select_state =
  fModifierV2 :: bool
  fFirstRun :: bool
  fSelected :: bool
  hashBest :: u256
  pindexSelected :: "u256 option"

fun select_loop :: "consensus_params \<Rightarrow> (bytes \<Rightarrow> u256) \<Rightarrow> BlockMap \<Rightarrow> u256 list \<Rightarrow> int \<Rightarrow> u64 \<Rightarrow> (int \<times> u256) list \<Rightarrow> select_state \<Rightarrow> bool \<times> u256 option" where
  "select_loop c H m selected stop prev [] s = (fSelected s, pindexSelected s)"
| "select_loop c H m selected stop prev (item # rest) s =
     (case m (snd item) of
        None \<Rightarrow> (False, pindexSelected s)
      | Some b \<Rightarrow>
          if fSelected s \<and> stop < GetBlockTime b then (fSelected s, pindexSelected s)
          else
            let s1 = (if fFirstRun s
                      then s\<lparr>fModifierV2 := Params_NetworkUpgradeActive c (bi_nHeight b) UPGRADE_POS, fFirstRun := False\<rparr> else s)
            in if snd item \<in> set selected then select_loop c H m selected stop prev rest s1
               else
                 let hashProof = (if fModifierV2 s1 then snd item else if bi_IsProofOfStake b then 0 else snd item);
                     h = H (Serialize_uint256 hashProof @ le_bytes 8 prev);
                     hashSelection = (if bi_IsProofOfStake b then drop_bit 32 h else h);
                     s2 = (if fSelected s1 \<and> hashSelection < hashBest s1
                           then s1\<lparr>hashBest := hashSelection, pindexSelected := Some (snd item)\<rparr>
                           else if \<not> fSelected s1
                           then s1\<lparr>fSelected := True, hashBest := hashSelection, pindexSelected := Some (snd item)\<rparr> else s1)
                 in select_loop c H m selected stop prev rest s2)"

definition SelectBlockFromCandidates :: "consensus_params \<Rightarrow> (bytes \<Rightarrow> u256) \<Rightarrow> BlockMap \<Rightarrow> (int \<times> u256) list \<Rightarrow> u256 list \<Rightarrow> int \<Rightarrow> u64 \<Rightarrow> bool \<times> u256 option" where
  "SelectBlockFromCandidates c H m vSortedByTimestamp selected stop prev =
     select_loop c H m selected stop prev vSortedByTimestamp
       \<lparr>fModifierV2 = False, fFirstRun = True, fSelected = False, hashBest = 0, pindexSelected = None\<rparr>"

partial_function (option) last_generated :: "BlockMap \<Rightarrow> u256 \<Rightarrow> u256 option" where
  "last_generated m p =
     Option.bind (m p) (\<lambda>b. case pprev b of
        None \<Rightarrow> Some p
      | Some q \<Rightarrow> if \<not> GeneratedStakeModifier b then last_generated m q else Some p)"

partial_function (option) candidate_blocks :: "BlockMap \<Rightarrow> int \<Rightarrow> u256 option \<Rightarrow> (int \<times> u256) list \<Rightarrow> (int \<times> u256) list option" where
  "candidate_blocks m start pindex acc =
     (case pindex of
        None \<Rightarrow> Some acc
      | Some p \<Rightarrow> Option.bind (m p) (\<lambda>b.
          if start \<le> GetBlockTime b then candidate_blocks m start (pprev b) (acc @ [(GetBlockTime b, p)]) else Some acc))"

text \<open>`std::sort` on pairs orders by time and, among equal times, by hash.\<close>

definition sort_candidates :: "(int \<times> u256) list \<Rightarrow> (int \<times> u256) list" where
  "sort_candidates xs = sort_key fst (sort_key snd xs)"

fun modifier_rounds :: "consensus_params \<Rightarrow> (bytes \<Rightarrow> u256) \<Rightarrow> BlockMap \<Rightarrow> (int \<times> u256) list \<Rightarrow> u64 \<Rightarrow> nat \<Rightarrow> nat \<Rightarrow> int \<Rightarrow> u256 list \<Rightarrow> u64 \<Rightarrow> u64 option option" where
  "modifier_rounds c H m vSortedByTimestamp prev 0 nRound stop selected acc = Some (Some acc)"
| "modifier_rounds c H m vSortedByTimestamp prev (Suc left) nRound stop selected acc =
     Option.bind (GetStakeModifierSelectionIntervalSection (int nRound)) (\<lambda>sec.
       case SelectBlockFromCandidates c H m vSortedByTimestamp selected (stop + sec) prev of
         (False, _) \<Rightarrow> Some None
       | (True, None) \<Rightarrow> None
       | (True, Some p) \<Rightarrow>
           modifier_rounds c H m vSortedByTimestamp prev left (nRound + 1) (stop + sec) (p # selected)
             (acc OR push_bit nRound (ucast (GetStakeEntropyBit p))))"

text \<open>The result is the return value, the modifier and whether it was generated.\<close>

definition ComputeNextStakeModifier :: "consensus_params \<Rightarrow> (bytes \<Rightarrow> u256) \<Rightarrow> u64 \<Rightarrow> BlockMap \<Rightarrow> u256 option \<Rightarrow> (bool \<times> u64 \<times> bool) option" where
  "ComputeNextStakeModifier c H literal m pindexPrev =
     (case pindexPrev of
        None \<Rightarrow> Some (True, 0, True)
      | Some pp \<Rightarrow> Option.bind (m pp) (\<lambda>b.
          if bi_nHeight b = 0 then Some (True, literal, True)
          else Option.bind (last_generated m pp) (\<lambda>g. Option.bind (m g) (\<lambda>gb.
            if \<not> GeneratedStakeModifier gb then Some (False, 0, False)
            else Option.bind (GetStakeModifierV1 gb) (\<lambda>nStakeModifier.
              if GetBlockTime b div MODIFIER_INTERVAL \<le> GetBlockTime gb div MODIFIER_INTERVAL
              then Some (True, nStakeModifier, False)
              else
                let start = (GetBlockTime b div MODIFIER_INTERVAL) * MODIFIER_INTERVAL - OLD_MODIFIER_INTERVAL
                in Option.bind (candidate_blocks m start (Some pp) []) (\<lambda>cands.
                     let vSortedByTimestamp = sort_candidates (rev cands)
                     in Option.bind (modifier_rounds c H m vSortedByTimestamp nStakeModifier (min 64 (length vSortedByTimestamp)) 0 start [] 0) (\<lambda>r.
                          case r of None \<Rightarrow> Some (False, nStakeModifier, False) | Some new \<Rightarrow> Some (True, new, True))))))))"

text \<open>A failure is only logged: the modifier computed so far is stored in any case.\<close>

definition SetNewStakeModifierV1 :: "consensus_params \<Rightarrow> (bytes \<Rightarrow> u256) \<Rightarrow> u64 \<Rightarrow> BlockMap \<Rightarrow> u256 \<Rightarrow> CBlockIndex \<Rightarrow> CBlockIndex option" where
  "SetNewStakeModifierV1 c H literal m this b =
     (let b1 = fst (SetStakeEntropyBit (GetStakeEntropyBit this) b)
      in Option.bind (ComputeNextStakeModifier c H literal m (pprev b1)) (\<lambda>(ok, nStakeModifier, fGenerated).
           Some (SetStakeModifierV1 nStakeModifier fGenerated b1)))"

section \<open>Adding a block\<close>

record block_index_state =
  mapBlockIndex :: BlockMap
  pindexBestHeader :: "u256 option"
  setDirtyBlockIndex :: "u256 set"

definition block_index_init :: block_index_state where
  "block_index_init = \<lparr>mapBlockIndex = (\<lambda>_. None), pindexBestHeader = None, setDirtyBlockIndex = {}\<rparr>"

definition set_pprev :: "consensus_params \<Rightarrow> (bytes \<Rightarrow> u256) \<Rightarrow> u64 \<Rightarrow> BlockMap \<Rightarrow> u256 \<Rightarrow> CBlock \<Rightarrow> CBlockIndex \<Rightarrow> CBlockIndex option" where
  "set_pprev c H literal m hash block new =
     (case m (hashPrevBlock (header block)) of
        None \<Rightarrow> Some new
      | Some pb \<Rightarrow>
          let n1 = new\<lparr>pprev := Some (hashPrevBlock (header block)), bi_nHeight := bi_nHeight pb + 1\<rparr>
          in Option.bind (BuildSkip m n1) (\<lambda>n2.
               if \<not> Params_NetworkUpgradeActive c (bi_nHeight n2) UPGRADE_POS
               then SetNewStakeModifierV1 c H literal m hash n2
               else if length (vtx block) \<le> 1 \<or> vin (vtx block ! 1) = [] then None
               else SetNewStakeModifierV2 H m (op_hash (prevout (vin (vtx block ! 1) ! 0))) n2))"

definition AddToBlockIndex :: "consensus_params \<Rightarrow> (bytes \<Rightarrow> u256) \<Rightarrow> u64 \<Rightarrow> u256 \<Rightarrow> CBlock \<Rightarrow> block_index_state \<Rightarrow> (block_index_state \<times> u256) option" where
  "AddToBlockIndex c H literal hash block s =
     (case mapBlockIndex s hash of
        Some _ \<Rightarrow> Some (s, hash)
      | None \<Rightarrow>
          let new = (CBlockIndex_of_block block)\<lparr>bi_nSequenceId := 0\<rparr>;
              m = (mapBlockIndex s)(hash \<mapsto> new)
          in Option.bind (set_pprev c H literal m hash block new) (\<lambda>n1.
             let par = Option.bind (pprev n1) m;
                 n2 = n1\<lparr>bi_nTimeMax := (case par of Some pb \<Rightarrow> max (bi_nTimeMax pb) (bi_nTime n1) | None \<Rightarrow> bi_nTime n1)\<rparr>
             in Option.bind (GetBlockProof (bi_nBits n2)) (\<lambda>work.
             let n3 = n2\<lparr>bi_nChainWork := (case par of Some pb \<Rightarrow> bi_nChainWork pb | None \<Rightarrow> 0) + work\<rparr>
             in Option.bind (RaiseValidity BLOCK_VALID_TREE n3) (\<lambda>(n4, _).
             let m' = m(hash \<mapsto> n4);
                 best = (case pindexBestHeader s of
                           None \<Rightarrow> Some (Some hash)
                         | Some q \<Rightarrow> Option.bind (m' q) (\<lambda>qb. Some (if bi_nChainWork qb < bi_nChainWork n4 then Some hash else Some q)))
             in Option.bind best (\<lambda>best'.
               Some (\<lparr>mapBlockIndex = m', pindexBestHeader = best', setDirtyBlockIndex = insert hash (setDirtyBlockIndex s)\<rparr>, hash))))))"

section \<open>Extending a tree\<close>

definition links_to :: "BlockMap \<Rightarrow> CBlockIndex \<Rightarrow> bool" where
  "links_to m b \<longleftrightarrow>
     (case pprev b of
        None \<Rightarrow> bi_nHeight b = 0
      | Some p \<Rightarrow> \<exists>pb. m p = Some pb \<and> bi_nHeight b = bi_nHeight pb + 1 \<and> pskip b = ancestor_at m p (GetSkipHeight (bi_nHeight b)))"

context block_tree
begin

lemma parent_of_upd: "m h = None \<Longrightarrow> m q = Some bq \<Longrightarrow> parent_of (m(h \<mapsto> b)) q = parent_of m q"
  by (auto simp: parent_of_def)

lemma parent_n_upd: "m h = None \<Longrightarrow> m q = Some bq \<Longrightarrow> parent_n (m(h \<mapsto> b)) n q = parent_n m n q"
proof (induction n arbitrary: q bq)
  case (Suc n)
  show ?case
  proof (cases "pprev bq")
    case (Some p)
    obtain pb where "m p = Some pb" using parent_height[OF Suc.prems(2) Some] by blast
    then show ?thesis using Suc.IH[OF Suc.prems(1)] parent_of_upd[OF Suc.prems] Some Suc.prems by (simp add: parent_of_def)
  qed (use Suc.prems in \<open>auto simp: parent_of_def\<close>)
qed simp

lemma ancestor_at_upd: "m h = None \<Longrightarrow> m q = Some bq \<Longrightarrow> ancestor_at (m(h \<mapsto> b)) q k = ancestor_at m q k"
  using parent_n_upd[of h q bq b] by (auto simp: ancestor_at_def height_of_def)

lemma height_after_parent: "m p = Some pb \<Longrightarrow> 0 \<le> bi_nHeight pb + 1"
  using height_nonneg[of p pb] by simp

lemma block_tree_upd:
  assumes "m h = None" "links_to m b"
  shows "block_tree (m(h \<mapsto> b))"
proof
  fix q bq assume q: "(m(h \<mapsto> b)) q = Some bq"
  have new: "bq = b" if "q = h" using q that by simp
  have old: "m q = Some bq" if "q \<noteq> h" using q that by simp
  show "0 \<le> bi_nHeight bq"
    using assms(2) new old height_nonneg[of q bq] height_nonneg by (cases "q = h") (fastforce simp: links_to_def split: option.splits)+
  show "pprev bq = None \<Longrightarrow> bi_nHeight bq = 0"
    using assms(2) new old root_height[of q bq] by (cases "q = h") (auto simp: links_to_def)
  fix p assume p: "pprev bq = Some p"
  have "\<exists>pb. m p = Some pb \<and> bi_nHeight bq = bi_nHeight pb + 1 \<and> pskip bq = ancestor_at m p (GetSkipHeight (bi_nHeight bq))"
  proof (cases "q = h")
    case True
    then show ?thesis using assms(2) new p by (auto simp: links_to_def)
  next
    case False
    then show ?thesis using parent_height[OF old p] skip_ancestor[OF old p] by auto
  qed
  then obtain pb where pb: "m p = Some pb" "bi_nHeight bq = bi_nHeight pb + 1" "pskip bq = ancestor_at m p (GetSkipHeight (bi_nHeight bq))"
    by blast
  moreover have "p \<noteq> h" using pb(1) assms(1) by auto
  ultimately show "\<exists>pb. (m(h \<mapsto> b)) p = Some pb \<and> bi_nHeight bq = bi_nHeight pb + 1"
    and "pskip bq = ancestor_at (m(h \<mapsto> b)) p (GetSkipHeight (bi_nHeight bq))"
    using ancestor_at_upd[OF assms(1) pb(1)] by auto
qed

end

lemma block_tree_empty: "block_tree (\<lambda>_. None)"
  by unfold_locales auto

section \<open>What the modifiers leave alone\<close>

text \<open>Everything of an entry but its flags and modifier.\<close>

definition frame :: "CBlockIndex \<Rightarrow> CBlockIndex" where
  "frame b = b\<lparr>bi_nFlags := 0, bi_vStakeModifier := []\<rparr>"

lemma frame_fields:
  assumes "frame b = frame b'"
  shows "pprev b = pprev b'" "pskip b = pskip b'" "bi_nHeight b = bi_nHeight b'" "bi_nTime b = bi_nTime b'"
    "bi_nBits b = bi_nBits b'" "bi_nStatus b = bi_nStatus b'"
  using arg_cong[OF assms, of pprev] arg_cong[OF assms, of pskip] arg_cong[OF assms, of bi_nHeight]
    arg_cong[OF assms, of bi_nTime] arg_cong[OF assms, of bi_nBits] arg_cong[OF assms, of bi_nStatus]
  by (simp_all add: frame_def)

lemma SetStakeModifier_frame [simp]:
  "frame (SetStakeModifierV1 v g b) = frame b" "frame (SetStakeModifierV2 w b) = frame b" "frame (fst (SetStakeEntropyBit e b)) = frame b"
  by (simp_all add: frame_def SetStakeModifierV1_def SetStakeModifierV2_def SetStakeEntropyBit_def Let_def)


section \<open>Modifiers are always defined\<close>

definition modifier_ok :: "consensus_params \<Rightarrow> CBlockIndex \<Rightarrow> bool" where
  "modifier_ok c b \<longleftrightarrow>
     length (bi_vStakeModifier b) =
       (if pprev b = None then 0 else if Params_NetworkUpgradeActive c (bi_nHeight b) UPGRADE_POS then 32 else 8)"

definition modifiers_ok :: "consensus_params \<Rightarrow> BlockMap \<Rightarrow> bool" where
  "modifiers_ok c m \<longleftrightarrow> (\<forall>h b. m h = Some b \<longrightarrow> modifier_ok c b)"

lemma upgrade_stays_active:
  "Params_NetworkUpgradeActive c h u \<Longrightarrow> h \<le> h' \<Longrightarrow> Params_NetworkUpgradeActive c h' u"
  by (auto simp: Params_NetworkUpgradeActive_def NetworkUpgradeState_def split: if_splits)

lemma select_loop_selected:
  "(fSelected s \<longrightarrow> pindexSelected s \<noteq> None) \<Longrightarrow> select_loop c H m sel stop prev xs s \<noteq> (True, None)"
proof (induction xs arbitrary: s)
  case (Cons x xs)
  then show ?case by (cases "m (snd x)") (auto simp: Let_def split del: if_split split: if_split_asm)
qed auto

lemma modifier_rounds_defined: "nRound + left \<le> 64 \<Longrightarrow> \<exists>r. modifier_rounds c H m vs prev left nRound stop sel acc = Some r"
proof (induction left arbitrary: nRound stop sel acc)
  case (Suc left)
  obtain sec where sec: "GetStakeModifierSelectionIntervalSection (int nRound) = Some sec"
    using Suc.prems by (simp add: GetStakeModifierSelectionIntervalSection_def)
  have ne: "SelectBlockFromCandidates c H m vs sel (stop + sec) prev \<noteq> (True, None)"
    unfolding SelectBlockFromCandidates_def by (rule select_loop_selected) simp
  show ?case
  proof (cases "SelectBlockFromCandidates c H m vs sel (stop + sec) prev")
    case (Pair ok p)
    then show ?thesis using sec ne Suc.IH[of "nRound + 1"] Suc.prems by (cases ok; cases p) auto
  qed
qed simp

context block_tree
begin

lemma last_generated_defined:
  "m p = Some b \<Longrightarrow> \<exists>g gb. last_generated m p = Some g \<and> m g = Some gb \<and> bi_nHeight gb \<le> bi_nHeight b"
proof (induction "nat (bi_nHeight b)" arbitrary: p b rule: less_induct)
  case less
  show ?case
  proof (cases "pprev b")
    case None
    then show ?thesis using less.prems by (subst last_generated.simps) simp
  next
    case (Some q)
    obtain bq where q: "m q = Some bq" "bi_nHeight b = bi_nHeight bq + 1" using parent_height[OF less.prems Some] by blast
    obtain g gb where "last_generated m q = Some g" "m g = Some gb" "bi_nHeight gb \<le> bi_nHeight bq"
      using less.hyps[OF _ q(1)] q height_nonneg[OF q(1)] by auto
    then show ?thesis using less.prems Some q(2) by (subst last_generated.simps) auto
  qed
qed

lemma candidate_blocks_defined: "m p = Some b \<Longrightarrow> \<exists>cs. candidate_blocks m start (Some p) acc = Some cs"
proof (induction "nat (bi_nHeight b)" arbitrary: p b acc rule: less_induct)
  case less
  show ?case
  proof (cases "pprev b")
    case None
    have "\<exists>cs. candidate_blocks m start None acc' = Some cs" for acc' by (subst candidate_blocks.simps) simp
    then show ?thesis using less.prems None by (subst candidate_blocks.simps) simp
  next
    case (Some q)
    obtain bq where q: "m q = Some bq" "bi_nHeight b = bi_nHeight bq + 1" using parent_height[OF less.prems Some] by blast
    have "\<exists>cs. candidate_blocks m start (Some q) acc' = Some cs" for acc'
      using less.hyps[OF _ q(1)] q height_nonneg[OF q(1)] by auto
    then show ?thesis using less.prems Some by (subst candidate_blocks.simps) simp
  qed
qed

lemma ComputeNextStakeModifier_defined:
  assumes "modifiers_ok c m" "m pp = Some b" "\<not> Params_NetworkUpgradeActive c (bi_nHeight b + 1) UPGRADE_POS"
  shows "\<exists>ok v g. ComputeNextStakeModifier c H lit m (Some pp) = Some (ok, v, g)"
proof -
  obtain g gb where g: "last_generated m pp = Some g" "m g = Some gb" "bi_nHeight gb \<le> bi_nHeight b"
    using last_generated_defined[OF assms(2)] by blast
  have "\<not> Params_NetworkUpgradeActive c (bi_nHeight gb) UPGRADE_POS" using assms(3) g(3) upgrade_stays_active by (metis add.commute le_add_same_cancel2 order_trans zero_le_one)
  moreover have "modifier_ok c gb" using assms(1) g(2) by (simp add: modifiers_ok_def)
  ultimately have "GetStakeModifierV1 gb \<noteq> None" by (auto simp: modifier_ok_def GetStakeModifierV1_def split: if_splits)
  then obtain v where v: "GetStakeModifierV1 gb = Some v" by blast
  define start where "start = (GetBlockTime b div MODIFIER_INTERVAL) * MODIFIER_INTERVAL - OLD_MODIFIER_INTERVAL"
  obtain cs where cs: "candidate_blocks m start (Some pp) [] = Some cs" using candidate_blocks_defined[OF assms(2)] by blast
  define vs where "vs = sort_candidates (rev cs)"
  obtain r where r: "modifier_rounds c H m vs v (min 64 (length vs)) 0 start [] 0 = Some r"
    using modifier_rounds_defined[of 0 "min 64 (length vs)" c H m vs v start "[]" 0] by auto
  show ?thesis
    using assms(2) g v cs r by (cases r) (auto simp: ComputeNextStakeModifier_def Let_def start_def[symmetric] vs_def[symmetric])
qed

end

section \<open>The invariant of the index\<close>

definition has_stake_input :: "CBlock \<Rightarrow> bool" where
  "has_stake_input block \<longleftrightarrow> 1 < length (vtx block) \<and> vin (vtx block ! 1) \<noteq> []"

definition stake_input_if_active :: "consensus_params \<Rightarrow> BlockMap \<Rightarrow> CBlock \<Rightarrow> bool" where
  "stake_input_if_active c m block \<longleftrightarrow>
     (case m (hashPrevBlock (header block)) of
        None \<Rightarrow> True
      | Some pb \<Rightarrow> Params_NetworkUpgradeActive c (bi_nHeight pb + 1) UPGRADE_POS \<longrightarrow> has_stake_input block)"

definition work_ok :: "BlockMap \<Rightarrow> CBlockIndex \<Rightarrow> bool" where
  "work_ok m b \<longleftrightarrow>
     (\<exists>w. GetBlockProof (bi_nBits b) = Some w \<and>
        bi_nChainWork b = (case pprev b of None \<Rightarrow> 0 | Some p \<Rightarrow> bi_nChainWork (the (m p))) + w)"

definition best_header_ok :: "block_index_state \<Rightarrow> bool" where
  "best_header_ok s \<longleftrightarrow>
     (case pindexBestHeader s of
        None \<Rightarrow> mapBlockIndex s = (\<lambda>_. None)
      | Some q \<Rightarrow> \<exists>qb. mapBlockIndex s q = Some qb \<and>
          (\<forall>h b. mapBlockIndex s h = Some b \<longrightarrow> bi_nChainWork b \<le> bi_nChainWork qb))"

definition index_ok :: "consensus_params \<Rightarrow> block_index_state \<Rightarrow> bool" where
  "index_ok c s \<longleftrightarrow>
     timed_tree (mapBlockIndex s) \<and> modifiers_ok c (mapBlockIndex s) \<and> best_header_ok s \<and>
     (\<forall>h b. mapBlockIndex s h = Some b \<longrightarrow> work_ok (mapBlockIndex s) b \<and> bi_IsValid BLOCK_VALID_TREE b = Some True)"

lemma bi_of_block_fields [simp]:
  "pprev (CBlockIndex_of_block block) = None" "bi_nHeight (CBlockIndex_of_block block) = 0"
  "bi_nStatus (CBlockIndex_of_block block) = 0" "bi_vStakeModifier (CBlockIndex_of_block block) = []"
  "bi_nTime (CBlockIndex_of_block block) = nTime (header block)" "bi_nBits (CBlockIndex_of_block block) = nBits (header block)"
  by (simp_all add: CBlockIndex_of_block_def CBlockIndex_null_def SetProofOfStake_def Let_def)

lemma length_Serialize_uint256 [simp]: "length (Serialize_uint256 w) = 32"
  by (simp add: Serialize_uint256_def)

lemma set_pprev_child:
  assumes t: "block_tree m0" and h: "m0 hash = None" and md: "modifiers_ok c m0"
    and ne: "hash \<noteq> hashPrevBlock (header block)" and pb: "m0 (hashPrevBlock (header block)) = Some pb"
    and st: "stake_input_if_active c m0 block"
    and new: "pprev new = None" "bi_nHeight new = 0" "bi_vStakeModifier new = []"
  shows "\<exists>n1. set_pprev c H lit (m0(hash \<mapsto> new)) hash block new = Some n1 \<and> links_to m0 n1 \<and>
     pprev n1 = Some (hashPrevBlock (header block)) \<and> modifier_ok c n1 \<and>
     bi_nTime n1 = bi_nTime new \<and> bi_nBits n1 = bi_nBits new \<and> bi_nStatus n1 = bi_nStatus new"
proof -
  let ?p = "hashPrevBlock (header block)"
  define m where "m = m0(hash \<mapsto> new)"
  have tm: "block_tree m" unfolding m_def by (rule block_tree.block_tree_upd[OF t h]) (simp add: links_to_def new)
  have mp: "m ?p = Some pb" using ne pb by (simp add: m_def)
  have mdm: "modifiers_ok c m" using md new by (auto simp: m_def modifiers_ok_def modifier_ok_def)
  define n1 where "n1 = new\<lparr>pprev := Some ?p, bi_nHeight := bi_nHeight pb + 1\<rparr>"
  define n2 where "n2 = n1\<lparr>pskip := ancestor_at m0 ?p (GetSkipHeight (bi_nHeight pb + 1))\<rparr>"
  have anc: "GetAncestor m ?p k = Some (ancestor_at m0 ?p k)" for k
    using block_tree.GetAncestor_ancestor[OF tm mp, of k] block_tree.ancestor_at_upd[OF t h pb, of new k] by (simp only: m_def)
  then have build: "BuildSkip m n1 = Some n2" by (simp add: BuildSkip_def n1_def n2_def)
  have n2: "pprev n2 = Some ?p" "bi_nHeight n2 = bi_nHeight pb + 1" "pskip n2 = ancestor_at m0 ?p (GetSkipHeight (bi_nHeight pb + 1))"
    "bi_nTime n2 = bi_nTime new" "bi_nBits n2 = bi_nBits new" "bi_nStatus n2 = bi_nStatus new"
    by (simp_all add: n2_def n1_def)
  have step: "set_pprev c H lit m hash block new =
      (if \<not> Params_NetworkUpgradeActive c (bi_nHeight pb + 1) UPGRADE_POS then SetNewStakeModifierV1 c H lit m hash n2
       else if length (vtx block) \<le> 1 \<or> vin (vtx block ! 1) = [] then None
       else SetNewStakeModifierV2 H m (op_hash (prevout (vin (vtx block ! 1) ! 0))) n2)"
    using mp build n2(2) by (simp add: set_pprev_def n1_def[symmetric])
  have "\<exists>n3. set_pprev c H lit m hash block new = Some n3 \<and> frame n3 = frame n2 \<and>
      length (bi_vStakeModifier n3) = (if Params_NetworkUpgradeActive c (bi_nHeight pb + 1) UPGRADE_POS then 32 else 8)"
  proof (cases "Params_NetworkUpgradeActive c (bi_nHeight pb + 1) UPGRADE_POS")
    case False
    obtain ok v g where "ComputeNextStakeModifier c H lit m (Some ?p) = Some (ok, v, g)"
      using block_tree.ComputeNextStakeModifier_defined[OF tm mdm mp False] by blast
    moreover have "pprev (fst (SetStakeEntropyBit e n2)) = Some ?p" for e using n2(1) by (simp add: SetStakeEntropyBit_def)
    ultimately show ?thesis using False step by (simp add: SetNewStakeModifierV1_def Let_def SetStakeModifierV1_def frame_def SetStakeEntropyBit_def)
  next
    case True
    then have "has_stake_input block" using st pb by (auto simp: stake_input_if_active_def)
    moreover have "modifier_ok c pb" using mdm mp by (simp add: modifiers_ok_def)
    then have "length (bi_vStakeModifier pb) \<le> 32" by (simp add: modifier_ok_def split: if_splits)
    then obtain w where "GetStakeModifierV2 pb = Some w"
      by (cases "bi_vStakeModifier pb = []") (simp_all add: GetStakeModifierV2_def)
    ultimately show ?thesis using True step n2(1) mp
      by (auto simp: has_stake_input_def SetNewStakeModifierV2_def SetStakeModifierV2_def frame_def)
  qed
  then obtain n3 where n3: "set_pprev c H lit m hash block new = Some n3" "frame n3 = frame n2"
    "length (bi_vStakeModifier n3) = (if Params_NetworkUpgradeActive c (bi_nHeight pb + 1) UPGRADE_POS then 32 else 8)" by blast
  have f: "pprev n3 = Some ?p" "bi_nHeight n3 = bi_nHeight pb + 1" "pskip n3 = ancestor_at m0 ?p (GetSkipHeight (bi_nHeight pb + 1))"
    "bi_nTime n3 = bi_nTime new" "bi_nBits n3 = bi_nBits new" "bi_nStatus n3 = bi_nStatus new"
    using frame_fields[OF n3(2)] n2 by simp_all
  have "links_to m0 n3" using f pb by (simp add: links_to_def)
  moreover have "modifier_ok c n3" using f n3(3) by (simp add: modifier_ok_def)
  ultimately show ?thesis using n3(1) f by (auto simp: m_def)
qed


lemma RaiseValidity_new:
  "bi_nStatus b = 0 \<Longrightarrow> RaiseValidity BLOCK_VALID_TREE b = Some (b\<lparr>bi_nStatus := BLOCK_VALID_TREE\<rparr>, True)"
  by (simp add: RaiseValidity_def block_status_defs)

lemma valid_tree_status: "bi_nStatus b = BLOCK_VALID_TREE \<Longrightarrow> bi_IsValid BLOCK_VALID_TREE b = Some True"
  by (simp add: bi_IsValid_def block_status_defs)

lemma timed_tree_upd:
  assumes "timed_tree m" "m h = None" "links_to m b"
    and "bi_nTimeMax b = (case pprev b of None \<Rightarrow> bi_nTime b | Some p \<Rightarrow> max (bi_nTimeMax (the (m p))) (bi_nTime b))"
  shows "timed_tree (m(h \<mapsto> b))"
proof -
  have t: "block_tree m" using assms(1) by (simp add: timed_tree_def)
  have "timed_tree_axioms (m(h \<mapsto> b))"
  proof
    fix q bq assume q: "(m(h \<mapsto> b)) q = Some bq"
    show "pprev bq = None \<Longrightarrow> bi_nTimeMax bq = bi_nTime bq"
      using q assms(4) timed_tree.time_root[OF assms(1), of q bq] by (cases "q = h") auto
    fix p pb assume p: "pprev bq = Some p" "(m(h \<mapsto> b)) p = Some pb"
    show "bi_nTimeMax bq = max (bi_nTimeMax pb) (bi_nTime bq)"
    proof (cases "q = h")
      case True
      then have "bq = b" using q by simp
      moreover then have "p \<noteq> h" using p(1) assms(2,3) by (auto simp: links_to_def)
      ultimately show ?thesis using p assms(4) by simp
    next
      case False
      then have mq: "m q = Some bq" using q by simp
      then have "p \<noteq> h" using block_tree.parent_height[OF t mq p(1)] assms(2) by auto
      then show ?thesis using timed_tree.time_parent[OF assms(1) mq p(1)] p(2) by simp
    qed
  qed
  then show ?thesis using block_tree.block_tree_upd[OF t assms(2,3)] by (simp add: timed_tree_def)
qed

lemma work_ok_upd: "block_tree m \<Longrightarrow> m h = None \<Longrightarrow> m q = Some bq \<Longrightarrow> work_ok m bq \<Longrightarrow> work_ok (m(h \<mapsto> b)) bq"
proof -
  assume a: "block_tree m" "m h = None" "m q = Some bq" "work_ok m bq"
  have "p \<noteq> h" if "pprev bq = Some p" for p using block_tree.parent_height[OF a(1,3) that] a(2) by auto
  then show ?thesis using a(4) by (auto simp: work_ok_def split: option.splits)
qed

text \<open>The entry `AddToBlockIndex` files, and the state it leaves.\<close>

lemma AddToBlockIndex_new:
  assumes ok: "index_ok c s" and h: "mapBlockIndex s hash = None"
    and ne: "hash \<noteq> hashPrevBlock (header block)" and st: "stake_input_if_active c (mapBlockIndex s) block"
  shows "\<exists>b. links_to (mapBlockIndex s) b \<and> modifier_ok c b \<and> bi_nStatus b = BLOCK_VALID_TREE \<and> work_ok (mapBlockIndex s) b \<and>
      pprev b = (if mapBlockIndex s (hashPrevBlock (header block)) = None then None else Some (hashPrevBlock (header block))) \<and>
      bi_nTime b = nTime (header block) \<and> bi_nBits b = nBits (header block) \<and>
      bi_nTimeMax b = (case pprev b of None \<Rightarrow> bi_nTime b | Some p \<Rightarrow> max (bi_nTimeMax (the (mapBlockIndex s p))) (bi_nTime b)) \<and>
      AddToBlockIndex c H lit hash block s =
        Some (\<lparr>mapBlockIndex = (mapBlockIndex s)(hash \<mapsto> b),
               pindexBestHeader = (case pindexBestHeader s of None \<Rightarrow> Some hash | Some q \<Rightarrow>
                 if bi_nChainWork (the (mapBlockIndex s q)) < bi_nChainWork b then Some hash else Some q),
               setDirtyBlockIndex = insert hash (setDirtyBlockIndex s)\<rparr>, hash)"
proof -
  define m0 where "m0 = mapBlockIndex s"
  define new where "new = (CBlockIndex_of_block block)\<lparr>bi_nSequenceId := 0\<rparr>"
  let ?p = "hashPrevBlock (header block)"
  have t: "block_tree m0" and md: "modifiers_ok c m0" using ok by (auto simp: index_ok_def m0_def timed_tree_def)
  have new: "pprev new = None" "bi_nHeight new = 0" "bi_vStakeModifier new = []" "bi_nStatus new = 0"
    "bi_nTime new = nTime (header block)" "bi_nBits new = nBits (header block)" by (simp_all add: new_def)
  have "\<exists>n1. set_pprev c H lit (m0(hash \<mapsto> new)) hash block new = Some n1 \<and> links_to m0 n1 \<and> modifier_ok c n1 \<and>
      pprev n1 = (if m0 ?p = None then None else Some ?p) \<and>
      bi_nTime n1 = bi_nTime new \<and> bi_nBits n1 = bi_nBits new \<and> bi_nStatus n1 = bi_nStatus new"
  proof (cases "m0 ?p")
    case None
    then show ?thesis using new ne by (simp add: set_pprev_def links_to_def modifier_ok_def)
  next
    case (Some pb)
    then show ?thesis using set_pprev_child[OF t _ md ne Some _ new(1-3)] h st by (fastforce simp: m0_def)
  qed
  then obtain n1 where n1: "set_pprev c H lit (m0(hash \<mapsto> new)) hash block new = Some n1" "links_to m0 n1" "modifier_ok c n1"
    "pprev n1 = (if m0 ?p = None then None else Some ?p)" "bi_nTime n1 = nTime (header block)" "bi_nBits n1 = nBits (header block)"
    "bi_nStatus n1 = 0" using new by auto
  obtain w where w: "GetBlockProof (nBits (header block)) = Some w" using GetBlockProof_exact by blast
  define par where "par = (if m0 ?p = None then None else m0 ?p)"
  have par: "Option.bind (pprev n1) (m0(hash \<mapsto> new)) = par" using n1(4) ne by (simp add: par_def)
  define b where "b = n1\<lparr>bi_nTimeMax := (case par of Some pb \<Rightarrow> max (bi_nTimeMax pb) (bi_nTime n1) | None \<Rightarrow> bi_nTime n1),
    bi_nChainWork := (case par of Some pb \<Rightarrow> bi_nChainWork pb | None \<Rightarrow> 0) + w, bi_nStatus := BLOCK_VALID_TREE\<rparr>"
  have f: "pprev b = pprev n1" "bi_nHeight b = bi_nHeight n1" "pskip b = pskip n1" "bi_nTime b = nTime (header block)"
    "bi_nBits b = nBits (header block)" "bi_nStatus b = BLOCK_VALID_TREE" "bi_vStakeModifier b = bi_vStakeModifier n1"
    "bi_nTimeMax b = (case par of Some pb \<Rightarrow> max (bi_nTimeMax pb) (bi_nTime n1) | None \<Rightarrow> bi_nTime n1)"
    "bi_nChainWork b = (case par of Some pb \<Rightarrow> bi_nChainWork pb | None \<Rightarrow> 0) + w" by (simp_all add: b_def n1)
  have raise: "RaiseValidity BLOCK_VALID_TREE (n1\<lparr>bi_nTimeMax := (case par of Some pb \<Rightarrow> max (bi_nTimeMax pb) (bi_nTime n1) | None \<Rightarrow> bi_nTime n1),
      bi_nChainWork := (case par of Some pb \<Rightarrow> bi_nChainWork pb | None \<Rightarrow> 0) + w\<rparr>) = Some (b, True)"
    by (subst RaiseValidity_new) (simp_all add: n1 b_def)
  have best: "(case pindexBestHeader s of None \<Rightarrow> Some (Some hash)
      | Some q \<Rightarrow> Option.bind ((m0(hash \<mapsto> b)) q) (\<lambda>qb. Some (if bi_nChainWork qb < bi_nChainWork b then Some hash else Some q)))
    = Some (case pindexBestHeader s of None \<Rightarrow> Some hash | Some q \<Rightarrow> if bi_nChainWork (the (m0 q)) < bi_nChainWork b then Some hash else Some q)"
  proof (cases "pindexBestHeader s")
    case (Some q)
    then obtain qb where q: "m0 q = Some qb" using ok by (auto simp: index_ok_def best_header_ok_def m0_def)
    then have "q \<noteq> hash" using h by (auto simp: m0_def)
    then show ?thesis using Some q by simp
  qed simp
  have eq: "AddToBlockIndex c H lit hash block s =
        Some (\<lparr>mapBlockIndex = m0(hash \<mapsto> b),
               pindexBestHeader = (case pindexBestHeader s of None \<Rightarrow> Some hash | Some q \<Rightarrow>
                 if bi_nChainWork (the (m0 q)) < bi_nChainWork b then Some hash else Some q),
               setDirtyBlockIndex = insert hash (setDirtyBlockIndex s)\<rparr>, hash)"
  proof -
    have h0: "m0 hash = None" using h by (simp add: m0_def)
    have nb: "bi_nBits (n1\<lparr>bi_nTimeMax := x\<rparr>) = nBits (header block)" for x using n1(6) by simp
    show ?thesis
      unfolding AddToBlockIndex_def m0_def[symmetric] h0 option.case(1) Let_def new_def[symmetric] n1(1) par Option.bind.bind_lunit nb w raise prod.case
      by (simp only: best Option.bind.bind_lunit fun_upd_upd raise prod.case)
  qed
  have link: "links_to m0 b" using n1(2) unfolding links_to_def f(1-3) .
  have md: "modifier_ok c b" using n1(3) f by (simp add: modifier_ok_def)
  have wk: "work_ok m0 b" using w f n1(4) by (auto simp: work_ok_def par_def)
  have tm: "bi_nTimeMax b = (case pprev b of None \<Rightarrow> bi_nTime b | Some p \<Rightarrow> max (bi_nTimeMax (the (m0 p))) (bi_nTime b))"
    using f n1(4,5) by (auto simp: par_def)
  have pp: "pprev b = (if m0 ?p = None then None else Some ?p)" using f(1) n1(4) by simp
  show ?thesis unfolding m0_def[symmetric] by (rule exI[of _ b]) (intro conjI link md f(6) wk pp f(4) f(5) tm eq)
qed


lemma index_ok_init: "index_ok c block_index_init"
  using block_tree_empty
  by (auto simp: index_ok_def block_index_init_def best_header_ok_def modifiers_ok_def timed_tree_def timed_tree_axioms_def)

lemma AddToBlockIndex_ok:
  assumes ok: "index_ok c s" and ne: "hash \<noteq> hashPrevBlock (header block)" and st: "stake_input_if_active c (mapBlockIndex s) block"
  shows "\<exists>s'. AddToBlockIndex c H lit hash block s = Some (s', hash) \<and> index_ok c s' \<and> mapBlockIndex s' hash \<noteq> None \<and>
    (\<forall>q bq. mapBlockIndex s q = Some bq \<longrightarrow> mapBlockIndex s' q = Some bq)"
proof (cases "mapBlockIndex s hash")
  case (Some b)
  then show ?thesis using ok by (simp add: AddToBlockIndex_def)
next
  case None
  define m where "m = mapBlockIndex s"
  obtain b where b: "links_to m b" "modifier_ok c b" "bi_nStatus b = BLOCK_VALID_TREE" "work_ok m b"
    "bi_nTimeMax b = (case pprev b of None \<Rightarrow> bi_nTime b | Some p \<Rightarrow> max (bi_nTimeMax (the (m p))) (bi_nTime b))"
    and eq: "AddToBlockIndex c H lit hash block s =
        Some (\<lparr>mapBlockIndex = m(hash \<mapsto> b),
               pindexBestHeader = (case pindexBestHeader s of None \<Rightarrow> Some hash | Some q \<Rightarrow>
                 if bi_nChainWork (the (m q)) < bi_nChainWork b then Some hash else Some q),
               setDirtyBlockIndex = insert hash (setDirtyBlockIndex s)\<rparr>, hash)"
    using AddToBlockIndex_new[OF ok None ne st, of H lit] unfolding m_def by blast
  have h: "m hash = None" using None by (simp add: m_def)
  have t: "timed_tree m" "block_tree m" using ok by (auto simp: index_ok_def m_def timed_tree_def)
  have tt: "timed_tree (m(hash \<mapsto> b))" by (rule timed_tree_upd[OF t(1) h b(1) b(5)])
  have md: "modifiers_ok c (m(hash \<mapsto> b))" using ok b(2) by (auto simp: index_ok_def modifiers_ok_def m_def)
  have wk: "work_ok (m(hash \<mapsto> b)) bq \<and> bi_IsValid BLOCK_VALID_TREE bq = Some True" if q: "(m(hash \<mapsto> b)) q = Some bq" for q bq
  proof (cases "q = hash")
    case True
    have "p \<noteq> hash" if "pprev b = Some p" for p using b(1) h that by (auto simp: links_to_def)
    then have "work_ok (m(hash \<mapsto> b)) b" using b(4) by (auto simp: work_ok_def split: option.splits)
    then show ?thesis using True q b(3) valid_tree_status by simp
  next
    case False
    then have mq: "m q = Some bq" using q by simp
    then show ?thesis using ok work_ok_upd[OF t(2) h mq] by (simp add: index_ok_def m_def)
  qed
  have best: "\<exists>r rb. (case pindexBestHeader s of None \<Rightarrow> Some hash | Some q \<Rightarrow>
        if bi_nChainWork (the (m q)) < bi_nChainWork b then Some hash else Some q) = Some r \<and> (m(hash \<mapsto> b)) r = Some rb \<and>
      (\<forall>q bq. (m(hash \<mapsto> b)) q = Some bq \<longrightarrow> bi_nChainWork bq \<le> bi_nChainWork rb)"
  proof (cases "pindexBestHeader s")
    case N: None
    then have "m = (\<lambda>_. None)" using ok by (simp add: index_ok_def best_header_ok_def m_def)
    then show ?thesis using N by simp
  next
    case (Some q)
    then obtain qb where q: "m q = Some qb" "\<And>x bx. m x = Some bx \<Longrightarrow> bi_nChainWork bx \<le> bi_nChainWork qb"
      using ok by (auto simp: index_ok_def best_header_ok_def m_def)
    then have "q \<noteq> hash" using h by auto
    show ?thesis
    proof (cases "bi_nChainWork qb < bi_nChainWork b")
      case True
      then have "bi_nChainWork bx \<le> bi_nChainWork b" if "m x = Some bx" for x bx using q(2)[OF that] by simp
      then show ?thesis using True Some q(1) by auto
    next
      case False
      then show ?thesis using Some q \<open>q \<noteq> hash\<close> by auto
    qed
  qed
  have "index_ok c \<lparr>mapBlockIndex = m(hash \<mapsto> b),
               pindexBestHeader = (case pindexBestHeader s of None \<Rightarrow> Some hash | Some q \<Rightarrow>
                 if bi_nChainWork (the (m q)) < bi_nChainWork b then Some hash else Some q),
               setDirtyBlockIndex = insert hash (setDirtyBlockIndex s)\<rparr>"
    using tt md wk best unfolding index_ok_def best_header_ok_def by (auto simp del: fun_upd_apply)
  then show ?thesis using eq h by (auto simp: m_def)
qed

section \<open>Every index the node builds\<close>

text \<open>A block whose hash equals the hash of its parent would be a fixed point of the hash function; the steps
leave it out.\<close>

inductive index_reach :: "consensus_params \<Rightarrow> (bytes \<Rightarrow> u256) \<Rightarrow> u64 \<Rightarrow> block_index_state \<Rightarrow> bool" for c H lit where
  Empty: "index_reach c H lit block_index_init"
| Add: "index_reach c H lit s \<Longrightarrow> hash \<noteq> hashPrevBlock (header block) \<Longrightarrow> stake_input_if_active c (mapBlockIndex s) block \<Longrightarrow>
    AddToBlockIndex c H lit hash block s = Some (s', p) \<Longrightarrow> index_reach c H lit s'"

lemma index_reach_ok: "index_reach c H lit s \<Longrightarrow> index_ok c s"
proof (induction rule: index_reach.induct)
  case Empty
  show ?case by (rule index_ok_init)
next
  case (Add s hash block s' p)
  then show ?case using AddToBlockIndex_ok[OF Add.IH Add.hyps(2,3), of H lit] by auto
qed

text \<open>The index after a list of blocks has arrived, newest first.\<close>

fun index_after :: "consensus_params \<Rightarrow> (bytes \<Rightarrow> u256) \<Rightarrow> u64 \<Rightarrow> (u256 \<times> CBlock) list \<Rightarrow> block_index_state" where
  "index_after c H lit [] = block_index_init"
| "index_after c H lit ((hash, block) # rest) =
     (let s = index_after c H lit rest in
      if hash \<noteq> hashPrevBlock (header block) \<and> stake_input_if_active c (mapBlockIndex s) block
      then (case AddToBlockIndex c H lit hash block s of Some (s', _) \<Rightarrow> s' | None \<Rightarrow> s) else s)"

lemma index_after_reach: "index_reach c H lit (index_after c H lit bs)"
  by (induction bs) (auto simp: Let_def intro: index_reach.intros split: option.splits)

interpretation built_index: timed_tree "mapBlockIndex (index_after c H lit bs)" for c H lit bs
  using index_reach_ok[OF index_after_reach] by (simp add: index_ok_def)


text \<open>A first block, then a second one on top of it.\<close>

definition sample_header :: "u256 \<Rightarrow> CBlock" where
  "sample_header prev = \<lparr>header = CBlockHeader_null\<lparr>hashPrevBlock := prev, nBits := 0x1e0ffff0, nTime := 1628165500\<rparr>, vtx = [], vchBlockSig = []\<rparr>"




end
