(* ===== verification/Merkle.thy ===== *)
theory Merkle
  imports Transaction Hash "HOL-Library.Countable"
begin

unbundle bit_operations_syntax

text \<open>
  Merkle roots and branches (`consensus/merkle.cpp`).

  `MerkleComputation` keeps one subtree hash per set bit of the number of leaves read.  The definitions are generic in
  the type of hashes and in the function \<open>H\<close> that combines two of them, so that lemmas can speak of a hash without
  collisions; the functions of the code are the instance at 256-bit words and double SHA-256.  `count` is a number
  below \<open>2 ^ 32\<close> in the code, which limits the leaves to as many.  \<open>None\<close> is a loop that does not end.
\<close>

section \<open>The constant-space computation\<close>

record 'h merkle_state =
  inner :: "nat \<Rightarrow> 'h"
  matchlevel :: int
  mutated :: bool
  pbranch :: "'h list"

definition extend_branch :: "'h \<Rightarrow> 'h \<Rightarrow> bool \<Rightarrow> bool \<Rightarrow> 'h list \<Rightarrow> 'h list \<times> bool" where
  "extend_branch innerl h matchh at_level branch =
     (if matchh then (branch @ [innerl], matchh) else if at_level then (branch @ [h], True) else (branch, matchh))"

text \<open>The loop over the low zero bits of `count`; its result is the level reached, the hash, whether it covers the leaf
looked for, and the flag and branch so far.\<close>

partial_function (option) leaf_loop :: "('h \<Rightarrow> 'h \<Rightarrow> 'h) \<Rightarrow> (nat \<Rightarrow> 'h) \<Rightarrow> int \<Rightarrow> nat \<Rightarrow> nat \<Rightarrow> 'h \<Rightarrow> bool \<Rightarrow> bool \<Rightarrow> 'h list \<Rightarrow> (nat \<times> 'h \<times> bool \<times> bool \<times> 'h list) option" where
  "leaf_loop H inn ml count level h matchh mut br =
     (if bit count level then Some (level, h, matchh, mut, br)
      else (case extend_branch (inn level) h matchh (ml = int level) br of
        (br', matchh') \<Rightarrow> leaf_loop H inn ml count (level + 1) (H (inn level) h) matchh' (mut \<or> inn level = h) br'))"

definition process_leaf :: "('h \<Rightarrow> 'h \<Rightarrow> 'h) \<Rightarrow> nat \<Rightarrow> nat \<Rightarrow> 'h \<Rightarrow> 'h merkle_state \<Rightarrow> 'h merkle_state option" where
  "process_leaf H branchpos count leaf s =
     Option.bind (leaf_loop H (inner s) (matchlevel s) (count + 1) 0 leaf (count = branchpos) (mutated s) (pbranch s))
       (\<lambda>(level, h, matchh, mut, br).
         Some \<lparr>inner = (inner s)(level := h), matchlevel = (if matchh then int level else matchlevel s), mutated = mut, pbranch = br\<rparr>)"

fun process_leaves :: "('h \<Rightarrow> 'h \<Rightarrow> 'h) \<Rightarrow> nat \<Rightarrow> nat \<Rightarrow> 'h list \<Rightarrow> 'h merkle_state \<Rightarrow> 'h merkle_state option" where
  "process_leaves H branchpos count [] s = Some s"
| "process_leaves H branchpos count (leaf # rest) s =
     Option.bind (process_leaf H branchpos count leaf s) (process_leaves H branchpos (count + 1) rest)"

partial_function (option) lowest_level :: "nat \<Rightarrow> nat \<Rightarrow> nat option" where
  "lowest_level count level = (if bit count level then Some level else lowest_level count (level + 1))"

partial_function (option) sweep_up :: "('h \<Rightarrow> 'h \<Rightarrow> 'h) \<Rightarrow> (nat \<Rightarrow> 'h) \<Rightarrow> int \<Rightarrow> nat \<Rightarrow> nat \<Rightarrow> 'h \<Rightarrow> bool \<Rightarrow> 'h list \<Rightarrow> (nat \<times> 'h \<times> bool \<times> 'h list) option" where
  "sweep_up H inn ml count level h matchh br =
     (if bit count level then Some (level, h, matchh, br)
      else (case extend_branch (inn level) h matchh (ml = int level) br of
        (br', matchh') \<Rightarrow> sweep_up H inn ml count (level + 1) (H (inn level) h) matchh' br'))"

partial_function (option) sweep :: "('h \<Rightarrow> 'h \<Rightarrow> 'h) \<Rightarrow> (nat \<Rightarrow> 'h) \<Rightarrow> int \<Rightarrow> nat \<Rightarrow> nat \<Rightarrow> 'h \<Rightarrow> bool \<Rightarrow> 'h list \<Rightarrow> ('h \<times> 'h list) option" where
  "sweep H inn ml count level h matchh br =
     (if count = 2 ^ level then Some (h, br)
      else Option.bind (sweep_up H inn ml (count + 2 ^ level) (level + 1) (H h h) matchh (if matchh then br @ [h] else br))
        (\<lambda>(level', h', matchh', br'). sweep H inn ml (count + 2 ^ level) level' h' matchh' br'))"

text \<open>The root, the malleability flag and the branch.  The code builds the branch only when it is asked for and
passes an impossible position otherwise.\<close>

definition MerkleComputation :: "('h :: zero \<Rightarrow> 'h \<Rightarrow> 'h) \<Rightarrow> 'h list \<Rightarrow> nat \<Rightarrow> ('h \<times> bool \<times> 'h list) option" where
  "MerkleComputation H leaves branchpos =
     (if leaves = [] then Some (0, False, [])
      else Option.bind (process_leaves H branchpos 0 leaves \<lparr>inner = (\<lambda>_. 0), matchlevel = - 1, mutated = False, pbranch = []\<rparr>) (\<lambda>s.
           Option.bind (lowest_level (length leaves) 0) (\<lambda>level.
           Option.bind (sweep H (inner s) (matchlevel s) (length leaves) level (inner s level) (matchlevel s = int level) (pbranch s))
             (\<lambda>(root, br). Some (root, mutated s, br)))))"

definition merkle_hash :: "bytes \<Rightarrow> u256 \<Rightarrow> u256 \<Rightarrow> u256" where
  "merkle_hash mem a b = Hash mem [Serialize_uint256 a, Serialize_uint256 b]"

definition ComputeMerkleRoot :: "bytes \<Rightarrow> u256 list \<Rightarrow> (u256 \<times> bool) option" where
  "ComputeMerkleRoot mem leaves =
     map_option (\<lambda>(root, mut, _). (root, mut)) (MerkleComputation (merkle_hash mem) leaves (2 ^ 32 - 1))"

definition ComputeMerkleBranch :: "bytes \<Rightarrow> u256 list \<Rightarrow> u32 \<Rightarrow> u256 list option" where
  "ComputeMerkleBranch mem leaves position =
     map_option (\<lambda>(_, _, br). br) (MerkleComputation (merkle_hash mem) leaves (unat position))"

fun root_from_branch :: "('h \<Rightarrow> 'h \<Rightarrow> 'h) \<Rightarrow> 'h \<Rightarrow> 'h list \<Rightarrow> nat \<Rightarrow> 'h" where
  "root_from_branch H hash [] nIndex = hash"
| "root_from_branch H hash (it # rest) nIndex =
     root_from_branch H (if odd nIndex then H it hash else H hash it) rest (nIndex div 2)"

definition ComputeMerkleRootFromBranch :: "bytes \<Rightarrow> u256 \<Rightarrow> u256 list \<Rightarrow> u32 \<Rightarrow> u256" where
  "ComputeMerkleRootFromBranch mem leaf vMerkleBranch nIndex = root_from_branch (merkle_hash mem) leaf vMerkleBranch (unat nIndex)"

definition BlockMerkleRoot :: "bytes \<Rightarrow> (bytes \<Rightarrow> u256) \<Rightarrow> CBlock \<Rightarrow> (u256 \<times> bool) option" where
  "BlockMerkleRoot mem H block = ComputeMerkleRoot mem (map (tx_GetHash H) (vtx block))"

definition BlockMerkleBranch :: "bytes \<Rightarrow> (bytes \<Rightarrow> u256) \<Rightarrow> CBlock \<Rightarrow> u32 \<Rightarrow> u256 list option" where
  "BlockMerkleBranch mem H block position = ComputeMerkleBranch mem (map (tx_GetHash H) (vtx block)) position"

section \<open>The reference\<close>

text \<open>Level by level: neighbours are combined, a last node without a neighbour is combined with itself.\<close>

fun merkle_level :: "('h \<Rightarrow> 'h \<Rightarrow> 'h) \<Rightarrow> 'h list \<Rightarrow> 'h list" where
  "merkle_level H [] = []"
| "merkle_level H [x] = [H x x]"
| "merkle_level H (x # y # zs) = H x y # merkle_level H zs"

lemma length_merkle_level: "length (merkle_level H xs) = (length xs + 1) div 2"
  by (induction H xs rule: merkle_level.induct) auto

function merkle_root :: "('h :: zero \<Rightarrow> 'h \<Rightarrow> 'h) \<Rightarrow> 'h list \<Rightarrow> 'h" where
  "merkle_root H xs = (if length xs \<le> 1 then (if xs = [] then 0 else hd xs) else merkle_root H (merkle_level H xs))"
  by auto
termination by (relation "measure (\<lambda>(_, xs). length xs)") (auto simp: length_merkle_level)

declare merkle_root.simps [simp del]

text \<open>The root of a tree of height \<open>k\<close> over between 1 and \<open>2 ^ k\<close> leaves, top down, and the branch of a leaf.\<close>

fun tree_root :: "('h \<Rightarrow> 'h \<Rightarrow> 'h) \<Rightarrow> nat \<Rightarrow> 'h list \<Rightarrow> 'h" where
  "tree_root H 0 xs = hd xs"
| "tree_root H (Suc k) xs =
     (if length xs \<le> 2 ^ k then H (tree_root H k xs) (tree_root H k xs)
      else H (tree_root H k (take (2 ^ k) xs)) (tree_root H k (drop (2 ^ k) xs)))"

fun tree_branch :: "('h \<Rightarrow> 'h \<Rightarrow> 'h) \<Rightarrow> nat \<Rightarrow> 'h list \<Rightarrow> nat \<Rightarrow> 'h list" where
  "tree_branch H 0 xs i = []"
| "tree_branch H (Suc k) xs i =
     (if length xs \<le> 2 ^ k then tree_branch H k xs i @ [tree_root H k xs]
      else if i < 2 ^ k then tree_branch H k (take (2 ^ k) xs) i @ [tree_root H k (drop (2 ^ k) xs)]
      else tree_branch H k (drop (2 ^ k) xs) (i - 2 ^ k) @ [tree_root H k (take (2 ^ k) xs)])"

section \<open>Nodes and the invariant of the computation\<close>

text \<open>The node at level \<open>l\<close> whose leaves start at position \<open>s\<close>, and the branch of the leaf at position \<open>p\<close> below it.\<close>

definition node :: "('h \<Rightarrow> 'h \<Rightarrow> 'h) \<Rightarrow> 'h list \<Rightarrow> nat \<Rightarrow> nat \<Rightarrow> 'h" where
  "node H xs l s = tree_root H l (take (2 ^ l) (drop s xs))"

definition node_branch :: "('h \<Rightarrow> 'h \<Rightarrow> 'h) \<Rightarrow> 'h list \<Rightarrow> nat \<Rightarrow> nat \<Rightarrow> nat \<Rightarrow> 'h list" where
  "node_branch H xs l s p = tree_branch H l (take (2 ^ l) (drop s xs)) (p - s)"

definition node_start :: "nat \<Rightarrow> nat \<Rightarrow> nat" where
  "node_start n l = (n div 2 ^ l - 1) * 2 ^ l"

lemma take_take_le: "m \<le> n \<Longrightarrow> take m (take n xs) = take m xs"
  by (simp add: min_def)

lemma node_Suc:
  assumes "s + 2 ^ l < length xs"
  shows "node H xs (Suc l) s = H (node H xs l s) (node H xs l (s + 2 ^ l))"
    and "s \<le> p \<Longrightarrow> p < s + 2 ^ l \<Longrightarrow> node_branch H xs (Suc l) s p = node_branch H xs l s p @ [node H xs l (s + 2 ^ l)]"
    and "s + 2 ^ l \<le> p \<Longrightarrow> node_branch H xs (Suc l) s p = node_branch H xs l (s + 2 ^ l) p @ [node H xs l s]"
  using assms by (auto simp: node_def node_branch_def drop_take take_take_le min_def add.commute)

lemma node_Suc_self:
  assumes "s < length xs" "length xs \<le> s + 2 ^ l"
  shows "node H xs (Suc l) s = H (node H xs l s) (node H xs l s)"
    and "node_branch H xs (Suc l) s p = node_branch H xs l s p @ [node H xs l s]"
  using assms by (auto simp: node_def node_branch_def)

definition inner_ok :: "('h \<Rightarrow> 'h \<Rightarrow> 'h) \<Rightarrow> 'h list \<Rightarrow> nat \<Rightarrow> (nat \<Rightarrow> 'h) \<Rightarrow> bool" where
  "inner_ok H xs n inn \<longleftrightarrow> (\<forall>l. bit n l \<longrightarrow> inn l = node H xs l (node_start n l))"

text \<open>The subtree of level \<open>l\<close> among the subtrees of \<open>n\<close> leaves covers leaf \<open>p\<close>.\<close>

definition covers :: "nat \<Rightarrow> nat \<Rightarrow> nat \<Rightarrow> bool" where
  "covers n l p \<longleftrightarrow> bit n l \<and> p div 2 ^ l + 1 = n div 2 ^ l"

definition branch_ok :: "('h \<Rightarrow> 'h \<Rightarrow> 'h) \<Rightarrow> 'h list \<Rightarrow> nat \<Rightarrow> nat \<Rightarrow> int \<Rightarrow> 'h list \<Rightarrow> bool" where
  "branch_ok H xs n p ml br \<longleftrightarrow>
     (if p < n then \<exists>l. ml = int l \<and> covers n l p \<and> br = node_branch H xs l (node_start n l) p else ml = - 1 \<and> br = [])"

definition pair_eq :: "('h \<Rightarrow> 'h \<Rightarrow> 'h) \<Rightarrow> 'h list \<Rightarrow> nat \<Rightarrow> nat \<Rightarrow> bool" where
  "pair_eq H xs l c \<longleftrightarrow> node H xs l (c - 2 * 2 ^ l) = node H xs l (c - 2 ^ l)"

lemma covers_unique: "covers n l p \<Longrightarrow> covers n k p \<Longrightarrow> l = k"
proof (induction l k rule: linorder_wlog)
  case (le l k)
  show ?case
  proof (rule ccontr)
    assume "l \<noteq> k"
    then obtain d where k: "k = Suc l + d" using le by (metis le_neq_implies_less less_iff_Suc_add add_Suc)
    have "p div 2 ^ Suc l = n div 2 ^ Suc l"
    proof -
      have o: "odd (n div 2 ^ l)" using le by (simp add: covers_def bit_iff_odd)
      have "p div 2 ^ l div 2 = n div 2 ^ l div 2" using le(2) o by (auto simp: covers_def elim!: oddE)
      then show ?thesis by (simp add: div_mult2_eq[symmetric] mult.commute)
    qed
    then have "p div 2 ^ k = n div 2 ^ k" by (simp add: k power_add div_mult2_eq)
    then show False using le(3) by (simp add: covers_def)
  qed
qed auto

lemma div_eq_bounds: "0 < d \<Longrightarrow> p div d = k \<longleftrightarrow> k * d \<le> p \<and> p < k * d + (d :: nat)"
  using div_times_less_eq_dividend[of p d] dividend_less_div_times[of d p] by (auto intro!: div_nat_eqI simp: mult.commute)

text \<open>One step upwards: a node that ends at \<open>c\<close> on an even level has a left neighbour among the subtrees kept.\<close>

lemma left_neighbour:
  assumes "2 ^ l dvd c" "\<not> bit c l" "n < c" "c \<le> n + 2 ^ l"
  shows "2 ^ Suc l dvd c" "bit n l" "node_start n l = c - 2 ^ Suc l" "2 ^ Suc l \<le> c"
    and "covers n l p \<longleftrightarrow> c - 2 ^ Suc l \<le> p \<and> p < c - 2 ^ l"
proof -
  obtain q where q: "c = 2 ^ l * q" using assms(1) by (auto elim: dvdE)
  have "even q" using assms(2) by (simp add: bit_iff_odd q)
  then obtain r where r: "q = 2 * r" by (auto elim: evenE)
  then have c: "c = 2 ^ Suc l * r" by (simp add: q)
  have r0: "0 < r" using assms(3) c by (cases r) auto
  show "2 ^ Suc l dvd c" "2 ^ Suc l \<le> c" using c r0 by auto
  have nd: "n div 2 ^ l = 2 * r - 1"
  proof (rule div_nat_eqI)
    show "2 ^ l * (2 * r - 1) \<le> n" using assms(4) by (simp add: q r algebra_simps diff_mult_distrib2)
    show "n < 2 ^ l * Suc (2 * r - 1)" using assms(3) r0 by (simp add: q r)
  qed
  then show b: "bit n l" using r0 by (simp add: bit_iff_odd)
  show "node_start n l = c - 2 ^ Suc l" using r0 by (simp add: node_start_def nd c algebra_simps diff_mult_distrib2)
  have e: "c - 2 ^ Suc l = (2 * r - 2) * 2 ^ l" "c - 2 ^ l = (2 * r - 2) * 2 ^ l + 2 ^ l"
    using r0 by (cases r; simp add: c algebra_simps)+
  have "covers n l p \<longleftrightarrow> p div 2 ^ l = 2 * r - 2" using b r0 by (auto simp: covers_def nd)
  also have "\<dots> \<longleftrightarrow> (2 * r - 2) * 2 ^ l \<le> p \<and> p < (2 * r - 2) * 2 ^ l + 2 ^ l"
    by (rule div_eq_bounds) simp
  finally show "covers n l p \<longleftrightarrow> c - 2 ^ Suc l \<le> p \<and> p < c - 2 ^ l" by (simp only: e)
qed

text \<open>The loop that climbs while the bits of the count are zero, from both places it is run.\<close>

definition climb_match :: "'h list \<Rightarrow> nat \<Rightarrow> nat \<Rightarrow> nat \<Rightarrow> bool" where
  "climb_match xs c l p \<longleftrightarrow> c - 2 ^ l \<le> p \<and> p < c \<and> p < length xs"

definition climb_branch :: "('h \<Rightarrow> 'h \<Rightarrow> 'h) \<Rightarrow> 'h list \<Rightarrow> nat \<Rightarrow> nat \<Rightarrow> nat \<Rightarrow> 'h list \<Rightarrow> 'h list" where
  "climb_branch H xs c l p obr = (if climb_match xs c l p then node_branch H xs l (c - 2 ^ l) p else obr)"

lemma climb_step:
  assumes a: "2 ^ l dvd c" "\<not> bit c l" "n < c" "c \<le> n + 2 ^ l" "n \<le> length xs" "c - 2 ^ l < length xs"
    and i: "inner_ok H xs n inn" and b: "branch_ok H xs n p ml obr"
  shows "inn l = node H xs l (c - 2 * 2 ^ l)"
    and "node H xs (Suc l) (c - 2 ^ Suc l) = H (inn l) (node H xs l (c - 2 ^ l))"
    and "extend_branch (inn l) (node H xs l (c - 2 ^ l)) (climb_match xs c l p) (ml = int l) (climb_branch H xs c l p obr)
        = (climb_branch H xs c (Suc l) p obr, climb_match xs c (Suc l) p)"
proof -
  note ln = left_neighbour[OF a(1-4)]
  obtain t where t: "c = t + 2 * 2 ^ l" using ln(4) by (metis le_Suc_ex add.commute power_Suc)
  have e: "c - 2 ^ l = t + 2 ^ l" "c - 2 ^ Suc l = t" "c - 2 * 2 ^ l = t" using t by simp_all
  have lt: "t + 2 ^ l < length xs" using a(6) by (simp only: e)
  have il: "inn l = node H xs l t" using i ln(2,3) by (simp only: inner_ok_def e)
  then show "inn l = node H xs l (c - 2 * 2 ^ l)" by (simp only: e)
  show "node H xs (Suc l) (c - 2 ^ Suc l) = H (inn l) (node H xs l (c - 2 ^ l))"
    unfolding e il by (rule node_Suc(1)[OF lt])
  have cv: "covers n l p \<longleftrightarrow> t \<le> p \<and> p < t + 2 ^ l" using ln(5)[of p] by (simp only: e)
  have pn: "p < n" if "p < t + 2 ^ l" using that a(4) t by simp
  have ml: "ml = int l \<longleftrightarrow> t \<le> p \<and> p < t + 2 ^ l"
    using b covers_unique[of n l p] cv pn by (auto simp: branch_ok_def split: if_splits)
  have br: "obr = node_branch H xs l t p" if "ml = int l"
    using b that ln(3) e(2) by (auto simp: branch_ok_def split: if_splits)
  have m1: "climb_match xs c l p \<longleftrightarrow> t + 2 ^ l \<le> p \<and> p < c \<and> p < length xs" by (simp only: climb_match_def e)
  have m2: "climb_match xs c (Suc l) p \<longleftrightarrow> climb_match xs c l p \<or> ml = int l"
    unfolding climb_match_def e ml using pn a(3,5) by auto
  show "extend_branch (inn l) (node H xs l (c - 2 ^ l)) (climb_match xs c l p) (ml = int l) (climb_branch H xs c l p obr)
      = (climb_branch H xs c (Suc l) p obr, climb_match xs c (Suc l) p)"
    unfolding climb_branch_def m2 e il
    using m1 ml br node_Suc(2,3)[OF lt, where p = p and H = H] by (auto simp: extend_branch_def)
qed

lemma climb:
  assumes "0 < c" "2 ^ l dvd c" "n < c" "c \<le> n + 2 ^ l" "n \<le> length xs" "c - 2 ^ l < length xs"
    and "inner_ok H xs n inn" "branch_ok H xs n p ml obr"
  shows "\<exists>l'\<ge>l. bit c l' \<and> 2 ^ l' dvd c \<and>
    (\<forall>mut. leaf_loop H inn ml c l (node H xs l (c - 2 ^ l)) (climb_match xs c l p) mut (climb_branch H xs c l p obr)
      = Some (l', node H xs l' (c - 2 ^ l'), climb_match xs c l' p, (mut \<or> (\<exists>j\<ge>l. j < l' \<and> pair_eq H xs j c)), climb_branch H xs c l' p obr)) \<and>
    sweep_up H inn ml c l (node H xs l (c - 2 ^ l)) (climb_match xs c l p) (climb_branch H xs c l p obr)
      = Some (l', node H xs l' (c - 2 ^ l'), climb_match xs c l' p, climb_branch H xs c l' p obr)"
  using assms
proof (induction "c div 2 ^ l" arbitrary: l rule: less_induct)
  case less
  note lf = leaf_loop.simps[of H inn ml c l] and sw = sweep_up.simps[of H inn ml c l]
  show ?case
  proof (cases "bit c l")
    case True
    then show ?thesis using less.prems(2) by (intro exI[of _ l]) (auto simp: lf sw)
  next
    case False
    note st = climb_step[OF less.prems(2) False less.prems(3-8)]
    note ln = left_neighbour[OF less.prems(2) False less.prems(3,4)]
    have "c div 2 ^ Suc l < c div 2 ^ l"
    proof -
      have "2 ^ l \<le> c" using less.prems(1,2) by (auto intro: dvd_imp_le)
      then have "0 < c div 2 ^ l" by (simp add: div_greater_zero_iff)
      then show ?thesis by (simp add: div_mult2_eq mult.commute[of 2])
    qed
    moreover have "c \<le> n + 2 ^ Suc l" "c - 2 ^ Suc l < length xs" using less.prems(4,6) by auto
    ultimately obtain l' where l': "Suc l \<le> l'" "bit c l'" "2 ^ l' dvd c"
      and ll: "\<And>mut. leaf_loop H inn ml c (Suc l) (node H xs (Suc l) (c - 2 ^ Suc l)) (climb_match xs c (Suc l) p) mut (climb_branch H xs c (Suc l) p obr)
          = Some (l', node H xs l' (c - 2 ^ l'), climb_match xs c l' p, (mut \<or> (\<exists>j\<ge>Suc l. j < l' \<and> pair_eq H xs j c)), climb_branch H xs c l' p obr)"
      and sl: "sweep_up H inn ml c (Suc l) (node H xs (Suc l) (c - 2 ^ Suc l)) (climb_match xs c (Suc l) p) (climb_branch H xs c (Suc l) p obr)
          = Some (l', node H xs l' (c - 2 ^ l'), climb_match xs c l' p, climb_branch H xs c l' p obr)"
      using less.hyps[of "Suc l", OF _ less.prems(1) ln(1) less.prems(3) _ less.prems(5) _ less.prems(7,8)] by blast
    have pe: "inn l = node H xs l (c - 2 ^ l) \<longleftrightarrow> pair_eq H xs l c" unfolding st(1) pair_eq_def ..
    have ex: "(\<exists>j\<ge>l. j < l' \<and> pair_eq H xs j c) \<longleftrightarrow> pair_eq H xs l c \<or> (\<exists>j\<ge>Suc l. j < l' \<and> pair_eq H xs j c)"
      using l'(1) by (metis Suc_le_eq le_eq_less_or_eq order_refl)
    have "\<forall>mut. leaf_loop H inn ml c l (node H xs l (c - 2 ^ l)) (climb_match xs c l p) mut (climb_branch H xs c l p obr)
        = Some (l', node H xs l' (c - 2 ^ l'), climb_match xs c l' p, (mut \<or> (\<exists>j\<ge>l. j < l' \<and> pair_eq H xs j c)), climb_branch H xs c l' p obr)"
      unfolding lf ex using False by (simp only: if_False st(3) prod.case st(2)[symmetric] Suc_eq_plus1[symmetric] ll pe disj_assoc simp_thms)
    moreover have "sweep_up H inn ml c l (node H xs l (c - 2 ^ l)) (climb_match xs c l p) (climb_branch H xs c l p obr)
        = Some (l', node H xs l' (c - 2 ^ l'), climb_match xs c l' p, climb_branch H xs c l' p obr)"
      unfolding sw using False by (simp only: if_False st(3) prod.case st(2)[symmetric] Suc_eq_plus1[symmetric] sl)
    ultimately show ?thesis using l' by (intro exI[of _ l']) simp
  qed
qed

text \<open>Two equal neighbours below a node whose leaves are all among the first \<open>n\<close>.\<close>

definition twins :: "('h \<Rightarrow> 'h \<Rightarrow> 'h) \<Rightarrow> 'h list \<Rightarrow> nat \<Rightarrow> bool" where
  "twins H xs n \<longleftrightarrow> (\<exists>c l. 0 < c \<and> c \<le> n \<and> 2 ^ Suc l dvd c \<and> pair_eq H xs l c)"

lemma pred_div: "\<not> d dvd c \<Longrightarrow> (c - 1) div d = c div (d :: nat)"
  by (cases c) (auto simp: div_Suc dvd_eq_mod_eq_0 split: if_splits)

lemma pred_div_dvd: "0 < c \<Longrightarrow> d dvd c \<Longrightarrow> (c - 1) div d = c div (d :: nat) - 1"
  by (cases c) (auto simp: div_Suc dvd_eq_mod_eq_0 split: if_splits)

text \<open>How the binary digits of a count change when it is increased.\<close>

lemma increment_bits:
  assumes "bit c l" "2 ^ l dvd (c :: nat)"
  shows "k < l \<Longrightarrow> \<not> bit c k" "l < k \<Longrightarrow> (c - 1) div 2 ^ k = c div 2 ^ k" "\<not> bit (c - 1) l" "0 < c"
    and "2 ^ Suc k dvd c \<longleftrightarrow> k < l"
proof -
  show c0: "0 < c" using assms(1) by (cases c) auto
  have od: "odd (c div 2 ^ l)" using assms(1) by (simp add: bit_iff_odd)
  have nd: "\<not> 2 ^ Suc l dvd c" using od assms(2) by (auto elim!: dvdE)
  show low: "k < l \<Longrightarrow> \<not> bit c k"
  proof -
    assume "k < l"
    then have "2 ^ Suc k dvd c" using assms(2) power_le_dvd Suc_leI by blast
    then show "\<not> bit c k" by (auto simp: bit_iff_odd elim!: dvdE)
  qed
  have up: "\<not> 2 ^ k dvd c" if "l < k" for k using nd that power_le_dvd Suc_leI by blast
  show "l < k \<Longrightarrow> (c - 1) div 2 ^ k = c div 2 ^ k" using up by (intro pred_div)
  show "\<not> bit (c - 1) l" using pred_div_dvd[OF c0 assms(2)] od by (simp add: bit_iff_odd)
  show "2 ^ Suc k dvd c \<longleftrightarrow> k < l"
    using up[where k = "Suc k"] power_le_dvd[OF assms(2)] by (cases "k < l") (auto simp del: power_Suc)
qed

lemma process_leaf_ok:
  assumes n: "n < length xs" and i: "inner_ok H xs n (inner s)" and b: "branch_ok H xs n p (matchlevel s) (pbranch s)"
    and m: "mutated s \<longleftrightarrow> twins H xs n"
  shows "\<exists>s'. process_leaf H p n (xs ! n) s = Some s' \<and> inner_ok H xs (Suc n) (inner s') \<and>
    branch_ok H xs (Suc n) p (matchlevel s') (pbranch s') \<and> (mutated s' \<longleftrightarrow> twins H xs (Suc n))"
proof -
  let ?c = "Suc n"
  have z: "node H xs 0 (?c - 2 ^ 0) = xs ! n" "climb_match xs ?c 0 p \<longleftrightarrow> n = p"
    using n by (auto simp: node_def climb_match_def hd_drop_conv_nth take_Suc_conv_app_nth hd_take)
  have zb: "climb_branch H xs ?c 0 p (pbranch s) = pbranch s"
    using b z(2) by (auto simp: climb_branch_def node_branch_def branch_ok_def)
  obtain l where l: "bit ?c l" "2 ^ l dvd ?c"
    and ll: "leaf_loop H (inner s) (matchlevel s) (n + 1) 0 (xs ! n) (n = p) (mutated s) (pbranch s)
      = Some (l, node H xs l (?c - 2 ^ l), climb_match xs ?c l p, (mutated s \<or> (\<exists>j\<ge>0. j < l \<and> pair_eq H xs j ?c)), climb_branch H xs ?c l p (pbranch s))"
    using climb[of ?c 0 n xs H "inner s" p "matchlevel s" "pbranch s", OF _ _ _ _ _ _ i b] n
    unfolding z zb by auto
  define s' where "s' = \<lparr>inner = (inner s)(l := node H xs l (?c - 2 ^ l)), matchlevel = (if climb_match xs ?c l p then int l else matchlevel s),
      mutated = (mutated s \<or> (\<exists>j<l. pair_eq H xs j ?c)), pbranch = climb_branch H xs ?c l p (pbranch s)\<rparr>"
  note ib = increment_bits[OF l, simplified]
  have st: "node_start ?c l = ?c - 2 ^ l"
    using l(2) by (auto simp: node_start_def diff_mult_distrib elim!: dvdE)
  have up: "bit ?c k \<longleftrightarrow> bit n k" "node_start ?c k = node_start n k" "covers ?c k p \<longleftrightarrow> covers n k p" if "l < k" for k
    using ib(2)[OF that] by (auto simp: bit_iff_odd node_start_def covers_def)
  have "process_leaf H p n (xs ! n) s = Some s'" unfolding process_leaf_def ll by (simp add: s'_def)
  moreover have "inner_ok H xs ?c (inner s')"
    unfolding inner_ok_def
  proof (intro allI impI)
    fix k assume "bit ?c k"
    then consider "k = l" | "l < k" using ib(1) by (metis linorder_neqE_nat)
    then show "inner s' k = node H xs k (node_start ?c k)"
      using \<open>bit ?c k\<close> i up st by cases (auto simp: s'_def inner_ok_def)
  qed
  moreover have "mutated s' \<longleftrightarrow> twins H xs ?c"
    using m ib(5) by (auto simp: s'_def twins_def le_Suc_eq)
  moreover have "branch_ok H xs ?c p (matchlevel s') (pbranch s')"
  proof (cases "p < ?c")
    case lt: True
    show ?thesis
    proof (cases "climb_match xs ?c l p")
      case True
      obtain q where q: "?c = 2 ^ l * Suc q" using l(2) by (metis dvdE mult_0_right nat.distinct(1) not0_implies_Suc)
      have "?c - 2 ^ l = q * 2 ^ l" using q by simp
      then have "p div 2 ^ l = q" using True lt q by (subst div_eq_bounds) (simp_all add: climb_match_def algebra_simps)
      then have "covers ?c l p" using l(1) by (simp add: covers_def q)
      then show ?thesis using True lt st by (simp add: branch_ok_def s'_def climb_branch_def)
    next
      case False
      then have pl: "p < ?c - 2 ^ l" using lt n by (auto simp: climb_match_def)
      then have pn: "p < n" using zero_less_power[of "2 :: nat" l] by linarith
      then obtain k where k: "matchlevel s = int k" "covers n k p" "pbranch s = node_branch H xs k (node_start n k) p"
        using b by (auto simp: branch_ok_def)
      have "\<not> k < l"
      proof
        assume "k < l"
        then have "2 ^ k dvd ?c" "\<not> bit ?c k" using l(2) power_le_dvd ib(1) by (blast intro: less_imp_le)+
        then have "?c - 2 ^ Suc k \<le> p" using left_neighbour(5)[of k ?c n p] k(2) by simp
        moreover have "(2 :: nat) ^ Suc k \<le> 2 ^ l" using \<open>k < l\<close> by (intro power_increasing) auto
        ultimately show False using pl by linarith
      qed
      moreover have "k \<noteq> l" using k(2) ib(3) by (auto simp: covers_def)
      ultimately have "l < k" by simp
      then show ?thesis using False k up lt by (auto simp: branch_ok_def s'_def climb_branch_def)
    qed
  next
    case False
    then show ?thesis using b by (auto simp: branch_ok_def s'_def climb_branch_def climb_match_def)
  qed
  ultimately show ?thesis by blast
qed

lemma process_leaves_ok:
  assumes "n \<le> length xs" "inner_ok H xs n (inner s)" "branch_ok H xs n p (matchlevel s) (pbranch s)" "mutated s \<longleftrightarrow> twins H xs n"
  shows "\<exists>s'. process_leaves H p n (drop n xs) s = Some s' \<and> inner_ok H xs (length xs) (inner s') \<and>
    branch_ok H xs (length xs) p (matchlevel s') (pbranch s') \<and> (mutated s' \<longleftrightarrow> twins H xs (length xs))"
  using assms
proof (induction "length xs - n" arbitrary: n s)
  case 0
  then show ?case by simp
next
  case (Suc d)
  then have n: "n < length xs" by simp
  then have d: "drop n xs = xs ! n # drop (Suc n) xs" by (simp add: Cons_nth_drop_Suc)
  obtain s' where s': "process_leaf H p n (xs ! n) s = Some s'" "inner_ok H xs (Suc n) (inner s')"
    "branch_ok H xs (Suc n) p (matchlevel s') (pbranch s')" "mutated s' \<longleftrightarrow> twins H xs (Suc n)"
    using process_leaf_ok[OF n Suc.prems(2-4)] by blast
  show ?case using Suc.hyps(1)[OF _ _ s'(2-4)] Suc.hyps(2) n s'(1) by (simp add: d)
qed

lemma lowest_level_defined:
  assumes "0 < c" "2 ^ l dvd c"
  shows "\<exists>l'. lowest_level c l = Some l' \<and> bit c l' \<and> 2 ^ l' dvd c"
  using assms
proof (induction "c div 2 ^ l" arbitrary: l rule: less_induct)
  case less
  show ?case
  proof (cases "bit c l")
    case True
    then show ?thesis using less.prems by (subst lowest_level.simps) simp
  next
    case False
    obtain q where q: "c = 2 ^ l * q" using less.prems(2) by (auto elim: dvdE)
    then obtain r where "q = 2 * r" using False by (auto simp: bit_iff_odd elim: evenE)
    then have "2 ^ Suc l dvd c" "c div 2 ^ Suc l < c div 2 ^ l" using q less.prems(1) by simp_all
    then show ?thesis using less.hyps less.prems(1) False by (subst lowest_level.simps) simp
  qed
qed

lemma covers_last:
  assumes "bit c l" "2 ^ l dvd c"
  shows "covers c l p \<longleftrightarrow> c - 2 ^ l \<le> p \<and> p < c"
proof -
  have "0 < c" using assms(1) by (cases c) auto
  then obtain q where q: "c = 2 ^ l * Suc q" using assms(2) by (metis dvdE mult_0_right less_irrefl not0_implies_Suc)
  have "covers c l p \<longleftrightarrow> p div 2 ^ l = q" using assms(1) by (auto simp: covers_def q)
  also have "\<dots> \<longleftrightarrow> q * 2 ^ l \<le> p \<and> p < q * 2 ^ l + 2 ^ l" by (rule div_eq_bounds) simp
  finally show ?thesis by (simp add: q algebra_simps)
qed

lemma sweep_ok:
  assumes "2 ^ l dvd c" "bit c l" "length xs \<le> c" "c - 2 ^ l < length xs" "l = 0 \<or> 2 ^ (l - 1) < length xs"
    and i: "inner_ok H xs (length xs) inn" and b: "branch_ok H xs (length xs) p ml obr"
  shows "\<exists>k. length xs \<le> 2 ^ k \<and> (k = 0 \<or> 2 ^ (k - 1) < length xs) \<and>
    sweep H inn ml c l (node H xs l (c - 2 ^ l)) (climb_match xs c l p) (climb_branch H xs c l p obr)
      = Some (node H xs k 0, if p < length xs then node_branch H xs k 0 p else [])"
  using assms(1-5)
proof (induction "c div 2 ^ l" arbitrary: c l rule: less_induct)
  case less
  let ?N = "length xs"
  note sw = sweep.simps[of H inn ml c l]
  show ?case
  proof (cases "c = 2 ^ l")
    case True
    then have m: "climb_match xs c l p \<longleftrightarrow> p < ?N" using less.prems(3) by (auto simp: climb_match_def)
    have br: "climb_branch H xs c l p obr = (if p < ?N then node_branch H xs l 0 p else [])"
      using b True m by (auto simp: climb_branch_def branch_ok_def)
    have "sweep H inn ml c l (node H xs l (c - 2 ^ l)) (climb_match xs c l p) (climb_branch H xs c l p obr) = Some (node H xs l 0, if p < ?N then node_branch H xs l 0 p else [])"
      unfolding sw br using True by simp
    then show ?thesis using less.prems(3,5) True by blast
  next
    case False
    obtain q where q: "c = (2 * q + 1) * 2 ^ l" "0 < q"
    proof -
      obtain r where r: "c = 2 ^ l * r" using less.prems(1) by (auto elim: dvdE)
      then have "odd r" using less.prems(2) by (simp add: bit_iff_odd)
      then obtain q where "r = 2 * q + 1" by (auto elim: oddE)
      moreover have "q \<noteq> 0" using False r calculation by auto
      ultimately show ?thesis using that r by (simp add: mult.commute)
    qed
    define c' where "c' = c + 2 ^ l"
    have c': "c' = (q + 1) * 2 ^ Suc l" "c' - 2 ^ Suc l = c - 2 ^ l" using q by (simp_all add: c'_def algebra_simps)
    have s: "c - 2 ^ l < ?N" "?N \<le> c - 2 ^ l + 2 ^ l" using less.prems(3,4) q by auto
    note self = node_Suc_self[OF s, of H]
    have dv: "2 ^ Suc l dvd c'" unfolding c'(1) by (rule dvd_triv_right)
    have pre: "0 < c'" "2 ^ Suc l dvd c'" "?N < c'" "c' \<le> ?N + 2 ^ Suc l" "?N \<le> ?N" "c' - 2 ^ Suc l < ?N"
      using less.prems(3,4) dv c'(2) by (auto simp: c'_def simp del: power_Suc)
    have m: "climb_match xs c' (Suc l) p = climb_match xs c l p"
      unfolding climb_match_def c'(2) using less.prems(3) by (auto simp: c'_def)
    have br: "climb_branch H xs c' (Suc l) p obr = (if climb_match xs c l p then climb_branch H xs c l p obr @ [node H xs l (c - 2 ^ l)] else climb_branch H xs c l p obr)"
      unfolding climb_branch_def m c'(2) self by simp
    obtain l' where l': "Suc l \<le> l'" "bit c' l'" "2 ^ l' dvd c'"
      and up: "sweep_up H inn ml c' (Suc l) (node H xs (Suc l) (c' - 2 ^ Suc l)) (climb_match xs c' (Suc l) p) (climb_branch H xs c' (Suc l) p obr)
          = Some (l', node H xs l' (c' - 2 ^ l'), climb_match xs c' l' p, climb_branch H xs c' l' p obr)"
      using climb[OF pre i b] by blast
    have "sweep H inn ml c l (node H xs l (c - 2 ^ l)) (climb_match xs c l p) (climb_branch H xs c l p obr)
        = sweep H inn ml c' l' (node H xs l' (c' - 2 ^ l')) (climb_match xs c' l' p) (climb_branch H xs c' l' p obr)"
      using False up unfolding sw br m c'(2) self by (simp add: c'_def)
    moreover have "c' div 2 ^ l' < c div 2 ^ l"
    proof -
      have "c' div 2 ^ l' \<le> c' div 2 ^ Suc l" using l'(1) by (intro div_le_mono2 power_increasing) auto
      then show ?thesis using q by (simp add: c')
    qed
    moreover have "2 ^ l' \<le> c'" using l'(3) pre(1) by (rule dvd_imp_le)
    moreover have "2 ^ (l' - 1) < ?N"
    proof (cases "l' = Suc l")
      case True
      have "1 * 2 ^ l \<le> 2 * q * 2 ^ l" using q(2) by (intro mult_right_mono) auto
      moreover have "c - 2 ^ l = 2 * q * 2 ^ l" using q(1) by (simp add: algebra_simps)
      ultimately have "2 ^ l < ?N" using s(1) by linarith
      then show ?thesis by (simp add: True)
    next
      case False
      then obtain j where j: "l' = Suc j" "Suc l \<le> j" using l'(1) by (cases l') auto
      then have "(2 :: nat) ^ Suc l \<le> 2 ^ j" by (intro power_increasing) auto
      then show ?thesis using pre(6) \<open>2 ^ l' \<le> c'\<close> j by simp
    qed
    moreover have "c' - 2 ^ l' < ?N"
    proof -
      have "(2 :: nat) ^ Suc l \<le> 2 ^ l'" using l'(1) by (intro power_increasing) auto
      then show ?thesis using pre(6) by linarith
    qed
    ultimately show ?thesis using less.hyps[of c' l'] l' pre(3) by simp
  qed
qed

section \<open>The tree top down and level by level\<close>

lemma merkle_level_split: "even (length xs) \<Longrightarrow> merkle_level H (xs @ ys) = merkle_level H xs @ merkle_level H ys"
  by (induction H xs rule: merkle_level.induct) auto

lemma tree_root_level:
  "0 < length xs \<Longrightarrow> length xs \<le> 2 ^ Suc k \<Longrightarrow> tree_root H (Suc k) xs = tree_root H k (merkle_level H xs)"
proof (induction k arbitrary: xs)
  case 0
  then consider x where "xs = [x]" | x y where "xs = [x, y]" by (cases xs; cases "tl xs") auto
  then show ?case by cases simp_all
next
  case (Suc k)
  have len: "length (merkle_level H xs) = (length xs + 1) div 2" by (rule length_merkle_level)
  show ?case
  proof (cases "length xs \<le> 2 ^ Suc k")
    case True
    then have "length (merkle_level H xs) \<le> 2 ^ k" by (simp add: len)
    then show ?thesis using True Suc.IH[OF Suc.prems(1) True] by (simp del: tree_root.simps(2) add: tree_root.simps(2)[of H k "merkle_level H xs"] tree_root.simps(2)[of H "Suc k" xs])
  next
    case False
    let ?A = "take (2 ^ Suc k) xs" and ?B = "drop (2 ^ Suc k) xs"
    have la: "length ?A = 2 ^ Suc k" using False by simp
    have ml: "merkle_level H xs = merkle_level H ?A @ merkle_level H ?B"
      using merkle_level_split[of ?A H ?B] la by simp
    have lm: "length (merkle_level H ?A) = 2 ^ k" unfolding length_merkle_level la by simp
    have ge: "\<not> length (merkle_level H xs) \<le> 2 ^ k" using False by (simp add: len)
    have "tree_root H (Suc k) ?A = tree_root H k (merkle_level H ?A)" using la by (intro Suc.IH) (simp_all del: power_Suc length_take)
    moreover have "tree_root H (Suc k) ?B = tree_root H k (merkle_level H ?B)" using False Suc.prems by (intro Suc.IH) auto
    moreover have "tree_root H (Suc (Suc k)) xs = H (tree_root H (Suc k) ?A) (tree_root H (Suc k) ?B)"
      using False by (simp only: tree_root.simps(2)[of H "Suc k" xs] if_False)
    moreover have "tree_root H (Suc k) (merkle_level H xs) = H (tree_root H k (merkle_level H ?A)) (tree_root H k (merkle_level H ?B))"
      using ge lm by (simp only: tree_root.simps(2)[of H k "merkle_level H xs"] if_False) (simp add: ml)
    ultimately show ?thesis by simp
  qed
qed

lemma merkle_root_tree:
  "0 < length xs \<Longrightarrow> length xs \<le> 2 ^ k \<Longrightarrow> k = 0 \<or> 2 ^ (k - 1) < length xs \<Longrightarrow> merkle_root H xs = tree_root H k xs"
proof (induction k arbitrary: xs)
  case 0
  then show ?case by (subst merkle_root.simps) auto
next
  case (Suc k)
  have len: "length (merkle_level H xs) = (length xs + 1) div 2" by (rule length_merkle_level)
  have "1 \<le> (2 :: nat) ^ k" by simp
  then have big: "\<not> length xs \<le> 1" using Suc.prems(3) unfolding diff_Suc_1 by linarith
  have "k = 0 \<or> 2 ^ (k - 1) < length (merkle_level H xs)" using Suc.prems(3) by (cases k) (auto simp: len)
  moreover have "length (merkle_level H xs) \<le> 2 ^ k" "0 < length (merkle_level H xs)" using Suc.prems by (auto simp: len)
  ultimately have "merkle_root H (merkle_level H xs) = tree_root H k (merkle_level H xs)" by (intro Suc.IH)
  then show ?case using big tree_root_level[OF Suc.prems(1,2)] by (subst merkle_root.simps) simp
qed

lemma MerkleComputation_tree:
  assumes "xs \<noteq> []"
  shows "\<exists>k. length xs \<le> 2 ^ k \<and> (k = 0 \<or> 2 ^ (k - 1) < length xs) \<and>
    MerkleComputation H xs p = Some (tree_root H k xs, twins H xs (length xs), if p < length xs then tree_branch H k xs p else [])"
proof -
  let ?s = "\<lparr>inner = (\<lambda>_. 0), matchlevel = - 1, mutated = False, pbranch = []\<rparr> :: 'a merkle_state"
  obtain s where s: "process_leaves H p 0 (drop 0 xs) ?s = Some s" "inner_ok H xs (length xs) (inner s)"
    "branch_ok H xs (length xs) p (matchlevel s) (pbranch s)" "mutated s \<longleftrightarrow> twins H xs (length xs)"
    using process_leaves_ok[of 0 xs H ?s p] by (auto simp: inner_ok_def branch_ok_def twins_def)
  obtain l where l: "lowest_level (length xs) 0 = Some l" "bit (length xs) l" "2 ^ l dvd length xs"
    using lowest_level_defined[of "length xs" 0] assms by auto
  have le: "2 ^ l \<le> length xs" using l(3) assms by (intro dvd_imp_le) auto
  have st: "node_start (length xs) l = length xs - 2 ^ l"
    using l(3) by (auto simp: node_start_def diff_mult_distrib elim!: dvdE)
  have h: "inner s l = node H xs l (length xs - 2 ^ l)" using s(2) l(2) st by (simp add: inner_ok_def)
  have cm: "climb_match xs (length xs) l p \<longleftrightarrow> matchlevel s = int l"
    using s(3) covers_last[OF l(2,3), of p] covers_unique[of "length xs" l p] by (auto simp: climb_match_def branch_ok_def split: if_splits)
  have cb: "climb_branch H xs (length xs) l p (pbranch s) = pbranch s"
    using cm s(3) st by (auto simp: climb_branch_def branch_ok_def climb_match_def split: if_splits)
  have "l = 0 \<or> 2 ^ (l - 1) < length xs"
  proof (cases l)
    case (Suc j)
    have "(2 :: nat) ^ j < 2 ^ l" by (simp add: Suc)
    then have "2 ^ j < length xs" using le by (rule less_le_trans)
    then show ?thesis by (simp add: Suc)
  qed simp
  moreover have "length xs - 2 ^ l < length xs" using assms by simp
  ultimately obtain k where k: "length xs \<le> 2 ^ k" "k = 0 \<or> 2 ^ (k - 1) < length xs"
    and sw: "sweep H (inner s) (matchlevel s) (length xs) l (inner s l) (matchlevel s = int l) (pbranch s)
      = Some (node H xs k 0, if p < length xs then node_branch H xs k 0 p else [])"
    using sweep_ok[OF l(3,2) order_refl _ _ s(2,3)] unfolding h cm cb by blast
  have "MerkleComputation H xs p = Some (tree_root H k xs, twins H xs (length xs), if p < length xs then tree_branch H k xs p else [])"
    using assms s(1,4) l(1) sw k(1) by (simp add: MerkleComputation_def node_def node_branch_def)
  then show ?thesis using k by blast
qed

section \<open>Branches\<close>

lemma length_tree_branch [simp]: "length (tree_branch H k xs i) = k"
  by (induction k arbitrary: xs i) auto

lemma root_from_branch_append:
  "root_from_branch H h (a @ b) i = root_from_branch H (root_from_branch H h a i) b (i div 2 ^ length a)"
  by (induction a arbitrary: h i) (auto simp: div_mult2_eq)

lemma root_from_branch_mod: "root_from_branch H h br (i mod 2 ^ length br) = root_from_branch H h br i"
proof (induction br arbitrary: h i)
  case (Cons x br)
  have "i mod 2 ^ length (x # br) div 2 = i div 2 mod 2 ^ length br" by (simp add: mod_mult2_eq)
  moreover have "odd (i mod 2 ^ length (x # br)) = odd i" by (simp add: dvd_mod_iff)
  ultimately show ?case using Cons.IH by (simp del: length_Cons)
qed simp

lemma root_from_tree_branch:
  "i < length xs \<Longrightarrow> length xs \<le> 2 ^ k \<Longrightarrow> root_from_branch H (xs ! i) (tree_branch H k xs i) i = tree_root H k xs"
proof (induction k arbitrary: xs i)
  case 0
  then show ?case by (cases xs) auto
next
  case (Suc k)
  consider "length xs \<le> 2 ^ k" | "\<not> length xs \<le> 2 ^ k" "i < 2 ^ k" | "\<not> length xs \<le> 2 ^ k" "2 ^ k \<le> i" by linarith
  then show ?case
  proof cases
    case 1
    then have "i div 2 ^ k = 0" using Suc.prems by simp
    then show ?thesis using Suc.IH[OF Suc.prems(1) 1] 1 by (simp add: root_from_branch_append)
  next
    case 2
    then show ?thesis using Suc.IH[of i "take (2 ^ k) xs"] by (simp add: root_from_branch_append)
  next
    case 3
    let ?B = "drop (2 ^ k) xs"
    have "root_from_branch H (?B ! (i - 2 ^ k)) (tree_branch H k ?B (i - 2 ^ k)) (i - 2 ^ k) = tree_root H k ?B"
      using 3 Suc.prems by (intro Suc.IH) auto
    moreover have "(i - 2 ^ k) mod 2 ^ k = i mod 2 ^ k" using 3 by (simp add: le_mod_geq)
    ultimately have "root_from_branch H (xs ! i) (tree_branch H k ?B (i - 2 ^ k)) i = tree_root H k ?B"
      using root_from_branch_mod[of H "xs ! i" "tree_branch H k ?B (i - 2 ^ k)" i]
        root_from_branch_mod[of H "xs ! i" "tree_branch H k ?B (i - 2 ^ k)" "i - 2 ^ k"] 3 Suc.prems by simp
    moreover have "i div 2 ^ k = 1" using 3 Suc.prems by (intro div_nat_eqI) auto
    ultimately show ?thesis using 3 by (simp add: root_from_branch_append)
  qed
qed



section \<open>Malleability\<close>

lemma node_drop: "node H (drop s xs) l t = node H xs l (s + t)"
  by (simp add: node_def add.commute)

lemma node_take: "t + 2 ^ l \<le> s \<Longrightarrow> node H (take s xs) l t = node H xs l t"
  by (simp add: node_def drop_take min_def)

lemma twins_take:
  assumes "twins H (take s xs) (length (take s xs))"
  shows "twins H xs (length xs)"
proof -
  obtain c l where c: "0 < c" "c \<le> length (take s xs)" "2 ^ Suc l dvd c" "pair_eq H (take s xs) l c"
    using assms by (auto simp: twins_def)
  have "2 ^ Suc l \<le> c" using c(1,3) by (auto intro: dvd_imp_le)
  then have "c - 2 * 2 ^ l + 2 ^ l \<le> s" "c - 2 ^ l + 2 ^ l \<le> s" using c(2) by auto
  then have "pair_eq H xs l c" using c(4) unfolding pair_eq_def by (simp only: node_take)
  then show ?thesis using c by (auto simp: twins_def)
qed

lemma twins_drop:
  assumes "twins H (drop (2 ^ k) xs) (length (drop (2 ^ k) xs))" "length xs \<le> 2 ^ Suc k"
  shows "twins H xs (length xs)"
proof -
  obtain c l where c: "0 < c" "c \<le> length (drop (2 ^ k) xs)" "2 ^ Suc l dvd c" "pair_eq H (drop (2 ^ k) xs) l c"
    using assms(1) by (auto simp: twins_def)
  have le: "2 ^ Suc l \<le> c" using c(1,3) by (auto intro: dvd_imp_le)
  have "c \<le> 2 ^ k" using c(2) assms(2) by simp
  then have "(2 :: nat) ^ Suc l \<le> 2 ^ k" using le by linarith
  then have "Suc l \<le> k" by (simp del: power_Suc)
  then have "2 ^ Suc l dvd (2 :: nat) ^ k" by (rule le_imp_power_dvd)
  then have "2 ^ Suc l dvd 2 ^ k + c" using c(3) by (rule dvd_add)
  moreover have "2 ^ k + (c - 2 * 2 ^ l) = 2 ^ k + c - 2 * 2 ^ l" "2 ^ k + (c - 2 ^ l) = 2 ^ k + c - 2 ^ l" using le by simp_all
  then have "pair_eq H xs l (2 ^ k + c)" using c(4) by (simp add: pair_eq_def node_drop)
  moreover have "2 ^ k + c \<le> length xs" "0 < 2 ^ k + c" using c(1,2) by auto
  ultimately show ?thesis unfolding twins_def by blast
qed

lemma tree_root_unique:
  assumes inj: "\<And>a b c d. H a b = H c d \<Longrightarrow> a = c \<and> b = d"
  shows "0 < length xs \<Longrightarrow> length xs \<le> 2 ^ k \<Longrightarrow> 0 < length ys \<Longrightarrow> length ys \<le> 2 ^ k \<Longrightarrow> \<not> twins H xs (length xs) \<Longrightarrow>
    \<not> twins H ys (length ys) \<Longrightarrow> tree_root H k xs = tree_root H k ys \<Longrightarrow> xs = ys"
proof (induction k arbitrary: xs ys)
  case 0
  then show ?case by (cases xs; cases ys) auto
next
  case (Suc k)
  let ?h = "2 ^ k :: nat"
  have full: False if z: "\<not> length zs \<le> ?h" "length zs \<le> 2 ^ Suc k" "\<not> twins H zs (length zs)"
      "tree_root H k (take ?h zs) = tree_root H k (drop ?h zs)" for zs
  proof -
    have "take ?h zs = drop ?h zs" using z twins_take[of H ?h zs] twins_drop[of H k zs] by (intro Suc.IH) auto
    from arg_cong[OF this, of length] have len: "length zs = 2 ^ Suc k" using z(1,2) by simp
    then have "pair_eq H zs k (2 ^ Suc k)" using z(4) by (simp add: pair_eq_def node_def)
    then show False using z(3) len by (auto simp: twins_def)
  qed
  show ?case
  proof (cases "length xs \<le> ?h \<or> length ys \<le> ?h")
    case True
    then consider "length xs \<le> ?h" "length ys \<le> ?h" | "length xs \<le> ?h" "\<not> length ys \<le> ?h" | "\<not> length xs \<le> ?h" "length ys \<le> ?h" by blast
    then show ?thesis
    proof cases
      case 1
      then have "H (tree_root H k xs) (tree_root H k xs) = H (tree_root H k ys) (tree_root H k ys)"
        using Suc.prems(7) by (simp only: tree_root.simps if_True)
      then have "tree_root H k xs = tree_root H k ys" using inj by blast
      then show ?thesis by (rule Suc.IH[OF Suc.prems(1) 1(1) Suc.prems(3) 1(2) Suc.prems(5,6)])
    next
      case 2
      then have "H (tree_root H k xs) (tree_root H k xs) = H (tree_root H k (take ?h ys)) (tree_root H k (drop ?h ys))"
        using Suc.prems(7) by (simp only: tree_root.simps if_True if_False)
      then have "tree_root H k (take ?h ys) = tree_root H k (drop ?h ys)" using inj by metis
      then show ?thesis using full[of ys] 2 Suc.prems(4,6) by blast
    next
      case 3
      then have "H (tree_root H k (take ?h xs)) (tree_root H k (drop ?h xs)) = H (tree_root H k ys) (tree_root H k ys)"
        using Suc.prems(7) by (simp only: tree_root.simps if_True if_False)
      then have "tree_root H k (take ?h xs) = tree_root H k (drop ?h xs)" using inj by metis
      then show ?thesis using full[of xs] 3 Suc.prems(2,5) by blast
    qed
  next
    case False
    then have "H (tree_root H k (take ?h xs)) (tree_root H k (drop ?h xs)) = H (tree_root H k (take ?h ys)) (tree_root H k (drop ?h ys))"
      using Suc.prems(7) by (simp only: tree_root.simps if_False de_Morgan_disj)
    then have eq: "tree_root H k (take ?h xs) = tree_root H k (take ?h ys)" "tree_root H k (drop ?h xs) = tree_root H k (drop ?h ys)"
      using inj by blast+
    have "take ?h xs = take ?h ys"
      using False Suc.prems eq(1) twins_take[of H ?h xs] twins_take[of H ?h ys] by (intro Suc.IH) auto
    moreover have "drop ?h xs = drop ?h ys"
      using False Suc.prems eq(2) twins_drop[of H k xs] twins_drop[of H k ys] by (intro Suc.IH) auto
    ultimately show ?thesis by (metis append_take_drop_id)
  qed
qed



end
