(* ===== verification/Undo.thy ===== *)
theory Undo
  imports CoinsDB Chain Consensus
begin

text \<open>
  Undo data (`undo.h`) and the effect of transactions on the set of coins and its reversal (`UpdateCoins`, `ApplyTxInUndo`,
  `DisconnectBlock` of `validation.cpp`).  `AccessByTxid` is bounded by the largest number of outputs of a block.  What
  `UndoReadFromDisk` returns is an argument of `DisconnectBlock`, \<open>None\<close> when it fails.  A read past the end of a vector and an
  exception are the errors of the result.
\<close>

section \<open>Undo records\<close>

record CTxUndo =
  vprevout :: "Coin list"

record CBlockUndo =
  vtxundo :: "CTxUndo list"

definition MAX_INPUTS_PER_BLOCK :: nat where
  "MAX_INPUTS_PER_BLOCK = 2000000 div length (Serialize_CTxIn \<lparr>prevout = COutPoint_null, scriptSig = [], nSequence = SEQUENCE_FINAL\<rparr>)"

definition MAX_OUTPUTS_PER_BLOCK :: nat where
  "MAX_OUTPUTS_PER_BLOCK = 2000000 div length (Serialize_CTxOut CTxOut_null)"

definition Serialize_TxInUndo :: "(bytes \<Rightarrow> 'p option) \<Rightarrow> Coin \<Rightarrow> bytes" where
  "Serialize_TxInUndo ec_parse txout =
     WriteVarInt (coin_nHeight txout * 4 + (if fCoinBase txout then 2 else 0) + (if fCoinStake txout then 1 else 0))
     @ (if 0 < coin_nHeight txout then ser_writedata8 0 else [])
     @ Serialize_TxOutCompressor ec_parse (coin_out txout)"

definition Unserialize_TxInUndo :: "(bytes \<Rightarrow> 'p option) \<Rightarrow> ('p \<Rightarrow> bytes) \<Rightarrow> Coin reader" where
  "Unserialize_TxInUndo ec_parse ec_serialize =
     rbind (ReadVarInt :: u32 reader) (\<lambda>nCode.
     rbind (if 0 < drop_bit 2 nCode then rbind (ReadVarInt :: u32 reader) (\<lambda>_. rreturn ()) else rreturn ()) (\<lambda>_.
     rbind (Unserialize_TxOutCompressor ec_parse ec_serialize CTxOut_null) (\<lambda>out.
       rreturn \<lparr>fCoinBase = (and nCode 2 \<noteq> 0), fCoinStake = (and nCode 1 \<noteq> 0), coin_out = out, coin_nHeight = drop_bit 2 nCode\<rparr>)))"

definition Serialize_CTxUndo :: "(bytes \<Rightarrow> 'p option) \<Rightarrow> CTxUndo \<Rightarrow> bytes" where
  "Serialize_CTxUndo ec_parse u = WriteCompactSize (of_nat (length (vprevout u))) @ concat (map (Serialize_TxInUndo ec_parse) (vprevout u))"

fun read_prevouts :: "Coin reader \<Rightarrow> nat \<Rightarrow> Coin list reader" where
  "read_prevouts rd 0 = rreturn []"
| "read_prevouts rd (Suc n) = rbind rd (\<lambda>x. rbind (read_prevouts rd n) (\<lambda>xs. rreturn (x # xs)))"

definition Unserialize_CTxUndo :: "(bytes \<Rightarrow> 'p option) \<Rightarrow> ('p \<Rightarrow> bytes) \<Rightarrow> CTxUndo reader" where
  "Unserialize_CTxUndo ec_parse ec_serialize =
     rbind ReadCompactSize (\<lambda>count.
       if MAX_INPUTS_PER_BLOCK < unat count then rthrow TooManyUndoRecords
       else rbind (read_prevouts (Unserialize_TxInUndo ec_parse ec_serialize) (unat count)) (\<lambda>v. rreturn \<lparr>vprevout = v\<rparr>))"

definition Serialize_CBlockUndo :: "(bytes \<Rightarrow> 'p option) \<Rightarrow> CBlockUndo \<Rightarrow> bytes" where
  "Serialize_CBlockUndo ec_parse u = Serialize_vec (Serialize_CTxUndo ec_parse) (vtxundo u)"

text \<open>\<open>sz\<close> is the size of `CTxUndo` in memory, by which the reader of vectors paces its allocations.\<close>

definition Unserialize_CBlockUndo :: "nat \<Rightarrow> (bytes \<Rightarrow> 'p option) \<Rightarrow> ('p \<Rightarrow> bytes) \<Rightarrow> CBlockUndo reader" where
  "Unserialize_CBlockUndo sz ec_parse ec_serialize =
     rbind (Unserialize_vec sz (Unserialize_CTxUndo ec_parse ec_serialize)) (\<lambda>v. rreturn \<lparr>vtxundo = v\<rparr>)"

section \<open>Transactions applied to the coins\<close>

fun spend_inputs where
  "spend_inputs vt [] c = ([], c)"
| "spend_inputs vt (txin # rest) c =
     (let (moved, c1) = SpendCoin vt c (prevout txin);
          (undo, c2) = spend_inputs vt rest c1
      in ((case moved of Some coin \<Rightarrow> coin | None \<Rightarrow> Coin_null) # undo, c2))"

definition UpdateCoins where
  "UpdateCoins H vt tx c nHeight =
     (let (vprev, c1) = (if tx_IsCoinBase tx then ([], c) else spend_inputs vt (vin tx) c);
          c2 = SetNullifiers c1 tx True
      in case AddCoins H vt c2 tx nHeight False of
           Inl e \<Rightarrow> Inl e
         | Inr c3 \<Rightarrow> Inr (\<lparr>vprevout = vprev\<rparr>, c3))"

section \<open>Transactions taken back\<close>

datatype DisconnectResult = DISCONNECT_OK | DISCONNECT_UNCLEAN | DISCONNECT_FAILED
datatype undo_error = Throws coins_error | BadAccess

definition ApplyTxInUndo where
  "ApplyTxInUndo vt undo c out =
     (let (have, c1) = HaveCoin vt c out;
          (found, undo', c2) =
            (if coin_nHeight undo = 0 then
               (let (alternate, c2) = AccessByTxid MAX_OUTPUTS_PER_BLOCK vt c1 (op_hash out) in
                if \<not> IsSpent alternate
                then (True, undo\<lparr>coin_nHeight := coin_nHeight alternate, fCoinBase := fCoinBase alternate, fCoinStake := fCoinStake alternate\<rparr>, c2)
                else (False, undo, c2))
             else (True, undo, c1))
      in if \<not> found then Inr (DISCONNECT_FAILED, c2)
         else case AddCoin c2 out undo' have of
                Inl e \<Rightarrow> Inl (Throws e)
              | Inr c3 \<Rightarrow> Inr (if have then DISCONNECT_UNCLEAN else DISCONNECT_OK, c3))"

definition CTxOut_eq :: "CTxOut \<Rightarrow> CTxOut \<Rightarrow> bool" where
  "CTxOut_eq a b \<longleftrightarrow> nValue a = nValue b \<and> scriptPubKey a = scriptPubKey b \<and> nRounds a = nRounds b"

fun spend_outputs where
  "spend_outputs vt hash n [] fClean c = (fClean, c)"
| "spend_outputs vt hash n (txout # rest) fClean c =
     (if IsUnspendable (scriptPubKey txout) then spend_outputs vt hash (Suc n) rest fClean c
      else let (moved, c1) = SpendCoin vt c \<lparr>op_hash = hash, op_n = of_nat n\<rparr>;
               coin = (case moved of Some coin \<Rightarrow> coin | None \<Rightarrow> Coin_null)
           in spend_outputs vt hash (Suc n) rest (fClean \<and> CTxOut_eq txout (coin_out coin)) c1)"

text \<open>The inputs are restored from the last to the first; the lists are given in that order.  \<open>None\<close> in the result is
`DISCONNECT_FAILED`, otherwise it is `fClean`.\<close>

fun restore_inputs where
  "restore_inputs vt [] fClean c = Inr (Some fClean, c)"
| "restore_inputs vt ((txin, undo) # rest) fClean c =
     (case ApplyTxInUndo vt undo c (prevout txin) of
        Inl e \<Rightarrow> Inl e
      | Inr (res, c1) \<Rightarrow>
          if res = DISCONNECT_FAILED then Inr (None, c1)
          else restore_inputs vt rest (fClean \<and> res \<noteq> DISCONNECT_UNCLEAN) c1)"

text \<open>The transactions are given from the last to the first, so the number of those still to come is the index `i`.\<close>

fun undo_txs where
  "undo_txs H vt undos [] fClean c = Inr (Some fClean, c)"
| "undo_txs H vt undos (tx # rest) fClean c =
     (let (clean, c1) = spend_outputs vt (tx_GetHash H tx) 0 (vout tx) fClean c in
      if tx_IsCoinBase tx then undo_txs H vt undos rest clean c1
      else let c2 = SetNullifiers c1 tx False in
        if length rest = 0 \<or> length undos < length rest then Inl BadAccess
        else let txundo = undos ! (length rest - 1) in
          if length (vprevout txundo) \<noteq> length (vin tx) then Inr (None, c2)
          else case restore_inputs vt (rev (zip (vin tx) (vprevout txundo))) clean c2 of
                 Inl e \<Rightarrow> Inl e
               | Inr (None, c3) \<Rightarrow> Inr (None, c3)
               | Inr (Some clean', c3) \<Rightarrow> undo_txs H vt undos rest clean' c3)"

definition DisconnectBlock where
  "DisconnectBlock cp H empty_root vt m undo_read block pindex view =
     (if CDiskBlockPos_IsNull (GetUndoPos pindex) then Inr (DISCONNECT_FAILED, view)
      else case Option.bind (pprev pindex) m of
        None \<Rightarrow> Inl BadAccess
      | Some pb \<Rightarrow>
         (case undo_read of
            None \<Rightarrow> Inr (DISCONNECT_FAILED, view)
          | Some blockUndo \<Rightarrow>
             if length (vtxundo blockUndo) + 1 \<noteq> length (vtx block) then Inr (DISCONNECT_FAILED, view)
             else case undo_txs H vt (vtxundo blockUndo) (rev (vtx block)) True view of
                    Inl e \<Rightarrow> Inl e
                  | Inr (None, c) \<Rightarrow> Inr (DISCONNECT_FAILED, c)
                  | Inr (Some fClean, c) \<Rightarrow>
                     (case PopAnchor vt c (if Params_NetworkUpgradeActive cp (bi_nHeight pb) UPGRADE_V5_0 then bi_hashFinalSaplingRoot pb else empty_root) of
                        Inl e \<Rightarrow> Inl (Throws e)
                      | Inr c1 \<Rightarrow> Inr (if fClean then DISCONNECT_OK else DISCONNECT_UNCLEAN, SetBestBlock c1 (the (pprev pindex))))))"

section \<open>The state before and after a transaction\<close>

definition tx_outputs :: "(bytes \<Rightarrow> u256) \<Rightarrow> int \<Rightarrow> CTransaction \<Rightarrow> COutPoint \<Rightarrow> Coin option" where
  "tx_outputs H h tx p =
     (if op_hash p = tx_GetHash H tx \<and> unat (op_n p) < length (vout tx) \<and> \<not> IsUnspendable (scriptPubKey (vout tx ! unat (op_n p)))
      then Some \<lparr>fCoinBase = tx_IsCoinBase tx, fCoinStake = tx_IsCoinStake tx, coin_out = vout tx ! unat (op_n p), coin_nHeight = word_of_int h\<rparr>
      else None)"

definition tx_prevouts :: "CTransaction \<Rightarrow> COutPoint list" where
  "tx_prevouts tx = (if tx_IsCoinBase tx then [] else map prevout (vin tx))"

definition tx_nullifiers :: "CTransaction \<Rightarrow> u256 set" where
  "tx_nullifiers tx = (case sapData tx of None \<Rightarrow> {} | Some d \<Rightarrow> sd_nullifier ` set (vShieldedSpend d))"

definition apply_tx :: "(bytes \<Rightarrow> u256) \<Rightarrow> int \<Rightarrow> CTransaction \<Rightarrow> chainstate \<Rightarrow> chainstate" where
  "apply_tx H h tx s = s\<lparr>
     cs_utxo := (\<lambda>p. if tx_outputs H h tx p \<noteq> None then tx_outputs H h tx p else if p \<in> set (tx_prevouts tx) then None else cs_utxo s p),
     cs_nullifier := (\<lambda>n. n \<in> tx_nullifiers tx \<or> cs_nullifier s n)\<rparr>"

text \<open>A transaction that can be applied: its inputs are distinct coins of the set, its outputs are new and not null.\<close>

definition tx_applies :: "(bytes \<Rightarrow> u256) \<Rightarrow> CTransaction \<Rightarrow> chainstate \<Rightarrow> bool" where
  "tx_applies H tx s \<longleftrightarrow>
     (\<forall>txout \<in> set (vout tx). \<not> CTxOut_IsNull txout) \<and> length (vout tx) \<le> 2 ^ 32 \<and>
     (\<forall>p. tx_outputs H 0 tx p \<noteq> None \<longrightarrow> cs_utxo s p = None) \<and>
     distinct (tx_prevouts tx) \<and> (\<forall>p \<in> set (tx_prevouts tx). cs_utxo s p \<noteq> None)"

text \<open>The undo data of a transaction: the coins it spends.\<close>

definition spent_coins :: "chainstate \<Rightarrow> CTransaction \<Rightarrow> Coin list" where
  "spent_coins s tx = map (\<lambda>p. the (cs_utxo s p)) (tx_prevouts tx)"

lemma tx_outputs_None: "tx_outputs H h tx p = None \<longleftrightarrow> tx_outputs H h' tx p = None"
  by (simp add: tx_outputs_def)

lemma visible_Some: "visible x = Some y \<longleftrightarrow> x = y \<and> \<not> IsSpent y"
  by (auto simp: visible_def)

lemma unat_of_nat32: "k < 2 ^ 32 \<Longrightarrow> unat (of_nat k :: u32) = k"
  by (simp add: unat_of_nat take_bit_nat_eq_self)

context coins_view
begin

lemma spend_inputs_ok:
  assumes "cinv c" "distinct (map prevout is)" "\<forall>i \<in> set is. cs_utxo (cabst c) (prevout i) \<noteq> None" "spend_inputs vt is c = (undo, c')"
  shows "cinv c' \<and> cabst c' = (cabst c)\<lparr>cs_utxo := (\<lambda>p. if p \<in> prevout ` set is then None else cs_utxo (cabst c) p)\<rparr> \<and>
    undo = map (\<lambda>i. the (cs_utxo (cabst c) (prevout i))) is"
  using assms
proof (induction "is" arbitrary: c undo c')
  case (Cons i "is")
  obtain moved c1 where s: "SpendCoin vt c (prevout i) = (moved, c1)" by fastforce
  obtain u c2 where r: "spend_inputs vt is c1 = (u, c2)" by fastforce
  note ok = SpendCoin_ok[OF Cons.prems(1) s]
  obtain coin where coin: "cs_utxo (cabst c) (prevout i) = Some coin" using Cons.prems(3) by auto
  have m: "moved = Some coin" using ok coin by (auto simp: bind_eq_Some_conv visible_Some)
  have nin: "prevout j \<noteq> prevout i" if "j \<in> set is" for j using Cons.prems(2) that by (metis distinct.simps(2) imageI list.set_map list.simps(9))
  have av: "\<forall>j \<in> set is. cs_utxo (cabst c1) (prevout j) \<noteq> None" using Cons.prems(3) ok nin by simp
  have d: "distinct (map prevout is)" using Cons.prems(2) by simp
  note ih = Cons.IH[OF conjunct1[OF ok] d av r]
  have eq: "c' = c2" "undo = coin # u" using Cons.prems(4) s r m by auto
  have "u = map (\<lambda>j. the (cs_utxo (cabst c) (prevout j))) is" using ih ok nin by simp
  then have "undo = map (\<lambda>j. the (cs_utxo (cabst c) (prevout j))) (i # is)" using eq(2) coin by simp
  moreover have "cabst c2 = (cabst c)\<lparr>cs_utxo := (\<lambda>p. if p \<in> prevout ` set (i # is) then None else cs_utxo (cabst c) p)\<rparr>"
    using ih ok by (intro chainstate.equality) (auto simp: fun_eq_iff)
  ultimately show ?case using ih eq(1) by blast
qed auto

lemma SetNullifiers_abst:
  assumes "cinv c"
  shows "cinv (SetNullifiers c tx spent) \<and>
    cabst (SetNullifiers c tx spent) = (cabst c)\<lparr>cs_nullifier := (\<lambda>n. if n \<in> tx_nullifiers tx then spent else cs_nullifier (cabst c) n)\<rparr>"
proof (cases "sapData tx")
  case None
  then show ?thesis using assms by (auto simp: SetNullifiers_def tx_nullifiers_def)
next
  case (Some d)
  then show ?thesis using SetNullifiers_ok[OF assms Some, of spent] by (simp add: tx_nullifiers_def)
qed

lemma UpdateCoins_ok:
  assumes inv: "cinv c" and ap: "tx_applies H tx (cabst c)"
  shows "\<exists>u c'. UpdateCoins H vt tx c h = Inr (u, c') \<and> cinv c' \<and> cabst c' = apply_tx H h tx (cabst c) \<and> vprevout u = spent_coins (cabst c) tx"
proof -
  define is' where "is' = (if tx_IsCoinBase tx then [] else vin tx)"
  obtain u c1 where s: "spend_inputs vt is' c = (u, c1)" by fastforce
  have pi: "map prevout is' = tx_prevouts tx" by (simp add: is'_def tx_prevouts_def)
  then have ip: "prevout ` set is' = set (tx_prevouts tx)" by (metis set_map)
  have d: "distinct (map prevout is')" using ap unfolding pi tx_applies_def by blast
  have "\<forall>p \<in> prevout ` set is'. cs_utxo (cabst c) p \<noteq> None" using ap unfolding ip tx_applies_def by blast
  then have av: "\<forall>i \<in> set is'. cs_utxo (cabst c) (prevout i) \<noteq> None" by blast
  have sc: "spent_coins (cabst c) tx = map (\<lambda>i. the (cs_utxo (cabst c) (prevout i))) is'"
    unfolding spent_coins_def pi[symmetric] by simp
  have c1: "cinv c1" "cabst c1 = (cabst c)\<lparr>cs_utxo := (\<lambda>p. if p \<in> set (tx_prevouts tx) then None else cs_utxo (cabst c) p)\<rparr>"
    "u = spent_coins (cabst c) tx"
    using spend_inputs_ok[OF inv d av s] unfolding ip sc by blast+
  let ?c2 = "SetNullifiers c1 tx True"
  note c2 = SetNullifiers_abst[OF c1(1), of tx True]
  have nn: "\<forall>txout \<in> set (vout tx). \<not> CTxOut_IsNull txout" and len: "0 + length (vout tx) \<le> 2 ^ 32"
    using ap by (auto simp: tx_applies_def)
  have fresh: "False \<or> (\<forall>p. op_hash p = tx_GetHash H tx \<and> 0 \<le> unat (op_n p) \<and> unat (op_n p) < 0 + length (vout tx) \<and>
      \<not> IsUnspendable (scriptPubKey (vout tx ! (unat (op_n p) - 0))) \<longrightarrow> cs_utxo (cabst ?c2) p = None)"
    using ap c2 c1(2) by (auto simp: tx_applies_def tx_outputs_def)
  obtain c3 where c3: "AddCoins H vt ?c2 tx h False = Inr c3" "cinv c3"
    "cabst c3 = (cabst ?c2)\<lparr>cs_utxo := (\<lambda>p. if op_hash p = tx_GetHash H tx \<and> 0 \<le> unat (op_n p) \<and> unat (op_n p) < 0 + length (vout tx) \<and>
         \<not> IsUnspendable (scriptPubKey (vout tx ! (unat (op_n p) - 0)))
      then Some \<lparr>fCoinBase = tx_IsCoinBase tx, fCoinStake = tx_IsCoinStake tx, coin_out = vout tx ! (unat (op_n p) - 0), coin_nHeight = word_of_int h\<rparr>
      else cs_utxo (cabst ?c2) p)\<rparr>"
    using AddCoins_loop_ok[OF conjunct1[OF c2] nn len fresh] unfolding AddCoins_def by blast
  have "cabst c3 = apply_tx H h tx (cabst c)"
    unfolding c3(3) using c2 c1(2)
    by (intro chainstate.equality) (auto simp: apply_tx_def tx_outputs_def fun_eq_iff)
  moreover have "UpdateCoins H vt tx c h = Inr (\<lparr>vprevout = u\<rparr>, c3)"
    using s c3(1) by (simp add: UpdateCoins_def is'_def split: if_splits)
  ultimately show ?thesis using c3(2) c1(3) by auto
qed

lemma spend_outputs_ok:
  assumes "cinv c" "n + length outs \<le> 2 ^ 32"
    and "\<forall>j<length outs. \<not> IsUnspendable (scriptPubKey (outs ! j)) \<longrightarrow>
      (\<exists>coin. cs_utxo (cabst c) \<lparr>op_hash = hash, op_n = of_nat (n + j)\<rparr> = Some coin \<and> coin_out coin = outs ! j)"
  shows "\<exists>c'. spend_outputs vt hash n outs clean c = (clean, c') \<and> cinv c' \<and>
    cabst c' = (cabst c)\<lparr>cs_utxo := (\<lambda>p. if op_hash p = hash \<and> n \<le> unat (op_n p) \<and> unat (op_n p) < n + length outs \<and>
      \<not> IsUnspendable (scriptPubKey (outs ! (unat (op_n p) - n))) then None else cs_utxo (cabst c) p)\<rparr>"
  using assms
proof (induction outs arbitrary: c n clean)
  case Nil
  then show ?case by (auto intro!: chainstate.equality simp: fun_eq_iff)
next
  case (Cons txout outs)
  let ?p = "\<lparr>op_hash = hash, op_n = of_nat n\<rparr>"
  have un: "unat (of_nat n :: u32) = n" using Cons.prems(2) by (simp add: unat_of_nat take_bit_nat_eq_self)
  have same: "p = ?p \<longleftrightarrow> op_hash p = hash \<and> unat (op_n p) = n" for p :: COutPoint
    by (cases p) (auto simp: un word_unat_eq_iff)
  have ne: "\<lparr>op_hash = hash, op_n = of_nat (n + Suc j)\<rparr> \<noteq> ?p" if "j < length outs" for j
  proof -
    have "unat (of_nat (n + Suc j) :: u32) = n + Suc j" using Cons.prems(2) that unat_of_nat32[of "n + Suc j"] by simp
    then show ?thesis using un by (metis COutPoint.ext_inject add_eq_self_zero nat.distinct(1))
  qed
  define u where "u = (if IsUnspendable (scriptPubKey txout) then cs_utxo (cabst c) else (cs_utxo (cabst c))(?p := None))"
  have "\<exists>c1. spend_outputs vt hash n (txout # outs) clean c = spend_outputs vt hash (Suc n) outs clean c1 \<and> cinv c1 \<and> cabst c1 = (cabst c)\<lparr>cs_utxo := u\<rparr>"
  proof (cases "IsUnspendable (scriptPubKey txout)")
    case True
    then show ?thesis using Cons.prems(1) by (intro exI[of _ c]) (simp add: u_def)
  next
    case False
    obtain moved c1 where s: "SpendCoin vt c ?p = (moved, c1)" by fastforce
    note ok = SpendCoin_ok[OF Cons.prems(1) s]
    obtain coin where coin: "cs_utxo (cabst c) ?p = Some coin" "coin_out coin = txout"
      using Cons.prems(3) False by (auto dest!: spec[of _ 0])
    then have "moved = Some coin" using ok by (auto simp: bind_eq_Some_conv visible_Some)
    then show ?thesis using False s ok coin(2) by (intro exI[of _ c1]) (simp add: u_def CTxOut_eq_def)
  qed
  then obtain c1 where c1: "spend_outputs vt hash n (txout # outs) clean c = spend_outputs vt hash (Suc n) outs clean c1"
    "cinv c1" "cabst c1 = (cabst c)\<lparr>cs_utxo := u\<rparr>" by blast
  have "\<forall>j<length outs. \<not> IsUnspendable (scriptPubKey (outs ! j)) \<longrightarrow>
      (\<exists>coin. cs_utxo (cabst c1) \<lparr>op_hash = hash, op_n = of_nat (Suc n + j)\<rparr> = Some coin \<and> coin_out coin = outs ! j)"
    (is "\<forall>j<length outs. ?sp j \<longrightarrow> ?there j")
  proof (intro allI impI)
    fix j assume j: "j < length outs" "?sp j"
    have "\<exists>coin. cs_utxo (cabst c) \<lparr>op_hash = hash, op_n = of_nat (n + Suc j)\<rparr> = Some coin \<and> coin_out coin = outs ! j"
      using Cons.prems(3)[rule_format, of "Suc j"] j by simp
    then show "?there j" using ne[OF j(1)] by (auto simp: c1(3) u_def)
  qed
  from Cons.IH[OF c1(2) _ this, of clean] Cons.prems(2) obtain c' where c': "spend_outputs vt hash (Suc n) outs clean c1 = (clean, c')" "cinv c'"
    "cabst c' = (cabst c1)\<lparr>cs_utxo := (\<lambda>p. if op_hash p = hash \<and> Suc n \<le> unat (op_n p) \<and> unat (op_n p) < Suc n + length outs \<and>
      \<not> IsUnspendable (scriptPubKey (outs ! (unat (op_n p) - Suc n))) then None else cs_utxo (cabst c1) p)\<rparr>" by auto
  have "unat (op_n p) = n \<or> \<not> n \<le> unat (op_n p) \<or> Suc n \<le> unat (op_n p)" for p :: COutPoint by linarith
  then have "cabst c' = (cabst c)\<lparr>cs_utxo := (\<lambda>p. if op_hash p = hash \<and> n \<le> unat (op_n p) \<and> unat (op_n p) < n + length (txout # outs) \<and>
      \<not> IsUnspendable (scriptPubKey ((txout # outs) ! (unat (op_n p) - n))) then None else cs_utxo (cabst c) p)\<rparr>"
    unfolding c'(3) c1(3) by (intro chainstate.equality) (auto simp: fun_eq_iff u_def same nth_Cons' Suc_le_eq)
  then show ?case using c1(1) c'(1,2) by auto
qed

end

section \<open>Taking a block back\<close>

definition coin_ok :: "Coin \<Rightarrow> bool" where
  "coin_ok coin \<longleftrightarrow> \<not> IsSpent coin \<and> \<not> IsUnspendable (scriptPubKey (coin_out coin)) \<and> coin_nHeight coin \<noteq> 0"

definition utxo_ok :: "chainstate \<Rightarrow> bool" where
  "utxo_ok s \<longleftrightarrow> (\<forall>p coin. cs_utxo s p = Some coin \<longrightarrow> coin_ok coin)"

definition tx_reversible :: "(bytes \<Rightarrow> u256) \<Rightarrow> CTransaction \<Rightarrow> chainstate \<Rightarrow> bool" where
  "tx_reversible H tx s \<longleftrightarrow>
     tx_applies H tx s \<and> (\<forall>n \<in> tx_nullifiers tx. \<not> cs_nullifier s n) \<and> (tx_IsCoinBase tx \<longrightarrow> tx_nullifiers tx = {})"

fun txs_reversible :: "(bytes \<Rightarrow> u256) \<Rightarrow> int \<Rightarrow> CTransaction list \<Rightarrow> chainstate \<Rightarrow> bool" where
  "txs_reversible H h [] s = True"
| "txs_reversible H h (tx # txs) s \<longleftrightarrow> tx_reversible H tx s \<and> txs_reversible H h txs (apply_tx H h tx s)"

definition apply_txs :: "(bytes \<Rightarrow> u256) \<Rightarrow> int \<Rightarrow> CTransaction list \<Rightarrow> chainstate \<Rightarrow> chainstate" where
  "apply_txs H h txs s = fold (apply_tx H h) txs s"

lemma txs_reversible_append:
  "txs_reversible H h (xs @ ys) s \<longleftrightarrow> txs_reversible H h xs s \<and> txs_reversible H h ys (apply_txs H h xs s)"
  by (induction xs arbitrary: s) (auto simp: apply_txs_def)

lemma utxo_ok_apply:
  assumes "utxo_ok s" "tx_applies H tx s" "(word_of_int h :: u32) \<noteq> 0"
  shows "utxo_ok (apply_tx H h tx s)"
  using assms by (auto simp: utxo_ok_def apply_tx_def tx_outputs_def coin_ok_def tx_applies_def IsSpent_def split: if_splits)

lemma utxo_ok_apply_txs:
  assumes "utxo_ok s" "txs_reversible H h txs s" "(word_of_int h :: u32) \<noteq> 0"
  shows "utxo_ok (apply_txs H h txs s)"
  using assms
proof (induction txs arbitrary: s)
  case (Cons tx txs)
  then show ?case using utxo_ok_apply[of s H tx h] by (simp add: apply_txs_def tx_reversible_def)
qed (simp add: apply_txs_def)

text \<open>The undo data a block leaves: the spent coins of every transaction but the first.\<close>

definition undo_of :: "(bytes \<Rightarrow> u256) \<Rightarrow> int \<Rightarrow> CTransaction list \<Rightarrow> chainstate \<Rightarrow> CTxUndo list \<Rightarrow> bool" where
  "undo_of H h txs s undos \<longleftrightarrow>
     (\<forall>i. 0 < i \<and> i < length txs \<longrightarrow> i \<le> length undos \<and> vprevout (undos ! (i - 1)) = spent_coins (apply_txs H h (take i txs) s) (txs ! i))"

context coins_view
begin

lemma ApplyTxInUndo_ok:
  assumes "cinv c" "coin_ok coin" "cs_utxo (cabst c) p = None"
  shows "\<exists>c'. ApplyTxInUndo vt coin c p = Inr (DISCONNECT_OK, c') \<and> cinv c' \<and> cabst c' = (cabst c)\<lparr>cs_utxo := (cs_utxo (cabst c))(p := Some coin)\<rparr>"
proof -
  obtain hv c1 where h: "HaveCoin vt c p = (hv, c1)" by fastforce
  have c1: "cinv c1" "cabst c1 = cabst c" "\<not> hv" using HaveCoin_ok[OF assms(1) h] assms(3) by simp_all
  obtain c2 where "AddCoin c1 p coin False = Inr c2" "cinv c2" "cabst c2 = (cabst c1)\<lparr>cs_utxo := (cs_utxo (cabst c1))(p := Some coin)\<rparr>"
    using AddCoin_ok[OF c1(1), of coin False p] assms(2,3) c1(2) by (auto simp: coin_ok_def)
  then show ?thesis using h c1 assms(2) by (simp add: ApplyTxInUndo_def coin_ok_def)
qed

lemma restore_inputs_ok:
  assumes "cinv c" "distinct (map (prevout \<circ> fst) l)" "\<forall>(i, coin) \<in> set l. coin_ok coin \<and> cs_utxo (cabst c) (prevout i) = None"
  shows "\<exists>c'. restore_inputs vt l clean c = Inr (Some clean, c') \<and> cinv c' \<and>
    cabst c' = (cabst c)\<lparr>cs_utxo := cs_utxo (cabst c) ++ map_of (map (\<lambda>(i, coin). (prevout i, coin)) l)\<rparr>"
  using assms
proof (induction l arbitrary: c)
  case Nil
  then show ?case by (auto intro!: chainstate.equality)
next
  case (Cons x l)
  obtain i coin where x: "x = (i, coin)" by fastforce
  obtain c1 where c1: "ApplyTxInUndo vt coin c (prevout i) = Inr (DISCONNECT_OK, c1)" "cinv c1"
    "cabst c1 = (cabst c)\<lparr>cs_utxo := (cs_utxo (cabst c))(prevout i := Some coin)\<rparr>"
    using ApplyTxInUndo_ok[OF Cons.prems(1), of coin "prevout i"] Cons.prems(3) x by auto
  have nin: "prevout i \<notin> prevout ` fst ` set l" using Cons.prems(2) x by (auto simp: image_comp)
  have "\<forall>(j, d) \<in> set l. coin_ok d \<and> cs_utxo (cabst c1) (prevout j) = None"
  proof (clarify, intro conjI)
    fix j d assume j: "(j, d) \<in> set l"
    then have "prevout j \<noteq> prevout i" using nin by (metis fst_conv imageI)
    moreover have "coin_ok d" "cs_utxo (cabst c) (prevout j) = None" using Cons.prems(3) j by auto
    ultimately show "coin_ok d" "cs_utxo (cabst c1) (prevout j) = None" by (simp_all add: c1(3))
  qed
  from Cons.IH[OF c1(2) _ this] Cons.prems(2) obtain c' where c': "restore_inputs vt l clean c1 = Inr (Some clean, c')" "cinv c'"
    "cabst c' = (cabst c1)\<lparr>cs_utxo := cs_utxo (cabst c1) ++ map_of (map (\<lambda>(i, coin). (prevout i, coin)) l)\<rparr>" by auto
  have "map_of (map (\<lambda>(i, coin). (prevout i, coin)) l) (prevout i) = None"
    using nin by (auto simp: map_of_eq_None_iff image_iff)
  moreover define mm where "mm = map_of (map (\<lambda>(i, coin). (prevout i, coin)) l)"
  ultimately have "(u(prevout i \<mapsto> coin)) ++ mm = u ++ (mm(prevout i \<mapsto> coin))" for u :: "COutPoint \<Rightarrow> Coin option"
    by (auto simp: fun_eq_iff map_add_def split: option.splits)
  note fe = this[of "cs_utxo (cabst c)"]
  have "cabst c' = (cabst c)\<lparr>cs_utxo := (cs_utxo (cabst c))(prevout i \<mapsto> coin) ++ mm\<rparr>" unfolding c'(3) c1(3) mm_def[symmetric] by simp
  also note fe
  also have "mm(prevout i \<mapsto> coin) = map_of (map (\<lambda>(i, coin). (prevout i, coin)) (x # l))" by (simp add: x mm_def)
  finally have "cabst c' = (cabst c)\<lparr>cs_utxo := cs_utxo (cabst c) ++ map_of (map (\<lambda>(i, coin). (prevout i, coin)) (x # l))\<rparr>" .
  moreover have "restore_inputs vt (x # l) clean c = Inr (Some clean, c')" using c'(1) c1(1) x by simp
  ultimately show ?case using c'(2) by blast
qed

lemma undo_outputs_ok:
  assumes "cinv c" "cabst c = apply_tx H h tx s" "tx_applies H tx s"
  shows "\<exists>c'. spend_outputs vt (tx_GetHash H tx) 0 (vout tx) clean c = (clean, c') \<and> cinv c' \<and>
    cabst c' = (cabst c)\<lparr>cs_utxo := (\<lambda>p. if p \<in> set (tx_prevouts tx) then None else cs_utxo s p)\<rparr>"
proof -
  have len: "0 + length (vout tx) \<le> 2 ^ 32" using assms(3) by (simp add: tx_applies_def)
  have there: "\<forall>j<length (vout tx). \<not> IsUnspendable (scriptPubKey (vout tx ! j)) \<longrightarrow>
      (\<exists>coin. cs_utxo (cabst c) \<lparr>op_hash = tx_GetHash H tx, op_n = of_nat (0 + j)\<rparr> = Some coin \<and> coin_out coin = vout tx ! j)"
    using len unat_of_nat32 by (auto simp: assms(2) apply_tx_def tx_outputs_def)
  obtain c' where c': "spend_outputs vt (tx_GetHash H tx) 0 (vout tx) clean c = (clean, c')" "cinv c'"
    "cabst c' = (cabst c)\<lparr>cs_utxo := (\<lambda>p. if op_hash p = tx_GetHash H tx \<and> 0 \<le> unat (op_n p) \<and> unat (op_n p) < 0 + length (vout tx) \<and>
      \<not> IsUnspendable (scriptPubKey (vout tx ! (unat (op_n p) - 0))) then None else cs_utxo (cabst c) p)\<rparr>"
    using spend_outputs_ok[OF assms(1) len there, of clean] by blast
  have "cabst c' = (cabst c)\<lparr>cs_utxo := (\<lambda>p. if p \<in> set (tx_prevouts tx) then None else cs_utxo s p)\<rparr>"
    unfolding c'(3) using assms(3)
    by (intro chainstate.equality) (auto simp: assms(2) apply_tx_def tx_outputs_def tx_applies_def fun_eq_iff)
  then show ?thesis using c' by blast
qed

lemma undo_inputs_ok:
  assumes "cinv c" "cabst c = s\<lparr>cs_utxo := (\<lambda>p. if p \<in> set (tx_prevouts tx) then None else cs_utxo s p)\<rparr>"
    and "tx_applies H tx s" "utxo_ok s" "\<not> tx_IsCoinBase tx"
  shows "\<exists>c'. restore_inputs vt (rev (zip (vin tx) (spent_coins s tx))) clean c = Inr (Some clean, c') \<and> cinv c' \<and> cabst c' = s"
proof -
  let ?l = "rev (zip (vin tx) (spent_coins s tx))"
  have pv: "tx_prevouts tx = map prevout (vin tx)" using assms(5) by (simp add: tx_prevouts_def)
  have d: "distinct (map prevout (vin tx))" and av: "\<forall>p \<in> set (map prevout (vin tx)). cs_utxo s p \<noteq> None"
    using assms(3) by (simp_all add: tx_applies_def pv)
  have z: "zip (vin tx) (spent_coins s tx) = map (\<lambda>i. (i, the (cs_utxo s (prevout i)))) (vin tx)"
    by (simp add: spent_coins_def pv zip_map2 zip_same_conv_map comp_def)
  have m: "map (\<lambda>(i, coin). (prevout i, coin)) ?l = rev (map (\<lambda>p. (p, the (cs_utxo s p))) (map prevout (vin tx)))"
    by (simp add: z rev_map comp_def)
  have dl: "distinct (map (prevout \<circ> fst) ?l)" using d by (simp add: z rev_map[symmetric] comp_def)
  have "\<forall>(i, coin) \<in> set ?l. coin_ok coin \<and> cs_utxo (cabst c) (prevout i) = None"
    using av assms(4) by (auto simp: z assms(2) pv utxo_ok_def)
  from restore_inputs_ok[OF assms(1) dl this, of clean] obtain c' where c': "restore_inputs vt ?l clean c = Inr (Some clean, c')" "cinv c'"
    "cabst c' = (cabst c)\<lparr>cs_utxo := cs_utxo (cabst c) ++ map_of (map (\<lambda>(i, coin). (prevout i, coin)) ?l)\<rparr>" by blast
  define M where "M = map_of (rev (map (\<lambda>p. (p, the (cs_utxo s p))) (map prevout (vin tx))))"
  have mo: "M p = (if p \<in> set (tx_prevouts tx) then Some (the (cs_utxo s p)) else None)" for p
  proof -
    let ?xs = "rev (map (\<lambda>p. (p, the (cs_utxo s p))) (map prevout (vin tx)))"
    have "distinct (map fst ?xs)" using d by (simp add: rev_map[symmetric] comp_def)
    then have "map_of ?xs p = Some y \<longleftrightarrow> (p, y) \<in> set ?xs" for y by (rule map_of_eq_Some_iff)
    then show ?thesis unfolding M_def pv by (cases "map_of ?xs p") (auto simp: map_of_eq_None_iff)
  qed
  have "cabst c' = s" unfolding c'(3) assms(2) m M_def[symmetric] using assms(3)
    by (intro chainstate.equality) (auto simp: fun_eq_iff map_add_def mo tx_applies_def)
  then show ?thesis using c' by blast
qed

end

definition push_anchor :: "u256 \<Rightarrow> chainstate \<Rightarrow> chainstate" where
  "push_anchor r s = (if cs_bestAnchor s = r then s else s\<lparr>cs_anchor := (cs_anchor s)(r := True), cs_bestAnchor := r\<rparr>)"

lemma apply_tx_frame:
  "apply_tx H h tx (s\<lparr>cs_anchor := a, cs_bestAnchor := r, cs_best := b\<rparr>) = (apply_tx H h tx s)\<lparr>cs_anchor := a, cs_bestAnchor := r, cs_best := b\<rparr>"
  by (rule chainstate.equality) (auto simp: apply_tx_def fun_eq_iff)

lemma apply_txs_frame:
  "apply_txs H h txs (s\<lparr>cs_anchor := a, cs_bestAnchor := r, cs_best := b\<rparr>) = (apply_txs H h txs s)\<lparr>cs_anchor := a, cs_bestAnchor := r, cs_best := b\<rparr>"
  by (induction txs arbitrary: s) (simp_all add: apply_txs_def apply_tx_frame)

lemma txs_reversible_frame:
  "txs_reversible H h txs (s\<lparr>cs_anchor := a, cs_bestAnchor := r, cs_best := b\<rparr>) = txs_reversible H h txs s"
  by (induction txs arbitrary: s) (simp_all add: tx_reversible_def tx_applies_def apply_tx_frame)

lemma apply_txs_anchors:
  "cs_anchor (apply_txs H h txs s) = cs_anchor s" "cs_bestAnchor (apply_txs H h txs s) = cs_bestAnchor s" "cs_best (apply_txs H h txs s) = cs_best s"
  by (induction txs arbitrary: s) (simp_all add: apply_txs_def apply_tx_def)

context coins_view
begin

lemma undo_txs_step:
  assumes inv: "cinv c" and ab: "cabst c = apply_tx H h tx s" and rev: "tx_reversible H tx s" and ok: "utxo_ok s"
    and first: "rest = [] \<Longrightarrow> tx_IsCoinBase tx"
    and und: "\<not> tx_IsCoinBase tx \<Longrightarrow> length rest \<le> length undos \<and> vprevout (undos ! (length rest - 1)) = spent_coins s tx"
  shows "\<exists>c'. undo_txs H vt undos (tx # rest) clean c = undo_txs H vt undos rest clean c' \<and> cinv c' \<and> cabst c' = s"
proof -
  have ap: "tx_applies H tx s" using rev by (simp add: tx_reversible_def)
  obtain c1 where c1: "spend_outputs vt (tx_GetHash H tx) 0 (vout tx) clean c = (clean, c1)" "cinv c1"
    "cabst c1 = (cabst c)\<lparr>cs_utxo := (\<lambda>p. if p \<in> set (tx_prevouts tx) then None else cs_utxo s p)\<rparr>"
    using undo_outputs_ok[OF inv ab ap, of clean] by blast
  show ?thesis
  proof (cases "tx_IsCoinBase tx")
    case True
    then have "cabst c1 = s" unfolding c1(3) using rev
      by (intro chainstate.equality) (auto simp: ab apply_tx_def tx_prevouts_def tx_reversible_def)
    then show ?thesis using True c1(1,2) by (intro exI[of _ c1]) simp
  next
    case False
    let ?c2 = "SetNullifiers c1 tx False"
    note sn = SetNullifiers_abst[OF c1(2), of tx False]
    have c2: "cabst ?c2 = s\<lparr>cs_utxo := (\<lambda>p. if p \<in> set (tx_prevouts tx) then None else cs_utxo s p)\<rparr>"
      using sn rev by (intro chainstate.equality) (auto simp: c1(3) ab apply_tx_def tx_reversible_def fun_eq_iff)
    obtain c3 where c3: "restore_inputs vt (List.rev (zip (vin tx) (spent_coins s tx))) clean ?c2 = Inr (Some clean, c3)" "cinv c3" "cabst c3 = s"
      using undo_inputs_ok[OF conjunct1[OF sn] c2 ap ok False, of clean] by blast
    have len: "length (spent_coins s tx) = length (vin tx)" using False by (simp add: spent_coins_def tx_prevouts_def)
    have "undo_txs H vt undos (tx # rest) clean c = undo_txs H vt undos rest clean c3"
      using False und[OF False] first c1(1) c3(1) len by (auto simp: Let_def)
    then show ?thesis using c3(2,3) by blast
  qed
qed

lemma undo_txs_ok:
  assumes "cinv c" "cabst c = apply_txs H h txs s" "txs_reversible H h txs s" "utxo_ok s" "(word_of_int h :: u32) \<noteq> 0"
    and "txs \<noteq> [] \<Longrightarrow> tx_IsCoinBase (hd txs)" "undo_of H h txs s undos"
  shows "\<exists>c'. undo_txs H vt undos (rev txs) clean c = Inr (Some clean, c') \<and> cinv c' \<and> cabst c' = s"
  using assms
proof (induction txs arbitrary: c rule: rev_induct)
  case Nil
  then show ?case by (simp add: apply_txs_def)
next
  case (snoc tx txs)
  let ?s = "apply_txs H h txs s"
  have r: "txs_reversible H h txs s" "tx_reversible H tx ?s" using snoc.prems(3) by (simp_all add: txs_reversible_append)
  have ok: "utxo_ok ?s" using utxo_ok_apply_txs[OF snoc.prems(4) r(1) snoc.prems(5)] .
  have ab: "cabst c = apply_tx H h tx ?s" using snoc.prems(2) by (simp add: apply_txs_def)
  have first: "tx_IsCoinBase tx" if "rev txs = []" using snoc.prems(6) that by simp
  have und: "length (rev txs) \<le> length undos \<and> vprevout (undos ! (length (rev txs) - 1)) = spent_coins ?s tx" if "\<not> tx_IsCoinBase tx"
  proof -
    have "txs \<noteq> []" using first that by auto
    then show ?thesis using snoc.prems(7)[unfolded undo_of_def, rule_format, of "length txs"] by simp
  qed
  obtain c' where c': "undo_txs H vt undos (tx # rev txs) clean c = undo_txs H vt undos (rev txs) clean c'" "cinv c'" "cabst c' = ?s"
    using undo_txs_step[OF snoc.prems(1) ab r(2) ok first und, of clean] by blast
  have u: "undo_of H h txs s undos" unfolding undo_of_def
  proof (intro allI impI)
    fix i assume i: "0 < i \<and> i < length txs"
    then show "i \<le> length undos \<and> vprevout (undos ! (i - 1)) = spent_coins (apply_txs H h (take i txs) s) (txs ! i)"
      using snoc.prems(7)[unfolded undo_of_def, rule_format, of i] by (simp add: nth_append)
  qed
  have cb: "txs \<noteq> [] \<Longrightarrow> tx_IsCoinBase (hd txs)" using snoc.prems(6) by simp
  show ?case using snoc.IH[OF c'(2,3) r(1) snoc.prems(4,5) cb u] c'(1) by simp
qed

lemma SetBestBlock_abst:
  assumes "cinv c" "hb \<noteq> 0"
  shows "cinv (SetBestBlock c hb) \<and> cabst (SetBestBlock c hb) = (cabst c)\<lparr>cs_best := hb\<rparr>"
  using assms by (simp add: SetBestBlock_def cache_inv_def cache_abst_def Let_def)

lemma PopAnchor_same:
  assumes "cinv c" "cs_bestAnchor (cabst c) = rt"
  shows "\<exists>c'. PopAnchor vt c rt = Inr c' \<and> cinv c' \<and> cabst c' = cabst c"
proof -
  obtain r c1 where g: "GetBestAnchor vt c = (r, c1)" by fastforce
  then show ?thesis using GetBestAnchor_ok[OF assms(1) g] assms(2) by (intro exI[of _ c1]) (simp add: PopAnchor_def)
qed

text \<open>Connecting a block pushes the new anchor and moves the best block; this takes all of it back.\<close>

lemma DisconnectBlock_ok:
  assumes c: "cinv c" "cabst c = (push_anchor newrt (apply_txs H h (vtx block) s))\<lparr>cs_best := hb\<rparr>"
    and s: "txs_reversible H h (vtx block) s" "utxo_ok s" "(word_of_int h :: u32) \<noteq> 0"
    and b: "vtx block \<noteq> []" "tx_IsCoinBase (hd (vtx block))" "undo_of H h (vtx block) s (vtxundo u)"
    and i: "length (vtxundo u) + 1 = length (vtx block)" "\<not> CDiskBlockPos_IsNull (GetUndoPos b)"
      "pprev b = Some (cs_best s)" "m (cs_best s) = Some pb" "cs_best s \<noteq> 0"
    and r: "cs_bestAnchor s = (if Params_NetworkUpgradeActive cp (bi_nHeight pb) UPGRADE_V5_0 then bi_hashFinalSaplingRoot pb else empty_root)"
      "cs_bestAnchor s \<noteq> 0" "newrt = cs_bestAnchor s \<or> newrt \<noteq> empty_root \<and> \<not> cs_anchor s newrt"
  shows "\<exists>c'. DisconnectBlock cp H empty_root vt m (Some u) block b c = Inr (DISCONNECT_OK, c') \<and> cinv c' \<and> cabst c' = s"
proof -
  let ?s = "(push_anchor newrt s)\<lparr>cs_best := hb\<rparr>"
  define a where "a = cs_anchor (push_anchor newrt s)"
  define rt where "rt = cs_bestAnchor (push_anchor newrt s)"
  have s': "?s = s\<lparr>cs_anchor := a, cs_bestAnchor := rt, cs_best := hb\<rparr>"
    by (rule chainstate.equality) (simp_all add: a_def rt_def push_anchor_def)
  have ab: "cabst c = apply_txs H h (vtx block) ?s"
    unfolding c(2) s' apply_txs_frame
    by (rule chainstate.equality) (simp_all add: push_anchor_def a_def rt_def apply_txs_anchors)
  have pre: "txs_reversible H h (vtx block) ?s" "utxo_ok ?s" "undo_of H h (vtx block) ?s (vtxundo u)"
    unfolding s' using s(1,2) b(3) by (simp_all add: txs_reversible_frame utxo_ok_def undo_of_def apply_txs_frame spent_coins_def)
  obtain c1 where c1: "undo_txs H vt (vtxundo u) (rev (vtx block)) True c = Inr (Some True, c1)" "cinv c1" "cabst c1 = ?s"
    using undo_txs_ok[OF c(1) ab pre(1,2) s(3) b(2) pre(3), of True] by blast
  have "\<exists>c2. PopAnchor vt c1 (cs_bestAnchor s) = Inr c2 \<and> cinv c2 \<and> cabst c2 = s\<lparr>cs_best := hb\<rparr>"
  proof (cases "newrt = cs_bestAnchor s")
    case True
    then show ?thesis using PopAnchor_same[OF c1(2), of newrt] c1(3) by (simp add: push_anchor_def)
  next
    case False
    then have e: "cs_bestAnchor (cabst c1) = newrt" "cs_anchor (cabst c1) newrt" "newrt \<noteq> empty_root" "\<not> cs_anchor s newrt"
      using c1(3) r(3) by (auto simp: push_anchor_def)
    then obtain c2 where "PopAnchor vt c1 (cs_bestAnchor s) = Inr c2" "cinv c2"
      "cabst c2 = (cabst c1)\<lparr>cs_anchor := (cs_anchor (cabst c1))(newrt := False), cs_bestAnchor := cs_bestAnchor s\<rparr>"
      using PopAnchor_ok[OF c1(2) r(2)] False by auto
    moreover have "(cs_anchor (cabst c1))(newrt := False) = cs_anchor s"
      using False e(4) by (auto simp: c1(3) push_anchor_def fun_eq_iff)
    ultimately show ?thesis using c1(3) False by (auto simp: push_anchor_def)
  qed
  then obtain c2 where c2: "PopAnchor vt c1 (cs_bestAnchor s) = Inr c2" "cinv c2" "cabst c2 = s\<lparr>cs_best := hb\<rparr>" by blast
  let ?c3 = "SetBestBlock c2 (cs_best s)"
  have "cinv ?c3" "cabst ?c3 = s"
    using SetBestBlock_abst[OF c2(2) i(5)] c2(3) by simp_all
  moreover have "DisconnectBlock cp H empty_root vt m (Some u) block b c = Inr (DISCONNECT_OK, ?c3)"
    using c1(1) c2(1) i r(1) by (simp add: DisconnectBlock_def)
  ultimately show ?thesis by blast
qed

end

section \<open>The format of undo data\<close>

definition undo_coin_ok :: "Coin \<Rightarrow> bool" where
  "undo_coin_ok coin \<longleftrightarrow> unat (coin_nHeight coin) < 2 ^ 30 \<and>
     coin_out coin = CTxOut_make (nValue (coin_out coin)) (scriptPubKey (coin_out coin)) \<and>
     0 \<le> nValue (coin_out coin) \<and> 9 * nValue (coin_out coin) < 2 ^ 64 \<and> length (scriptPubKey (coin_out coin)) \<le> MAX_SCRIPT_SIZE"

definition txundo_ok :: "CTxUndo \<Rightarrow> bool" where
  "txundo_ok u \<longleftrightarrow> list_all undo_coin_ok (vprevout u) \<and> length (vprevout u) \<le> MAX_INPUTS_PER_BLOCK"

lemma MAX_INPUTS_PER_BLOCK_value: "MAX_INPUTS_PER_BLOCK = 48780"
  by (simp add: MAX_INPUTS_PER_BLOCK_def Serialize_CTxIn_def Serialize_COutPoint_def Serialize_uint256_def Serialize_blob_simp
      WriteCompactSize_def ser_writedata32_def ser_writedata8_def)

lemma height_code:
  assumes "unat h < 2 ^ 30" "b < 2" "k < 2"
  shows "drop_bit 2 (h * 4 + of_nat (2 * b + k) :: u32) = h"
    "and (h * 4 + of_nat (2 * b + k) :: u32) 2 \<noteq> 0 \<longleftrightarrow> b = 1" "and (h * 4 + of_nat (2 * b + k) :: u32) 1 \<noteq> 0 \<longleftrightarrow> k = 1"
proof -
  define w where "w = (h * 4 + of_nat (2 * b + k) :: u32)"
  have w: "unat w = unat h * 4 + (2 * b + k)"
  proof -
    have "w = of_nat (unat h * 4 + (2 * b + k))" by (simp add: w_def)
    moreover have "unat h * 4 + (2 * b + k) < 2 ^ 32" using assms by simp
    ultimately show ?thesis by (simp only: unat_of_nat32)
  qed
  have "unat (drop_bit 2 w) = unat h" unfolding unat_drop_bit_eq w using assms by (simp add: drop_bit_eq_div)
  then show "drop_bit 2 (h * 4 + of_nat (2 * b + k) :: u32) = h" by (simp add: w_def word_unat_eq_iff)
  have b: "bit w i \<longleftrightarrow> bit (unat w) i" for i by (auto simp: bit_unsigned_iff dest: bit_imp_le_length)
  have "and w 2 \<noteq> 0 \<longleftrightarrow> bit w 1" using and_exp_eq_0_iff_not_bit[of w 1] by simp
  also have "\<dots> \<longleftrightarrow> odd (unat w div 2 ^ 1)" by (simp only: b bit_iff_odd[of "unat w"])
  also have "unat w div 2 ^ 1 = 2 * unat h + b" unfolding w using assms by simp
  also have "odd (2 * unat h + b) \<longleftrightarrow> b = 1" using assms by (auto simp: less_2_cases_iff)
  finally show "and (h * 4 + of_nat (2 * b + k) :: u32) 2 \<noteq> 0 \<longleftrightarrow> b = 1" by (simp add: w_def)
  have "and w 1 \<noteq> 0 \<longleftrightarrow> bit w 0" using and_exp_eq_0_iff_not_bit[of w 0] by simp
  also have "\<dots> \<longleftrightarrow> odd (unat w div 2 ^ 0)" by (simp only: b bit_iff_odd[of "unat w"])
  also have "\<dots> \<longleftrightarrow> k = 1" unfolding w using assms by (auto simp: less_2_cases_iff)
  finally show "and (h * 4 + of_nat (2 * b + k) :: u32) 1 \<noteq> 0 \<longleftrightarrow> k = 1" by (simp add: w_def)
qed

lemma TxInUndo_codec:
  assumes "ec_compression_law ec_parse ec_serialize"
  shows "codec (Serialize_TxInUndo ec_parse) (Unserialize_TxInUndo ec_parse ec_serialize) undo_coin_ok"
proof
  fix coin rest assume ok: "undo_coin_ok coin"
  define b k :: nat where "b = (if fCoinBase coin then 1 else 0)" and "k = (if fCoinStake coin then 1 else 0)"
  define w where "w = (coin_nHeight coin * 4 + of_nat (2 * b + k) :: u32)"
  have h: "unat (coin_nHeight coin) < 2 ^ 30" using ok by (simp add: undo_coin_ok_def)
  have w: "coin_nHeight coin * 4 + (if fCoinBase coin then 2 else 0) + (if fCoinStake coin then 1 else 0) = w"
    by (simp add: w_def b_def k_def)
  have c: "drop_bit 2 w = coin_nHeight coin" "(and w 2 \<noteq> 0) = fCoinBase coin" "(and w 1 \<noteq> 0) = fCoinStake coin"
    using height_code[OF h, of b k] unfolding w_def by (simp_all add: b_def k_def split: if_splits)
  have dummy: "(ReadVarInt :: u32 reader) (ser_writedata8 0 @ s) = Inr (0, s)" for s
  proof -
    have "ser_writedata8 0 = WriteVarInt (0 :: u32)" by (simp add: ser_writedata8_def WriteVarInt_def WriteVarInt_tmp.simps)
    then show ?thesis by (simp add: vi32.unser_ser)
  qed
  have "Unserialize_TxOutCompressor ec_parse ec_serialize CTxOut_null (Serialize_TxOutCompressor ec_parse (coin_out coin) @ rest)
      = Inr (CTxOut_null\<lparr>nValue := nValue (coin_out coin), scriptPubKey := scriptPubKey (coin_out coin)\<rparr>, rest)"
    using ok by (intro txout_compressor_roundtrip[OF assms]) (simp_all add: undo_coin_ok_def)
  moreover have "CTxOut_null\<lparr>nValue := nValue (coin_out coin), scriptPubKey := scriptPubKey (coin_out coin)\<rparr> = coin_out coin"
    using ok by (auto simp: undo_coin_ok_def CTxOut_null_def CTxOut_make_def)
  ultimately have out: "Unserialize_TxOutCompressor ec_parse ec_serialize CTxOut_null (Serialize_TxOutCompressor ec_parse (coin_out coin) @ rest) = Inr (coin_out coin, rest)"
    by simp
  have "\<lparr>fCoinBase = fCoinBase coin, fCoinStake = fCoinStake coin, coin_out = coin_out coin, coin_nHeight = coin_nHeight coin\<rparr> = coin" by simp
  then show "Unserialize_TxInUndo ec_parse ec_serialize (Serialize_TxInUndo ec_parse coin @ rest) = Inr (coin, rest)"
    unfolding Unserialize_TxInUndo_def Serialize_TxInUndo_def w
    by (simp add: rbind_def vi32.unser_ser c dummy out)
qed

lemma read_prevouts_ok:
  assumes "codec ser unser ok" "list_all ok xs"
  shows "read_prevouts unser (length xs) (concat (map ser xs) @ rest) = Inr (xs, rest)"
  using assms(2) by (induction xs) (simp_all add: rbind_def codec.unser_ser[OF assms(1)])

lemma CTxUndo_codec:
  assumes "ec_compression_law ec_parse ec_serialize"
  shows "codec (Serialize_CTxUndo ec_parse) (Unserialize_CTxUndo ec_parse ec_serialize) txundo_ok"
proof
  fix u rest assume ok: "txundo_ok u"
  let ?n = "of_nat (length (vprevout u)) :: u64"
  have len: "length (vprevout u) \<le> 48780" using ok by (simp add: txundo_ok_def MAX_INPUTS_PER_BLOCK_value)
  then have un: "unat ?n = length (vprevout u)" by (simp add: unat_of_nat take_bit_nat_eq_self)
  then have "?n \<le> MAX_SIZE" using len by (simp add: word_le_nat_alt MAX_SIZE_def)
  then show "Unserialize_CTxUndo ec_parse ec_serialize (Serialize_CTxUndo ec_parse u @ rest) = Inr (u, rest)"
    using ok len un read_prevouts_ok[OF TxInUndo_codec[OF assms], of "vprevout u" rest]
    by (simp add: Unserialize_CTxUndo_def Serialize_CTxUndo_def rbind_def cs.unser_ser txundo_ok_def MAX_INPUTS_PER_BLOCK_value)
qed

text \<open>C34: undo data on disk.  What `ConnectBlock` writes, `DisconnectBlock` reads back: the records of every transaction with
the height, the kind, the amount and the script of every spent coin, for heights below \<open>2 ^ 30\<close> and amounts the compressor
can hold.\<close>

theorem undo_roundtrip:
  assumes "ec_compression_law ec_parse ec_serialize" "0 < sz" "sz \<le> 5000000"
    and "list_all txundo_ok (vtxundo u)" "length (vtxundo u) \<le> unat MAX_SIZE"
  shows "Unserialize_CBlockUndo sz ec_parse ec_serialize (Serialize_CBlockUndo ec_parse u @ rest) = Inr (u, rest)"
  using codec.unser_ser[OF codec.vec_codec[OF CTxUndo_codec[OF assms(1)] assms(2,3)], of "vtxundo u" rest] assms(4,5)
  by (simp add: Unserialize_CBlockUndo_def Serialize_CBlockUndo_def rbind_def)

definition undo_sample_coin :: Coin where
  "undo_sample_coin = \<lparr>fCoinBase = False, fCoinStake = True, coin_out = CTxOut_make 700000000 [81], coin_nHeight = 1200\<rparr>"

theorem undo_roundtrip_witness:
  "Unserialize_CBlockUndo 24 sample_parse (\<lambda>_. sample_key) (Serialize_CBlockUndo sample_parse \<lparr>vtxundo = [\<lparr>vprevout = [undo_sample_coin]\<rparr>]\<rparr> @ [1])
     = Inr (\<lparr>vtxundo = [\<lparr>vprevout = [undo_sample_coin]\<rparr>]\<rparr>, [1])"
  by (rule undo_roundtrip[OF sample_law])
     (simp_all add: txundo_ok_def undo_coin_ok_def undo_sample_coin_def CTxOut_make_def MAX_INPUTS_PER_BLOCK_value MAX_SIZE_def MAX_SCRIPT_SIZE_def)

end
