(* ===== verification/TxVerify.thy ===== *)
theory TxVerify
  imports CoinsDB SigHash Consensus
begin

text \<open>
  Checks of single transactions: `consensus/tx_verify.cpp`, `sapling/sapling_validation.cpp`, `tiertwo/specialtx_validation.cpp`
  and `CheckTxInputs` of `validation.cpp`, with the `CValidationState` of `consensus/validation.h` they report to.  A check
  returns its verdict and the state; debug messages are left out.  Amounts are `int64_t`: sums are reduced by \<open>int64_wrap\<close>.
  A call that throws makes a check return an error.
\<close>

section \<open>Validation state\<close>

datatype mode_state = MODE_VALID | MODE_INVALID | MODE_ERROR

record CValidationState =
  vs_mode :: mode_state
  vs_nDoS :: int
  vs_reason :: string
  vs_code :: nat
  vs_corruption :: bool

definition CValidationState_new :: CValidationState where
  "CValidationState_new = \<lparr>vs_mode = MODE_VALID, vs_nDoS = 0, vs_reason = '''', vs_code = 0, vs_corruption = False\<rparr>"

definition REJECT_INVALID :: nat where "REJECT_INVALID = 0x10"
definition REJECT_OBSOLETE :: nat where "REJECT_OBSOLETE = 0x11"
definition REJECT_NONSTANDARD :: nat where "REJECT_NONSTANDARD = 0x40"
definition REJECT_CHECKPOINT :: nat where "REJECT_CHECKPOINT = 0x43"

definition DoS :: "int \<Rightarrow> nat \<Rightarrow> string \<Rightarrow> bool \<Rightarrow> CValidationState \<Rightarrow> bool \<times> CValidationState" where
  "DoS level code reason corruption st =
     (let st1 = st\<lparr>vs_code := code, vs_reason := reason, vs_corruption := corruption\<rparr>
      in (False, if vs_mode st = MODE_ERROR then st1 else st1\<lparr>vs_nDoS := vs_nDoS st + level, vs_mode := MODE_INVALID\<rparr>))"

definition Invalid :: "nat \<Rightarrow> string \<Rightarrow> CValidationState \<Rightarrow> bool \<times> CValidationState" where
  "Invalid code reason st = DoS 0 code reason False st"

definition state_Error :: "string \<Rightarrow> CValidationState \<Rightarrow> bool \<times> CValidationState" where
  "state_Error reason st = (False, (if vs_mode st = MODE_VALID then st\<lparr>vs_reason := reason\<rparr> else st)\<lparr>vs_mode := MODE_ERROR\<rparr>)"

definition state_IsValid :: "CValidationState \<Rightarrow> bool" where
  "state_IsValid st \<longleftrightarrow> vs_mode st = MODE_VALID"

definition state_IsInvalid :: "CValidationState \<Rightarrow> int option" where
  "state_IsInvalid st = (if vs_mode st = MODE_INVALID then Some (vs_nDoS st) else None)"

section \<open>Finality and signature operations\<close>

definition IsFinalTx :: "int \<Rightarrow> CTransaction \<Rightarrow> int \<Rightarrow> int \<Rightarrow> bool" where
  "IsFinalTx adjustedTime tx nBlockHeight nBlockTime =
     (if nLockTime tx = 0 then True
      else let t = (if nBlockTime = 0 then adjustedTime else nBlockTime) in
        if uint (nLockTime tx) < (if uint (nLockTime tx) < LOCKTIME_THRESHOLD then nBlockHeight else t) then True
        else list_all CTxIn_IsFinal (vin tx))"

definition GetLegacySigOpCount :: "CTransaction \<Rightarrow> u32" where
  "GetLegacySigOpCount tx =
     foldl (\<lambda>n txout. n + word_of_int (GetSigOpCount (scriptPubKey txout) False))
       (foldl (\<lambda>n txin. n + word_of_int (GetSigOpCount (scriptSig txin) False)) 0 (vin tx)) (vout tx)"

fun GetP2SHSigOpCount_loop where
  "GetP2SHSigOpCount_loop vt [] n c = (n, c)"
| "GetP2SHSigOpCount_loop vt (txin # rest) n c =
     (let (coin, c') = AccessCoin vt c (prevout txin); script = scriptPubKey (coin_out coin) in
      GetP2SHSigOpCount_loop vt rest
        (if IsPayToScriptHash script then n + word_of_int (GetSigOpCount_P2SH script (scriptSig txin)) else (n :: u32)) c')"

definition GetP2SHSigOpCount where
  "GetP2SHSigOpCount vt c tx = (if tx_IsCoinBase tx then (0, c) else GetP2SHSigOpCount_loop vt (vin tx) 0 c)"

section \<open>Context-free checks\<close>

definition MAX_TX_SIZE_AFTER_SAPLING :: nat where "MAX_TX_SIZE_AFTER_SAPLING = 400000"
definition MIN_COLDSTAKING_AMOUNT :: CAmount where "MIN_COLDSTAKING_AMOUNT = 1 * COIN"
definition MAX_SPECIALTX_EXTRAPAYLOAD :: nat where "MAX_SPECIALTX_EXTRAPAYLOAD = 10000"

fun duplicate_nullifier :: "SpendDescription list \<Rightarrow> u256 set \<Rightarrow> bool" where
  "duplicate_nullifier [] seen = False"
| "duplicate_nullifier (d # ds) seen = (if sd_nullifier d \<in> seen then True else duplicate_nullifier ds (insert (sd_nullifier d) seen))"

text \<open>The result holds the total of the outputs so far, to which a negative balance adds.\<close>

definition CheckTransactionWithoutProofVerification ::
  "consensus_params \<Rightarrow> SaplingTxData \<Rightarrow> CAmount \<Rightarrow> CValidationState \<Rightarrow> (bool \<times> CValidationState) \<times> CAmount" where
  "CheckTransactionWithoutProofVerification c d nValueOut st =
     (if vShieldedSpend d = [] \<and> vShieldedOutput d = [] \<and> valueBalance d \<noteq> 0
      then (DoS 100 REJECT_INVALID ''bad-txns-valuebalance-nonzero'' False st, nValueOut)
      else if nMaxMoneyOut c < valueBalance d \<or> valueBalance d < - nMaxMoneyOut c
      then (DoS 100 REJECT_INVALID ''bad-txns-valuebalance-toolarge'' False st, nValueOut)
      else let out = (if valueBalance d < 0 then int64_wrap (nValueOut + - valueBalance d) else nValueOut) in
        if valueBalance d < 0 \<and> \<not> consensus_MoneyRange c out
        then (DoS 100 REJECT_INVALID ''bad-txns-txouttotal-toolarge'' False st, out)
        else if 0 < valueBalance d \<and> \<not> consensus_MoneyRange c (valueBalance d)
        then (DoS 100 REJECT_INVALID ''bad-txns-txintotal-toolarge'' False st, out)
        else if duplicate_nullifier (vShieldedSpend d) {}
        then (DoS 100 REJECT_INVALID ''bad-spend-description-nullifiers-duplicate'' False st, out)
        else ((True, st), out))"

definition Sapling_CheckTransaction ::
  "consensus_params \<Rightarrow> CTransaction \<Rightarrow> bool \<Rightarrow> CValidationState \<Rightarrow> (bool \<times> CValidationState) \<times> CAmount" where
  "Sapling_CheckTransaction c tx fIsSaplingActive st =
     (if \<not> isSaplingVersion tx \<and> hasSaplingData tx then (DoS 100 REJECT_INVALID ''bad-txns-form-not-sapling'' False st, 0)
      else if \<not> hasSaplingData tx then ((True, st), 0)
      else if tx_IsCoinStake tx \<or> tx_IsCoinBase tx then (DoS 100 REJECT_INVALID ''bad-txns-invalid-sapling'' False st, 0)
      else if \<not> fIsSaplingActive then (DoS 100 REJECT_INVALID ''bad-txns-invalid-sapling-act'' False st, 0)
      else CheckTransactionWithoutProofVerification c (the (sapData tx)) 0 st)"

definition CheckSpecialTx :: "CTransaction \<Rightarrow> bool \<Rightarrow> CValidationState \<Rightarrow> bool \<times> CValidationState" where
  "CheckSpecialTx tx fIsSaplingActive st =
     (if \<not> fIsSaplingActive then (\<not> hasExtraPayload tx, st)
      else if \<not> isSaplingVersion tx \<and> nType tx \<noteq> 0 then DoS 100 REJECT_INVALID ''bad-txns-type-version'' False st
      else if nType tx = 0 then
        (if hasExtraPayload tx then DoS 100 REJECT_INVALID ''bad-txns-type-payload'' False st else (True, st))
      else if \<not> hasExtraPayload tx then DoS 100 REJECT_INVALID ''bad-txns-payload-empty'' False st
      else if MAX_SPECIALTX_EXTRAPAYLOAD < length (the (extraPayload tx)) then DoS 100 REJECT_INVALID ''bad-txns-payload-oversize'' False st
      else DoS 10 REJECT_INVALID ''bad-tx-type'' False st)"

fun check_outputs :: "consensus_params \<Rightarrow> CTransaction \<Rightarrow> bool \<Rightarrow> CTxOut list \<Rightarrow> CAmount \<Rightarrow> CValidationState \<Rightarrow> bool \<times> CValidationState" where
  "check_outputs c tx fColdStakingActive [] nValueOut st = (True, st)"
| "check_outputs c tx fColdStakingActive (txout # rest) nValueOut st =
     (let total = int64_wrap (nValueOut + nValue txout) in
      if CTxOut_IsEmpty txout \<and> \<not> tx_IsCoinBase tx \<and> \<not> tx_IsCoinStake tx then DoS 100 REJECT_INVALID ''bad-txns-vout-empty'' False st
      else if nValue txout < 0 then DoS 100 REJECT_INVALID ''bad-txns-vout-negative'' False st
      else if nMaxMoneyOut c < nValue txout then DoS 100 REJECT_INVALID ''bad-txns-vout-toolarge'' False st
      else if \<not> consensus_MoneyRange c total then DoS 100 REJECT_INVALID ''bad-txns-txouttotal-toolarge'' False st
      else if IsPayToColdStaking (scriptPubKey txout) \<and> \<not> fColdStakingActive then DoS 10 REJECT_INVALID ''cold-stake-inactive'' False st
      else if IsPayToColdStaking (scriptPubKey txout) \<and> nValue txout < MIN_COLDSTAKING_AMOUNT
      then DoS 100 REJECT_INVALID ''cold-stake-vout-toosmall'' False st
      else check_outputs c tx fColdStakingActive rest total st)"

fun duplicate_input :: "CTxIn list \<Rightarrow> COutPoint set \<Rightarrow> bool" where
  "duplicate_input [] seen = False"
| "duplicate_input (txin # rest) seen = (if prevout txin \<in> seen then True else duplicate_input rest (insert (prevout txin) seen))"

definition CheckTransaction :: "consensus_params \<Rightarrow> CTransaction \<Rightarrow> bool \<Rightarrow> bool \<Rightarrow> CValidationState \<Rightarrow> bool \<times> CValidationState" where
  "CheckTransaction c tx fColdStakingActive fSaplingActive st =
     (if vin tx = [] \<and> (case sapData tx of None \<Rightarrow> False | Some d \<Rightarrow> vShieldedSpend d = []) then DoS 10 REJECT_INVALID ''bad-txns-vin-empty'' False st
      else if vout tx = [] \<and> (case sapData tx of None \<Rightarrow> False | Some d \<Rightarrow> vShieldedOutput d = []) then DoS 10 REJECT_INVALID ''bad-txns-vout-empty'' False st
      else if fSaplingActive \<and> (nVersion tx < 1 \<or> 4 \<le> nVersion tx) then DoS 10 REJECT_INVALID ''bad-tx-version-too-high'' False st
      else if MAX_TX_SIZE_AFTER_SAPLING < GetTotalSize tx then DoS 10 REJECT_INVALID ''bad-txns-oversize'' False st
      else case Sapling_CheckTransaction c tx fSaplingActive st of
        ((False, st1), _) \<Rightarrow> (False, st1)
      | ((True, st1), nValueOut) \<Rightarrow>
          (case CheckSpecialTx tx fSaplingActive st1 of
             (False, st2) \<Rightarrow> (False, st2)
           | (True, st2) \<Rightarrow>
               (case check_outputs c tx fColdStakingActive (vout tx) nValueOut st2 of
                  (False, st3) \<Rightarrow> (False, st3)
                | (True, st3) \<Rightarrow>
                    if duplicate_input (vin tx) {} then DoS 100 REJECT_INVALID ''bad-txns-inputs-duplicate'' False st3
                    else if tx_IsCoinBase tx \<and> (length (scriptSig (vin tx ! 0)) < 2 \<or> 150 < length (scriptSig (vin tx ! 0)))
                    then DoS 100 REJECT_INVALID ''bad-cb-length'' False st3
                    else (True, st3))))"

section \<open>Shielded parts in context\<close>

text \<open>The functions of librustzcash, with the verification context they thread.\<close>

record 'x sapling_verifier =
  verification_ctx_init :: 'x
  sapling_check_spend :: "'x \<Rightarrow> SpendDescription \<Rightarrow> u256 \<Rightarrow> bool \<times> 'x"
  sapling_check_output :: "'x \<Rightarrow> OutputDescription \<Rightarrow> bool \<times> 'x"
  sapling_final_check :: "'x \<Rightarrow> CAmount \<Rightarrow> bytes \<Rightarrow> u256 \<Rightarrow> bool"

fun check_spends :: "('x \<Rightarrow> SpendDescription \<Rightarrow> u256 \<Rightarrow> bool \<times> 'x) \<Rightarrow> u256 \<Rightarrow> SpendDescription list \<Rightarrow> 'x \<Rightarrow> bool \<times> 'x" where
  "check_spends f h [] x = (True, x)"
| "check_spends f h (d # ds) x = (let (ok, x') = f x d h in if ok then check_spends f h ds x' else (False, x'))"

fun check_shielded_outputs :: "('x \<Rightarrow> OutputDescription \<Rightarrow> bool \<times> 'x) \<Rightarrow> OutputDescription list \<Rightarrow> 'x \<Rightarrow> bool \<times> 'x" where
  "check_shielded_outputs f [] x = (True, x)"
| "check_shielded_outputs f (d # ds) x = (let (ok, x') = f x d in if ok then check_shielded_outputs f ds x' else (False, x'))"

definition ContextualCheckTransaction ::
  "consensus_params \<Rightarrow> sighash_env \<Rightarrow> 'x sapling_verifier \<Rightarrow> CTransaction \<Rightarrow> int \<Rightarrow> bool \<Rightarrow> bool \<Rightarrow> CValidationState \<Rightarrow> bool \<times> CValidationState" where
  "ContextualCheckTransaction c env rz tx nHeight isMined isInitBlockDownload st =
     (let constricting = (if isMined then 100 else 10);
          relaxing = (if isMined then 100 else if isInitBlockDownload then 0 else 10)
      in
      if \<not> Params_NetworkUpgradeActive c nHeight UPGRADE_V5_0 then (True, st)
      else if \<not> isSaplingVersion tx \<and> hasSaplingData tx then DoS constricting REJECT_INVALID ''bad-tx-sapling-version-too-low'' False st
      else if (tx_IsCoinBase tx \<or> tx_IsCoinStake tx) \<and> hasSaplingData tx then DoS relaxing REJECT_INVALID ''bad-cs-has-shielded-data'' False st
      else if \<not> hasSaplingData tx then (True, st)
      else case SignatureHash env [] tx NOT_AN_INPUT (ucast SIGHASH_ALL) 0 SIGVERSION_SAPLING None of
        Inl _ \<Rightarrow> DoS 100 REJECT_INVALID ''error-computing-signature-hash'' False st
      | Inr dataToBeSigned \<Rightarrow>
          let d = the (sapData tx);
              (spends, x1) = check_spends (sapling_check_spend rz) dataToBeSigned (vShieldedSpend d) (verification_ctx_init rz);
              (outs, x2) = check_shielded_outputs (sapling_check_output rz) (vShieldedOutput d) x1
          in if \<not> spends then DoS relaxing REJECT_INVALID ''bad-txns-sapling-spend-description-invalid'' False st
             else if \<not> outs then DoS 100 REJECT_INVALID ''bad-txns-sapling-output-description-invalid'' False st
             else if \<not> sapling_final_check rz x2 (valueBalance d) (bindingSig d) dataToBeSigned
             then DoS relaxing REJECT_INVALID ''bad-txns-sapling-binding-signature-invalid'' False st
             else (True, st))"

section \<open>Inputs against the coins\<close>

datatype tx_error = ValueError value_error | SpentCoin | ScriptAbort | CoinsError coins_error

fun check_input_values where
  "check_input_values c nSpendHeight vt [] nValueIn st ca = Inr ((True, st), nValueIn, ca)"
| "check_input_values c nSpendHeight vt (txin # rest) nValueIn st ca =
     (let (coin, ca') = AccessCoin vt ca (prevout txin); v = nValue (coin_out coin); total = int64_wrap (nValueIn + v) in
      if IsSpent coin then Inl SpentCoin
      else if (fCoinBase coin \<or> fCoinStake coin) \<and> nSpendHeight - uint (coin_nHeight coin) < nCoinbaseMaturity c
      then Inr (Invalid REJECT_INVALID ''bad-txns-premature-spend-of-coinbase-coinstake'' st, nValueIn, ca')
      else if \<not> consensus_MoneyRange c v \<or> \<not> consensus_MoneyRange c total
      then Inr (DoS 100 REJECT_INVALID ''bad-txns-inputvalues-outofrange'' False st, total, ca')
      else check_input_values c nSpendHeight vt rest total st ca')"

definition check_fees :: "consensus_params \<Rightarrow> CTransaction \<Rightarrow> CAmount \<Rightarrow> CValidationState \<Rightarrow> tx_error + bool \<times> CValidationState" where
  "check_fees c tx nValueIn st =
     (if tx_IsCoinStake tx then Inr (True, st)
      else case GetValueOut tx of
        Inl e \<Rightarrow> Inl (ValueError e)
      | Inr out \<Rightarrow>
          if nValueIn < out then Inr (DoS 100 REJECT_INVALID ''bad-txns-in-belowout'' False st)
          else let nTxFee = int64_wrap (nValueIn - out) in
            if nTxFee < 0 then Inr (DoS 100 REJECT_INVALID ''bad-txns-fee-negative'' False st)
            else if \<not> consensus_MoneyRange c (int64_wrap (0 + nTxFee)) then Inr (DoS 100 REJECT_INVALID ''bad-txns-fee-outofrange'' False st)
            else Inr (True, st))"

definition CheckTxInputs where
  "CheckTxInputs c vt tx nSpendHeight st ca =
     (let (have, ca1) = HaveInputs vt ca tx in
      if \<not> have then Inr (Invalid 0 '''' st, ca1)
      else let (shielded, ca2) = HaveShieldedRequirements vt ca1 tx in
        if \<not> shielded then Inr (Invalid 0 '''' st, ca2)
        else case check_input_values c nSpendHeight vt (vin tx) 0 st ca2 of
          Inl e \<Rightarrow> Inl e
        | Inr ((False, st1), _, ca3) \<Rightarrow> Inr ((False, st1), ca3)
        | Inr ((True, st1), nValueIn, ca3) \<Rightarrow>
            (case GetShieldedValueIn tx of
               Inl e \<Rightarrow> Inl (ValueError e)
             | Inr shieldedIn \<Rightarrow>
                 (case check_fees c tx (int64_wrap (nValueIn + shieldedIn)) st1 of Inl e \<Rightarrow> Inl e | Inr r \<Rightarrow> Inr (r, ca3))))"

section \<open>Scripts of the inputs\<close>

definition STANDARD_NOT_MANDATORY_VERIFY_FLAGS :: u32 where
  "STANDARD_NOT_MANDATORY_VERIFY_FLAGS =
     (SCRIPT_VERIFY_P2SH OR SCRIPT_VERIFY_DERSIG OR SCRIPT_VERIFY_STRICTENC OR SCRIPT_VERIFY_MINIMALDATA OR SCRIPT_VERIFY_NULLDUMMY OR
      SCRIPT_VERIFY_DISCOURAGE_UPGRADABLE_NOPS OR SCRIPT_VERIFY_LOW_S) AND NOT SCRIPT_VERIFY_P2SH"

record CScriptCheck =
  ck_script :: CScript
  ck_amount :: CAmount
  ck_tx :: CTransaction
  ck_nIn :: nat
  ck_flags :: u32

text \<open>\<open>mk_env\<close> builds the environment of an evaluation from the flags and the checker for input \<open>nIn\<close> of the transaction
and the amount it spends.\<close>

definition run_check :: "(u32 \<Rightarrow> CTransaction \<Rightarrow> nat \<Rightarrow> CAmount \<Rightarrow> script_env) \<Rightarrow> CScriptCheck \<Rightarrow> verify_result" where
  "run_check mk_env ck = VerifyScript (mk_env (ck_flags ck) (ck_tx ck) (ck_nIn ck) (ck_amount ck)) (scriptSig (vin (ck_tx ck) ! ck_nIn ck)) (ck_script ck)"

text \<open>`error` after a check, and its text.\<close>

fun ScriptErrorString :: "ScriptError \<Rightarrow> string" where
  "ScriptErrorString SCRIPT_ERR_OK = ''No error''"
| "ScriptErrorString SCRIPT_ERR_EVAL_FALSE = ''Script evaluated without error but finished with a false/empty top stack element''"
| "ScriptErrorString SCRIPT_ERR_VERIFY = ''Script failed an OP_VERIFY operation''"
| "ScriptErrorString SCRIPT_ERR_EQUALVERIFY = ''Script failed an OP_EQUALVERIFY operation''"
| "ScriptErrorString SCRIPT_ERR_CHECKCOLDSTAKEVERIFY = ''Script failed an OP_CHECKCOLDSTAKEVERIFY operation''"
| "ScriptErrorString SCRIPT_ERR_CHECKMULTISIGVERIFY = ''Script failed an OP_CHECKMULTISIGVERIFY operation''"
| "ScriptErrorString SCRIPT_ERR_CHECKSIGVERIFY = ''Script failed an OP_CHECKSIGVERIFY operation''"
| "ScriptErrorString SCRIPT_ERR_NUMEQUALVERIFY = ''Script failed an OP_NUMEQUALVERIFY operation''"
| "ScriptErrorString SCRIPT_ERR_SCRIPT_SIZE = ''Script is too big''"
| "ScriptErrorString SCRIPT_ERR_PUSH_SIZE = ''Push value size limit exceeded''"
| "ScriptErrorString SCRIPT_ERR_OP_COUNT = ''Operation limit exceeded''"
| "ScriptErrorString SCRIPT_ERR_STACK_SIZE = ''Stack size limit exceeded''"
| "ScriptErrorString SCRIPT_ERR_SIG_COUNT = ''Signature count negative or greater than pubkey count''"
| "ScriptErrorString SCRIPT_ERR_PUBKEY_COUNT = ''Pubkey count negative or limit exceeded''"
| "ScriptErrorString SCRIPT_ERR_BAD_OPCODE = ''Opcode missing or not understood''"
| "ScriptErrorString SCRIPT_ERR_DISABLED_OPCODE = ''Attempted to use a disabled opcode''"
| "ScriptErrorString SCRIPT_ERR_INVALID_STACK_OPERATION = ''Operation not valid with the current stack size''"
| "ScriptErrorString SCRIPT_ERR_INVALID_ALTSTACK_OPERATION = ''Operation not valid with the current altstack size''"
| "ScriptErrorString SCRIPT_ERR_OP_RETURN = ''OP_RETURN was encountered''"
| "ScriptErrorString SCRIPT_ERR_UNBALANCED_CONDITIONAL = ''Invalid OP_IF construction''"
| "ScriptErrorString SCRIPT_ERR_NEGATIVE_LOCKTIME = ''Negative locktime''"
| "ScriptErrorString SCRIPT_ERR_UNSATISFIED_LOCKTIME = ''Locktime requirement not satisfied''"
| "ScriptErrorString SCRIPT_ERR_SIG_HASHTYPE = ''Signature hash type missing or not understood''"
| "ScriptErrorString SCRIPT_ERR_SIG_DER = ''Non-canonical DER signature''"
| "ScriptErrorString SCRIPT_ERR_MINIMALDATA = ''Data push larger than necessary''"
| "ScriptErrorString SCRIPT_ERR_SIG_PUSHONLY = ''Only non-push operators allowed in signatures''"
| "ScriptErrorString SCRIPT_ERR_SIG_HIGH_S = ''Non-canonical signature: S value is unnecessarily high''"
| "ScriptErrorString SCRIPT_ERR_SIG_NULLDUMMY = ''Dummy CHECKMULTISIG argument must be zero''"
| "ScriptErrorString SCRIPT_ERR_DISCOURAGE_UPGRADABLE_NOPS = ''NOPx reserved for soft-fork upgrades''"
| "ScriptErrorString SCRIPT_ERR_PUBKEYTYPE = ''Public key is neither compressed or uncompressed''"
| "ScriptErrorString SCRIPT_ERR_UNKNOWN_ERROR = ''unknown error''"
| "ScriptErrorString SCRIPT_ERR_ERROR_COUNT = ''unknown error''"

definition GetScriptError :: "verify_result \<Rightarrow> ScriptError" where
  "GetScriptError r = (case r of VerifyError e \<Rightarrow> e | _ \<Rightarrow> SCRIPT_ERR_OK)"

text \<open>With `pvChecks` the checks are handed over, without it they are run.\<close>

fun check_scripts where
  "check_scripts mk_env vt flags deferred tx i [] checks st ca = Inr ((True, st), checks, ca)"
| "check_scripts mk_env vt flags deferred tx i (txin # rest) checks st ca =
     (let (coin, ca') = AccessCoin vt ca (prevout txin);
          ck = \<lparr>ck_script = scriptPubKey (coin_out coin), ck_amount = nValue (coin_out coin), ck_tx = tx, ck_nIn = i, ck_flags = flags\<rparr>;
          ck2 = ck\<lparr>ck_flags := flags AND NOT STANDARD_NOT_MANDATORY_VERIFY_FLAGS\<rparr>
      in if IsSpent coin then Inl SpentCoin
         else if deferred then check_scripts mk_env vt flags deferred tx (Suc i) rest (checks @ [ck]) st ca'
         else if run_check mk_env ck = VerifyAbort then Inl ScriptAbort
         else if run_check mk_env ck = Verified then check_scripts mk_env vt flags deferred tx (Suc i) rest checks st ca'
         else if flags AND STANDARD_NOT_MANDATORY_VERIFY_FLAGS \<noteq> 0 \<and> run_check mk_env ck2 = VerifyAbort then Inl ScriptAbort
         else if flags AND STANDARD_NOT_MANDATORY_VERIFY_FLAGS \<noteq> 0 \<and> run_check mk_env ck2 = Verified
         then Inr (Invalid REJECT_NONSTANDARD (''non-mandatory-script-verify-flag ('' @ ScriptErrorString (GetScriptError (run_check mk_env ck)) @ '')'') st, checks, ca')
         else Inr (DoS 100 REJECT_INVALID (''mandatory-script-verify-flag-failed ('' @ ScriptErrorString (GetScriptError (run_check mk_env ck)) @ '')'') False st, checks, ca'))"

text \<open>\<open>spendHeight\<close> is the result of `GetSpendHeight`.\<close>

definition CheckInputs where
  "CheckInputs c mk_env vt tx spendHeight fScriptChecks flags deferred st ca =
     (if tx_IsCoinBase tx then Inr ((True, st), [], ca)
      else case CheckTxInputs c vt tx spendHeight st ca of
        Inl e \<Rightarrow> Inl e
      | Inr ((False, st1), ca1) \<Rightarrow> Inr ((False, st1), [], ca1)
      | Inr ((True, st1), ca1) \<Rightarrow>
          if fScriptChecks then check_scripts mk_env vt flags deferred tx 0 (vin tx) [] st1 ca1 else Inr ((True, st1), [], ca1))"

section \<open>What an accepted transaction satisfies\<close>

definition output_total :: "CTransaction \<Rightarrow> int" where
  "output_total tx = (\<Sum>txout \<leftarrow> vout tx. nValue txout)"

definition shielded_in :: "CTransaction \<Rightarrow> int" where
  "shielded_in tx = (if hasSaplingData tx then max 0 (valueBalance (the (sapData tx))) else 0)"

definition shielded_out :: "CTransaction \<Rightarrow> int" where
  "shielded_out tx = (if hasSaplingData tx then max 0 (- valueBalance (the (sapData tx))) else 0)"

definition input_total :: "chainstate \<Rightarrow> CTransaction \<Rightarrow> int" where
  "input_total s tx = (\<Sum>txin \<leftarrow> vin tx. nValue (coin_out (the (cs_utxo s (prevout txin)))))"

text \<open>The money range is small enough for sums of two amounts to stay in 64 bits.\<close>

definition money_fits :: "consensus_params \<Rightarrow> bool" where
  "money_fits c \<longleftrightarrow> 0 \<le> nMaxMoneyOut c \<and> nMaxMoneyOut c < 2 ^ 61"

lemma money_fits_networks: "money_fits CMainParams" "money_fits CTestNetParams"
  by (simp_all add: money_fits_def CMainParams_def CTestNetParams_def COIN_def)

lemma DoS_false [simp]: "fst (DoS l k r b st) = False" "fst (Invalid k r st) = False" "DoS l k r b st \<noteq> (True, st')" "(True, st') \<noteq> DoS l k r b st"
    "Invalid k r st \<noteq> (True, st')"
  by (auto simp: DoS_def Invalid_def Let_def)

lemma int64_wrap_small: "- (2 ^ 63) \<le> n \<Longrightarrow> n < 2 ^ 63 \<Longrightarrow> int64_wrap n = n"
  unfolding int64_wrap_def by (rule sint_word_of_int) simp_all

lemma check_outputs_sound:
  assumes "money_fits c" "0 \<le> acc" "acc \<le> nMaxMoneyOut c" "fst (check_outputs c tx cold outs acc st)"
  shows "(\<forall>txout \<in> set outs. 0 \<le> nValue txout \<and> nValue txout \<le> nMaxMoneyOut c \<and>
      (IsPayToColdStaking (scriptPubKey txout) \<longrightarrow> cold \<and> MIN_COLDSTAKING_AMOUNT \<le> nValue txout)) \<and>
    acc + (\<Sum>txout \<leftarrow> outs. nValue txout) \<le> nMaxMoneyOut c \<and> check_outputs c tx cold outs acc st = (True, st)"
  using assms
proof (induction outs arbitrary: acc)
  case (Cons txout outs)
  have r: "0 \<le> nValue txout" "nValue txout \<le> nMaxMoneyOut c"
    using Cons.prems(4) by (auto simp: Let_def split: if_splits)
  have w: "int64_wrap (acc + nValue txout) = acc + nValue txout"
    using Cons.prems(1-3) r by (intro int64_wrap_small) (simp_all add: money_fits_def)
  have m: "0 \<le> acc + nValue txout" "acc + nValue txout \<le> nMaxMoneyOut c" "fst (check_outputs c tx cold outs (acc + nValue txout) st)"
    and cs: "IsPayToColdStaking (scriptPubKey txout) \<longrightarrow> cold \<and> MIN_COLDSTAKING_AMOUNT \<le> nValue txout"
    using Cons.prems(4) by (auto simp: Let_def w consensus_MoneyRange_def split: if_splits)
  have e: "check_outputs c tx cold (txout # outs) acc st = check_outputs c tx cold outs (acc + nValue txout) st"
    using Cons.prems(4) by (auto simp: Let_def w split: if_splits)
  show ?case using Cons.IH[OF Cons.prems(1) m] r cs unfolding e by (auto simp: add.assoc)
qed simp

lemma duplicate_input_iff: "duplicate_input xs seen \<longleftrightarrow> \<not> (distinct (map prevout xs) \<and> prevout ` set xs \<inter> seen = {})"
  by (induction xs arbitrary: seen) auto

lemma duplicate_nullifier_iff: "duplicate_nullifier ds seen \<longleftrightarrow> \<not> (distinct (map sd_nullifier ds) \<and> sd_nullifier ` set ds \<inter> seen = {})"
  by (induction ds arbitrary: seen) auto

lemma Sapling_CheckTransaction_sound:
  assumes "money_fits c" "Sapling_CheckTransaction c tx act st = ((True, st'), v)"
  shows "st' = st \<and> v = shielded_out tx \<and> shielded_out tx \<le> nMaxMoneyOut c \<and> shielded_in tx \<le> nMaxMoneyOut c \<and>
    (hasSaplingData tx \<longrightarrow> isSaplingVersion tx \<and> act \<and> \<not> tx_IsCoinBase tx \<and> \<not> tx_IsCoinStake tx \<and>
       distinct (map sd_nullifier (vShieldedSpend (the (sapData tx)))))"
proof (cases "hasSaplingData tx")
  case False
  then show ?thesis using assms by (auto simp: Sapling_CheckTransaction_def shielded_out_def shielded_in_def money_fits_def split: if_splits)
next
  case True
  let ?d = "the (sapData tx)"
  have a: "isSaplingVersion tx" "act" "\<not> tx_IsCoinBase tx" "\<not> tx_IsCoinStake tx"
    "CheckTransactionWithoutProofVerification c ?d 0 st = ((True, st'), v)"
    using assms(2) True by (auto simp: Sapling_CheckTransaction_def split: if_splits)
  have b: "valueBalance ?d \<le> nMaxMoneyOut c" "- nMaxMoneyOut c \<le> valueBalance ?d"
    using a(5) by (auto simp: CheckTransactionWithoutProofVerification_def split: if_splits)
  have "int64_wrap (- valueBalance ?d) = - valueBalance ?d"
    using b assms(1) by (intro int64_wrap_small) (simp_all add: money_fits_def)
  then have "st' = st" "v = (if valueBalance ?d < 0 then - valueBalance ?d else 0)" "\<not> duplicate_nullifier (vShieldedSpend ?d) {}"
    using a(5) b by (auto simp: CheckTransactionWithoutProofVerification_def Let_def split: if_splits)
  then show ?thesis using True a b assms(1)
    by (auto simp: shielded_out_def shielded_in_def duplicate_nullifier_iff money_fits_def max_def)
qed

definition accepted_tx :: "consensus_params \<Rightarrow> CTransaction \<Rightarrow> bool \<Rightarrow> bool" where
  "accepted_tx c tx cold \<longleftrightarrow>
     (\<forall>txout \<in> set (vout tx). 0 \<le> nValue txout \<and> (IsPayToColdStaking (scriptPubKey txout) \<longrightarrow> cold \<and> COIN \<le> nValue txout)) \<and>
     shielded_out tx + output_total tx \<le> nMaxMoneyOut c \<and> shielded_in tx \<le> nMaxMoneyOut c \<and>
     distinct (map prevout (vin tx)) \<and>
     (hasSaplingData tx \<longrightarrow> isSaplingVersion tx \<and> \<not> tx_IsCoinBase tx \<and> \<not> tx_IsCoinStake tx \<and>
        distinct (map sd_nullifier (vShieldedSpend (the (sapData tx)))))"

lemma shielded_nonneg: "0 \<le> shielded_out tx" "0 \<le> shielded_in tx"
  by (simp_all add: shielded_out_def shielded_in_def)

lemma CheckTransaction_sound:
  assumes "money_fits c" "fst (CheckTransaction c tx cold act st)"
  shows "accepted_tx c tx cold"
proof -
  obtain st1 v st2 st3 where s: "Sapling_CheckTransaction c tx act st = ((True, st1), v)"
    and o: "check_outputs c tx cold (vout tx) v st2 = (True, st3)" and d: "\<not> duplicate_input (vin tx) {}"
    using assms(2) by (auto simp: CheckTransaction_def split: if_splits prod.splits bool.splits)
  note sap = Sapling_CheckTransaction_sound[OF assms(1) s]
  have o2: "fst (check_outputs c tx cold (vout tx) (shielded_out tx) st2)" using o sap by auto
  show ?thesis
    using check_outputs_sound[OF assms(1) _ _ o2] sap d shielded_nonneg[of tx]
    by (auto simp: accepted_tx_def output_total_def duplicate_input_iff MIN_COLDSTAKING_AMOUNT_def)
qed

lemma GetValueOut_loop_total:
  assumes "\<forall>txout \<in> set outs. 0 \<le> nValue txout" "0 \<le> acc" "acc + (\<Sum>txout \<leftarrow> outs. nValue txout) < 2 ^ 63"
  shows "GetValueOut_loop outs acc = Inr (acc + (\<Sum>txout \<leftarrow> outs. nValue txout))"
  using assms
proof (induction outs arbitrary: acc)
  case (Cons txout outs)
  have n: "0 \<le> (\<Sum>txout \<leftarrow> outs. nValue txout)" using Cons.prems(1) by (intro sum_list_nonneg) auto
  have w: "int64_wrap (acc + nValue txout) = acc + nValue txout"
    using Cons.prems n by (intro int64_wrap_small) auto
  show ?case using Cons.IH[of "acc + nValue txout"] Cons.prems w by (simp add: add.assoc)
qed simp

lemma GetValueOut_total:
  assumes "money_fits c" "accepted_tx c tx cold"
  shows "GetValueOut tx = Inr (output_total tx + shielded_out tx)"
proof -
  have b: "0 \<le> output_total tx" "output_total tx + shielded_out tx \<le> nMaxMoneyOut c"
    using assms(2) by (auto simp: accepted_tx_def output_total_def intro!: sum_list_nonneg)
  have "GetValueOut_loop (vout tx) 0 = Inr (output_total tx)"
    using GetValueOut_loop_total[of "vout tx" 0] assms b shielded_nonneg[of tx] by (simp add: accepted_tx_def output_total_def money_fits_def)
  moreover have "int64_wrap (output_total tx + shielded_out tx) = output_total tx + shielded_out tx"
    using b shielded_nonneg[of tx] assms(1) by (intro int64_wrap_small) (simp_all add: money_fits_def)
  ultimately show ?thesis using assms(2) by (auto simp: GetValueOut_def shielded_out_def accepted_tx_def max_def)
qed

section \<open>Inputs\<close>

definition coin_mature :: "consensus_params \<Rightarrow> int \<Rightarrow> Coin \<Rightarrow> bool" where
  "coin_mature c nSpendHeight coin \<longleftrightarrow> (fCoinBase coin \<or> fCoinStake coin \<longrightarrow> nCoinbaseMaturity c \<le> nSpendHeight - uint (coin_nHeight coin))"

context coins_view
begin

lemma check_input_values_sound:
  assumes "cinv ca" "money_fits c" "0 \<le> acc" "acc \<le> nMaxMoneyOut c"
    and "check_input_values c h vt is acc st ca = Inr ((True, st'), tot, ca')"
  shows "cinv ca' \<and> cabst ca' = cabst ca \<and> st' = st \<and>
    (\<forall>i \<in> set is. \<exists>coin. cs_utxo (cabst ca) (prevout i) = Some coin \<and> coin_mature c h coin \<and> 0 \<le> nValue (coin_out coin)) \<and>
    tot = acc + (\<Sum>i \<leftarrow> is. nValue (coin_out (the (cs_utxo (cabst ca) (prevout i))))) \<and> tot \<le> nMaxMoneyOut c"
  using assms
proof (induction "is" arbitrary: acc ca)
  case (Cons i "is")
  obtain coin ca1 where a: "AccessCoin vt ca (prevout i) = (coin, ca1)" by fastforce
  note ok = AccessCoin_ok[OF Cons.prems(1) a]
  let ?v = "nValue (coin_out coin)"
  have r: "0 \<le> ?v" "?v \<le> nMaxMoneyOut c" and sp: "\<not> IsSpent coin" and mt: "coin_mature c h coin"
    using Cons.prems(5) a by (auto simp: Let_def consensus_MoneyRange_def coin_mature_def split: if_splits)
  have w: "int64_wrap (acc + ?v) = acc + ?v"
    using Cons.prems(2-4) r by (intro int64_wrap_small) (simp_all add: money_fits_def)
  have n: "0 \<le> acc + ?v" "acc + ?v \<le> nMaxMoneyOut c" "check_input_values c h vt is (acc + ?v) st ca1 = Inr ((True, st'), tot, ca')"
    using Cons.prems(5) a by (auto simp: Let_def consensus_MoneyRange_def w split: if_splits)
  have u: "cs_utxo (cabst ca) (prevout i) = Some coin" using ok sp by (simp add: visible_def)
  show ?case using Cons.IH[OF conjunct1[OF ok] Cons.prems(2) n] ok u mt r by (auto simp: add.assoc)
qed simp

lemma CheckTxInputs_sound:
  assumes "cinv ca" "money_fits c" "accepted_tx c tx cold" "CheckTxInputs c vt tx h st ca = Inr ((True, st'), ca')"
  shows "cinv ca' \<and> cabst ca' = cabst ca \<and> st' = st \<and>
    (\<forall>i \<in> set (vin tx). \<exists>coin. cs_utxo (cabst ca) (prevout i) = Some coin \<and> coin_mature c h coin \<and> 0 \<le> nValue (coin_out coin)) \<and>
    (\<not> tx_IsCoinStake tx \<longrightarrow> output_total tx + shielded_out tx \<le> input_total (cabst ca) tx + shielded_in tx)"
proof -
  obtain hv ca1 where h1: "HaveInputs vt ca tx = (hv, ca1)" by fastforce
  obtain sh ca2 where h2: "HaveShieldedRequirements vt ca1 tx = (sh, ca2)" by fastforce
  have c1: "cinv ca1" "cabst ca1 = cabst ca" using HaveInputs_ok[OF assms(1) h1] by simp_all
  have c2: "cinv ca2" "cabst ca2 = cabst ca" using HaveShieldedRequirements_ok[OF c1(1) h2] c1(2) by simp_all
  obtain st1 v ca3 sv where iv: "check_input_values c h vt (vin tx) 0 st ca2 = Inr ((True, st1), v, ca3)"
    and sv: "GetShieldedValueIn tx = Inr sv" and cf: "check_fees c tx (int64_wrap (v + sv)) st1 = Inr (True, st')" and e: "ca' = ca3"
    using assms(4) h1 h2 by (auto simp: CheckTxInputs_def split: if_splits sum.splits prod.splits bool.splits)
  have m: "0 \<le> nMaxMoneyOut c" using assms(2) by (simp add: money_fits_def)
  note ok = check_input_values_sound[OF c2(1) assms(2) order_refl m iv]
  have vin: "v = input_total (cabst ca) tx" "v \<le> nMaxMoneyOut c" using ok c2(2) by (simp_all add: input_total_def)
  have v0: "0 \<le> v"
  proof -
    have "0 \<le> (\<Sum>i \<leftarrow> vin tx. nValue (coin_out (the (cs_utxo (cabst ca2) (prevout i)))))"
      using ok by (intro sum_list_nonneg) auto
    then show ?thesis using ok by simp
  qed
  have svs: "sv = shielded_in tx" using sv by (auto simp: GetShieldedValueIn_def shielded_in_def max_def split: if_splits)
  have "shielded_in tx \<le> nMaxMoneyOut c" using assms(3) by (simp add: accepted_tx_def)
  then have w: "int64_wrap (v + sv) = v + sv"
    using vin(2) v0 shielded_nonneg[of tx] assms(2) svs by (intro int64_wrap_small) (simp_all add: money_fits_def)
  have "st' = st1" "\<not> tx_IsCoinStake tx \<longrightarrow> output_total tx + shielded_out tx \<le> v + sv"
    using cf GetValueOut_total[OF assms(2,3)] by (auto simp: check_fees_def w Let_def split: if_splits)
  then show ?thesis using ok c2(2) e vin(1) svs by auto
qed

end

section \<open>Properties\<close>

text \<open>C6: value is conserved.  A transaction that passes `CheckTransaction` and, against the coins, `CheckTxInputs` spends
distinct coins of the set, each of them mature when it was minted, and unless it is a coinstake its outputs and
what it shields do not exceed its inputs and what it unshields, as whole numbers: no sum of the code wraps.  The check
leaves the chain state as it was and `GetValueOut` cannot throw.\<close>

theorem value_conservation:
  assumes "cache_reach over_limit empty_tree root s ca" "money_fits c"
    and "fst (CheckTransaction c tx cold act st0)"
    and "CheckTxInputs c (db_view over_limit empty_tree (root empty_tree)) tx h st ca = Inr ((True, st'), ca')"
  shows "cache_abst (db_abst root empty_tree) ca' = s \<and> distinct (map prevout (vin tx)) \<and>
    (\<forall>i \<in> set (vin tx). \<exists>coin. cs_utxo s (prevout i) = Some coin \<and> coin_mature c h coin) \<and>
    GetValueOut tx = Inr (output_total tx + shielded_out tx) \<and>
    (\<not> tx_IsCoinStake tx \<longrightarrow> output_total tx + shielded_out tx \<le> input_total s tx + shielded_in tx)"
proof -
  note r = cache_reach_sound[OF assms(1)]
  note a = CheckTransaction_sound[OF assms(2,3)]
  show ?thesis
    using dbv.CheckTxInputs_sound[OF conjunct1[OF r] assms(2) a assms(4)] a GetValueOut_total[OF assms(2) a] r
    by (auto simp: accepted_tx_def)
qed

definition sample_payment :: CTransaction where
  "sample_payment = \<lparr>nVersion = 1, nType = 0, vin = [\<lparr>prevout = sample_out, scriptSig = [], nSequence = SEQUENCE_FINAL\<rparr>],
     vout = [CTxOut_make 3 [OP_1]], nLockTime = 0, sapData = None, extraPayload = None\<rparr>"

definition sample_cache :: "(nat CoinsDB, nat) CCoinsViewCache" where
  "sample_cache = (new_cache sample_db)\<lparr>cacheCoins := [(sample_out, \<lparr>ce_coin = sample_coin, ce_dirty = True, ce_fresh = True\<rparr>)]\<rparr>"

theorem value_conservation_witness:
  "\<exists>ca' s. CheckTxInputs CMainParams (db_view (\<lambda>_. False) 0 (sample_root 0)) sample_payment 10 CValidationState_new sample_cache
      = Inr ((True, CValidationState_new), ca') \<and> output_total sample_payment = 3 \<and> input_total s sample_payment = 5 \<and>
     output_total sample_payment + shielded_out sample_payment \<le> input_total s sample_payment + shielded_in sample_payment"
proof -
  let ?s = "(db_abst sample_root 0 sample_db)\<lparr>cs_utxo := (cs_utxo (db_abst sample_root 0 sample_db))(sample_out := Some sample_coin)\<rparr>"
  have sz: "GetTotalSize sample_payment \<le> 400000"
    by (simp add: GetTotalSize_def SerializeTransaction_def sample_payment_def Serialize_vec_def Serialize_CTxIn_def Serialize_CTxOut_def Serialize_COutPoint_def
        Serialize_uint256_def Serialize_blob_simp WriteCompactSize_def ser_writedata32_def ser_writedata8_def ser_writedata16_def ser_writedata64_def
        Serialize_int16_def Serialize_int64_def isSaplingVersion_def CTxOut_make_def)
  have f: "\<not> hasSaplingData sample_payment" "\<not> isSaplingVersion sample_payment" "\<not> hasExtraPayload sample_payment"
    "\<not> tx_IsCoinBase sample_payment" "\<not> tx_IsCoinStake sample_payment" "\<not> IsShieldedTx sample_payment"
    by (simp_all add: hasSaplingData_def isSaplingVersion_def hasExtraPayload_def tx_IsCoinBase_def tx_IsCoinStake_def IsShieldedTx_def sample_payment_def
        sample_out_def COutPoint_IsNull_def)
  have g: "\<not> CTxOut_IsEmpty (CTxOut_make 3 [OP_1])" "\<not> IsPayToColdStaking [OP_1]" "\<not> IsSpent sample_coin"
    by (simp_all add: CTxOut_IsEmpty_def CTxOut_make_def IsPayToColdStaking_def IsSpent_def sample_coin_def CTxOut_IsNull_def)
  have fl: "vin sample_payment = [\<lparr>prevout = sample_out, scriptSig = [], nSequence = SEQUENCE_FINAL\<rparr>]" "vout sample_payment = [CTxOut_make 3 [OP_1]]"
    "sapData sample_payment = None" "nVersion sample_payment = 1" "nType sample_payment = 0" "nValue (CTxOut_make 3 [OP_1]) = 3" "scriptPubKey (CTxOut_make 3 [OP_1]) = [OP_1]"
    by (simp_all add: sample_payment_def CTxOut_make_def)
  have w: "int64_wrap 3 = 3" "int64_wrap 5 = 5" "int64_wrap 2 = 2" by (simp_all add: int64_wrap_small)
  have m: "nMaxMoneyOut CMainParams = 10000000000000000" by (simp add: CMainParams_def COIN_def)
  have t: "fst (CheckTransaction CMainParams sample_payment True True CValidationState_new)"
    using sz f g by (simp add: CheckTransaction_def Sapling_CheckTransaction_def CheckSpecialTx_def MAX_TX_SIZE_AFTER_SAPLING_def
        fl consensus_MoneyRange_def m w)
  have v: "GetValueOut sample_payment = Inr 3" "GetShieldedValueIn sample_payment = Inr 0"
    using f(1) by (simp_all add: GetValueOut_def GetShieldedValueIn_def fl w)
  have cn: "nValue (coin_out sample_coin) = 5" "\<not> fCoinBase sample_coin" "\<not> fCoinStake sample_coin"
    by (simp_all add: sample_coin_def CTxOut_make_def)
  have mt: "0 \<le> nCoinbaseMaturity CMainParams" by (simp add: CMainParams_def)
  have i: "CheckTxInputs CMainParams (db_view (\<lambda>_. False) 0 (sample_root 0)) sample_payment 10 CValidationState_new sample_cache
      = Inr ((True, CValidationState_new), sample_cache)"
    using f g v by (simp add: CheckTxInputs_def sample_cache_def HaveInputs_def HaveCoin_def FetchCoin_def HaveShieldedRequirements_def
        AccessCoin_def check_fees_def consensus_MoneyRange_def m w fl cn)
  show ?thesis
    using value_conservation[OF sample_reach money_fits_networks(1) t i[unfolded sample_cache_def]] i f(5)
    by (intro exI[of _ sample_cache] exI[of _ ?s]) (auto simp: output_total_def input_total_def fl cn)
qed

end
