(* ===== verification/Standard.thy ===== *)
theory Standard
  imports Compressor Hash
begin

text \<open>
  Standard output scripts (`script/standard.cpp`): recognising them, the destinations they pay to and building them.  The type
  and the solutions are passed in and out as in the code.  A key identifier is 20 bytes, least significant byte first, as
  everywhere in the code.  \<open>None\<close> is a failed assertion.
\<close>

section \<open>Recognising scripts\<close>

datatype txnouttype = TX_NONSTANDARD | TX_PUBKEY | TX_PUBKEYHASH | TX_SCRIPTHASH | TX_MULTISIG | TX_NULL_DATA | TX_COLDSTAKE

definition GetTxnOutputType :: "txnouttype \<Rightarrow> string" where
  "GetTxnOutputType t = (case t of
     TX_NONSTANDARD \<Rightarrow> ''nonstandard'' | TX_PUBKEY \<Rightarrow> ''pubkey'' | TX_PUBKEYHASH \<Rightarrow> ''pubkeyhash'' | TX_SCRIPTHASH \<Rightarrow> ''scripthash''
   | TX_MULTISIG \<Rightarrow> ''multisig'' | TX_COLDSTAKE \<Rightarrow> ''coldstake'' | TX_NULL_DATA \<Rightarrow> ''nulldata'')"

definition MatchPayToPubkey :: "CScript \<Rightarrow> bytes option" where
  "MatchPayToPubkey s =
     (if length s = PUBLIC_KEY_SIZE + 2 \<and> s ! 0 = of_nat PUBLIC_KEY_SIZE \<and> last s = OP_CHECKSIG
      then (let k = take PUBLIC_KEY_SIZE (drop 1 s) in if pubkey_ValidSize k then Some k else None)
      else if length s = COMPRESSED_PUBLIC_KEY_SIZE + 2 \<and> s ! 0 = of_nat COMPRESSED_PUBLIC_KEY_SIZE \<and> last s = OP_CHECKSIG
      then (let k = take COMPRESSED_PUBLIC_KEY_SIZE (drop 1 s) in if pubkey_ValidSize k then Some k else None)
      else None)"

definition MatchPayToPubkeyHash :: "CScript \<Rightarrow> bytes option" where
  "MatchPayToPubkeyHash s =
     (if length s = 25 \<and> s ! 0 = OP_DUP \<and> s ! 1 = OP_HASH160 \<and> s ! 2 = 20 \<and> s ! 23 = OP_EQUALVERIFY \<and> s ! 24 = OP_CHECKSIG
      then Some (take 20 (drop 3 s)) else None)"

definition MatchPayToColdStaking :: "CScript \<Rightarrow> (bytes \<times> bytes) option" where
  "MatchPayToColdStaking s = (if IsPayToColdStaking s then Some (take 20 (drop 6 s), take 20 (drop 28 s)) else None)"

definition IsSmallInteger :: "u8 \<Rightarrow> bool" where
  "IsSmallInteger opcode \<longleftrightarrow> OP_1 \<le> opcode \<and> opcode \<le> OP_16"

function multisig_keys :: "bytes \<Rightarrow> bytes list \<Rightarrow> u8 \<times> bytes list \<times> bytes" where
  "multisig_keys pc pubkeys =
     (let (ok, opcode, dat, pc') = GetOp2 pc in
      if ok \<and> pubkey_ValidSize dat then multisig_keys pc' (pubkeys @ [dat]) else (opcode, pubkeys, pc'))"
  by pat_completeness auto
termination
  by (relation "measure (\<lambda>(pc, _). length pc)") (auto dest: GetOp2_shrinks')

declare multisig_keys.simps [simp del]

definition MatchMultisig :: "CScript \<Rightarrow> (int \<times> bytes list) option" where
  "MatchMultisig s =
     (if length s < 1 \<or> last s \<noteq> OP_CHECKMULTISIG then None
      else let (ok, opcode, dat, pc) = GetOp2 s in
        if \<not> ok \<or> \<not> IsSmallInteger opcode then None
        else case DecodeOP_N opcode of
          None \<Rightarrow> None
        | Some required \<Rightarrow>
            let (opcode', pubkeys, pc') = multisig_keys pc [] in
            if \<not> IsSmallInteger opcode' then None
            else case DecodeOP_N opcode' of
              None \<Rightarrow> None
            | Some keys \<Rightarrow>
                if int (length pubkeys) \<noteq> keys \<or> keys < required then None
                else if length pc' = 1 then Some (required, pubkeys) else None)"

definition Solver :: "CScript \<Rightarrow> txnouttype \<Rightarrow> bytes list \<Rightarrow> bool \<times> txnouttype \<times> bytes list" where
  "Solver s typeRet vSolutionsRet =
     (if s = [] then (False, typeRet, vSolutionsRet)
      else if IsPayToScriptHash s then (True, TX_SCRIPTHASH, [take 20 (drop 2 s)])
      else if 1 \<le> length s \<and> s ! 0 = OP_RETURN \<and> IsPushOnly (drop 1 s) then (True, TX_NULL_DATA, [])
      else case MatchPayToPubkey s of
        Some k \<Rightarrow> (True, TX_PUBKEY, [k])
      | None \<Rightarrow>
         (case MatchPayToPubkeyHash s of
            Some h \<Rightarrow> (True, TX_PUBKEYHASH, [h])
          | None \<Rightarrow>
             (case MatchPayToColdStaking s of
                Some (staker, owner) \<Rightarrow> (True, TX_COLDSTAKE, [staker, owner])
              | None \<Rightarrow>
                 (case MatchMultisig s of
                    Some (required, keys) \<Rightarrow> (True, TX_MULTISIG, [[word_of_int required]] @ keys @ [[of_nat (length keys)]])
                  | None \<Rightarrow> (False, TX_NONSTANDARD, [])))))"

definition ScriptSigArgsExpected :: "txnouttype \<Rightarrow> bytes list \<Rightarrow> int" where
  "ScriptSigArgsExpected t vSolutions = (case t of
     TX_NONSTANDARD \<Rightarrow> - 1 | TX_NULL_DATA \<Rightarrow> - 1 | TX_PUBKEY \<Rightarrow> 1 | TX_PUBKEYHASH \<Rightarrow> 2 | TX_COLDSTAKE \<Rightarrow> 3
   | TX_MULTISIG \<Rightarrow> (if length vSolutions < 1 \<or> length (vSolutions ! 0) < 1 then - 1 else uint (vSolutions ! 0 ! 0) + 1)
   | TX_SCRIPTHASH \<Rightarrow> 1)"

section \<open>Destinations\<close>

datatype CTxDestination = CNoDestination | KeyDestination u160 | ScriptDestination u160

definition IsValidDestination :: "CTxDestination \<Rightarrow> bool" where
  "IsValidDestination dest \<longleftrightarrow> dest \<noteq> CNoDestination"

definition pubkey_GetID :: "bytes \<Rightarrow> bytes \<Rightarrow> u160" where
  "pubkey_GetID mem k = Hash160 mem (take (pubkey_size k) k)"

definition ExtractDestination :: "bytes \<Rightarrow> CScript \<Rightarrow> bool \<Rightarrow> CTxDestination option" where
  "ExtractDestination mem s fColdStake =
     (case Solver s TX_NONSTANDARD [] of
        (False, _, _) \<Rightarrow> None
      | (True, whichType, vSolutions) \<Rightarrow>
         (case whichType of
            TX_PUBKEY \<Rightarrow> (let k = pubkey_Set (vSolutions ! 0) in if pubkey_IsValid k then Some (KeyDestination (pubkey_GetID mem k)) else None)
          | TX_PUBKEYHASH \<Rightarrow> Some (KeyDestination (le_word (vSolutions ! 0)))
          | TX_SCRIPTHASH \<Rightarrow> Some (ScriptDestination (le_word (vSolutions ! 0)))
          | TX_COLDSTAKE \<Rightarrow> Some (KeyDestination (le_word (vSolutions ! (if fColdStake then 0 else 1))))
          | _ \<Rightarrow> None))"

definition ExtractDestinations :: "bytes \<Rightarrow> CScript \<Rightarrow> (txnouttype \<times> CTxDestination list \<times> int) option" where
  "ExtractDestinations mem s =
     (case Solver s TX_NONSTANDARD [] of
        (False, _, _) \<Rightarrow> None
      | (True, typeRet, vSolutions) \<Rightarrow>
          if typeRet = TX_NULL_DATA then None
          else if typeRet = TX_MULTISIG then
            (let keys = filter pubkey_IsValid (map pubkey_Set (butlast (tl vSolutions))) in
             if keys = [] then None
             else Some (typeRet, map (\<lambda>k. KeyDestination (pubkey_GetID mem k)) keys, uint (hd vSolutions ! 0)))
          else if typeRet = TX_COLDSTAKE then
            (if length vSolutions < 2 then None
             else Some (typeRet, [KeyDestination (le_word (vSolutions ! 0)), KeyDestination (le_word (vSolutions ! 1))], 2))
          else map_option (\<lambda>d. (typeRet, [d], 1)) (ExtractDestination mem s False))"

section \<open>Building scripts\<close>

definition GetScriptForDestination :: "CTxDestination \<Rightarrow> CScript" where
  "GetScriptForDestination dest = (case dest of
     CNoDestination \<Rightarrow> []
   | KeyDestination keyID \<Rightarrow> push_opcode (push_opcode (push_data (push_opcode (push_opcode [] OP_DUP) OP_HASH160) (le_bytes 20 keyID)) OP_EQUALVERIFY) OP_CHECKSIG
   | ScriptDestination scriptID \<Rightarrow> push_opcode (push_data (push_opcode [] OP_HASH160) (le_bytes 20 scriptID)) OP_EQUAL)"

definition GetScriptForRawPubKey :: "bytes \<Rightarrow> CScript" where
  "GetScriptForRawPubKey k = push_opcode (push_data [] (take (pubkey_size k) k)) OP_CHECKSIG"

definition GetScriptForStakeDelegation :: "u160 \<Rightarrow> u160 \<Rightarrow> CScript" where
  "GetScriptForStakeDelegation stakingKey spendingKey =
     push_opcode (push_opcode (push_opcode (push_data (push_opcode (push_data
       (foldl push_opcode [] [OP_DUP, OP_HASH160, OP_ROT, OP_IF, OP_CHECKCOLDSTAKEVERIFY]) (le_bytes 20 stakingKey)) OP_ELSE)
       (le_bytes 20 spendingKey)) OP_ENDIF) OP_EQUALVERIFY) OP_CHECKSIG"

definition GetScriptForMultisig :: "int \<Rightarrow> bytes list \<Rightarrow> CScript option" where
  "GetScriptForMultisig nRequired keys =
     Option.bind (EncodeOP_N nRequired) (\<lambda>m.
     Option.bind (EncodeOP_N (int (length keys))) (\<lambda>n.
       Some (push_opcode (push_opcode (foldl (\<lambda>s k. push_data s (take (pubkey_size k) k)) (push_opcode [] m) keys) n) OP_CHECKMULTISIG)))"

definition GetScriptForOpReturn :: "u256 \<Rightarrow> CScript" where
  "GetScriptForOpReturn message = push_data (push_opcode [] OP_RETURN) (le_bytes 32 message)"

section \<open>What is built is recognised\<close>

lemma le_word_le_bytes20: "le_word (le_bytes 20 w) = (w :: u160)"
  by (rule le_word_le_bytes_id) simp

lemma push_small: "length b < 76 \<Longrightarrow> push_data s b = s @ [of_nat (length b)] @ b"
  by (simp add: push_data_def)

lemma Solver_key: "Solver (GetScriptForDestination (KeyDestination i)) t v = (True, TX_PUBKEYHASH, [le_bytes 20 i])"
proof -
  have e: "GetScriptForDestination (KeyDestination i) = [OP_DUP, OP_HASH160, 20] @ le_bytes 20 i @ [OP_EQUALVERIFY, OP_CHECKSIG]"
    by (simp add: GetScriptForDestination_def push_opcode_def push_small)
  show ?thesis unfolding e
    by (simp add: Solver_def IsPayToScriptHash_def MatchPayToPubkey_def MatchPayToPubkeyHash_def PUBLIC_KEY_SIZE_def COMPRESSED_PUBLIC_KEY_SIZE_def nth_append nth_Cons')
qed

lemma Solver_script: "Solver (GetScriptForDestination (ScriptDestination i)) t v = (True, TX_SCRIPTHASH, [le_bytes 20 i])"
proof -
  have e: "GetScriptForDestination (ScriptDestination i) = [OP_HASH160, 20] @ le_bytes 20 i @ [OP_EQUAL]"
    by (simp add: GetScriptForDestination_def push_opcode_def push_small)
  show ?thesis unfolding e by (simp add: Solver_def IsPayToScriptHash_def nth_append nth_Cons')
qed

lemma Solver_coldstake: "Solver (GetScriptForStakeDelegation i j) t v = (True, TX_COLDSTAKE, [le_bytes 20 i, le_bytes 20 j])"
proof -
  have e: "GetScriptForStakeDelegation i j =
      [OP_DUP, OP_HASH160, OP_ROT, OP_IF, OP_CHECKCOLDSTAKEVERIFY, 20] @ le_bytes 20 i @ [OP_ELSE, 20] @ le_bytes 20 j @ [OP_ENDIF, OP_EQUALVERIFY, OP_CHECKSIG]"
    by (simp add: GetScriptForStakeDelegation_def push_opcode_def push_small)
  show ?thesis unfolding e
    by (simp add: Solver_def IsPayToScriptHash_def MatchPayToPubkey_def MatchPayToPubkeyHash_def MatchPayToColdStaking_def IsPayToColdStaking_def
        PUBLIC_KEY_SIZE_def COMPRESSED_PUBLIC_KEY_SIZE_def nth_append nth_Cons')
qed

lemma valid_key_length: "pubkey_ValidSize k \<Longrightarrow> length k = 33 \<or> length k = 65"
  by (auto simp: pubkey_ValidSize_def pubkey_GetLen_def PUBLIC_KEY_SIZE_def COMPRESSED_PUBLIC_KEY_SIZE_def split: if_splits)

lemma valid_key_take: "pubkey_ValidSize k \<Longrightarrow> take (pubkey_size k) k = k"
  by (simp add: pubkey_ValidSize_def pubkey_size_def)

lemma Solver_pubkey:
  assumes "pubkey_ValidSize k"
  shows "Solver (GetScriptForRawPubKey k) t v = (True, TX_PUBKEY, [k])"
proof -
  have e: "GetScriptForRawPubKey k = of_nat (length k) # k @ [OP_CHECKSIG]"
    using valid_key_length[OF assms] by (auto simp: GetScriptForRawPubKey_def push_opcode_def push_small valid_key_take[OF assms])
  show ?thesis unfolding e using valid_key_length[OF assms] assms
    by (auto simp: Solver_def IsPayToScriptHash_def MatchPayToPubkey_def PUBLIC_KEY_SIZE_def COMPRESSED_PUBLIC_KEY_SIZE_def)
qed

lemma multisig_keys_pushes:
  assumes "list_all pubkey_ValidSize keys" "IsSmallInteger n"
  shows "multisig_keys (concat (map (push_data []) keys) @ n # rest) acc = (n, acc @ keys, rest)"
  using assms(1)
proof (induction keys arbitrary: acc)
  case Nil
  have "\<not> n \<le> OP_PUSHDATA4" using assms(2) by (auto simp: IsSmallInteger_def word_le_nat_alt)
  then show ?case by (subst multisig_keys.simps) (simp add: GetOp2_def pubkey_ValidSize_def)
next
  case (Cons k keys)
  have len: "length k < 2 ^ 32" using valid_key_length[of k] Cons.prems by auto
  show ?case using Cons
    by (subst multisig_keys.simps) (simp add: GetOp2_push_data[OF len, of "concat (map (push_data []) keys) @ n # rest"])
qed

lemma EncodeOP_N_small:
  assumes "1 \<le> k" "k \<le> 16"
  shows "\<exists>n. EncodeOP_N k = Some n \<and> IsSmallInteger n \<and> DecodeOP_N n = Some k"
proof -
  define n where "n = (word_of_int (int (unat OP_1) + k - 1) :: u8)"
  have u: "uint n = 80 + k" unfolding n_def uint_word_of_int using assms by simp
  have un: "int (unat n) = 80 + k" using u unfolding uint_nat .
  have b: "OP_1 \<le> n" "n \<le> OP_16" unfolding word_le_def u using assms by simp_all
  moreover have "n \<noteq> OP_0" using u assms by auto
  ultimately have "DecodeOP_N n = Some k" unfolding DecodeOP_N_def un by simp
  moreover have "EncodeOP_N k = Some n" using assms by (simp add: EncodeOP_N_def n_def)
  ultimately show ?thesis using b by (auto simp: IsSmallInteger_def)
qed

lemma push_data_foldl: "foldl (\<lambda>s k. push_data s (f k)) s keys = s @ concat (map (\<lambda>k. push_data [] (f k)) keys)"
proof (induction keys arbitrary: s)
  case (Cons k keys)
  have "push_data s (f k) = s @ push_data [] (f k)" by (rule push_data_append)
  then show ?case using Cons.IH[of "push_data s (f k)"] by simp
qed simp

lemma Solver_multisig:
  assumes "1 \<le> m" "m \<le> int (length keys)" "length keys \<le> 16" "list_all pubkey_ValidSize keys"
  shows "\<exists>s. GetScriptForMultisig m keys = Some s \<and>
    Solver s t v = (True, TX_MULTISIG, [[word_of_int m]] @ keys @ [[of_nat (length keys)]])"
proof -
  obtain a where a: "EncodeOP_N m = Some a" "IsSmallInteger a" "DecodeOP_N a = Some m"
    using EncodeOP_N_small[of m] assms by auto
  obtain b where b: "EncodeOP_N (int (length keys)) = Some b" "IsSmallInteger b" "DecodeOP_N b = Some (int (length keys))"
    using EncodeOP_N_small[of "int (length keys)"] assms by auto
  have mp: "map (\<lambda>k. push_data [] (take (pubkey_size k) k)) keys = map (push_data []) keys"
    using assms(4) by (auto simp: list_all_iff valid_key_take)
  have s: "GetScriptForMultisig m keys = Some (a # concat (map (push_data []) keys) @ [b, OP_CHECKMULTISIG])"
    unfolding GetScriptForMultisig_def push_data_foldl mp by (simp add: a b push_opcode_def)
  let ?s = "a # concat (map (push_data []) keys) @ [b, OP_CHECKMULTISIG]"
  have a0: "\<not> a \<le> OP_PUSHDATA4" "a \<noteq> OP_HASH160" "a \<noteq> OP_RETURN" "a \<noteq> OP_DUP" using a(2) by (auto simp: IsSmallInteger_def word_le_nat_alt)
  have g: "GetOp2 ?s = (True, a, [], concat (map (push_data []) keys) @ [b, OP_CHECKMULTISIG])" using a0(1) by (simp add: GetOp2_def)
  have last: "last ?s = OP_CHECKMULTISIG" by simp
  have cs: "\<not> IsPayToColdStaking ?s"
  proof
    assume "IsPayToColdStaking ?s"
    then have "length ?s = 51" "?s ! 50 = OP_CHECKSIG" by (simp_all add: IsPayToColdStaking_def del: nth_Cons_numeral)
    moreover have "last ?s = ?s ! (length ?s - 1)" by (rule last_conv_nth) simp
    ultimately show False using last by simp
  qed
  have "MatchMultisig ?s = Some (m, keys)"
    unfolding MatchMultisig_def g last using a b assms multisig_keys_pushes[OF assms(4) b(2), of "[OP_CHECKMULTISIG]" "[]"] by simp
  then have "Solver ?s t v = (True, TX_MULTISIG, [[word_of_int m]] @ keys @ [[of_nat (length keys)]])"
    using a0 cs last by (simp add: Solver_def IsPayToScriptHash_def MatchPayToPubkey_def MatchPayToPubkeyHash_def MatchPayToColdStaking_def)
  then show ?thesis using s by blast
qed

text \<open>C33: standard scripts.  Every script the code builds is recognised for what it is: the destination of a key or script
hash is extracted again, a delegation yields the staking and the spending key, a raw key itself, and an m-of-n script for
1 \<open>\<le>\<close> m \<open>\<le>\<close> n \<open>\<le>\<close> 16 its threshold and its keys in order.\<close>

theorem standard_scripts:
  "(\<forall>d. IsValidDestination d \<longrightarrow> ExtractDestination mem (GetScriptForDestination d) fCold = Some d) \<and>
   (\<forall>i j. ExtractDestinations mem (GetScriptForStakeDelegation i j) = Some (TX_COLDSTAKE, [KeyDestination i, KeyDestination j], 2)) \<and>
   (\<forall>k. pubkey_ValidSize k \<longrightarrow> ExtractDestination mem (GetScriptForRawPubKey k) fCold = Some (KeyDestination (pubkey_GetID mem k))) \<and>
   (\<forall>m keys. 1 \<le> m \<and> m \<le> int (length keys) \<and> length keys \<le> 16 \<and> list_all pubkey_ValidSize keys \<longrightarrow>
      (\<exists>s. GetScriptForMultisig m keys = Some s \<and>
         ExtractDestinations mem s = Some (TX_MULTISIG, map (\<lambda>k. KeyDestination (pubkey_GetID mem k)) keys, m)))"
proof (intro conjI allI impI)
  fix d assume "IsValidDestination d"
  then show "ExtractDestination mem (GetScriptForDestination d) fCold = Some d"
    by (cases d) (simp_all add: IsValidDestination_def ExtractDestination_def Solver_key Solver_script le_word_le_bytes20)
next
  fix i j show "ExtractDestinations mem (GetScriptForStakeDelegation i j) = Some (TX_COLDSTAKE, [KeyDestination i, KeyDestination j], 2)"
    by (simp add: ExtractDestinations_def Solver_coldstake le_word_le_bytes20)
next
  fix k assume k: "pubkey_ValidSize k"
  then have "pubkey_Set k = k" "pubkey_IsValid k"
    using valid_key_length[OF k] by (auto simp: pubkey_Set_def pubkey_ValidSize_def pubkey_IsValid_def pubkey_size_def)
  then show "ExtractDestination mem (GetScriptForRawPubKey k) fCold = Some (KeyDestination (pubkey_GetID mem k))"
    by (simp add: ExtractDestination_def Solver_pubkey[OF k])
next
  fix m keys assume a: "1 \<le> m \<and> m \<le> int (length keys) \<and> length keys \<le> 16 \<and> list_all pubkey_ValidSize keys"
  then obtain s where s: "GetScriptForMultisig m keys = Some s" "Solver s TX_NONSTANDARD [] = (True, TX_MULTISIG, [[word_of_int m]] @ keys @ [[of_nat (length keys)]])"
    using Solver_multisig[of m keys TX_NONSTANDARD "[]"] by blast
  have k: "pubkey_Set k = k" "pubkey_IsValid k" if "k \<in> set keys" for k
    using a that by (auto simp: list_all_iff pubkey_Set_def pubkey_ValidSize_def pubkey_IsValid_def pubkey_size_def)
  have "map pubkey_Set keys = keys" "filter pubkey_IsValid keys = keys" using k by (auto intro: map_idI filter_True)
  moreover have "keys \<noteq> []" "uint (word_of_int m :: u8) = m" using a by (auto simp: uint_word_of_int)
  ultimately have "ExtractDestinations mem s = Some (TX_MULTISIG, map (\<lambda>k. KeyDestination (pubkey_GetID mem k)) keys, m)"
    by (simp add: ExtractDestinations_def s(2) butlast_append)
  then show "\<exists>s. GetScriptForMultisig m keys = Some s \<and> ExtractDestinations mem s = Some (TX_MULTISIG, map (\<lambda>k. KeyDestination (pubkey_GetID mem k)) keys, m)"
    using s(1) by blast
qed

theorem standard_scripts_witness:
  "\<exists>s. GetScriptForMultisig 1 [2 # replicate 32 7, 3 # replicate 32 9] = Some s \<and>
     ExtractDestinations [] s = Some (TX_MULTISIG, [KeyDestination (pubkey_GetID [] (2 # replicate 32 7)), KeyDestination (pubkey_GetID [] (3 # replicate 32 9))], 1)"
proof -
  have "list_all pubkey_ValidSize [2 # replicate 32 7, 3 # replicate 32 9]"
    by (simp add: pubkey_ValidSize_def pubkey_GetLen_def COMPRESSED_PUBLIC_KEY_SIZE_def)
  then show ?thesis
    using standard_scripts[of "[]" False, THEN conjunct2, THEN conjunct2, THEN conjunct2, rule_format, of 1 "[2 # replicate 32 7, 3 # replicate 32 9]"] by simp
qed

end
