(* ===== verification/Spec2Isabelle.thy ===== *)
theory Spec2Isabelle
  imports CoinsDB SigHash BlockIndex Merkle Undo TxVerify Standard
begin

text \<open>
  A verification development for the PASSION node (\<open>src/src\<close>).
\<close>

end
